(* ===== verification/Prelude.thy ===== *)
theory Prelude
  imports Main "HOL-Library.Word" "HOL-Library.Char_ord" "HOL-Library.List_Lexorder"
begin

text \<open>
  What every component shares.

  \<^item> Exceptions. A Python call that may raise returns \<open>exc + 'a\<close>; \<open>Inl\<close> holds the exception's
    class and its message. A method that may raise after it has changed its object returns a pair
    of such a result and the new state, so the state an exception leaves behind is visible.
  \<^item> Runs. A component is driven by a list of operations; \<open>run_state\<close> and \<open>run_outs\<close> are the final
    state and the results, each operation being tried even after an earlier one has raised, as a
    caller that catches the exception would.
  \<^item> Two interfaces as locales: \<open>preserves\<close> (an invariant kept by every operation) and
    \<open>fail_stop\<close> (once an object has latched a failure, every operation raises and it stays latched),
    with \<open>fail_stop_strict\<close> for the objects that latch on every exception.
\<close>

section \<open>Exceptions and results\<close>

text \<open>The exception classes the modelled sources raise or catch.\<close>

datatype exn_class =
    ValueError | TypeError | KeyError | IndexError | AttributeError | OverflowError
  | ZeroDivisionError | OSError | FileNotFoundError | RuntimeError | StructError
  | FeedbackError | QueryFailure | MotionRejected | FusionError | ClockAdapterError
  | GraphDeliveryError | ArchiveError | ArchiveCloseTimeout | MapError | FileExistsError
  | StorageError | SupervisorError | KeyboardInterrupt | SystemExit
  | PermissionError | ProcessLookupError | TimeoutExpired

datatype exc = Exc (exn_of: exn_class) (msg_of: string)

text \<open>\<open>caught_by c d\<close>: an \<open>except d\<close> clause catches an exception of class \<open>c\<close>.\<close>

fun superclass :: "exn_class \<Rightarrow> exn_class option" where
  "superclass FeedbackError = Some ValueError"
| "superclass QueryFailure = Some FeedbackError"
| "superclass MotionRejected = Some FeedbackError"
| "superclass FusionError = Some ValueError"
| "superclass ClockAdapterError = Some ValueError"
| "superclass GraphDeliveryError = Some ValueError"
| "superclass ArchiveError = Some RuntimeError"
| "superclass ArchiveCloseTimeout = Some ArchiveError"
| "superclass FileNotFoundError = Some OSError"
| "superclass FileExistsError = Some OSError"
| "superclass PermissionError = Some OSError"
| "superclass ProcessLookupError = Some OSError"
| "superclass _ = None"

definition caught_by :: "exn_class \<Rightarrow> exn_class \<Rightarrow> bool" where
  "caught_by c d \<longleftrightarrow> c = d \<or> (case superclass c of None \<Rightarrow> False
     | Some p \<Rightarrow> p = d \<or> (case superclass p of None \<Rightarrow> False
        | Some q \<Rightarrow> q = d))"

abbreviation raise :: "exn_class \<Rightarrow> string \<Rightarrow> exc + 'a" where
  "raise c m \<equiv> Inl (Exc c m)"

abbreviation is_ok :: "'e + 'a \<Rightarrow> bool" where
  "is_ok r \<equiv> \<not> isl r"

text \<open>Sequencing of calls that may raise, and the same over a list from the left.\<close>

definition bindr :: "exc + 'a \<Rightarrow> ('a \<Rightarrow> exc + 'b) \<Rightarrow> exc + 'b" where
  "bindr r f = (case r of Inl e \<Rightarrow> Inl e | Inr x \<Rightarrow> f x)"

fun mapr :: "('a \<Rightarrow> exc + 'b) \<Rightarrow> 'a list \<Rightarrow> exc + 'b list" where
  "mapr f [] = Inr []"
| "mapr f (x # xs) = bindr (f x) (\<lambda>y. bindr (mapr f xs) (\<lambda>ys. Inr (y # ys)))"

text \<open>A statement sequence of guards: the first one that raises decides.\<close>

fun all_pass :: "(exc + unit) list \<Rightarrow> exc + unit" where
  "all_pass [] = Inr ()"
| "all_pass (c # cs) = bindr c (\<lambda>_. all_pass cs)"

definition guard :: "bool \<Rightarrow> exn_class \<Rightarrow> string \<Rightarrow> exc + unit" where
  "guard bad c m = (if bad then raise c m else Inr ())"

named_theorems result_simps \<open>facts about results, for inversion of successful calls\<close>

lemma bindr_Inl [simp]: "bindr (Inl e) f = Inl e"
  by (simp add: bindr_def)

lemma bindr_Inr [simp]: "bindr (Inr x) f = f x"
  by (simp add: bindr_def)

lemma bindr_eq_Inr [result_simps]: "bindr r f = Inr y \<longleftrightarrow> (\<exists>x. r = Inr x \<and> f x = Inr y)"
  by (cases r) simp_all

lemma bindr_eq_Inl [result_simps]:
  "bindr r f = Inl e \<longleftrightarrow> r = Inl e \<or> (\<exists>x. r = Inr x \<and> f x = Inl e)"
  by (cases r) simp_all

lemma guard_eq_Inr [simp]: "guard bad c m = Inr u \<longleftrightarrow> \<not> bad"
  by (simp add: guard_def)

lemma guard_False [simp]: "guard False c m = Inr ()"
  by (simp add: guard_def)

lemma guard_True [simp]: "guard True c m = raise c m"
  by (simp add: guard_def)

lemma if_raise: "(if c then raise e m else x) = Inr y \<longleftrightarrow> \<not> c \<and> x = Inr y"
  by simp

lemma all_pass_eq_Inr [result_simps]:
  "all_pass cs = Inr u \<longleftrightarrow> (\<forall>c \<in> set cs. c = Inr ())"
  by (induction cs) (auto simp: result_simps)

lemma mapr_length: "mapr f xs = Inr ys \<Longrightarrow> length ys = length xs"
  by (induction xs arbitrary: ys) (auto simp: result_simps)

lemma mapr_Inr_iff:
  "mapr f xs = Inr ys \<longleftrightarrow> length ys = length xs \<and> (\<forall>i < length xs. f (xs ! i) = Inr (ys ! i))"
proof (induction xs arbitrary: ys)
  case Nil
  then show ?case by auto
next
  case (Cons x xs)
  show ?case
  proof (cases ys)
    case Nil
    then show ?thesis by (auto simp: result_simps)
  next
    case (Cons y ys')
    have "mapr f (x # xs) = Inr (y # ys') \<longleftrightarrow> f x = Inr y \<and> mapr f xs = Inr ys'"
      by (auto simp: result_simps)
    then show ?thesis
      by (auto simp: Cons Cons.IH All_less_Suc2)
  qed
qed

section \<open>Runs of a component\<close>

fun run_state :: "('e \<Rightarrow> 's \<Rightarrow> (exc + 'o) \<times> 's) \<Rightarrow> 'e list \<Rightarrow> 's \<Rightarrow> 's" where
  "run_state step [] s = s"
| "run_state step (e # es) s = run_state step es (snd (step e s))"

fun run_outs :: "('e \<Rightarrow> 's \<Rightarrow> (exc + 'o) \<times> 's) \<Rightarrow> 'e list \<Rightarrow> 's \<Rightarrow> (exc + 'o) list" where
  "run_outs step [] s = []"
| "run_outs step (e # es) s = fst (step e s) # run_outs step es (snd (step e s))"

lemma run_state_append: "run_state step (xs @ ys) s = run_state step ys (run_state step xs s)"
  by (induction xs arbitrary: s) simp_all

lemma run_outs_append:
  "run_outs step (xs @ ys) s = run_outs step xs s @ run_outs step ys (run_state step xs s)"
  by (induction xs arbitrary: s) simp_all

lemma run_outs_length [simp]: "length (run_outs step es s) = length es"
  by (induction es arbitrary: s) simp_all

subsection \<open>Interface: an invariant that every operation keeps\<close>

locale preserves =
  fixes step :: "'e \<Rightarrow> 's \<Rightarrow> (exc + 'o) \<times> 's"
    and inv :: "'s \<Rightarrow> bool"
  assumes step_keeps: "inv s \<Longrightarrow> inv (snd (step e s))"
begin

lemma run_keeps: "inv s \<Longrightarrow> inv (run_state step es s)"
  by (induction es arbitrary: s) (simp_all add: step_keeps)

end

subsection \<open>Interface: fail-stop objects\<close>

locale fail_stop =
  fixes step :: "'e \<Rightarrow> 's \<Rightarrow> (exc + 'o) \<times> 's"
    and failed :: "'s \<Rightarrow> bool"
  assumes failed_raises: "failed s \<Longrightarrow> isl (fst (step e s))"
    and failed_stays: "failed s \<Longrightarrow> failed (snd (step e s))"
begin

lemma run_failed_stays: "failed s \<Longrightarrow> failed (run_state step es s)"
  by (induction es arbitrary: s) (simp_all add: failed_stays)

lemma run_failed_raises: "failed s \<Longrightarrow> \<forall>r \<in> set (run_outs step es s). isl r"
proof (induction es arbitrary: s)
  case Nil
  then show ?case by simp
next
  case (Cons e es)
  from Cons.IH [OF failed_stays [OF Cons.prems]] failed_raises [OF Cons.prems]
  show ?case by auto
qed

lemma ok_was_not_failed: "is_ok (fst (step e s)) \<Longrightarrow> \<not> failed s"
  using failed_raises by blast

end

text \<open>An object that latches on every exception: successes, then only failures.\<close>

locale fail_stop_strict = fail_stop +
  assumes raise_latches: "isl (fst (step e s)) \<Longrightarrow> failed (snd (step e s))"
begin

lemma first_failure_is_final:
  "isl (run_outs step es s ! i) \<Longrightarrow> i \<le> j \<Longrightarrow> j < length es \<Longrightarrow> isl (run_outs step es s ! j)"
proof (induction es arbitrary: s i j)
  case Nil
  then show ?case by simp
next
  case (Cons e es)
  show ?case
  proof (cases i)
    case 0
    with Cons.prems have "failed (snd (step e s))"
      by (simp add: raise_latches)
    then have all: "\<forall>r \<in> set (run_outs step es (snd (step e s))). isl r"
      by (rule run_failed_raises)
    show ?thesis
      using Cons.prems 0 all by (cases j) (simp_all add: nth_mem)
  next
    case (Suc i')
    with Cons.prems obtain j' where "j = Suc j'" "i' \<le> j'"
      by (cases j) auto
    with Cons.prems Suc Cons.IH [of "snd (step e s)" i' j'] show ?thesis
      by simp
  qed
qed

lemma run_ok_iff_not_failed:
  assumes "\<not> failed s" and ok_keeps: "\<And>e s. \<not> failed s \<Longrightarrow> is_ok (fst (step e s)) \<Longrightarrow> \<not> failed (snd (step e s))"
  shows "\<not> failed (run_state step es s) \<longleftrightarrow> (\<forall>r \<in> set (run_outs step es s). is_ok r)"
  using assms(1)
proof (induction es arbitrary: s)
  case Nil
  then show ?case by simp
next
  case (Cons e es)
  show ?case
  proof (cases "isl (fst (step e s))")
    case True
    then show ?thesis
      using run_failed_stays raise_latches by simp
  next
    case False
    with Cons.prems have "\<not> failed (snd (step e s))"
      by (intro ok_keeps)
    with False show ?thesis
      using Cons.IH by simp
  qed
qed

end

section \<open>Statements of methods that may raise\<close>

text \<open>\<open>andthen\<close> goes on with the state when a call returned, \<open>bindm\<close> with its value too; \<open>finally_do\<close> is \<open>finally\<close>: its own exception wins;
  \<open>attempt\<close> is a call that the outside world lets fail or that changes the state.\<close>

definition andthen :: "(exc + 'a) \<times> 's \<Rightarrow> ('s \<Rightarrow> (exc + 'b) \<times> 's) \<Rightarrow> (exc + 'b) \<times> 's" where
  "andthen r f = (case r of (Inl e, s) \<Rightarrow> (Inl e, s) | (Inr _, s) \<Rightarrow> f s)"

definition finally_do :: "(exc + 'a) \<times> 's \<Rightarrow> ('s \<Rightarrow> (exc + unit) \<times> 's) \<Rightarrow> (exc + 'a) \<times> 's" where
  "finally_do r f = (case r of (q, s) \<Rightarrow> (case f s of (Inl e, s') \<Rightarrow> (Inl e, s') | (Inr _, s') \<Rightarrow> (q, s')))"

definition attempt :: "exc option \<Rightarrow> ('s \<Rightarrow> 's) \<Rightarrow> 's \<Rightarrow> (exc + unit) \<times> 's" where
  "attempt e f s = (case e of Some e \<Rightarrow> (Inl e, s) | None \<Rightarrow> (Inr (), f s))"

definition bindm :: "(exc + 'a) \<times> 's \<Rightarrow> ('a \<Rightarrow> 's \<Rightarrow> (exc + 'b) \<times> 's) \<Rightarrow> (exc + 'b) \<times> 's" where
  "bindm r f = (case r of (Inl e, s) \<Rightarrow> (Inl e, s) | (Inr x, s) \<Rightarrow> f x s)"

lemma bindm_simps [simp]: "bindm (Inl e, s) f = (Inl e, s)" "bindm (Inr x, s) f = f x s"
  by (simp_all add: bindm_def)

lemma bindm_state: "P (snd r) \<Longrightarrow> (\<And>x s. r = (Inr x, s) \<Longrightarrow> P s \<Longrightarrow> P (snd (f x s))) \<Longrightarrow> P (snd (bindm r f))"
  by (cases r; cases "fst r") auto

lemma bindm_ok: "bindm r f = (Inr y, s') \<longleftrightarrow> (\<exists>x s. r = (Inr x, s) \<and> f x s = (Inr y, s'))"
  by (cases r; cases "fst r") auto

lemma andthen_simps [simp]: "andthen (Inl e, s) f = (Inl e, s)" "andthen (Inr x, s) f = f s"
  by (simp_all add: andthen_def)

lemma attempt_simps [simp]: "attempt (Some e) f s = (Inl e, s)" "attempt None f s = (Inr (), f s)"
  by (simp_all add: attempt_def)

lemma andthen_ok: "andthen r f = (Inr y, s') \<longleftrightarrow> (\<exists>x s. r = (Inr x, s) \<and> f s = (Inr y, s'))"
  by (cases r; cases "fst r") auto

lemma finally_ok: "finally_do r f = (Inr y, s') \<longleftrightarrow> (\<exists>s. r = (Inr y, s) \<and> f s = (Inr (), s'))"
  by (cases r; cases "f (snd r)"; cases "fst (f (snd r))") (auto simp: finally_do_def)

lemma attempt_ok: "attempt e f s = (Inr u, s') \<longleftrightarrow> e = None \<and> s' = f s"
  by (cases e) auto

lemma andthen_state: "P (snd r) \<Longrightarrow> (\<And>s. P s \<Longrightarrow> P (snd (f s))) \<Longrightarrow> P (snd (andthen r f))"
  by (cases r; cases "fst r") auto

lemma finally_state: "P (snd r) \<Longrightarrow> (\<And>s. P s \<Longrightarrow> P (snd (f s))) \<Longrightarrow> P (snd (finally_do r f))"
  by (cases r; cases "f (snd r)"; cases "fst (f (snd r))") (force simp: finally_do_def)+

lemma attempt_state: "P s \<Longrightarrow> (P s \<Longrightarrow> P (f s)) \<Longrightarrow> P (snd (attempt e f s))"
  by (cases e) auto

section \<open>Decimal rendering, as \<open>str\<close> and f-strings print an integer\<close>

fun digits_of :: "nat \<Rightarrow> string" where
  "digits_of n = (if n < 10 then [char_of (48 + n)]
                  else digits_of (n div 10) @ [char_of (48 + n mod 10)])"

declare digits_of.simps [simp del]

definition show_int :: "int \<Rightarrow> string" where
  "show_int i = (if i < 0 then CHR ''-'' # digits_of (nat (- i)) else digits_of (nat i))"

section \<open>Lists\<close>

text \<open>Python's \<open>list.pop(0)\<close> / \<open>del b[:n]\<close> are \<open>tl\<close> and \<open>drop n\<close>; slices clip as \<open>take\<close> and
  \<open>drop\<close> do. \<open>slice a b\<close> is \<open>xs[a:b]\<close> for \<open>a \<le> b\<close>.\<close>

definition slice :: "nat \<Rightarrow> nat \<Rightarrow> 'a list \<Rightarrow> 'a list" where
  "slice a b xs = take (b - a) (drop a xs)"

text \<open>Insertion keyed sort: \<open>list.sort(key=...)\<close> is stable, as \<open>sort_key\<close> is.\<close>

lemma sorted_drop: "sorted xs \<Longrightarrow> sorted (drop n xs)"
  by (rule sorted_wrt_drop)

lemma map_drop_sorted: "sorted (map f xs) \<Longrightarrow> sorted (map f (drop n xs))"
  by (simp add: sorted_drop flip: drop_map)

end
