(* ===== verification/Py_Value.thy ===== *)
theory Py_Value
  imports Prelude Complex_Main "HOL-Library.Log_Nat" "HOL-Library.Sublist" "HOL-Library.AList"
begin

text \<open>
  The Python values the sources compute with.

  \<^item> \<open>pyfloat\<close>: an IEEE binary64 value, as the rational it denotes, an infinity or a NaN. Arithmetic
    is exact arithmetic followed by \<open>round64\<close> (round to nearest, ties to even, gradual underflow,
    overflow to infinity). The two zeros are one value here: no modelled code can tell them apart.
  \<^item> \<open>pyval\<close>: what \<open>json.loads\<close> returns (and \<open>bytes\<close>), the type of every configuration and record the sources
    validate: \<open>isinstance(value, bool)\<close> and \<open>type(value) is int\<close> tests, truthiness, and the
    cross-type equality \<open>1 == True == 1.0\<close> are as in Python.
  \<^item> bytes and their hexadecimal text, \<open>bytes.hex\<close> and \<open>bytes.fromhex\<close>.
\<close>

section \<open>Binary64\<close>

datatype pyfloat = Fin rat | PInf | NInf | NaN

definition pow2 :: "int \<Rightarrow> rat" where
  "pow2 k = (if 0 \<le> k then 2 ^ nat k else 1 / 2 ^ nat (- k))"

text \<open>The binary exponent of a positive rational: \<open>2 ^ e \<le> x < 2 ^ (e + 1)\<close>.\<close>

definition exponent :: "rat \<Rightarrow> int" where
  "exponent x = (if 1 \<le> x then bitlen \<lfloor>x\<rfloor> - 1 else - bitlen (\<lceil>1 / x\<rceil> - 1))"

definition half_even :: "rat \<Rightarrow> int" where
  "half_even x = (let n = \<lfloor>x\<rfloor>; r = x - of_int n
     in if r < 1 / 2 then n else if 1 / 2 < r then n + 1 else if even n then n else n + 1)"

definition round64 :: "rat \<Rightarrow> pyfloat" where
  "round64 x = (if x = 0 then Fin 0 else
     let a = \<bar>x\<bar>; ulp = pow2 (max (exponent a) (- 1022) - 52); r = of_int (half_even (a / ulp)) * ulp
     in if 2 ^ 1024 \<le> r then (if 0 < x then PInf else NInf)
        else Fin (if 0 < x then r else - r))"

fun f_neg :: "pyfloat \<Rightarrow> pyfloat" where
  "f_neg (Fin x) = Fin (- x)"
| "f_neg PInf = NInf"
| "f_neg NInf = PInf"
| "f_neg NaN = NaN"

fun f_abs :: "pyfloat \<Rightarrow> pyfloat" where
  "f_abs (Fin x) = Fin \<bar>x\<bar>"
| "f_abs NaN = NaN"
| "f_abs _ = PInf"

fun f_add :: "pyfloat \<Rightarrow> pyfloat \<Rightarrow> pyfloat" where
  "f_add (Fin x) (Fin y) = round64 (x + y)"
| "f_add NaN _ = NaN"
| "f_add _ NaN = NaN"
| "f_add PInf NInf = NaN"
| "f_add NInf PInf = NaN"
| "f_add PInf _ = PInf"
| "f_add NInf _ = NInf"
| "f_add (Fin _) y = y"

definition f_sub :: "pyfloat \<Rightarrow> pyfloat \<Rightarrow> pyfloat" where
  "f_sub x y = f_add x (f_neg y)"

fun f_sign :: "pyfloat \<Rightarrow> rat" where
  "f_sign (Fin x) = sgn x"
| "f_sign PInf = 1"
| "f_sign NInf = - 1"
| "f_sign NaN = 0"

definition f_inf :: "rat \<Rightarrow> pyfloat" where
  "f_inf s = (if 0 < s then PInf else if s < 0 then NInf else NaN)"

fun f_mul :: "pyfloat \<Rightarrow> pyfloat \<Rightarrow> pyfloat" where
  "f_mul (Fin x) (Fin y) = round64 (x * y)"
| "f_mul NaN _ = NaN"
| "f_mul _ NaN = NaN"
| "f_mul x y = f_inf (f_sign x * f_sign y)"

fun f_div :: "pyfloat \<Rightarrow> pyfloat \<Rightarrow> exc + pyfloat" where
  "f_div x (Fin y) = (if y = 0 then raise ZeroDivisionError ''float division by zero''
     else case x of Fin a \<Rightarrow> Inr (round64 (a / y)) | NaN \<Rightarrow> Inr NaN | _ \<Rightarrow> Inr (f_inf (f_sign x * sgn y)))"
| "f_div (Fin _) NaN = Inr NaN"
| "f_div (Fin _) _ = Inr (Fin 0)"
| "f_div _ _ = Inr NaN"

text \<open>Comparison is exact, and false as soon as one side is a NaN.\<close>

instantiation pyfloat :: ord
begin

fun less_eq_pyfloat :: "pyfloat \<Rightarrow> pyfloat \<Rightarrow> bool" where
  "less_eq_pyfloat NaN _ = False"
| "less_eq_pyfloat _ NaN = False"
| "less_eq_pyfloat NInf _ = True"
| "less_eq_pyfloat _ PInf = True"
| "less_eq_pyfloat (Fin x) (Fin y) = (x \<le> y)"
| "less_eq_pyfloat _ _ = False"

definition less_pyfloat :: "pyfloat \<Rightarrow> pyfloat \<Rightarrow> bool" where
  "less_pyfloat x y = (x \<le> y \<and> \<not> y \<le> x)"

instance ..

end

text \<open>\<open>math.pi\<close>, its double, and \<open>max\<close> of two floats.\<close>

definition pi64 :: pyfloat where "pi64 = Fin (884279719003555 / 281474976710656)"

definition two_pi :: pyfloat where "two_pi = Fin (884279719003555 / 140737488355328)"

definition f_max :: "pyfloat \<Rightarrow> pyfloat \<Rightarrow> pyfloat" where
  "f_max x y = (if x < y then y else x)"

definition f_eq :: "pyfloat \<Rightarrow> pyfloat \<Rightarrow> bool" where
  "f_eq x y \<longleftrightarrow> x \<le> y \<and> y \<le> x"

lemma Fin_le [simp]: "(Fin x \<le> Fin y) = (x \<le> y)"
  by simp

lemma Fin_less [simp]: "(Fin x < Fin y) = (x < y)"
  by (auto simp: less_pyfloat_def)

lemma f_eq_Fin [simp]: "f_eq (Fin x) (Fin y) = (x = y)"
  by (auto simp: f_eq_def)

lemma f_eq_NaN [simp]: "\<not> f_eq NaN x" "\<not> f_eq x NaN"
  by (cases x; simp add: f_eq_def)+

lemma pyfloat_le_trans: "(x::pyfloat) \<le> y \<Longrightarrow> y \<le> z \<Longrightarrow> x \<le> z"
  by (cases x; cases y; cases z) simp_all

fun f_finite :: "pyfloat \<Rightarrow> bool" where
  "f_finite (Fin _) = True"
| "f_finite _ = False"

subsection \<open>What rounding guarantees\<close>

lemma pow2_pos [simp]: "0 < pow2 k"
  by (simp add: pow2_def)

lemma half_even_int [simp]: "half_even (of_int n) = n"
  by (simp add: half_even_def)

lemma half_even_close: "\<bar>x - of_int (half_even x)\<bar> \<le> 1 / 2"
proof -
  have "of_int \<lfloor>x\<rfloor> \<le> x" "x < of_int \<lfloor>x\<rfloor> + 1"
    by linarith+
  then show ?thesis
    by (auto simp: half_even_def Let_def abs_le_iff field_simps)
qed

lemma half_even_mono: "x \<le> y \<Longrightarrow> half_even x \<le> half_even y"
proof -
  assume xy: "x \<le> y"
  then have "\<lfloor>x\<rfloor> \<le> \<lfloor>y\<rfloor>" by (rule floor_mono)
  then consider "\<lfloor>x\<rfloor> = \<lfloor>y\<rfloor>" | "\<lfloor>x\<rfloor> + 1 \<le> \<lfloor>y\<rfloor>" by linarith
  then show ?thesis
  proof cases
    case 1
    with xy show ?thesis by (auto simp: half_even_def Let_def)
  next
    case 2
    have "half_even x \<le> \<lfloor>x\<rfloor> + 1" "\<lfloor>y\<rfloor> \<le> half_even y"
      by (simp_all add: half_even_def Let_def)
    with 2 show ?thesis by linarith
  qed
qed

lemma round64_0 [simp]: "round64 0 = Fin 0"
  by (simp add: round64_def)

text \<open>Evaluation of a literal: its binary exponent and the nearest integer multiple of the last place.\<close>

lemma half_even_eq: "\<bar>x - of_int n\<bar> < 1 / 2 \<Longrightarrow> half_even x = n"
proof -
  assume a: "\<bar>x - of_int n\<bar> < 1 / 2"
  then have "\<lfloor>x\<rfloor> = n \<or> \<lfloor>x\<rfloor> = n - 1" by linarith
  then show ?thesis using a by (auto simp: half_even_def Let_def)
qed

lemma exponent_below_1: "x < 1 \<Longrightarrow> \<lceil>1 / x\<rceil> = c \<Longrightarrow> floorlog 2 (nat (c - 1)) = k \<Longrightarrow> exponent x = - int k"
  by (simp add: exponent_def bitlen_def)

lemma round64_eq:
  "0 < x \<Longrightarrow> exponent x = e \<Longrightarrow> - 1022 \<le> e \<Longrightarrow> \<bar>x / pow2 (e - 52) - of_int n\<bar> < 1 / 2
     \<Longrightarrow> of_int n * pow2 (e - 52) < 2 ^ 1024 \<Longrightarrow> round64 x = Fin (of_int n * pow2 (e - 52))"
  by (simp add: round64_def Let_def half_even_eq)

lemma round64_twentieth: "round64 (1 / 20) = Fin (3602879701896397 / 72057594037927936)"
proof -
  have "exponent (1 / 20) = - 5"
    using exponent_below_1 [of "1 / 20" 20 5] by (simp add: compute_floorlog)
  then show ?thesis
    by (subst round64_eq [where e = "- 5" and n = 7205759403792794]) (simp_all add: pow2_def)
qed

lemma round64_half: "round64 (1 / 2) = Fin (1 / 2)"
proof -
  have "exponent (1 / 2) = - 1"
    using exponent_below_1 [of "1 / 2" 2 1] by (simp add: compute_floorlog)
  then show ?thesis
    by (subst round64_eq [where e = "- 1" and n = "2 ^ 52"]) (simp_all add: pow2_def)
qed

lemma round64_tenths: "round64 (3 / 20) = Fin (5404319552844595 / 36028797018963968)"
  "round64 (3 / 10) = Fin (5404319552844595 / 18014398509481984)"
proof -
  have "exponent (3 / 20) = - 3"
    using exponent_below_1 [of "3 / 20" 7 3] by (simp add: compute_floorlog ceiling_eq_iff)
  then show "round64 (3 / 20) = Fin (5404319552844595 / 36028797018963968)"
    by (subst round64_eq [where e = "- 3" and n = 5404319552844595]) (simp_all add: pow2_def)
  have "exponent (3 / 10) = - 2"
    using exponent_below_1 [of "3 / 10" 4 2] by (simp add: compute_floorlog ceiling_eq_iff)
  then show "round64 (3 / 10) = Fin (5404319552844595 / 18014398509481984)"
    by (subst round64_eq [where e = "- 2" and n = 5404319552844595]) (simp_all add: pow2_def)
qed

text \<open>A number in the normal range rounds to a positive double.\<close>

lemma pow2_split: "pow2 (k - 52) * 2 ^ 52 = pow2 k"
proof -
  have "pow2 k = 2 powi k" for k by (simp add: pow2_def power_int_def field_simps)
  then show ?thesis by (simp add: power_int_diff)
qed

lemma exponent_lower: assumes "0 < x" shows "pow2 (exponent x) \<le> x"
proof (cases "1 \<le> x")
  case True
  then have f: "1 \<le> \<lfloor>x\<rfloor>" by simp
  then have "2 ^ nat (bitlen \<lfloor>x\<rfloor> - 1) \<le> \<lfloor>x\<rfloor>" "1 \<le> bitlen \<lfloor>x\<rfloor>"
    using bitlen_bounds [of "\<lfloor>x\<rfloor>"] by (auto simp: bitlen_ge_iff_power)
  then have "of_int (2 ^ nat (bitlen \<lfloor>x\<rfloor> - 1)) \<le> x" using True by linarith
  then show ?thesis using True \<open>1 \<le> bitlen _\<close> by (simp add: exponent_def pow2_def)
next
  case False
  define n where "n = \<lceil>1 / x\<rceil> - 1"
  have n: "1 \<le> n" using False assms unfolding n_def by (simp add: le_ceiling_iff field_simps)
  then have "n < 2 ^ nat (bitlen n)" using bitlen_bounds [of n] by simp
  then have "1 / x \<le> of_int (2 ^ nat (bitlen n))" unfolding n_def by linarith
  then have "1 / 2 ^ nat (bitlen n) \<le> x" using assms by (simp add: field_simps)
  moreover have "1 \<le> bitlen n" using n by (auto simp: bitlen_ge_iff_power)
  ultimately show ?thesis using False by (simp add: exponent_def pow2_def n_def)
qed

lemma round64_close:
  assumes "pow2 (- 1022) \<le> x" "x \<le> 2 ^ 1000"
  obtains y where "x - x / 2 ^ 53 \<le> y" "y \<le> x + x / 2 ^ 53" "round64 x = Fin y"
proof -
  have "0 < pow2 (- 1022)" by (rule pow2_pos)
  with assms have x: "0 < x" by linarith
  define E where "E = max (exponent x) (- 1022)"
  define u where "u = pow2 (E - 52)"
  define h where "h = half_even (x / u)"
  have u: "0 < u" by (simp add: u_def)
  have "pow2 E \<le> x" using exponent_lower [OF x] assms(1) by (simp add: E_def max_def)
  then have low: "u * 2 ^ 52 \<le> x" using pow2_split [of E] by (simp add: u_def)
  have c: "\<bar>x / u - of_int h\<bar> \<le> 1 / 2" using half_even_close [of "x / u"] unfolding h_def .
  have "\<bar>x - of_int h * u\<bar> = \<bar>x / u - of_int h\<bar> * u" using u by (simp add: abs_mult field_simps flip: abs_mult_pos)
  also have "\<dots> \<le> 1 / 2 * u" using c u by (intro mult_right_mono) simp_all
  also have "\<dots> \<le> x / 2 ^ 53" using low by simp
  finally have d: "\<bar>x - of_int h * u\<bar> \<le> x / 2 ^ 53" .
  have "x / 2 ^ 53 \<le> x" using x by simp
  then have "of_int h * u \<le> 2 * x" using d by linarith
  moreover have "2 * x \<le> 2 * 2 ^ 1000" using assms(2) by linarith
  moreover have "(2 :: rat) * 2 ^ 1000 < 2 ^ 1024" by simp
  ultimately have "of_int h * u < 2 ^ 1024" by linarith
  moreover have "round64 x = (if 2 ^ 1024 \<le> of_int h * u then PInf else Fin (of_int h * u))"
    using x by (simp add: round64_def Let_def E_def u_def h_def)
  ultimately have "round64 x = Fin (of_int h * u)" by simp
  then show thesis by (rule that [rotated 2]) (use d in linarith)+
qed

lemma round64_positive:
  assumes "pow2 (- 1022) \<le> x" "x \<le> 2 ^ 1000"
  obtains y where "0 < y" "x / 2 \<le> y" "y \<le> 2 * x" "round64 x = Fin y"
proof -
  have "0 < pow2 (- 1022)" by (rule pow2_pos)
  with assms have x: "0 < x" by linarith
  have "x / 2 ^ 53 \<le> x / 2" using x by simp
  with x show thesis using that by (rule_tac round64_close [OF assms]) fastforce
qed

lemma round64_not_NaN [simp]: "round64 x \<noteq> NaN"
  by (simp add: round64_def Let_def)

section \<open>JSON values\<close>

datatype pyval = PNone | PBool bool | PInt int | PFloat pyfloat | PStr string
  | PBytes "8 word list" | PList "pyval list" | PDict "(string \<times> pyval) list"

type_synonym pydict = "(string \<times> pyval) list"

fun py_true :: "pyval \<Rightarrow> bool" where
  "py_true PNone = False"
| "py_true (PBool b) = b"
| "py_true (PInt i) = (i \<noteq> 0)"
| "py_true (PFloat f) = (\<not> f_eq f (Fin 0))"
| "py_true (PStr s) = (s \<noteq> [])"
| "py_true (PBytes bs) = (bs \<noteq> [])"
| "py_true (PList xs) = (xs \<noteq> [])"
| "py_true (PDict d) = (d \<noteq> [])"

text \<open>The exact numeric value; \<open>bool\<close> is a subclass of \<open>int\<close>.\<close>

fun py_num :: "pyval \<Rightarrow> pyfloat option" where
  "py_num (PBool b) = Some (Fin (if b then 1 else 0))"
| "py_num (PInt i) = Some (Fin (of_int i))"
| "py_num (PFloat f) = Some f"
| "py_num _ = None"

fun py_eq :: "pyval \<Rightarrow> pyval \<Rightarrow> bool"
  and py_eqs :: "pyval list \<Rightarrow> pyval list \<Rightarrow> bool"
  and py_eqd :: "pydict \<Rightarrow> pydict \<Rightarrow> bool" where
  "py_eq (PList xs) (PList ys) = py_eqs xs ys"
| "py_eq (PDict d) (PDict e) = (length d = length e \<and> py_eqd d e)"
| "py_eq v w = (case (py_num v, py_num w) of (Some x, Some y) \<Rightarrow> f_eq x y | _ \<Rightarrow> v = w)"
| "py_eqs [] [] = True"
| "py_eqs (x # xs) (y # ys) = (py_eq x y \<and> py_eqs xs ys)"
| "py_eqs _ _ = False"
| "py_eqd [] e = True"
| "py_eqd ((k, v) # d) e = ((case map_of e k of None \<Rightarrow> False | Some w \<Rightarrow> py_eq v w) \<and> py_eqd d e)"

text \<open>\<open>d.get(k)\<close>, \<open>d.get(k, v)\<close>, \<open>d[k]\<close>, \<open>k in d\<close>.\<close>

definition dget :: "pydict \<Rightarrow> string \<Rightarrow> pyval" where
  "dget d k = (case map_of d k of None \<Rightarrow> PNone | Some v \<Rightarrow> v)"

definition dget_or :: "pydict \<Rightarrow> string \<Rightarrow> pyval \<Rightarrow> pyval" where
  "dget_or d k v = (case map_of d k of None \<Rightarrow> v | Some w \<Rightarrow> w)"

definition dsub :: "pydict \<Rightarrow> string \<Rightarrow> exc + pyval" where
  "dsub d k = (case map_of d k of None \<Rightarrow> raise KeyError k | Some v \<Rightarrow> Inr v)"

definition has_key :: "pydict \<Rightarrow> string \<Rightarrow> bool" where
  "has_key d k \<longleftrightarrow> map_of d k \<noteq> None"

text \<open>Type tests. \<open>is_int\<close> is \<open>type(v) is int\<close>, which is also
  \<open>isinstance(v, int) and not isinstance(v, bool)\<close> for JSON values.\<close>

fun is_int :: "pyval \<Rightarrow> bool" where
  "is_int (PInt _) = True"
| "is_int _ = False"

fun is_str :: "pyval \<Rightarrow> bool" where
  "is_str (PStr _) = True"
| "is_str _ = False"

fun is_bool :: "pyval \<Rightarrow> bool" where
  "is_bool (PBool _) = True"
| "is_bool _ = False"

fun is_list :: "pyval \<Rightarrow> bool" where
  "is_list (PList _) = True"
| "is_list _ = False"

fun is_dict :: "pyval \<Rightarrow> bool" where
  "is_dict (PDict _) = True"
| "is_dict _ = False"

text \<open>\<open>math.isfinite\<close> converts its argument to a float first, which raises for an integer that
  rounds to \<open>2 ^ 1024\<close> or more.\<close>

definition int_overflows :: "int \<Rightarrow> bool" where
  "int_overflows i \<longleftrightarrow> 2 ^ 1024 - 2 ^ 970 \<le> \<bar>i\<bar>"

fun py_isfinite :: "pyval \<Rightarrow> exc + bool" where
  "py_isfinite (PInt i) =
     (if int_overflows i then raise OverflowError ''int too large to convert to float'' else Inr True)"
| "py_isfinite (PFloat f) = Inr (f_finite f)"
| "py_isfinite (PBool b) = Inr True"
| "py_isfinite _ = raise TypeError ''must be real number''"

text \<open>Comparisons and arithmetic of two numbers, exact between integers and in floats as soon as
  one side is a float. For a value that is not a number, where Python raises \<open>TypeError\<close>, they are
  false or NaN: the modelled code applies them to values whose type it has tested.\<close>

definition to_float :: "pyval \<Rightarrow> pyfloat" where
  "to_float v = (case v of PInt i \<Rightarrow> round64 (of_int i) | PBool b \<Rightarrow> Fin (if b then 1 else 0)
     | PFloat f \<Rightarrow> f | _ \<Rightarrow> NaN)"

definition py_le :: "pyval \<Rightarrow> pyval \<Rightarrow> bool" where
  "py_le v w = (case (py_num v, py_num w) of (Some x, Some y) \<Rightarrow> x \<le> y | _ \<Rightarrow> False)"

definition py_lt :: "pyval \<Rightarrow> pyval \<Rightarrow> bool" where
  "py_lt v w = (case (py_num v, py_num w) of (Some x, Some y) \<Rightarrow> x < y | _ \<Rightarrow> False)"

fun py_sub :: "pyval \<Rightarrow> pyval \<Rightarrow> pyval" where
  "py_sub (PInt i) (PInt j) = PInt (i - j)"
| "py_sub v w = PFloat (f_sub (to_float v) (to_float w))"

fun py_add :: "pyval \<Rightarrow> pyval \<Rightarrow> pyval" where
  "py_add (PInt i) (PInt j) = PInt (i + j)"
| "py_add v w = PFloat (f_add (to_float v) (to_float w))"

fun py_mul :: "pyval \<Rightarrow> pyval \<Rightarrow> pyval" where
  "py_mul (PInt i) (PInt j) = PInt (i * j)"
| "py_mul v w = PFloat (f_mul (to_float v) (to_float w))"

fun py_abs :: "pyval \<Rightarrow> pyval" where
  "py_abs (PInt i) = PInt \<bar>i\<bar>"
| "py_abs v = PFloat (f_abs (to_float v))"

lemma py_eq_num [simp]:
  "py_num v = Some x \<Longrightarrow> py_num w = Some y \<Longrightarrow> py_eq v w = f_eq x y"
  by (cases v; cases w) auto

lemma py_eq_str [simp]: "py_eq v (PStr s) \<longleftrightarrow> v = PStr s"
  by (cases v) auto

lemma py_eq_int_lit [simp]: "py_eq (PInt i) (PInt j) \<longleftrightarrow> i = j"
  by simp

lemma dget_Cons [simp]: "dget ((k, v) # d) k' = (if k = k' then v else dget d k')"
  by (simp add: dget_def)

lemma dget_Nil [simp]: "dget [] k = PNone"
  by (simp add: dget_def)

lemma dget_or_simps [simp]:
  "dget_or [] k w = w"
  "dget_or ((k', v) # d) k w = (if k' = k then v else dget_or d k w)"
  by (simp_all add: dget_or_def)

lemma has_key_simps [simp]:
  "\<not> has_key [] k"
  "has_key ((k', v) # d) k \<longleftrightarrow> k' = k \<or> has_key d k"
  by (simp_all add: has_key_def)

lemma dsub_simps [simp]:
  "dsub [] k = raise KeyError k"
  "dsub ((k', v) # d) k = (if k' = k then Inr v else dsub d k)"
  by (simp_all add: dsub_def)

text \<open>\<open>d[k] = v\<close> and \<open>d.update(e)\<close> keep the insertion order, as \<open>AList.update\<close> does.\<close>

abbreviation dput :: "'k \<Rightarrow> 'v \<Rightarrow> ('k \<times> 'v) list \<Rightarrow> ('k \<times> 'v) list" where
  "dput k v d \<equiv> AList.update k v d"

definition dupdate :: "('k \<times> 'v) list \<Rightarrow> ('k \<times> 'v) list \<Rightarrow> ('k \<times> 'v) list" where
  "dupdate e d = foldl (\<lambda>d (k, v). dput k v d) d e"

lemma map_of_dput [simp]: "map_of (dput k v d) = (map_of d)(k \<mapsto> v)"
  by (rule update_conv')

lemma dupdate_simps [simp]: "dupdate [] d = d" "dupdate ((k, v) # e) d = dupdate e (dput k v d)"
  by (simp_all add: dupdate_def)

text \<open>\<open>str.strip()\<close>'s white space among the first 256 code points, \<open>str.split(c)\<close> and \<open>c.join\<close>.\<close>

definition py_space :: "char \<Rightarrow> bool" where
  "py_space c \<longleftrightarrow> (let n = (of_char c :: nat) in
     9 \<le> n \<and> n \<le> 13 \<or> 28 \<le> n \<and> n \<le> 32 \<or> n = 133 \<or> n = 160)"

definition strip :: "string \<Rightarrow> string" where
  "strip s = rev (dropWhile py_space (rev (dropWhile py_space s)))"

lemma strip_eq_Nil: "strip s = [] \<longleftrightarrow> list_all py_space s"
  by (induction s) (auto simp: strip_def dropWhile_eq_Nil_conv list_all_iff)

fun split_on :: "char \<Rightarrow> string \<Rightarrow> string list" where
  "split_on c [] = [[]]"
| "split_on c (x # xs) = (if x = c then [] # split_on c xs
     else (case split_on c xs of [] \<Rightarrow> [[x]] | w # ws \<Rightarrow> (x # w) # ws))"

fun join_with :: "string \<Rightarrow> string list \<Rightarrow> string" where
  "join_with sep [] = []"
| "join_with sep [w] = w"
| "join_with sep (w # v # ws) = w @ sep @ join_with sep (v # ws)"

lemma split_on_pieces: "w \<in> set (split_on c s) \<Longrightarrow> c \<notin> set w"
  by (induction s arbitrary: w) (auto split: if_splits list.splits)

lemma split_on_nonempty: "split_on c s \<noteq> []"
  by (induction s) (auto split: list.splits)

lemma split_on_plain: "c \<notin> set w \<Longrightarrow> split_on c w = [w]"
  by (induction w) auto

text \<open>\<open>re.fullmatch('[0-9a-f]{64}', s)\<close>.\<close>

definition lower_hex :: "char \<Rightarrow> bool" where
  "lower_hex c \<longleftrightarrow> (let n = (of_char c :: nat) in 48 \<le> n \<and> n \<le> 57 \<or> 97 \<le> n \<and> n \<le> 102)"

definition sha256_text :: "string \<Rightarrow> bool" where
  "sha256_text s \<longleftrightarrow> length s = 64 \<and> list_all lower_hex s"

text \<open>What \<open>str(error)\<close> prints: the \<open>repr\<close> of its key for a \<open>KeyError\<close>.\<close>

definition str_exc :: "exc \<Rightarrow> string" where
  "str_exc e = (if exn_of e = KeyError then [CHR 0x27] @ msg_of e @ [CHR 0x27] else msg_of e)"

section \<open>Bytes\<close>

type_synonym bytes = "8 word list"

definition hex_digit :: "nat \<Rightarrow> char" where
  "hex_digit n = char_of (if n < 10 then 48 + n else 87 + n)"

definition hex_value :: "char \<Rightarrow> nat option" where
  "hex_value c = (let n = of_char c in
     if 48 \<le> n \<and> n \<le> 57 then Some (n - 48)
     else if 97 \<le> n \<and> n \<le> 102 then Some (n - 87)
     else if 65 \<le> n \<and> n \<le> 70 then Some (n - 55) else None)"

definition is_space :: "char \<Rightarrow> bool" where
  "is_space c \<longleftrightarrow> (let n = (of_char c :: nat) in n = 32 \<or> (9 \<le> n \<and> n \<le> 13))"

fun to_hex :: "bytes \<Rightarrow> string" where
  "to_hex [] = []"
| "to_hex (b # bs) = hex_digit (unat b div 16) # hex_digit (unat b mod 16) # to_hex bs"

text \<open>\<open>bytes.fromhex\<close>: pairs of hexadecimal digits, white space allowed between pairs;
  \<open>None\<close> is its \<open>ValueError\<close>.\<close>

fun from_hex :: "string \<Rightarrow> bytes option" where
  "from_hex [] = Some []"
| "from_hex (c # cs) = (if is_space c then from_hex cs else case cs of [] \<Rightarrow> None
     | d # ds \<Rightarrow> (case (hex_value c, hex_value d) of
          (Some a, Some b) \<Rightarrow> map_option (Cons (of_nat (16 * a + b))) (from_hex ds)
        | _ \<Rightarrow> None))"

lemma hex_value_digit [simp]: "n < 16 \<Longrightarrow> hex_value (hex_digit n) = Some n"
  by (auto simp: hex_value_def hex_digit_def Let_def)

lemma hex_digit_not_space [simp]: "n < 16 \<Longrightarrow> \<not> is_space (hex_digit n)"
  by (auto simp: is_space_def hex_digit_def Let_def)

lemma from_hex_to_hex [simp]: "from_hex (to_hex bs) = Some bs"
proof (induction bs)
  case Nil
  then show ?case by simp
next
  case (Cons b bs)
  have b: "unat b < 256"
    using unsigned_less [of b, where 'a = nat] by simp
  then have "unat b div 16 < 16" "unat b mod 16 < 16"
    by (simp_all add: less_mult_imp_div_less)
  with Cons show ?case
    by (simp add: mult.commute)
qed

text \<open>Literals of the source against exact numbers.\<close>

lemma pow2_tiny: "(1 :: rat) / 10 ^ 20 \<le> x \<Longrightarrow> pow2 (- 1022) \<le> x"
  by (rule order_trans [where y = "1 / 10 ^ 20"]) (simp_all add: pow2_def)

lemma low_bound: "1 / 10000 \<le> q \<Longrightarrow> q \<le> 1 \<Longrightarrow> 2 * q \<le> y \<Longrightarrow> round64 q \<le> Fin y"
proof -
  assume q: "1 / 10000 \<le> q" "q \<le> 1" "2 * q \<le> y"
  have "pow2 (- 1022) \<le> q" by (rule pow2_tiny) (rule order_trans [OF _ q(1)], simp)
  moreover have "q \<le> 2 ^ 1000" by (rule order_trans [OF q(2)]) simp
  ultimately obtain z where "z \<le> 2 * q" "round64 q = Fin z" using round64_positive [of q] by blast
  with q(3) show ?thesis by simp
qed

lemma round_up: "1 / 10000 \<le> q \<Longrightarrow> q \<le> 1 \<Longrightarrow> y \<le> q / 2 \<Longrightarrow> Fin y \<le> round64 q"
proof -
  assume q: "1 / 10000 \<le> q" "q \<le> 1" "y \<le> q / 2"
  have "pow2 (- 1022) \<le> q" by (rule pow2_tiny) (rule order_trans [OF _ q(1)], simp)
  moreover have "q \<le> 2 ^ 1000" by (rule order_trans [OF q(2)]) simp
  ultimately obtain z where "q / 2 \<le> z" "round64 q = Fin z" using round64_positive [of q] by blast
  with q(3) show ?thesis by simp
qed

end
