(* ===== verification/Graph_Delivery.thy ===== *)
theory Graph_Delivery
  imports Py_Value "HOL-Library.Multiset"
begin

text \<open>
  \<open>src/src/wc_fusion/graph_delivery.py\<close>: the bounded queue of accepted observations that are sent,
  one at a time, to the native graph until the graph's snapshot acknowledges them.

  State: \<open>graph_delivery\<close>, the attributes of class \<open>GraphDelivery\<close>. Operations: \<open>submit\<close>,
  \<open>next_payload\<close>, \<open>acknowledge\<close>, \<open>status\<close>. Properties: the queue is bounded and ordered, only its head
  is ever in flight, what is acknowledged is exactly what was submitted in order, retransmissions are
  spaced and time-bounded, and a failure latches.
\<close>

section \<open>State\<close>

record pending =
  p_bundle_id :: int
  p_raw_keys :: "string list"
  p_odom_epoch :: string
  p_payload :: bytes
  p_first_sent :: "int option"
  p_last_sent :: "int option"

record graph_delivery =
  g_session :: string
  g_source_mode :: string
  g_calibration :: string
  g_clock_models :: "(string \<times> string) list"
  g_graph_epoch :: "string option"
  g_capacity :: int
  g_retry_ns :: int
  g_timeout_ns :: int
  g_queue :: "pending list"
  g_last_enqueued :: int
  g_last_acked :: int
  g_acknowledged :: int
  g_attempts :: int
  g_retries :: int
  g_failure :: "string option"

text \<open>The fields of the \<open>GraphSnapshot\<close> and \<open>GraphNode\<close> messages that \<open>acknowledge\<close> reads.\<close>

record graph_node =
  n_node_id :: int
  n_odom_epoch :: string
  n_bundle_id :: int
  n_raw_keys :: "string list"

record graph_snapshot =
  s_session :: string
  s_graph_epoch :: string
  s_source_mode :: string
  s_calibration :: string
  s_left_clock :: string
  s_right_clock :: string
  s_nodes :: "graph_node list"
  s_index_complete :: bool
  s_index_hash :: string

section \<open>Operations\<close>

definition gd_init :: "string \<Rightarrow> string \<Rightarrow> string \<Rightarrow> (string \<times> string) list \<Rightarrow> string option
    \<Rightarrow> pyval \<Rightarrow> int \<Rightarrow> int \<Rightarrow> exc + graph_delivery" where
  "gd_init session mode calibration models graph_epoch capacity retry_ns timeout_ns =
     (case capacity of
        PInt c \<Rightarrow>
          if \<not> (1 \<le> c \<and> c \<le> 8) \<or> \<not> (0 < retry_ns \<and> retry_ns < timeout_ns)
          then raise ValueError ''invalid bounded graph delivery policy''
          else Inr \<lparr>g_session = session, g_source_mode = mode, g_calibration = calibration,
                 g_clock_models = models, g_graph_epoch = graph_epoch, g_capacity = c,
                 g_retry_ns = retry_ns, g_timeout_ns = timeout_ns, g_queue = [],
                 g_last_enqueued = 0, g_last_acked = 0, g_acknowledged = 0, g_attempts = 0,
                 g_retries = 0, g_failure = None\<rparr>
      | _ \<Rightarrow> raise ValueError ''invalid bounded graph delivery policy'')"

definition gd_fail :: "string \<Rightarrow> graph_delivery \<Rightarrow> (exc + 'a) \<times> graph_delivery" where
  "gd_fail reason g =
     (let r = (case g_failure g of Some f \<Rightarrow> f | None \<Rightarrow> reason)
      in (raise GraphDeliveryError r, g\<lparr>g_failure := Some r\<rparr>))"

definition gd_ensure_capacity :: "graph_delivery \<Rightarrow> (exc + unit) \<times> graph_delivery" where
  "gd_ensure_capacity g = (case g_failure g of
       Some f \<Rightarrow> (raise GraphDeliveryError f, g)
     | None \<Rightarrow> if g_capacity g \<le> int (length (g_queue g))
               then gd_fail ''GRAPH_DELIVERY_QUEUE_FULL'' g else (Inr (), g))"

text \<open>The condition under which \<open>submit\<close> rejects an observation, in the source's order.\<close>

definition gd_invalid :: "graph_delivery \<Rightarrow> pyval \<Rightarrow> string list \<Rightarrow> string \<Rightarrow> pyval \<Rightarrow> bool" where
  "gd_invalid g bundle_id raw_keys odom_epoch payload \<longleftrightarrow>
     (case bundle_id of PInt i \<Rightarrow> i \<le> g_last_enqueued g | _ \<Rightarrow> True)
     \<or> length raw_keys \<noteq> 2 \<or> length (remdups raw_keys) \<noteq> 2 \<or> \<not> list_all (\<lambda>k. k \<noteq> []) raw_keys
     \<or> odom_epoch = []
     \<or> (case payload of PBytes b \<Rightarrow> \<not> (0 < int (length b) \<and> int (length b) \<le> 8 * 1024 * 1024) | _ \<Rightarrow> True)"

definition gd_submit :: "pyval \<Rightarrow> string list \<Rightarrow> string \<Rightarrow> pyval \<Rightarrow> graph_delivery
    \<Rightarrow> (exc + unit) \<times> graph_delivery" where
  "gd_submit bundle_id raw_keys odom_epoch payload g = (case gd_ensure_capacity g of
       (Inl e, g') \<Rightarrow> (Inl e, g')
     | (Inr _, g') \<Rightarrow>
         if gd_invalid g' bundle_id raw_keys odom_epoch payload
         then gd_fail ''GRAPH_DELIVERY_INVALID_OBSERVATION'' g'
         else (case (bundle_id, payload) of
             (PInt i, PBytes b) \<Rightarrow>
               (Inr (), g'\<lparr>g_queue := g_queue g' @ [\<lparr>p_bundle_id = i, p_raw_keys = raw_keys,
                           p_odom_epoch = odom_epoch, p_payload = b, p_first_sent = None, p_last_sent = None\<rparr>],
                     g_last_enqueued := i\<rparr>)
           | _ \<Rightarrow> gd_fail ''GRAPH_DELIVERY_INVALID_OBSERVATION'' g'))"

definition gd_next :: "int \<Rightarrow> graph_delivery \<Rightarrow> (exc + bytes option) \<times> graph_delivery" where
  "gd_next now g = (case g_failure g of
       Some f \<Rightarrow> (raise GraphDeliveryError f, g)
     | None \<Rightarrow> (case g_queue g of
          [] \<Rightarrow> (Inr None, g)
        | item # rest \<Rightarrow>
            if (case p_first_sent item of Some t \<Rightarrow> g_timeout_ns g \<le> now - t | None \<Rightarrow> False)
            then gd_fail ''GRAPH_ACK_TIMEOUT'' g
            else if (case p_last_sent item of Some t \<Rightarrow> now - t < g_retry_ns g | None \<Rightarrow> False)
            then (Inr None, g)
            else let retry = p_first_sent item \<noteq> None;
                     item' = item\<lparr>p_first_sent := (case p_first_sent item of None \<Rightarrow> Some now | t \<Rightarrow> t),
                                  p_last_sent := Some now\<rparr>
                 in (Inr (Some (p_payload item)),
                     g\<lparr>g_queue := item' # rest, g_attempts := g_attempts g + 1,
                       g_retries := g_retries g + (if retry then 1 else 0)\<rparr>)))"

text \<open>The first condition of \<open>acknowledge\<close>; a session without a configured clock model raises
  \<open>KeyError\<close> where the source subscripts \<open>clock_models\<close>.\<close>

definition gd_provenance_bad :: "graph_delivery \<Rightarrow> graph_snapshot \<Rightarrow> exc + bool" where
  "gd_provenance_bad g sn =
     (if s_session sn \<noteq> g_session g \<or> s_source_mode sn \<noteq> g_source_mode g
         \<or> s_calibration sn \<noteq> g_calibration g then Inr True
      else case map_of (g_clock_models g) ''left'' of None \<Rightarrow> raise KeyError ''left''
      | Some l \<Rightarrow> if s_left_clock sn \<noteq> l then Inr True
      else case map_of (g_clock_models g) ''right'' of None \<Rightarrow> raise KeyError ''right''
      | Some r \<Rightarrow> Inr (s_right_clock sn \<noteq> r \<or> \<not> s_index_complete sn \<or> s_index_hash sn = []
                       \<or> s_graph_epoch sn = []))"

definition gd_matches :: "graph_snapshot \<Rightarrow> pending \<Rightarrow> graph_node list" where
  "gd_matches sn item = filter (\<lambda>n. n_bundle_id n = p_bundle_id item) (s_nodes sn)"

definition gd_mismatch :: "graph_node list \<Rightarrow> pending \<Rightarrow> bool" where
  "gd_mismatch matches item \<longleftrightarrow> p_first_sent item = None \<or> length matches \<noteq> 1
     \<or> n_node_id (hd matches) \<noteq> p_bundle_id item \<or> n_odom_epoch (hd matches) \<noteq> p_odom_epoch item
     \<or> sort (n_raw_keys (hd matches)) \<noteq> sort (p_raw_keys item)"

text \<open>The part of \<open>acknowledge\<close> after the epoch has been bound.\<close>

definition gd_ack_head :: "graph_snapshot \<Rightarrow> graph_delivery \<Rightarrow> (exc + bool) \<times> graph_delivery" where
  "gd_ack_head sn g = (case g_queue g of
       [] \<Rightarrow> (Inr False, g)
     | item # rest \<Rightarrow>
         let matches = gd_matches sn item
         in if matches = [] then
              (if list_ex (\<lambda>n. p_bundle_id item < n_bundle_id n) (s_nodes sn)
               then gd_fail ''GRAPH_ACK_SKIPPED_PENDING_BUNDLE'' g else (Inr False, g))
            else if gd_mismatch matches item then gd_fail ''GRAPH_ACK_OBSERVATION_MISMATCH'' g
            else (Inr True, g\<lparr>g_queue := rest, g_last_acked := p_bundle_id item,
                              g_acknowledged := g_acknowledged g + 1\<rparr>))"

definition gd_acknowledge :: "graph_snapshot \<Rightarrow> graph_delivery \<Rightarrow> (exc + bool) \<times> graph_delivery" where
  "gd_acknowledge sn g = (case g_failure g of
       Some f \<Rightarrow> (raise GraphDeliveryError f, g)
     | None \<Rightarrow> (case gd_provenance_bad g sn of
          Inl e \<Rightarrow> (Inl e, g)
        | Inr True \<Rightarrow> gd_fail ''GRAPH_ACK_PROVENANCE_MISMATCH'' g
        | Inr False \<Rightarrow>
            let g' = (if g_graph_epoch g = None then g\<lparr>g_graph_epoch := Some (s_graph_epoch sn)\<rparr> else g)
            in if g_graph_epoch g' \<noteq> Some (s_graph_epoch sn)
               then gd_fail ''GRAPH_ACK_EPOCH_CHANGED'' g' else gd_ack_head sn g'))"

record gd_report =
  r_pending :: int
  r_pending_ids :: "int list"
  r_acknowledged :: int
  r_last_acked :: int
  r_attempts :: int
  r_retries :: int
  r_failure :: "string option"

definition gd_status :: "graph_delivery \<Rightarrow> gd_report" where
  "gd_status g = \<lparr>r_pending = int (length (g_queue g)), r_pending_ids = map p_bundle_id (g_queue g),
     r_acknowledged = g_acknowledged g, r_last_acked = g_last_acked g,
     r_attempts = g_attempts g, r_retries = g_retries g, r_failure = g_failure g\<rparr>"

text \<open>The operations as one step function, for runs.\<close>

datatype gd_event = GSubmit pyval "string list" string pyval | GNext int | GAck graph_snapshot

datatype gd_out = GSubmitted | GPayload "bytes option" | GAcked bool

fun gd_step :: "gd_event \<Rightarrow> graph_delivery \<Rightarrow> (exc + gd_out) \<times> graph_delivery" where
  "gd_step (GSubmit i ks ep b) g = (let (r, g') = gd_submit i ks ep b g in (map_sum id (\<lambda>_. GSubmitted) r, g'))"
| "gd_step (GNext now) g = (let (r, g') = gd_next now g in (map_sum id GPayload r, g'))"
| "gd_step (GAck sn) g = (let (r, g') = gd_acknowledge sn g in (map_sum id GAcked r, g'))"

section \<open>Every operation, once\<close>

text \<open>Case rules: what each call can have done. The component's proofs go through these.\<close>

lemma gd_fail_simps [simp]:
  "fst (gd_fail r g) = raise GraphDeliveryError (case g_failure g of Some f \<Rightarrow> f | None \<Rightarrow> r)"
  "snd (gd_fail r g) = g\<lparr>g_failure := Some (case g_failure g of Some f \<Rightarrow> f | None \<Rightarrow> r)\<rparr>"
  by (simp_all add: gd_fail_def Let_def)

lemma gd_fail_None [simp]:
  "g_failure g = None \<Longrightarrow> gd_fail r g = (raise GraphDeliveryError r, g\<lparr>g_failure := Some r\<rparr>)"
  by (simp add: gd_fail_def)

lemma gd_submit_cases:
  obtains (raised) e f where "gd_submit i ks ep b g = (Inl e, g\<lparr>g_failure := Some f\<rparr>)"
  | (queued) j bs where "gd_submit i ks ep b g = (Inr (), g\<lparr>g_queue := g_queue g @ [\<lparr>p_bundle_id = j,
        p_raw_keys = ks, p_odom_epoch = ep, p_payload = bs, p_first_sent = None, p_last_sent = None\<rparr>],
        g_last_enqueued := j\<rparr>)"
      "i = PInt j" "b = PBytes bs" "g_last_enqueued g < j" "g_failure g = None"
      "int (length (g_queue g)) < g_capacity g" "\<not> gd_invalid g i ks ep b"
proof (cases "g_failure g")
  case (Some f)
  then have "gd_submit i ks ep b g = (raise GraphDeliveryError f, g\<lparr>g_failure := Some f\<rparr>)"
    by (simp add: gd_submit_def gd_ensure_capacity_def)
  then show ?thesis by (rule raised)
next
  case None
  show ?thesis
  proof (cases "g_capacity g \<le> int (length (g_queue g)) \<or> gd_invalid g i ks ep b")
    case True
    with None have "\<exists>e f. gd_submit i ks ep b g = (Inl e, g\<lparr>g_failure := Some f\<rparr>)"
      by (auto simp: gd_submit_def gd_ensure_capacity_def)
    then show ?thesis using raised by blast
  next
    case False
    then obtain j bs where "i = PInt j" "b = PBytes bs" "g_last_enqueued g < j"
      by (auto simp: gd_invalid_def split: pyval.splits)
    with None False show ?thesis
      by (intro queued [of j bs]) (simp_all add: gd_submit_def gd_ensure_capacity_def)
  qed
qed

lemma gd_next_cases:
  obtains (raised) e f where "gd_next now g = (Inl e, g\<lparr>g_failure := Some f\<rparr>)"
  | (idle) "gd_next now g = (Inr None, g)"
  | (sent) item rest item' k where "g_queue g = item # rest"
      "gd_next now g = (Inr (Some (p_payload item)), g\<lparr>g_queue := item' # rest,
         g_attempts := g_attempts g + 1, g_retries := g_retries g + k\<rparr>)"
      "item' = item\<lparr>p_first_sent := (case p_first_sent item of None \<Rightarrow> Some now | t \<Rightarrow> t),
                    p_last_sent := Some now\<rparr>"
      "0 \<le> k" "k \<le> 1" "g_failure g = None"
      "\<And>t. p_first_sent item = Some t \<Longrightarrow> now - t < g_timeout_ns g"
      "\<And>t. p_last_sent item = Some t \<Longrightarrow> g_retry_ns g \<le> now - t"
proof (cases "g_failure g")
  case (Some f)
  then have "gd_next now g = (raise GraphDeliveryError f, g\<lparr>g_failure := Some f\<rparr>)"
    by (simp add: gd_next_def)
  then show ?thesis by (rule raised)
next
  case None
  show ?thesis
  proof (cases "g_queue g")
    case Nil
    with None show ?thesis by (intro idle) (simp add: gd_next_def)
  next
    case (Cons item rest)
    let ?late = "case p_first_sent item of Some t \<Rightarrow> g_timeout_ns g \<le> now - t | None \<Rightarrow> False"
    let ?soon = "case p_last_sent item of Some t \<Rightarrow> now - t < g_retry_ns g | None \<Rightarrow> False"
    consider "?late" | "\<not> ?late" "?soon" | "\<not> ?late" "\<not> ?soon" by blast
    then show ?thesis
    proof cases
      case 1
      with None Cons have "gd_next now g = (raise GraphDeliveryError ''GRAPH_ACK_TIMEOUT'',
          g\<lparr>g_failure := Some ''GRAPH_ACK_TIMEOUT''\<rparr>)"
        by (simp add: gd_next_def)
      then show ?thesis by (rule raised)
    next
      case 2
      with None Cons show ?thesis by (intro idle) (simp add: gd_next_def)
    next
      case 3
      with None Cons show ?thesis
        by (intro sent [OF Cons _ refl, of "if p_first_sent item \<noteq> None then 1 else 0"])
           (auto simp: gd_next_def Let_def)
    qed
  qed
qed

lemma gd_ack_head_cases:
  assumes "g_failure g = None"
  obtains (raised) e f where "gd_ack_head sn g = (Inl e, g\<lparr>g_failure := Some f\<rparr>)"
  | (idle) "gd_ack_head sn g = (Inr False, g)"
  | (popped) item rest n where "g_queue g = item # rest" "gd_matches sn item = [n]"
      "\<not> gd_mismatch [n] item"
      "gd_ack_head sn g = (Inr True, g\<lparr>g_queue := rest, g_last_acked := p_bundle_id item,
         g_acknowledged := g_acknowledged g + 1\<rparr>)"
proof (cases "g_queue g")
  case Nil
  then show ?thesis by (intro idle) (simp add: gd_ack_head_def)
next
  case (Cons item rest)
  show ?thesis
  proof (cases "gd_matches sn item = [] \<or> gd_mismatch (gd_matches sn item) item")
    case True
    show ?thesis
    proof (cases "gd_matches sn item = [] \<and> \<not> list_ex (\<lambda>n. p_bundle_id item < n_bundle_id n) (s_nodes sn)")
      case True
      then show ?thesis using Cons by (intro idle) (simp add: gd_ack_head_def)
    next
      case False
      define why where "why = (if gd_matches sn item = [] then ''GRAPH_ACK_SKIPPED_PENDING_BUNDLE''
        else ''GRAPH_ACK_OBSERVATION_MISMATCH'')"
      have "gd_ack_head sn g = gd_fail why g"
        using True False Cons by (auto simp: gd_ack_head_def why_def)
      then show ?thesis
        using assms by (intro raised) simp
    qed
  next
    case False
    then obtain n where "gd_matches sn item = [n]"
      by (auto simp: gd_mismatch_def length_Suc_conv)
    with False Cons show ?thesis
      by (intro popped [of item rest n]) (simp_all add: gd_ack_head_def)
  qed
qed

lemma gd_acknowledge_cases:
  obtains (raised) e f ep where "gd_acknowledge sn g = (Inl e, g\<lparr>g_graph_epoch := ep, g_failure := f\<rparr>)"
      "g_failure g = None \<or> f = g_failure g"
  | (idle) ep where "gd_acknowledge sn g = (Inr False, g\<lparr>g_graph_epoch := ep\<rparr>)" "g_failure g = None"
  | (popped) item rest n where "g_queue g = item # rest" "gd_matches sn item = [n]"
      "\<not> gd_mismatch [n] item" "g_failure g = None" "gd_provenance_bad g sn = Inr False"
      "g_graph_epoch g \<in> {None, Some (s_graph_epoch sn)}"
      "gd_acknowledge sn g = (Inr True, g\<lparr>g_graph_epoch := Some (s_graph_epoch sn), g_queue := rest,
         g_last_acked := p_bundle_id item, g_acknowledged := g_acknowledged g + 1\<rparr>)"
proof (cases "g_failure g")
  case (Some f)
  then have "gd_acknowledge sn g = (raise GraphDeliveryError f,
      g\<lparr>g_graph_epoch := g_graph_epoch g, g_failure := g_failure g\<rparr>)"
    by (simp add: gd_acknowledge_def)
  then show ?thesis by (rule raised) simp
next
  case None
  let ?g = "if g_graph_epoch g = None then g\<lparr>g_graph_epoch := Some (s_graph_epoch sn)\<rparr> else g"
  have g': "?g = g\<lparr>g_graph_epoch := (case g_graph_epoch g of None \<Rightarrow> Some (s_graph_epoch sn) | x \<Rightarrow> x)\<rparr>"
    by (auto split: option.split)
  show ?thesis
  proof (cases "gd_provenance_bad g sn = Inr False \<and> g_graph_epoch ?g = Some (s_graph_epoch sn)")
    case False
    with None have "\<exists>e f ep. gd_acknowledge sn g = (Inl e, g\<lparr>g_graph_epoch := ep, g_failure := f\<rparr>)"
      by (cases "gd_provenance_bad g sn"; cases g)
         (auto simp: gd_acknowledge_def Let_def split: bool.splits option.splits)
    then show ?thesis using raised None by blast
  next
    case True
    then have ep: "g_graph_epoch g \<in> {None, Some (s_graph_epoch sn)}"
      by (auto split: if_splits)
    have eq: "gd_acknowledge sn g = gd_ack_head sn (g\<lparr>g_graph_epoch := Some (s_graph_epoch sn)\<rparr>)"
      using None True ep by (cases g) (auto simp: gd_acknowledge_def Let_def)
    have "g_failure (g\<lparr>g_graph_epoch := Some (s_graph_epoch sn)\<rparr>) = None"
      using None by simp
    then show ?thesis
    proof (cases rule: gd_ack_head_cases [of _ sn])
      case (raised e f)
      then show ?thesis using None that(1) [of e "Some f" "Some (s_graph_epoch sn)"] by (simp add: eq)
    next
      case idle
      then show ?thesis using None that(2) by (simp add: eq)
    next
      case (popped item rest n)
      then show ?thesis using None True ep that(3) [of item rest n] by (simp add: eq)
    qed
  qed
qed

section \<open>Invariant\<close>

definition gd_inv :: "graph_delivery \<Rightarrow> bool" where
  "gd_inv g \<longleftrightarrow> 1 \<le> g_capacity g \<and> g_capacity g \<le> 8 \<and> int (length (g_queue g)) \<le> g_capacity g
     \<and> 0 < g_retry_ns g \<and> g_retry_ns g < g_timeout_ns g
     \<and> sorted_wrt (<) (g_last_acked g # map p_bundle_id (g_queue g))
     \<and> (\<forall>p \<in> set (g_queue g). p_bundle_id p \<le> g_last_enqueued g)
     \<and> g_last_acked g \<le> g_last_enqueued g
     \<and> (\<forall>p \<in> set (tl (g_queue g)). p_first_sent p = None)
     \<and> (\<forall>p \<in> set (g_queue g). (p_first_sent p = None) = (p_last_sent p = None))
     \<and> 0 \<le> g_retries g \<and> g_retries g \<le> g_attempts g"

lemma gd_inv_failure [simp]: "gd_inv (g\<lparr>g_failure := f\<rparr>) = gd_inv g"
  by (simp add: gd_inv_def)

lemma gd_inv_epoch [simp]: "gd_inv (g\<lparr>g_graph_epoch := ep\<rparr>) = gd_inv g"
  by (simp add: gd_inv_def)

lemma gd_init_inv: "gd_init s m c ms ep cap r t = Inr g \<Longrightarrow> gd_inv g"
  by (auto simp: gd_init_def gd_inv_def split: pyval.splits if_splits)

lemma gd_submit_inv: "gd_inv g \<Longrightarrow> gd_inv (snd (gd_submit i ks ep b g))"
proof (cases rule: gd_submit_cases [of i ks ep b g])
  case (queued j bs)
  assume "gd_inv g"
  with queued show ?thesis
    by (cases "g_queue g") (auto simp: gd_inv_def sorted_wrt_append dest: order.strict_trans1)
qed simp

lemma gd_next_inv: "gd_inv g \<Longrightarrow> gd_inv (snd (gd_next now g))"
proof (cases rule: gd_next_cases [of now g])
  case (sent item rest item' k)
  assume "gd_inv g"
  with sent show ?thesis
    by (auto simp: gd_inv_def split: option.splits)
qed simp_all

lemma gd_acknowledge_inv: "gd_inv g \<Longrightarrow> gd_inv (snd (gd_acknowledge sn g))"
proof (cases rule: gd_acknowledge_cases [of sn g])
  case (popped item rest n)
  assume "gd_inv g"
  with popped show ?thesis
    by (cases rest) (auto simp: gd_inv_def)
qed simp_all

lemma gd_step_inv: "gd_inv g \<Longrightarrow> gd_inv (snd (gd_step e g))"
  using gd_submit_inv gd_next_inv gd_acknowledge_inv
  by (cases e) (auto simp: split_beta Let_def)

interpretation gd_keeps: preserves gd_step gd_inv
  by unfold_locales (rule gd_step_inv)

abbreviation gd_failed :: "graph_delivery \<Rightarrow> bool" where
  "gd_failed g \<equiv> g_failure g \<noteq> None"

lemma gd_step_failed:
  "g_failure g = Some f \<Longrightarrow> gd_step e g = (raise GraphDeliveryError f, g)"
  by (cases e) (simp_all add: gd_submit_def gd_ensure_capacity_def gd_next_def gd_acknowledge_def)

interpretation gd_latch: fail_stop gd_step gd_failed
  by unfold_locales (auto simp: gd_step_failed)

section \<open>First in, first out\<close>

text \<open>What one operation adds to the accepted submissions and to the acknowledged bundles.\<close>

fun gd_in :: "gd_event \<Rightarrow> graph_delivery \<Rightarrow> int list" where
  "gd_in (GSubmit i ks ep b) g = (case (i, fst (gd_submit i ks ep b g)) of
      (PInt j, Inr _) \<Rightarrow> [j] | _ \<Rightarrow> [])"
| "gd_in _ g = []"

fun gd_done :: "gd_event \<Rightarrow> graph_delivery \<Rightarrow> int list" where
  "gd_done (GAck sn) g = (if fst (gd_acknowledge sn g) = Inr True then [g_last_acked (snd (gd_acknowledge sn g))] else [])"
| "gd_done _ g = []"

fun gd_log :: "(gd_event \<Rightarrow> graph_delivery \<Rightarrow> int list) \<Rightarrow> gd_event list \<Rightarrow> graph_delivery \<Rightarrow> int list" where
  "gd_log f [] g = []"
| "gd_log f (e # es) g = f e g @ gd_log f es (snd (gd_step e g))"

lemma gd_step_fifo:
  "map p_bundle_id (g_queue g) @ gd_in e g = gd_done e g @ map p_bundle_id (g_queue (snd (gd_step e g)))"
proof (cases e)
  case (GSubmit i ks ep b)
  then show ?thesis
    by (cases rule: gd_submit_cases [of i ks ep b g]) (auto split: pyval.splits)
next
  case (GNext now)
  then show ?thesis
    by (cases rule: gd_next_cases [of now g]) auto
next
  case (GAck sn)
  then show ?thesis
    by (cases rule: gd_acknowledge_cases [of sn g]) auto
qed

lemma gd_run_fifo:
  "map p_bundle_id (g_queue g) @ gd_log gd_in es g
     = gd_log gd_done es g @ map p_bundle_id (g_queue (run_state gd_step es g))"
proof (induction es arbitrary: g)
  case Nil
  then show ?case by simp
next
  case (Cons e es)
  have "map p_bundle_id (g_queue g) @ gd_log gd_in (e # es) g
      = gd_done e g @ map p_bundle_id (g_queue (snd (gd_step e g))) @ gd_log gd_in es (snd (gd_step e g))"
    using gd_step_fifo [of g e] by (metis append.assoc gd_log.simps(2))
  then show ?case by (simp add: Cons.IH)
qed

lemma gd_in_increases: "sorted_wrt (<) (g_last_enqueued g # gd_log gd_in es g)"
proof (induction es arbitrary: g)
  case Nil
  then show ?case by simp
next
  case (Cons e es)
  let ?g = "snd (gd_step e g)"
  have step: "gd_in e g = [] \<and> g_last_enqueued ?g = g_last_enqueued g
      \<or> (\<exists>j. gd_in e g = [j] \<and> g_last_enqueued g < j \<and> g_last_enqueued ?g = j)"
  proof (cases e)
    case (GSubmit i ks ep b)
    then show ?thesis
      by (cases rule: gd_submit_cases [of i ks ep b g]) (auto split: pyval.splits)
  next
    case (GNext now)
    then show ?thesis by (cases rule: gd_next_cases [of now g]) auto
  next
    case (GAck sn)
    then show ?thesis by (cases rule: gd_acknowledge_cases [of sn g]) auto
  qed
  with Cons.IH [of ?g] show ?case by (auto dest: order.strict_trans)
qed

section \<open>Properties\<close>

definition gd_example :: graph_delivery where
  "gd_example = \<lparr>g_session = ''s'', g_source_mode = ''real'', g_calibration = ''c'',
     g_clock_models = [(''left'', ''l''), (''right'', ''r'')], g_graph_epoch = None, g_capacity = 2,
     g_retry_ns = 5, g_timeout_ns = 20, g_queue = [], g_last_enqueued = 0, g_last_acked = 0,
     g_acknowledged = 0, g_attempts = 0, g_retries = 0, g_failure = None\<rparr>"

definition gd_example_snapshot :: graph_snapshot where
  "gd_example_snapshot = \<lparr>s_session = ''s'', s_graph_epoch = ''g'', s_source_mode = ''real'',
     s_calibration = ''c'', s_left_clock = ''l'', s_right_clock = ''r'',
     s_nodes = [\<lparr>n_node_id = 1, n_odom_epoch = ''o'', n_bundle_id = 1, n_raw_keys = [''b'', ''a'']\<rparr>],
     s_index_complete = True, s_index_hash = ''h''\<rparr>"

definition gd_example_events :: "gd_event list" where
  "gd_example_events = [GSubmit (PInt 1) [''a'', ''b''] ''o'' (PBytes [7]), GNext 100, GNext 102,
     GNext 105, GSubmit (PInt 4) [''c'', ''d''] ''o'' (PBytes [8]), GAck gd_example_snapshot]"

definition gd_example_queued :: graph_delivery where
  "gd_example_queued = snd (gd_submit (PInt 1) [''a'', ''b''] ''o'' (PBytes [7]) gd_example)"

text \<open>
  C27. Delivery is first in, first out and loses nothing: in any run of a freshly constructed queue,
  the bundles accepted by \<open>submit\<close> are the acknowledged ones followed by those still waiting, in the
  same order; their ids strictly increase, so no bundle is acknowledged twice; and never more than
  the configured capacity (at most eight) wait.
\<close>

theorem gd_delivery_order:
  assumes "gd_init session mode calibration models ep capacity retry_ns timeout_ns = Inr g"
  shows "gd_log gd_in es g = gd_log gd_done es g @ map p_bundle_id (g_queue (run_state gd_step es g))
    \<and> sorted_wrt (<) (gd_log gd_in es g)
    \<and> capacity = PInt (g_capacity (run_state gd_step es g))
    \<and> int (length (g_queue (run_state gd_step es g))) \<le> g_capacity (run_state gd_step es g)
    \<and> g_capacity (run_state gd_step es g) \<le> 8"
proof -
  have cap_step: "g_capacity (snd (gd_step e h)) = g_capacity h" for e h
  proof (cases e)
    case (GSubmit i ks ep b)
    then show ?thesis by (cases rule: gd_submit_cases [of i ks ep b h]) simp_all
  next
    case (GNext now)
    then show ?thesis by (cases rule: gd_next_cases [of now h]) simp_all
  next
    case (GAck sn)
    then show ?thesis by (cases rule: gd_acknowledge_cases [of sn h]) simp_all
  qed
  have cap: "g_capacity (run_state gd_step es g) = g_capacity g"
    by (induction es arbitrary: g) (simp_all add: cap_step)
  have "g_queue g = []" "capacity = PInt (g_capacity g)"
    using assms by (auto simp: gd_init_def split: pyval.splits if_splits)
  moreover have "gd_inv (run_state gd_step es g)"
    by (rule gd_keeps.run_keeps [OF gd_init_inv [OF assms]])
  ultimately show ?thesis
    using gd_run_fifo [of g es] gd_in_increases [of g es] cap by (auto simp: gd_inv_def)
qed

theorem gd_delivery_order_witness:
  "gd_log gd_in gd_example_events gd_example = [1] @ map p_bundle_id (g_queue (run_state gd_step gd_example_events gd_example))
   \<and> g_queue (run_state gd_step gd_example_events gd_example) \<noteq> []"
proof -
  have init: "gd_init ''s'' ''real'' ''c'' [(''left'', ''l''), (''right'', ''r'')] None (PInt 2) 5 20 = Inr gd_example"
    by (simp add: gd_init_def gd_example_def)
  have log: "gd_log gd_done gd_example_events gd_example = [1]"
    "g_queue (run_state gd_step gd_example_events gd_example) \<noteq> []"
    by code_simp+
  show ?thesis
    using gd_delivery_order [OF init, of gd_example_events] log by simp
qed

text \<open>
  Retransmission policy: \<open>next_payload\<close> only ever sends the payload of the oldest unacknowledged
  bundle; it sends it again no earlier than the retry interval after its last transmission and never
  once the acknowledgement timeout since the first one has run out; every other waiting bundle stays
  unsent.
\<close>

lemma gd_transmits_head_only:
  assumes "gd_inv g" and "gd_next now g = (Inr (Some payload), g')"
  shows "g_queue g \<noteq> [] \<and> payload = p_payload (hd (g_queue g))
    \<and> (\<forall>t. p_last_sent (hd (g_queue g)) = Some t \<longrightarrow> g_retry_ns g \<le> now - t)
    \<and> (\<forall>t. p_first_sent (hd (g_queue g)) = Some t \<longrightarrow> now - t < g_timeout_ns g)
    \<and> p_last_sent (hd (g_queue g')) = Some now \<and> tl (g_queue g') = tl (g_queue g)
    \<and> (\<forall>p \<in> set (tl (g_queue g')). p_first_sent p = None \<and> p_last_sent p = None)"
proof (cases rule: gd_next_cases [of now g])
  case (sent item rest item' k)
  with assms show ?thesis
    by (auto simp: gd_inv_def)
qed (use assms in auto)

text \<open>
  An acknowledgement is accepted only for the bundle in flight and only on exact evidence: the
  snapshot is from this session, source, calibration, clock models and graph epoch, it holds exactly
  one node with the bundle's id, that node carries the same id, odometry epoch and the same two raw
  keys up to order, and the payload had been sent.
\<close>

lemma gd_ack_is_exact:
  assumes "gd_acknowledge sn g = (Inr True, g')"
  shows "\<exists>item rest n. g_queue g = item # rest \<and> g_queue g' = rest \<and> g_last_acked g' = p_bundle_id item
    \<and> p_first_sent item \<noteq> None
    \<and> filter (\<lambda>n. n_bundle_id n = p_bundle_id item) (s_nodes sn) = [n]
    \<and> n_node_id n = p_bundle_id item \<and> n_odom_epoch n = p_odom_epoch item
    \<and> mset (n_raw_keys n) = mset (p_raw_keys item)
    \<and> s_session sn = g_session g \<and> s_source_mode sn = g_source_mode g \<and> s_calibration sn = g_calibration g
    \<and> map_of (g_clock_models g) ''left'' = Some (s_left_clock sn)
    \<and> map_of (g_clock_models g) ''right'' = Some (s_right_clock sn)
    \<and> s_index_complete sn \<and> g_graph_epoch g' = Some (s_graph_epoch sn)
    \<and> g_graph_epoch g \<in> {None, Some (s_graph_epoch sn)}"
proof (cases rule: gd_acknowledge_cases [of sn g])
  case (popped item rest n)
  have keys: "mset (n_raw_keys n) = mset (p_raw_keys item)"
    using popped(3) by (metis gd_mismatch_def list.sel(1) mset_sort)
  have prov: "s_session sn = g_session g \<and> s_source_mode sn = g_source_mode g
      \<and> s_calibration sn = g_calibration g \<and> s_index_complete sn
      \<and> map_of (g_clock_models g) ''left'' = Some (s_left_clock sn)
      \<and> map_of (g_clock_models g) ''right'' = Some (s_right_clock sn)"
    using popped(5) by (auto simp: gd_provenance_bad_def split: if_splits option.splits)
  show ?thesis
    using assms popped keys prov by (auto simp: gd_matches_def gd_mismatch_def)
qed (use assms in auto)

text \<open>
  A failure latches: once the queue has failed, every later operation raises
  \<open>GraphDeliveryError\<close> with the first reason and nothing in the object changes.
\<close>

lemma gd_failure_latches:
  assumes "g_failure g = Some reason"
  shows "run_state gd_step es g = g
    \<and> (\<forall>r \<in> set (run_outs gd_step es g). r = raise GraphDeliveryError reason)"
  by (induction es) (simp_all add: gd_step_failed [OF assms])

end
