(* ===== verification/Modbus_Protocol.thy ===== *)
theory Modbus_Protocol
  imports Py_Value
begin

text \<open>
  \<open>src/src/wc_motion/protocol.py\<close>: the Modbus RTU feedback protocol: CRC-16, the FC03 read request
  builder, the matched request/response decoder, register fields, the verified register profile and
  the read-only query client.

  Bytes are \<open>8 word\<close> lists; the CRC register, which the source keeps in an unbounded integer that
  starts at \<open>0xffff\<close>, is a \<open>16 word\<close>, and \<open>crc_round_int\<close> below shows that the integer loop and the
  16-bit one agree. Configuration values are \<open>pyval\<close>s, so the type tests of the source are explicit.
\<close>

unbundle bit_operations_syntax

section \<open>Integers with bounds\<close>

definition show_upper :: "int option \<Rightarrow> string" where
  "show_upper u = (case u of None \<Rightarrow> ''None'' | Some i \<Rightarrow> show_int i)"

definition integer :: "pyval \<Rightarrow> string \<Rightarrow> int \<Rightarrow> int option \<Rightarrow> exc + int" where
  "integer value name lower upper =
     (let bad = raise FeedbackError (name @ '' must be integer in ['' @ show_int lower @ '', ''
                                     @ show_upper upper @ '']'')
      in case value of
           PInt i \<Rightarrow> if i < lower \<or> (case upper of None \<Rightarrow> False | Some u \<Rightarrow> u < i) then bad else Inr i
         | _ \<Rightarrow> bad)"

lemma integer_eq_Inr [result_simps]:
  "integer v n l u = Inr i \<longleftrightarrow> v = PInt i \<and> l \<le> i \<and> (\<forall>m. u = Some m \<longrightarrow> i \<le> m)"
  by (cases v) (auto simp: integer_def Let_def split: option.splits)

lemma integer_ok [simp]:
  "l \<le> i \<Longrightarrow> i \<le> u \<Longrightarrow> integer (PInt i) n l (Some u) = Inr i"
  by (simp add: result_simps)

section \<open>CRC-16\<close>

definition crc_round :: "16 word \<Rightarrow> 16 word" where
  "crc_round crc = drop_bit 1 crc XOR (if crc AND 1 \<noteq> 0 then 0xA001 else 0)"

definition crc_byte :: "16 word \<Rightarrow> 8 word \<Rightarrow> 16 word" where
  "crc_byte crc b = (crc_round ^^ 8) (crc XOR ucast b)"

definition crc_value :: "bytes \<Rightarrow> 16 word" where
  "crc_value payload = foldl crc_byte 0xFFFF payload"

text \<open>\<open>struct.pack('<H', crc)\<close>: low byte first.\<close>

definition crc16 :: "bytes \<Rightarrow> bytes" where
  "crc16 payload = (let crc = crc_value payload in [ucast crc, ucast (drop_bit 8 crc)])"

text \<open>Evaluation on literals: each rule fires on a numeral only, so the register is never duplicated.\<close>

lemma crc_round_odd: "crc_round w = (if odd w then drop_bit 1 w XOR 0xA001 else drop_bit 1 w)"
  by (simp add: crc_round_def and_one_eq odd_iff_mod_2_eq_one)

lemma crc_byte_unrolled: "crc_byte w b = crc_round (crc_round (crc_round (crc_round (crc_round (crc_round
    (crc_round (crc_round (w XOR ucast b))))))))"
  by (simp add: crc_byte_def numeral_eq_Suc)

lemmas crc_eval = crc_value_def crc_round_odd [of "numeral n" for n] crc_round_odd [of 0] crc_round_odd [of 1]
  crc_byte_unrolled [of "numeral n" for n] crc_byte_unrolled [of 0] crc_byte_unrolled [of 1]

text \<open>The inner loop on Python's unbounded integers stays below \<open>2 ^ 16\<close> and is the 16-bit one.\<close>

definition crc_round_int :: "int \<Rightarrow> int" where
  "crc_round_int crc = drop_bit 1 crc XOR (if crc AND 1 \<noteq> 0 then 0xA001 else 0)"

lemma and_one_word [simp]: "(w AND 1 \<noteq> 0) = odd (w :: 16 word)"
  by (simp add: and_one_eq odd_iff_mod_2_eq_one)

lemma xor_cancel_right [simp]: "(a XOR c = b XOR c) = (a = (b :: 'a :: len word))"
  by (metis xor.right_neutral xor_self_eq xor.assoc)

lemma xor_cancel_left [simp]: "(c XOR a = c XOR b) = (a = (b :: 'a :: len word))"
  by (simp add: xor.commute [of c])

lemma ucast_8_16_inj [simp]: "((ucast b :: 16 word) = ucast c) = (b = (c :: 8 word))"
proof
  assume eq: "(ucast b :: 16 word) = ucast c"
  show "b = c"
  proof (rule bit_word_eqI)
    fix n assume "n < LENGTH(8)"
    then show "bit b n = bit c n"
      using arg_cong [OF eq, of "\<lambda>w. bit w n"] by (simp add: bit_simps)
  qed
qed simp

lemma crc_round_int_eq: "crc_round_int (uint w) = uint (crc_round w)"
proof -
  have "odd (uint w) = odd w"
    using bit_uint_iff [of w 0] by (simp add: bit_0)
  moreover have "(uint w AND 1 \<noteq> 0) = odd (uint w)"
    by (simp add: and_one_eq odd_iff_mod_2_eq_one)
  moreover have "take_bit 16 (uint w) = uint w"
    by (rule take_bit_int_eq_self) (use uint_bounded [of w] in simp_all)
  ultimately show ?thesis
    by (simp add: crc_round_int_def crc_round_def unsigned_xor_eq unsigned_drop_bit_eq)
qed

lemma crc_round_top: "bit (crc_round w) 15 = odd w"
  by (auto simp: crc_round_def bit_simps dest: bit_imp_le_length)

lemma crc_round_inj: "crc_round v = crc_round w \<Longrightarrow> v = w"
proof -
  assume eq: "crc_round v = crc_round w"
  then have odd: "odd v = odd w"
    by (metis crc_round_top)
  with eq have "drop_bit 1 v = drop_bit 1 w"
    by (auto simp: crc_round_def split: if_splits)
  then have upper: "bit v (Suc n) = bit w (Suc n)" for n
    by (metis bit_drop_bit_eq plus_1_eq_Suc comp_apply)
  show "v = w"
  proof (rule bit_eqI)
    fix n
    show "bit v n = bit w n"
      using odd upper by (cases n) (simp_all add: bit_0)
  qed
qed

lemma crc_rounds_inj: "(crc_round ^^ n) v = (crc_round ^^ n) w \<Longrightarrow> v = w"
  by (induction n arbitrary: v w) (auto dest: crc_round_inj simp del: funpow.simps simp: funpow_swap1 funpow.simps(1) funpow_Suc_right)

lemma crc_byte_inj_crc: "crc_byte v b = crc_byte w b \<Longrightarrow> v = w"
proof -
  assume "crc_byte v b = crc_byte w b"
  then show "v = w"
    by (auto simp: crc_byte_def dest: crc_rounds_inj)
qed

lemma crc_byte_inj_byte: "crc_byte v b = crc_byte v c \<Longrightarrow> b = c"
proof -
  assume "crc_byte v b = crc_byte v c"
  then show "b = c"
    by (auto simp: crc_byte_def dest: crc_rounds_inj)
qed

lemma foldl_crc_inj: "foldl crc_byte v bs = foldl crc_byte w bs \<Longrightarrow> v = w"
  by (induction bs arbitrary: v w) (auto dest: crc_byte_inj_crc)

text \<open>Changing one byte of a payload always changes its CRC.\<close>

lemma crc_value_one_byte:
  assumes "i < length bs" "b \<noteq> bs ! i"
  shows "crc_value (bs[i := b]) \<noteq> crc_value bs"
proof
  assume eq: "crc_value (bs[i := b]) = crc_value bs"
  let ?v = "foldl crc_byte 0xFFFF (take i bs)"
  have "bs[i := b] = take i bs @ b # drop (Suc i) bs"
    using assms(1) by (rule upd_conv_take_nth_drop)
  moreover have "bs = take i bs @ bs ! i # drop (Suc i) bs"
    using assms(1) by (rule id_take_nth_drop)
  ultimately have "foldl crc_byte (crc_byte ?v b) (drop (Suc i) bs)
      = foldl crc_byte (crc_byte ?v (bs ! i)) (drop (Suc i) bs)"
    using eq by (metis crc_value_def foldl_Cons foldl_append)
  then have "b = bs ! i"
    by (rule crc_byte_inj_byte [OF foldl_crc_inj])
  with assms(2) show False by simp
qed

lemma crc16_inj: "crc16 bs = crc16 cs \<longleftrightarrow> crc_value bs = crc_value cs"
proof
  assume "crc16 bs = crc16 cs"
  then have low: "(ucast (crc_value bs) :: 8 word) = ucast (crc_value cs)"
    and high: "(ucast (drop_bit 8 (crc_value bs)) :: 8 word) = ucast (drop_bit 8 (crc_value cs))"
    by (simp_all add: crc16_def Let_def)
  show "crc_value bs = crc_value cs"
  proof (rule bit_word_eqI)
    fix n assume n: "n < LENGTH(16)"
    have "bit (crc_value bs) k = bit (crc_value cs) k" if "k < 8" for k
      using arg_cong [OF low, of "\<lambda>w. bit w k"] that by (simp add: bit_simps)
    moreover have "bit (crc_value bs) (8 + k) = bit (crc_value cs) (8 + k)" if "k < 8" for k
      using arg_cong [OF high, of "\<lambda>w. bit w k"] that by (simp add: bit_simps)
    ultimately show "bit (crc_value bs) n = bit (crc_value cs) n"
      using n by (cases "n < 8") (auto simp: not_less dest!: le_Suc_ex)
  qed
qed (simp add: crc16_def)

lemma crc16_length [simp]: "length (crc16 bs) = 2"
  by (simp add: crc16_def Let_def)

section \<open>Frames\<close>

text \<open>\<open>struct.pack('>H', i)\<close> and its inverse on a list of such words.\<close>

definition be16 :: "int \<Rightarrow> bytes" where
  "be16 i = [word_of_int (i div 256), word_of_int i]"

fun be_words :: "bytes \<Rightarrow> int list" where
  "be_words (h # l # rest) = (uint h * 256 + uint l) # be_words rest"
| "be_words _ = []"

definition checked_frame :: "bytes \<Rightarrow> exc + bytes" where
  "checked_frame frame =
     (if \<not> (5 \<le> length frame \<and> length frame \<le> 256)
         \<or> crc16 (take (length frame - 2) frame) \<noteq> drop (length frame - 2) frame
      then raise FeedbackError ''invalid RTU length or CRC'' else Inr frame)"

definition read_request :: "pyval \<Rightarrow> pyval \<Rightarrow> pyval \<Rightarrow> exc + bytes" where
  "read_request slave address count =
     bindr (integer slave ''slave'' 1 (Some 247)) (\<lambda>s.
     bindr (integer address ''address'' 0 (Some 65535)) (\<lambda>a.
     bindr (integer count ''count'' 1 (Some 125)) (\<lambda>c.
       if 65536 < a + c then raise FeedbackError ''register range overflow''
       else let payload = [word_of_int s, 3] @ be16 a @ be16 c in Inr (payload @ crc16 payload))))"

text \<open>\<open>parse_exchange\<close>: the matched request names the registers, an FC03 response does not.\<close>

definition parse_exchange :: "bytes \<Rightarrow> bytes \<Rightarrow> exc + (int \<times> int \<times> int list)" where
  "parse_exchange request response =
     bindr (checked_frame request) (\<lambda>request.
     bindr (checked_frame response) (\<lambda>response.
       if length request \<noteq> 8 \<or> request ! 1 \<noteq> 3 \<or> \<not> (1 \<le> uint (request ! 0) \<and> uint (request ! 0) \<le> 247)
       then raise FeedbackError ''only unicast FC03 read requests are accepted''
       else let slave = uint (request ! 0); address = hd (be_words (slice 2 4 request));
                count = hd (be_words (slice 4 6 request))
            in bindr (read_request (PInt slave) (PInt address) (PInt count)) (\<lambda>expected.
               if request \<noteq> expected then raise FeedbackError ''invalid FC03 request''
               else if uint (response ! 0) \<noteq> slave then raise FeedbackError ''response slave mismatch''
               else if response ! 1 = 0x83
               then raise FeedbackError (''Modbus read exception '' @ show_int (uint (response ! 2)))
               else if response ! 1 \<noteq> 3 \<or> uint (response ! 2) \<noteq> count * 2
                    \<or> int (length response) \<noteq> 5 + count * 2
               then raise FeedbackError ''response function/byte count mismatch''
               else Inr (slave, address, be_words (slice 3 (length response - 2) response)))))"

text \<open>The frame an FC03 slave sends for the register words \<open>ws\<close>.\<close>

definition read_response :: "int \<Rightarrow> int list \<Rightarrow> bytes" where
  "read_response slave ws = (let payload = [word_of_int slave, 3, word_of_int (2 * int (length ws))]
     @ concat (map be16 ws) in payload @ crc16 payload)"

lemma checked_frame_eq_Inr [result_simps]:
  "checked_frame f = Inr g \<longleftrightarrow> g = f \<and> 5 \<le> length f \<and> length f \<le> 256
     \<and> crc16 (take (length f - 2) f) = drop (length f - 2) f"
  by (auto simp: checked_frame_def)

lemma checked_frame_append_crc [simp]:
  "checked_frame (p @ crc16 p) = Inr (p @ crc16 p) \<longleftrightarrow> 3 \<le> length p \<and> length p \<le> 254"
  by (auto simp: checked_frame_def)

lemma read_request_eq_Inr:
  "read_request (PInt s) (PInt a) (PInt c) = Inr req \<longleftrightarrow>
     1 \<le> s \<and> s \<le> 247 \<and> 0 \<le> a \<and> a + c \<le> 65536 \<and> 1 \<le> c \<and> c \<le> 125
     \<and> req = ([word_of_int s, 3] @ be16 a @ be16 c) @ crc16 ([word_of_int s, 3] @ be16 a @ be16 c)"
  by (auto simp: read_request_def result_simps Let_def)

lemma uint_word8 [simp]: "0 \<le> i \<Longrightarrow> i < 256 \<Longrightarrow> uint (word_of_int i :: 8 word) = i"
  by (simp add: uint_word_of_int)

lemma uint_word8_mod [simp]: "uint (word_of_int i :: 8 word) = i mod 256"
  by (simp add: uint_word_of_int)

lemma be16_value [simp]: "0 \<le> i \<Longrightarrow> i < 65536 \<Longrightarrow> be_words (be16 i @ rest) = i # be_words rest"
  by (simp add: be16_def mod_mod_trivial)

lemma be16_length [simp]: "length (be16 i) = 2"
  by (simp add: be16_def)

lemma be_words_be16s:
  "\<forall>w \<in> set ws. 0 \<le> w \<and> w < 65536 \<Longrightarrow> be_words (concat (map be16 ws)) = ws"
  by (induction ws) simp_all

lemma length_be16s [simp]: "length (concat (map be16 ws)) = 2 * length ws"
  by (induction ws) simp_all

lemma be_words_range: "w \<in> set (be_words bs) \<Longrightarrow> 0 \<le> w \<and> w < 65536"
proof (induction bs rule: be_words.induct)
  case (1 h l rest)
  have "uint h < 256" "uint l < 256" "0 \<le> uint h" "0 \<le> uint l"
    using uint_bounded [of h] uint_bounded [of l] by simp_all
  with 1 show ?case by auto
qed simp_all

lemma be16_be_words: "even (length bs) \<Longrightarrow> concat (map be16 (be_words bs)) = bs"
proof (induction bs rule: be_words.induct)
  case (1 h l rest)
  have "uint l < 256" "0 \<le> uint l"
    using uint_bounded [of l] by simp_all
  then have "(uint h * 256 + uint l) div 256 = uint h"
    by simp
  moreover have "h * 256 = 0"
  proof -
    have "(256 :: 8 word) = 0" by simp
    then show ?thesis by (simp only: mult_zero_right)
  qed
  ultimately show ?case
    using 1 by (simp add: be16_def)
qed simp_all

lemma length_be_words: "length (be_words bs) = length bs div 2"
  by (induction bs rule: be_words.induct) simp_all

lemma read_request_length:
  "read_request (PInt s) (PInt a) (PInt c) = Inr req \<Longrightarrow> length req = 8"
  by (auto simp: read_request_eq_Inr)

lemma read_request_fields:
  assumes "read_request (PInt s) (PInt a) (PInt c) = Inr req"
  shows "checked_frame req = Inr req" "length req = 8" "req ! 1 = 3" "uint (req ! 0) = s"
    "be_words (slice 2 4 req) = [a]" "be_words (slice 4 6 req) = [c]"
  using assms by (auto simp: read_request_eq_Inr slice_def be16_def mod_mod_trivial checked_frame_def crc16_def
      Let_def numeral_eq_Suc)

text \<open>The two directions of the codec, for the decoder's characterisation.\<close>

lemma read_response_shape:
  "length (read_response s ws) = 5 + 2 * length ws"
  "read_response s ws ! 0 = word_of_int s" "read_response s ws ! Suc 0 = 3"
  "read_response s ws ! 2 = word_of_int (2 * int (length ws))"
  "slice 3 (length (read_response s ws) - 2) (read_response s ws) = concat (map be16 ws)"
  by (simp_all add: read_response_def slice_def Let_def numeral_eq_Suc)

lemma read_response_checked:
  "length ws \<le> 125 \<Longrightarrow> checked_frame (read_response s ws) = Inr (read_response s ws)"
  unfolding read_response_def Let_def by (subst checked_frame_append_crc) simp

lemma response_rebuild:
  assumes "checked_frame resp = Inr resp" "uint (resp ! 0) = s" "resp ! 1 = 3"
    and "uint (resp ! 2) = c * 2" "int (length resp) = 5 + c * 2"
    and "ws = be_words (slice 3 (length resp - 2) resp)"
  shows "resp = read_response s ws" "int (length ws) = c"
proof -
  let ?body = "slice 3 (length resp - 2) resp"
  have c0: "0 \<le> c"
  proof -
    have "0 \<le> uint (resp ! 2)" by simp
    with assms(4) show ?thesis by linarith
  qed
  then have len: "length ?body = 2 * nat c" "3 \<le> length resp - 2"
    using assms(5) by (auto simp: slice_def)
  then show c: "int (length ws) = c"
    using assms(6) c0 by (simp add: length_be_words)
  have body: "concat (map be16 ws) = ?body"
    using assms(6) len by (simp add: be16_be_words)
  have crc: "resp = take (length resp - 2) resp @ crc16 (take (length resp - 2) resp)"
    using assms(1) by (simp add: result_simps)
  have "3 \<le> length resp"
    using len(2) by simp
  then obtain r0 r1 r2 rest where r: "resp = r0 # r1 # r2 # rest"
    by (auto simp: Suc_le_length_iff numeral_3_eq_3)
  then have "take (length resp - 2) resp = resp ! 0 # resp ! 1 # resp ! 2 # ?body"
    using len(2) by (auto simp: slice_def Suc_le_length_iff numeral_3_eq_3)
  moreover have "resp ! 0 = word_of_int s" "resp ! 2 = word_of_int (2 * int (length ws))"
    using assms(2,4) c by (metis word_of_int_uint mult.commute)+
  ultimately show "resp = read_response s ws"
    using crc body assms(3) by (simp add: read_response_def)
qed

lemma parse_exchange_iff:
  "parse_exchange req resp = Inr (s, a, ws) \<longleftrightarrow>
     read_request (PInt s) (PInt a) (PInt (int (length ws))) = Inr req
     \<and> resp = read_response s ws \<and> (\<forall>w \<in> set ws. 0 \<le> w \<and> w < 65536)" (is "?L \<longleftrightarrow> ?R")
proof
  assume ?L
  let ?c = "hd (be_words (slice 4 6 req))"
  from \<open>?L\<close> have req: "read_request (PInt s) (PInt a) (PInt ?c) = Inr req"
    and resp: "checked_frame resp = Inr resp" "uint (resp ! 0) = s" "resp ! 1 = 3"
      "uint (resp ! 2) = ?c * 2" "int (length resp) = 5 + ?c * 2"
    and ws: "ws = be_words (slice 3 (length resp - 2) resp)"
    by (auto simp: parse_exchange_def result_simps Let_def split: if_splits)
  from response_rebuild [OF resp ws] req show ?R
    by (auto simp: ws dest: be_words_range)
next
  assume R: ?R
  then have req: "read_request (PInt s) (PInt a) (PInt (int (length ws))) = Inr req"
    and resp: "resp = read_response s ws" and ws: "\<forall>w \<in> set ws. 0 \<le> w \<and> w < 65536"
    by auto
  from req have s: "1 \<le> s" "s \<le> 247" "length ws \<le> 125"
    by (auto simp: read_request_eq_Inr)
  note fields = read_request_fields [OF req]
  have count: "uint (read_response s ws ! 2) = int (length ws) * 2"
    unfolding read_response_shape(4) using s by (subst uint_word8) simp_all
  have "parse_exchange req resp = Inr (s, a, be_words (slice 3 (length resp - 2) resp))"
    using fields s req resp
    by (simp add: parse_exchange_def read_response_checked read_response_shape(1-3) count Let_def)
  then show ?L
    using ws by (simp add: resp read_response_shape(5) be_words_be16s)
qed

section \<open>Register fields\<close>

record field =
  f_address :: int
  f_words :: pyval
  f_signed :: bool
  f_order :: string
  f_scale :: pyval
  f_unit :: string

text \<open>\<open>Field.from_dict\<close>. \<open>cls(**data)\<close> wants exactly the six names. \<open>words\<close> is only compared with
  1 and 2, so a float \<open>1.0\<close> or \<open>2.0\<close> passes here and fails as a slice bound in \<open>decode\<close>.\<close>

definition field_names :: "string list" where
  "field_names = [''address'', ''words'', ''signed'', ''word_order'', ''scale'', ''unit'']"

definition scale_ok :: "pyval \<Rightarrow> exc + bool" where
  "scale_ok scale = (case scale of
       PInt _ \<Rightarrow> bindr (py_isfinite scale) (\<lambda>fin. Inr (fin \<and> \<not> py_le scale (PInt 0)))
     | PFloat _ \<Rightarrow> bindr (py_isfinite scale) (\<lambda>fin. Inr (fin \<and> \<not> py_le scale (PInt 0)))
     | _ \<Rightarrow> Inr False)"

definition field_from_dict :: "pyval \<Rightarrow> exc + field" where
  "field_from_dict data = (case data of
     PDict d \<Rightarrow>
       if \<not> (set (map fst d) = set field_names)
       then raise TypeError ''Field.__init__() arguments do not match''
       else let words = dget d ''words''; sgnd = dget d ''signed''; order = dget d ''word_order'';
                scale = dget d ''scale''; unt = dget d ''unit''
       in bindr (integer (dget d ''address'') ''field address'' 0 (Some 65535)) (\<lambda>address.
          if \<not> (py_eq words (PInt 1) \<or> py_eq words (PInt 2)) \<or> is_bool words
             \<or> py_lt (PInt 65536) (py_add (PInt address) words)
          then raise FeedbackError ''field must contain one or two registers''
          else if \<not> is_bool sgnd \<or> order \<notin> {PStr ''big'', PStr ''little''}
          then raise FeedbackError ''explicit signedness and word_order required''
          else bindr (scale_ok scale) (\<lambda>ok.
          if \<not> ok then raise FeedbackError ''positive finite unit scale required''
          else if unt \<notin> {PStr ''motor_rpm'', PStr ''motor_counts''}
          then raise FeedbackError ''unknown feedback unit''
          else if unt = PStr ''motor_counts'' \<and> \<not> py_eq scale (PInt 1)
          then raise FeedbackError ''position counts must remain exact integers; scale must be one''
          else Inr \<lparr>f_address = address, f_words = words, f_signed = (sgnd = PBool True),
                     f_order = (if order = PStr ''big'' then ''big'' else ''little''), f_scale = scale,
                     f_unit = (if unt = PStr ''motor_rpm'' then ''motor_rpm'' else ''motor_counts'')\<rparr>))
   | _ \<Rightarrow> raise TypeError ''argument after ** must be a mapping'')"

text \<open>\<open>int.from_bytes(..., 'big', signed=...)\<close> of a list of 16-bit words.\<close>

definition words_value :: "bool \<Rightarrow> int list \<Rightarrow> int" where
  "words_value sgnd ws = (let v = foldl (\<lambda>a w. a * 65536 + w) 0 ws; n = 16 * length ws
     in if sgnd \<and> 2 ^ n \<le> 2 * v then v - 2 ^ n else v)"

definition field_decode :: "field \<Rightarrow> int \<Rightarrow> int list \<Rightarrow> exc + pyval" where
  "field_decode f start values =
     (let offset = f_address f - start
      in if offset < 0 \<or> py_lt (PInt (int (length values))) (py_add (PInt offset) (f_words f))
         then raise FeedbackError ''reply does not contain both complete wheel fields''
         else case f_words f of
           PInt w \<Rightarrow>
             let ws = slice (nat offset) (nat (offset + w)) values;
                 ws' = (if f_order f = ''little'' then rev ws else ws);
                 value = words_value (f_signed f) ws'
             in Inr (if f_unit f = ''motor_counts'' then PInt value else py_mul (PInt value) (f_scale f))
         | _ \<Rightarrow> raise TypeError ''slice indices must be integers'')"

section \<open>The verified register profile\<close>

record profile =
  fp_slave :: int
  fp_device :: string
  fp_fields :: "(string \<times> field) list"
  fp_allowed :: "(int \<times> int) list"

text \<open>Iterating over a JSON value and subscripting it with a number.\<close>

definition py_iter :: "pyval \<Rightarrow> exc + pyval list" where
  "py_iter v = (case v of PList xs \<Rightarrow> Inr xs | PStr s \<Rightarrow> Inr (map (\<lambda>c. PStr [c]) s)
     | PDict d \<Rightarrow> Inr (map (\<lambda>(k, _). PStr k) d) | PBytes bs \<Rightarrow> Inr (map (\<lambda>b. PInt (uint b)) bs)
     | _ \<Rightarrow> raise TypeError ''object is not iterable'')"

definition py_at :: "pyval \<Rightarrow> nat \<Rightarrow> exc + pyval" where
  "py_at v i = (case v of
       PList xs \<Rightarrow> if i < length xs then Inr (xs ! i) else raise IndexError ''list index out of range''
     | PStr s \<Rightarrow> if i < length s then Inr (PStr [s ! i]) else raise IndexError ''string index out of range''
     | PBytes bs \<Rightarrow> if i < length bs then Inr (PInt (uint (bs ! i))) else raise IndexError ''index out of range''
     | PDict _ \<Rightarrow> raise KeyError (show_int (int i))
     | _ \<Rightarrow> raise TypeError ''object is not subscriptable'')"

definition ends_with :: "string \<Rightarrow> string \<Rightarrow> bool" where
  "ends_with s t \<longleftrightarrow> suffix t s"

definition profile_fields :: "pydict \<Rightarrow> exc + (string \<times> field) list" where
  "profile_fields config = (case dget_or config ''fields'' (PDict []) of
       PDict d \<Rightarrow> mapr (\<lambda>(k, v). bindr (field_from_dict v) (\<lambda>f. Inr (k, f))) d
     | _ \<Rightarrow> raise AttributeError ''items'')"

definition field_sets_ok :: "string set \<Rightarrow> bool" where
  "field_sets_ok names \<longleftrightarrow> names = {''left_velocity'', ''right_velocity''}
     \<or> names = {''left_position'', ''right_position''}
     \<or> names = {''left_position'', ''right_position'', ''left_velocity'', ''right_velocity''}"

definition profile_reads :: "pydict \<Rightarrow> exc + (int \<times> int) list" where
  "profile_reads config = bindr (py_iter (dget_or config ''allowed_reads'' (PList []))) (mapr (\<lambda>x.
     bindr (py_at x 0) (\<lambda>a. bindr (integer a ''read start'' 0 (Some 65535)) (\<lambda>start.
     bindr (py_at x 1) (\<lambda>c. bindr (integer c ''read count'' 1 (Some 125)) (\<lambda>count.
       Inr (start, count)))))))"

definition profile_init :: "pydict \<Rightarrow> exc + profile" where
  "profile_init config =
     (if dget config ''protocol_verified'' \<noteq> PBool True \<or> \<not> py_true (dget config ''protocol_evidence'')
      then raise FeedbackError ''confirmed model-specific protocol evidence is required''
      else if dget config ''model'' \<noteq> PStr ''ZLAC8030D''
      then raise FeedbackError ''only an explicitly confirmed ZLAC8030D profile is accepted''
      else bindr (integer (dget config ''slave_id'') ''slave_id'' 1 (Some 247)) (\<lambda>slave.
      case dget config ''device_id'' of
        PStr device \<Rightarrow>
          if device = [] then raise FeedbackError ''unique physical device_id required''
          else bindr (profile_fields config) (\<lambda>fields.
          if \<not> field_sets_ok (set (map fst fields))
          then raise FeedbackError ''matching left/right position and/or velocity fields required''
          else if list_ex (\<lambda>(name, f). f_unit f \<noteq> (if ends_with name ''velocity'' then ''motor_rpm'' else ''motor_counts'')) fields
          then raise FeedbackError ''field/unit mismatch''
          else if (case (map_of fields ''left_position'', map_of fields ''right_position'') of
                     (Some l, Some r) \<Rightarrow> \<not> py_eq (f_words l) (f_words r) | _ \<Rightarrow> False)
          then raise FeedbackError ''left/right count widths must match''
          else bindr (profile_reads config) (\<lambda>reads.
          if reads = [] then raise FeedbackError ''explicit read-only register whitelist required''
          else bindr (mapr (\<lambda>(a, c). read_request (PInt slave) (PInt a) (PInt c)) reads) (\<lambda>_.
            Inr \<lparr>fp_slave = slave, fp_device = device, fp_fields = fields, fp_allowed = reads\<rparr>)))
      | _ \<Rightarrow> raise FeedbackError ''unique physical device_id required''))"

definition hex_field :: "pydict \<Rightarrow> string \<Rightarrow> bytes option" where
  "hex_field record k = (case map_of record k of Some (PStr s) \<Rightarrow> from_hex s | _ \<Rightarrow> None)"

definition profile_decode :: "profile \<Rightarrow> pydict \<Rightarrow> exc + (string \<times> pyval) list" where
  "profile_decode p record =
     (if dget record ''schema'' \<noteq> PStr ''wc_wheel_feedback_v1'' \<or> dget record ''device_id'' \<noteq> PStr (fp_device p)
      then raise FeedbackError ''schema or physical device identity mismatch''
      else case (hex_field record ''request_hex'', hex_field record ''response_hex'') of
        (Some request, Some response) \<Rightarrow>
          bindr (parse_exchange request response) (\<lambda>(slave, start, words).
          if slave \<noteq> fp_slave p \<or> (start, int (length words)) \<notin> set (fp_allowed p)
          then raise FeedbackError ''exchange outside verified read-only whitelist''
          else mapr (\<lambda>(name, f). bindr (field_decode f start words) (\<lambda>v. Inr (name, v))) (fp_fields p))
      | _ \<Rightarrow> raise FeedbackError ''matched request/response hex required'')"

definition validated_query :: "profile \<Rightarrow> bytes \<Rightarrow> exc + bytes" where
  "validated_query p request =
     bindr (checked_frame request) (\<lambda>frame.
     if length frame \<noteq> 8 \<or> frame ! 1 \<noteq> 3 then raise FeedbackError ''only FC03 queries allowed''
     else let slave = uint (frame ! 0); address = hd (be_words (slice 2 4 frame));
              count = hd (be_words (slice 4 6 frame))
     in if slave \<noteq> fp_slave p \<or> (address, count) \<notin> set (fp_allowed p)
        then raise FeedbackError ''query outside verified whitelist''
        else bindr (read_request (PInt slave) (PInt address) (PInt count)) (\<lambda>expected.
          if frame \<noteq> expected then raise FeedbackError ''query outside verified whitelist'' else Inr frame))"

section \<open>The read-only client\<close>

text \<open>
  The transport is a parameter: \<open>written\<close> is what its \<open>write\<close> returns, \<open>chunks\<close> what its successive
  \<open>read\<close> calls return; a script that has run out reads as the empty chunk of a timeout or EOF.
\<close>

fun client_receive :: "bytes list \<Rightarrow> nat \<Rightarrow> bytes \<Rightarrow> exc + bytes" where
  "client_receive chunks expected response =
     (if expected \<le> length response then Inr response
      else case chunks of
        [] \<Rightarrow> raise FeedbackError ''read timeout/EOF; no retry''
      | chunk # rest \<Rightarrow>
          if chunk = [] then raise FeedbackError ''read timeout/EOF; no retry''
          else let response = response @ chunk;
                   expected = (if 2 \<le> length response \<and> response ! 1 = 0x83 then 5 else expected)
               in if expected < length response then raise FeedbackError ''response overflow''
                  else client_receive rest expected response)"

declare client_receive.simps [simp del]

text \<open>The result and the frames handed to the transport's \<open>write\<close>.\<close>

definition read_feedback :: "profile \<Rightarrow> pyval \<Rightarrow> nat \<Rightarrow> bytes list \<Rightarrow> pyval \<Rightarrow> pyval
    \<Rightarrow> (exc + bytes \<times> bytes) \<times> bytes list" where
  "read_feedback p allow written chunks address count =
     (if allow \<noteq> PBool True then (raise FeedbackError ''active read queries disabled'', [])
      else case bindr (read_request (PInt (fp_slave p)) address count) (validated_query p) of
        Inl e \<Rightarrow> (Inl e, [])
      | Inr request \<Rightarrow>
          (if written \<noteq> length request
           then raise FeedbackError ''short FC03 request transmission; no retry''
           else let expected = (case count of PInt c \<Rightarrow> nat (5 + c * 2) | _ \<Rightarrow> 0)
                in bindr (client_receive chunks expected []) (\<lambda>response.
                   bindr (parse_exchange request response) (\<lambda>_. Inr (request, response))),
           [request]))"

section \<open>Properties\<close>

lemma checked_frame_split:
  "checked_frame f = Inr f \<longleftrightarrow> (\<exists>p. f = p @ crc16 p \<and> 3 \<le> length p \<and> length p \<le> 254)"
proof
  assume ok: "checked_frame f = Inr f"
  let ?p = "take (length f - 2) f"
  have "f = ?p @ crc16 ?p" "3 \<le> length ?p" "length ?p \<le> 254"
    using ok by (auto simp: checked_frame_eq_Inr)
  then show "\<exists>p. f = p @ crc16 p \<and> 3 \<le> length p \<and> length p \<le> 254" by blast
qed auto

text \<open>
  C9. Every single-byte corruption is detected: if a frame passes the length and CRC check, the same
  frame with any one byte changed, in the payload or in the CRC itself, raises.
\<close>

theorem crc_detects_single_byte:
  assumes "checked_frame f = Inr f" "i < length f" "b \<noteq> f ! i"
  shows "checked_frame (f[i := b]) = raise FeedbackError ''invalid RTU length or CRC''"
proof -
  obtain p where f: "f = p @ crc16 p"
    using assms(1) checked_frame_split by blast
  show ?thesis
  proof (cases "i < length p")
    case True
    then have "crc16 (p[i := b]) \<noteq> crc16 p"
      using assms(3) by (simp add: f crc16_inj crc_value_one_byte nth_append)
    then show ?thesis
      using True by (simp add: f checked_frame_def list_update_append)
  next
    case False
    let ?j = "i - length p"
    have j: "?j < length (crc16 p)" "crc16 p ! ?j \<noteq> b"
      using False assms(2,3) by (auto simp: f nth_append)
    then have "(crc16 p)[?j := b] ! ?j \<noteq> crc16 p ! ?j"
      by simp
    then have "(crc16 p)[?j := b] \<noteq> crc16 p"
      by (rule contrapos_nn) simp
    then show ?thesis
      using False by (auto simp: f checked_frame_def list_update_append dest: sym)
  qed
qed

theorem crc_detects_single_byte_witness:
  "checked_frame ((read_response 1 [16, 32])[4 := 17]) = raise FeedbackError ''invalid RTU length or CRC''"
proof -
  have "checked_frame (read_response 1 [16, 32]) = Inr (read_response 1 [16, 32])"
    and "4 < length (read_response 1 [16, 32])" and "(17 :: 8 word) \<noteq> read_response 1 [16, 32] ! 4"
    by (simp_all add: read_response_def checked_frame_def be16_def crc16_def crc_eval)
  from crc_detects_single_byte [OF this] show ?thesis .
qed

text \<open>
  C2. The exchange decoder is exact: it returns \<open>(slave, address, words)\<close> if and only if the request is
  the FC03 frame that \<open>read_request\<close> builds for that slave, address and number of words, and the
  response is, byte for byte, the frame a slave sends for those 16-bit words. So an encoded exchange
  decodes to what was encoded, and nothing else decodes.
\<close>

theorem parse_exchange_exact:
  "parse_exchange req resp = Inr (slave, address, words) \<longleftrightarrow>
     read_request (PInt slave) (PInt address) (PInt (int (length words))) = Inr req
     \<and> resp = read_response slave words \<and> list_all (\<lambda>w. 0 \<le> w \<and> w < 65536) words"
  by (simp add: parse_exchange_iff list_all_iff)

text \<open>How a controller lays out a position counter of one or two registers, high word first.\<close>

definition counter_words :: "nat \<Rightarrow> int \<Rightarrow> int list" where
  "counter_words n v = (if n = 1 then [v mod 65536] else [v div 65536 mod 65536, v mod 65536])"

definition counter_range :: "bool \<Rightarrow> nat \<Rightarrow> int \<Rightarrow> bool" where
  "counter_range sgnd n v = (if sgnd then - (2 ^ (16 * n)) \<le> 2 * v \<and> 2 * v < 2 ^ (16 * n)
                             else 0 \<le> v \<and> v < 2 ^ (16 * n))"

lemma mod_two_complement:
  assumes "- m \<le> 2 * v" "2 * v < m"
  shows "(if m \<le> 2 * (v mod m) then v mod m - m else v mod m) = (v :: int)"
proof (cases "0 \<le> v")
  case True
  with assms have "v mod m = v"
    by (intro mod_pos_pos_trivial) linarith+
  with assms show ?thesis by simp
next
  case False
  with assms have "(v + m) mod m = v + m"
    by (intro mod_pos_pos_trivial) linarith+
  then have "v mod m = v + m" by simp
  with False assms show ?thesis by simp
qed

lemma two_words_mod: "(v :: int) div 65536 mod 65536 * 65536 + v mod 65536 = v mod 4294967296"
  using zmod_zmult2_eq [of 65536 v 65536] by simp

lemma words_value_counter:
  assumes "n = 1 \<or> n = 2" and "counter_range sgnd n v"
  shows "words_value sgnd (counter_words n v) = v"
proof -
  have "foldl (\<lambda>a w. a * 65536 + w) 0 (counter_words n v) = v mod 2 ^ (16 * n)"
    and "length (counter_words n v) = n"
    using assms(1) two_words_mod [of v] by (auto simp: counter_words_def)
  then have "words_value sgnd (counter_words n v)
      = (if sgnd \<and> 2 ^ (16 * n) \<le> 2 * (v mod 2 ^ (16 * n)) then v mod 2 ^ (16 * n) - 2 ^ (16 * n)
         else v mod 2 ^ (16 * n))"
    by (simp add: words_value_def Let_def)
  also have "\<dots> = v"
    using assms(2) mod_two_complement [of "2 ^ (16 * n)" v]
    by (cases sgnd) (simp_all add: counter_range_def)
  finally show ?thesis .
qed

lemma counter_words_length: "n = 1 \<or> n = 2 \<Longrightarrow> length (counter_words n v) = n"
  by (auto simp: counter_words_def)

text \<open>
  Position counters decode to their value: when the registers a field covers lie inside the reply
  and hold a counter of the field's width, signedness and word order, \<open>Field.decode\<close> returns exactly
  that integer, wherever the reply starts and whatever the other registers hold.
\<close>

lemma field_decodes_counter:
  assumes "f_words f = PInt (int n)" "n = 1 \<or> n = 2" "f_unit f = ''motor_counts''"
    and "counter_range (f_signed f) n v"
    and "values = before @ (if f_order f = ''little'' then rev (counter_words n v) else counter_words n v) @ after"
    and "f_address f = start + int (length before)"
  shows "field_decode f start values = Inr (PInt v)"
proof -
  let ?ws = "if f_order f = ''little'' then rev (counter_words n v) else counter_words n v"
  have len: "length ?ws = n"
    using assms(2) by (simp add: counter_words_length)
  have inside: "\<not> py_lt (PInt (int (length values))) (py_add (PInt (int (length before))) (PInt (int n)))"
    using len by (simp add: py_lt_def assms(5))
  have cut: "slice (length before) (length before + n) values = ?ws"
    unfolding slice_def assms(5) using len by simp
  have "nat (int (length before) + int n) = length before + n"
    by simp
  then show ?thesis
    using inside cut words_value_counter [OF assms(2,4)] assms(1,3,6)
    by (auto simp: field_decode_def Let_def simp del: of_nat_add)
qed

subsection \<open>The client only reads\<close>

lemma validated_query_eq_Inr:
  "validated_query p req = Inr q \<Longrightarrow> q = req \<and> (\<exists>a c. (a, c) \<in> set (fp_allowed p)
     \<and> read_request (PInt (fp_slave p)) (PInt a) (PInt c) = Inr req)"
  by (auto simp: validated_query_def result_simps Let_def split: if_splits)

text \<open>
  C5. The query client never transmits anything but a whitelisted read: whatever it is asked and
  whatever the transport answers, it hands at most one frame to the transport, and only when reads
  are explicitly allowed; that frame is the FC03 read of a register range in the profile's whitelist,
  addressed to the profile's slave. When it returns data, the response decodes against that request.
\<close>

theorem client_only_reads:
  assumes "read_feedback p allow written chunks address count = (r, writes)"
  shows "length writes \<le> 1
    \<and> (writes \<noteq> [] \<longrightarrow> allow = PBool True \<and> (\<exists>a c. (a, c) \<in> set (fp_allowed p)
         \<and> read_request (PInt (fp_slave p)) (PInt a) (PInt c) = Inr (hd writes)))
    \<and> (\<forall>req resp. r = Inr (req, resp) \<longrightarrow> writes = [req] \<and> written = length req
         \<and> is_ok (parse_exchange req resp))"
proof (cases "bindr (read_request (PInt (fp_slave p)) address count) (validated_query p)")
  case (Inl e)
  with assms show ?thesis by (auto simp: read_feedback_def split: if_splits)
next
  case (Inr request)
  then obtain a c where ac: "(a, c) \<in> set (fp_allowed p)"
      "read_request (PInt (fp_slave p)) (PInt a) (PInt c) = Inr request"
    by (auto simp: result_simps dest!: validated_query_eq_Inr)
  show ?thesis
  proof (cases "allow = PBool True")
    case True
    with assms Inr have w: "writes = [request]"
      by (auto simp: read_feedback_def)
    from True assms Inr have "\<forall>req resp. r = Inr (req, resp) \<longrightarrow> req = request
        \<and> written = length request \<and> is_ok (parse_exchange request resp)"
      by (auto simp: read_feedback_def bindr_eq_Inr split: if_splits)
    with w True ac show ?thesis by auto
  next
    case False
    with assms show ?thesis by (auto simp: read_feedback_def)
  qed
qed

definition example_profile :: profile where
  "example_profile = \<lparr>fp_slave = 1, fp_device = ''d'', fp_fields = [], fp_allowed = [(8363, 2)]\<rparr>"

theorem client_only_reads_witness:
  "\<exists>req. read_feedback example_profile (PBool True) 8 [take 4 (read_response 1 [3, 5]), drop 4 (read_response 1 [3, 5])]
      (PInt 8363) (PInt 2) = (Inr (req, read_response 1 [3, 5]), [req])
    \<and> is_ok (parse_exchange req (read_response 1 [3, 5]))"
proof -
  let ?req = "[1, 3, 32, 171, 0, 2, 190, 43] :: bytes"
  have call: "read_feedback example_profile (PBool True) 8
      [take 4 (read_response 1 [3, 5]), drop 4 (read_response 1 [3, 5])] (PInt 8363) (PInt 2)
      = (Inr (?req, read_response 1 [3, 5]), [?req])"
    by (simp add: read_feedback_def example_profile_def read_request_def validated_query_def
        parse_exchange_def checked_frame_def read_response_def be16_def crc16_def crc_eval slice_def
        client_receive.simps)
  show ?thesis
    using client_only_reads [OF call] call by auto
qed

end
