(* ===== verification/H30_Parser.thy ===== *)
theory H30_Parser
  imports Py_Value
begin

text \<open>
  \<open>src/src/wc_sensors/h30.py\<close>: the H30 inertial sensor's byte-stream decoder. A packet is the two
  header bytes, a little-endian 16-bit TID, a payload length, type-length-value fields and a two-byte
  additive checksum.

  State: \<open>h30_parser\<close>, the retained buffer and the five statistics of class \<open>H30Parser\<close>.
  \<open>drain_step\<close> is one iteration of \<open>_drain\<close>'s loop, \<open>drain\<close> the loop (it ends because every iteration
  that continues shortens the buffer), \<open>h30_feed\<close> and \<open>h30_reset\<close> the two operations.
  Properties: the result does not depend on how the stream is cut into chunks; the buffer is bounded
  and no byte is lost or invented; every frame is a genuine packet; encoded packets decode.
\<close>

section \<open>Checksum\<close>

definition h30_checksum :: "bytes \<Rightarrow> bytes" where
  "h30_checksum bs = (let (ck1, ck2) = foldl (\<lambda>(ck1, ck2) v. (ck1 + v, ck2 + (ck1 + v))) (0, 0) bs
     in [ck1, ck2])"

lemma h30_checksum_length [simp]: "length (h30_checksum bs) = 2"
  by (simp add: h30_checksum_def split: prod.splits)

section \<open>Packets\<close>

text \<open>Little-endian integers, as \<open>struct.unpack\<close> reads them.\<close>

fun le_value :: "bytes \<Rightarrow> int" where
  "le_value [] = 0"
| "le_value (b # bs) = uint b + 256 * le_value bs"

definition le_signed :: "bytes \<Rightarrow> int" where
  "le_signed bs = (let v = le_value bs; m = 256 ^ length bs in if m \<le> 2 * v then v - m else v)"

fun le_ints :: "bytes \<Rightarrow> int list" where
  "le_ints (a # b # c # d # rest) = le_signed [a, b, c, d] # le_ints rest"
| "le_ints _ = []"

definition known_lengths :: "(8 word \<times> nat) list" where
  "known_lengths = [(0x01, 2), (0x10, 12), (0x20, 12), (0x30, 12), (0x31, 12), (0x40, 12),
     (0x41, 16), (0x50, 11), (0x51, 4), (0x52, 4), (0x68, 20), (0x70, 12), (0x80, 1)]"

definition py_pi :: pyfloat where
  "py_pi = Fin (884279719003555 / 281474976710656)"

definition float_of_ratio :: "pyfloat \<Rightarrow> pyfloat \<Rightarrow> pyfloat" where
  "float_of_ratio x y = (case f_div x y of Inl _ \<Rightarrow> NaN | Inr z \<Rightarrow> z)"

definition micro :: pyfloat where "micro = round64 (1 / 1000000)"
definition milli :: pyfloat where "milli = round64 (1 / 1000)"
definition micro_degree :: pyfloat where "micro_degree = float_of_ratio (f_mul micro py_pi) (Fin 180)"

definition scaled :: "int \<Rightarrow> pyfloat \<Rightarrow> pyval" where
  "scaled raw scale = PFloat (f_mul (round64 (of_int raw)) scale)"

definition vector_fields :: "(8 word \<times> string \<times> pyfloat) list" where
  "vector_fields = [(0x10, ''acceleration_m_s2'', micro), (0x20, ''angular_velocity_rad_s'', micro_degree),
     (0x30, ''magnetic_normalized'', micro), (0x31, ''magnetic_mgauss'', milli),
     (0x40, ''euler_pitch_roll_yaw_rad'', micro_degree), (0x70, ''velocity_enu_m_s'', milli)]"

text \<open>The decoded entries one field adds to \<open>fields\<close>; a tuple is a \<open>PList\<close>.\<close>

definition tlv_fields :: "8 word \<Rightarrow> bytes \<Rightarrow> pydict" where
  "tlv_fields i value =
     (if i = 0x01 then [(''temperature_raw'', PInt (le_signed value)),
                        (''temperature_c'', scaled (le_signed value) (round64 (1 / 100)))]
      else case map_of vector_fields i of
        Some (name, scale) \<Rightarrow> [(name @ ''_raw'', PList (map PInt (le_ints value))),
                               (name, PList (map (\<lambda>v. scaled v scale) (le_ints value)))]
      | None \<Rightarrow>
        if i = 0x41 then [(''orientation_wxyz_raw'', PList (map PInt (le_ints value))),
           (''orientation_xyzw'', PList (map (\<lambda>k. scaled (le_ints value ! k) micro) [1, 2, 3, 0]))]
        else if i = 0x51 then [(''sample_timestamp_raw'', PInt (le_value value))]
        else if i = 0x52 then [(''dataready_timestamp_raw'', PInt (le_value value))]
        else [])"

text \<open>The loop of \<open>_decode_packet\<close> over the rest of the payload. \<open>seen\<close> is the set of the ids of
  \<open>tlvs\<close>; a field's names occur for one id only, so an update of \<open>fields\<close> never overwrites.\<close>

function decode_tlvs :: "bytes \<Rightarrow> (8 word \<times> bytes) list \<Rightarrow> pydict
    \<Rightarrow> exc + ((8 word \<times> bytes) list \<times> pydict)" where
  "decode_tlvs [] tlvs fields = Inr (tlvs, fields)"
| "decode_tlvs [_] tlvs fields = raise ValueError ''truncated TLV header''"
| "decode_tlvs (i # n # rest) tlvs fields =
     (if length rest < unat n then raise ValueError ''TLV extends beyond payload''
      else if i \<in> set (map fst tlvs) then raise ValueError ''duplicate TLV id''
      else if (case map_of known_lengths i of Some l \<Rightarrow> unat n \<noteq> l | None \<Rightarrow> False)
      then raise ValueError ''known TLV has incorrect length''
      else let value = take (unat n) rest
           in decode_tlvs (drop (unat n) rest) (tlvs @ [(i, value)]) (fields @ tlv_fields i value))"
  by pat_completeness auto
termination by (relation "measure (\<lambda>(bs, _, _). length bs)") auto

record h30_frame =
  h_tid :: int
  h_packet :: bytes
  h_tlvs :: "(8 word \<times> bytes) list"
  h_fields :: pydict

definition present_ids :: "h30_frame \<Rightarrow> 8 word set" where
  "present_ids f = set (map fst (h_tlvs f))"

definition decode_packet :: "bytes \<Rightarrow> exc + h30_frame" where
  "decode_packet packet = bindr (decode_tlvs (slice 5 (length packet - 2) packet) [] []) (\<lambda>(tlvs, fields).
     Inr \<lparr>h_tid = le_value (slice 2 4 packet), h_packet = packet, h_tlvs = tlvs, h_fields = fields\<rparr>)"

section \<open>The parser\<close>

record h30_parser =
  b_buffer :: bytes
  b_frames :: nat
  b_checksum_errors :: nat
  b_malformed :: nat
  b_discarded :: nat
  b_resets :: nat

definition h30_init :: h30_parser where
  "h30_init = \<lparr>b_buffer = [], b_frames = 0, b_checksum_errors = 0, b_malformed = 0,
     b_discarded = 0, b_resets = 0\<rparr>"

definition h30_reset :: "h30_parser \<Rightarrow> h30_parser" where
  "h30_reset p = p\<lparr>b_discarded := b_discarded p + length (b_buffer p), b_resets := b_resets p + 1,
     b_buffer := []\<rparr>"

definition h30_discard :: "nat \<Rightarrow> h30_parser \<Rightarrow> h30_parser" where
  "h30_discard n p = p\<lparr>b_discarded := b_discarded p + n, b_buffer := drop n (b_buffer p)\<rparr>"

fun find_header :: "bytes \<Rightarrow> nat option" where
  "find_header (a # b # rest) = (if a = 0x59 \<and> b = 0x53 then Some 0
                                 else map_option Suc (find_header (b # rest)))"
| "find_header _ = None"

text \<open>What an iteration does once the buffer starts with a header: the new state, the frames it
  appends, and whether the loop goes on.\<close>

definition take_packet :: "h30_parser \<Rightarrow> h30_parser \<times> h30_frame list \<times> bool" where
  "take_packet p =
     (let buf = b_buffer p
      in if length buf < 5 \<or> length buf < unat (buf ! 4) + 7 then (p, [], False)
         else let n = unat (buf ! 4) + 7; packet = take n buf
         in if h30_checksum (slice 2 (n - 2) packet) \<noteq> drop (n - 2) packet
            then (h30_discard 1 (p\<lparr>b_checksum_errors := b_checksum_errors p + 1\<rparr>), [], True)
            else case decode_packet packet of
              Inl _ \<Rightarrow> (h30_discard n (p\<lparr>b_malformed := b_malformed p + 1\<rparr>), [], True)
            | Inr frame \<Rightarrow> (p\<lparr>b_buffer := drop n buf, b_frames := b_frames p + 1\<rparr>, [frame], True))"

definition drain_step :: "h30_parser \<Rightarrow> h30_parser \<times> h30_frame list \<times> bool" where
  "drain_step p = (if b_buffer p = [] then (p, [], False) else
     (case find_header (b_buffer p) of
        None \<Rightarrow> (h30_discard (length (b_buffer p) - (if last (b_buffer p) = 0x59 then 1 else 0)) p, [], False)
      | Some start \<Rightarrow> take_packet (h30_discard start p)))"

lemma take_packet_cases:
  obtains (wait) "length (b_buffer p) < 5 \<or> length (b_buffer p) < unat (b_buffer p ! 4) + 7"
      "take_packet p = (p, [], False)"
  | (checksum) "5 \<le> length (b_buffer p)" "unat (b_buffer p ! 4) + 7 \<le> length (b_buffer p)"
      "take_packet p = (h30_discard 1 (p\<lparr>b_checksum_errors := b_checksum_errors p + 1\<rparr>), [], True)"
  | (malformed) n where "n = unat (b_buffer p ! 4) + 7" "5 \<le> length (b_buffer p)" "n \<le> length (b_buffer p)"
      "take_packet p = (h30_discard n (p\<lparr>b_malformed := b_malformed p + 1\<rparr>), [], True)"
  | (frame) n f where "n = unat (b_buffer p ! 4) + 7" "5 \<le> length (b_buffer p)" "n \<le> length (b_buffer p)"
      "h30_checksum (slice 2 (n - 2) (take n (b_buffer p))) = drop (n - 2) (take n (b_buffer p))"
      "decode_packet (take n (b_buffer p)) = Inr f"
      "take_packet p = (p\<lparr>b_buffer := drop n (b_buffer p), b_frames := b_frames p + 1\<rparr>, [f], True)"
proof (cases "length (b_buffer p) < 5 \<or> length (b_buffer p) < unat (b_buffer p ! 4) + 7")
  case True
  then show ?thesis by (intro wait) (auto simp: take_packet_def Let_def)
next
  case False
  let ?n = "unat (b_buffer p ! 4) + 7"
  let ?packet = "take ?n (b_buffer p)"
  show ?thesis
  proof (cases "h30_checksum (slice 2 (?n - 2) ?packet) = drop (?n - 2) ?packet")
    case sum: True
    show ?thesis
    proof (cases "decode_packet ?packet")
      case (Inl e)
      with False sum show ?thesis by (intro malformed [of ?n]) (auto simp: take_packet_def Let_def)
    next
      case (Inr f)
      with False sum show ?thesis by (intro frame [of ?n f]) (auto simp: take_packet_def Let_def)
    qed
  next
    case sum: False
    with False show ?thesis by (intro checksum) (auto simp: take_packet_def Let_def)
  qed
qed

lemma drain_step_shortens:
  "drain_step p = (p', fs, True) \<Longrightarrow> length (b_buffer p') < length (b_buffer p)"
  by (cases rule: take_packet_cases [of "h30_discard (the (find_header (b_buffer p))) p"])
    (auto simp: drain_step_def h30_discard_def split: option.splits if_splits)

function drain :: "h30_parser \<Rightarrow> h30_parser \<times> h30_frame list" where
  "drain p = (case drain_step p of (p', fs, go) \<Rightarrow>
     if go then (case drain p' of (p'', gs) \<Rightarrow> (p'', fs @ gs)) else (p', fs))"
  by pat_completeness auto
termination
  by (relation "measure (\<lambda>p. length (b_buffer p))") (auto simp: drain_step_shortens [OF sym])

declare drain.simps [simp del]

text \<open>\<open>feed\<close>: at most 262 bytes are appended between two drains.\<close>

definition max_packet :: nat where "max_packet = 262"

function feed_chunks :: "bytes \<Rightarrow> h30_parser \<Rightarrow> h30_parser \<times> h30_frame list" where
  "feed_chunks incoming p = (if incoming = [] then (p, [])
     else case drain (p\<lparr>b_buffer := b_buffer p @ take max_packet incoming\<rparr>) of (p', fs) \<Rightarrow>
          case feed_chunks (drop max_packet incoming) p' of (p'', gs) \<Rightarrow> (p'', fs @ gs))"
  by pat_completeness auto
termination by (relation "measure (\<lambda>(bs, _). length bs)") (auto simp: max_packet_def)

declare feed_chunks.simps [simp del]

definition h30_feed :: "pyval \<Rightarrow> h30_parser \<Rightarrow> (exc + h30_frame list) \<times> h30_parser" where
  "h30_feed data p = (case data of
       PBytes bs \<Rightarrow> (case feed_chunks bs p of (p', fs) \<Rightarrow> (Inr fs, p'))
     | _ \<Rightarrow> (raise TypeError ''feed requires bytes-like input'', p))"

section \<open>The ROS-adaptable dictionary\<close>

text \<open>
  \<open>imu_dict\<close>. The norm \<open>sqrt(sum(x * x for x in quat))\<close> is the parameter \<open>quat_norm\<close>: the last bits of
  \<open>sum\<close> over floats depend on the interpreter's version.
\<close>

definition imu_covariance :: "bool \<Rightarrow> pyval" where
  "imu_covariance available = (if available then PList (replicate 9 (PFloat (Fin 0)))
     else PList (PFloat (Fin (- 1)) # replicate 8 (PFloat (Fin 0))))"

definition floats_of :: "pyval \<Rightarrow> pyfloat list" where
  "floats_of v = (case v of PList xs \<Rightarrow> map to_float xs | _ \<Rightarrow> [])"

definition imu_dict :: "(pyfloat list \<Rightarrow> pyfloat) \<Rightarrow> h30_frame \<Rightarrow> pyfloat \<Rightarrow> exc + pydict" where
  "imu_dict quat_norm f tolerance =
     (if \<not> f_finite tolerance \<or> \<not> (Fin 0 \<le> tolerance \<and> tolerance < Fin 1)
      then raise ValueError ''quaternion_norm_tolerance must be finite in [0,1)''
      else let quat = dget (h_fields f) ''orientation_xyzw'';
               n = quat_norm (floats_of quat);
               valid = (quat \<noteq> PNone \<and> f_abs (f_sub n (Fin 1)) \<le> tolerance);
               acceleration = dget (h_fields f) ''acceleration_m_s2'';
               velocity = dget (h_fields f) ''angular_velocity_rad_s''
      in Inr [(''orientation'', if valid then quat else PNone),
              (''orientation_covariance'', imu_covariance valid),
              (''orientation_valid'', PBool valid),
              (''orientation_norm'', if quat \<noteq> PNone then PFloat n else PNone),
              (''angular_velocity'', velocity),
              (''angular_velocity_covariance'', imu_covariance (velocity \<noteq> PNone)),
              (''linear_acceleration'', acceleration),
              (''linear_acceleration_covariance'', imu_covariance (acceleration \<noteq> PNone)),
              (''field_validity'', PDict [(''orientation'', PBool valid),
                 (''angular_velocity'', PBool (velocity \<noteq> PNone)),
                 (''linear_acceleration'', PBool (acceleration \<noteq> PNone))]),
              (''sample_timestamp_raw'', dget (h_fields f) ''sample_timestamp_raw''),
              (''dataready_timestamp_raw'', dget (h_fields f) ''dataready_timestamp_raw''),
              (''device_timestamp_unit'', PStr ''UNKNOWN_us_or_100us''),
              (''time_source'', PStr ''arrival_only''),
              (''time_valid'', PBool False),
              (''uncertainty_ns'', PNone),
              (''tid'', PInt (h_tid f))])"

section \<open>Chunking\<close>

definition hdr_at :: "bytes \<Rightarrow> nat \<Rightarrow> bool" where
  "hdr_at xs k \<longleftrightarrow> Suc k < length xs \<and> xs ! k = 0x59 \<and> xs ! Suc k = 0x53"

lemma hdr_at_Cons_Suc [simp]: "hdr_at (x # xs) (Suc k) = hdr_at xs k"
  by (simp add: hdr_at_def)

lemma find_header_None: "find_header xs = None \<longleftrightarrow> (\<forall>k. \<not> hdr_at xs k)"
proof (induction xs rule: find_header.induct)
  case (1 a b rest)
  have "(\<forall>k. \<not> hdr_at (a # b # rest) k) \<longleftrightarrow> \<not> hdr_at (a # b # rest) 0 \<and> (\<forall>k. \<not> hdr_at (b # rest) k)"
    by (metis hdr_at_Cons_Suc nat.exhaust)
  with 1 show ?case by (auto simp: hdr_at_def [of _ 0])
qed (simp_all add: hdr_at_def)

lemma find_header_Some: "find_header xs = Some s \<Longrightarrow> hdr_at xs s \<and> (\<forall>k < s. \<not> hdr_at xs k)"
proof (induction xs arbitrary: s rule: find_header.induct)
  case (1 a b rest)
  show ?case
  proof (cases "a = 0x59 \<and> b = 0x53")
    case True
    with 1 show ?thesis by (simp add: hdr_at_def)
  next
    case False
    with 1 obtain t where "s = Suc t" "find_header (b # rest) = Some t" by (auto split: if_splits)
    with 1(1) [OF False] False show ?thesis
      by (auto simp: less_Suc_eq_0_disj hdr_at_def [of _ 0])
  qed
qed simp_all

lemma find_header_skip:
  "n \<le> length xs \<Longrightarrow> \<forall>k < n. \<not> hdr_at xs k \<Longrightarrow> find_header xs = map_option ((+) n) (find_header (drop n xs))"
proof (induction n arbitrary: xs)
  case 0
  have "(+) 0 = (id :: nat \<Rightarrow> nat)" by auto
  then show ?case by (simp add: option.map_id0 flip: id_def)
next
  case (Suc n)
  then obtain x ys where xs: "xs = x # ys" by (cases xs) auto
  with Suc.prems have ys: "n \<le> length ys" "\<forall>k < n. \<not> hdr_at ys k" "\<not> hdr_at xs 0"
    by (auto dest: spec [of _ "Suc _"])
  have "find_header xs = map_option Suc (find_header ys)"
    using ys(3) by (cases ys) (auto simp: xs hdr_at_def)
  with Suc.IH [OF ys(1,2)] show ?case
    by (simp add: xs option.map_comp comp_def)
qed

lemma find_header_append: "find_header xs = Some s \<Longrightarrow> find_header (xs @ ys) = Some s"
  by (induction xs arbitrary: s rule: find_header.induct) (auto split: if_splits)

lemma discard_discard [simp]: "h30_discard m (h30_discard n p) = h30_discard (n + m) p"
  by (cases p) (simp add: h30_discard_def add.commute)

lemma discard_0 [simp]: "h30_discard 0 p = p"
  by (simp add: h30_discard_def)

lemma buffer_discard [simp]: "b_buffer (h30_discard n p) = drop n (b_buffer p)"
  by (simp add: h30_discard_def)

lemma drain_empty [simp]: "b_buffer p = [] \<Longrightarrow> drain p = (p, [])"
  by (subst drain.simps) (simp add: drain_step_def)

text \<open>Bytes before which no header can start may be discarded first.\<close>

lemma drain_skip:
  assumes n: "n \<le> length (b_buffer p)" "\<forall>k < n. \<not> hdr_at (b_buffer p) k"
    and last: "n = length (b_buffer p) \<Longrightarrow> 0 < n \<Longrightarrow> last (b_buffer p) \<noteq> 0x59"
  shows "drain p = drain (h30_discard n p)"
proof (cases "n = 0")
  case False
  then have ne: "b_buffer p \<noteq> []" using n by auto
  note skip = find_header_skip [OF n]
  show ?thesis
  proof (cases "find_header (drop n (b_buffer p))")
    case None
    with skip have no: "find_header (b_buffer p) = None" by simp
    show ?thesis
    proof (cases "drop n (b_buffer p)")
      case Nil
      with n have "n = length (b_buffer p)" by simp
      with last False no ne Nil show ?thesis
        by (simp add: drain.simps [of p] drain_step_def)
    next
      case (Cons a b)
      then have rest: "drop n (b_buffer p) \<noteq> []" by simp
      then have lt: "n < length (b_buffer p)" by simp
      then have "last (drop n (b_buffer p)) = last (b_buffer p)" by simp
      with lt None no ne rest show ?thesis
        by (auto simp: drain.simps [of p] drain.simps [of "h30_discard n p"] drain_step_def simp del: last_drop)
    qed
  next
    case (Some t)
    with skip have s: "find_header (b_buffer p) = Some (n + t)" by simp
    from Some have "drop n (b_buffer p) \<noteq> []" by auto
    with Some s ne have "drain_step p = drain_step (h30_discard n p)"
      by (simp add: drain_step_def)
    then show ?thesis
      by (simp add: drain.simps [of p] drain.simps [of "h30_discard n p"])
  qed
qed simp

definition push :: "h30_parser \<Rightarrow> bytes \<Rightarrow> h30_parser" where
  "push p ys = p\<lparr>b_buffer := b_buffer p @ ys\<rparr>"

lemma push_simps [simp]:
  "push p [] = p" "push (push p xs) ys = push p (xs @ ys)" "b_buffer (push p xs) = b_buffer p @ xs"
  by (simp_all add: push_def)

lemma discard_push: "n \<le> length (b_buffer p) \<Longrightarrow> h30_discard n (push p ys) = push (h30_discard n p) ys"
  by (simp add: push_def h30_discard_def)

lemma take_packet_push:
  assumes "take_packet p = (p', fs, True)"
  shows "take_packet (push p ys) = (push p' ys, fs, True)"
proof -
  let ?n = "unat (b_buffer p ! 4) + 7"
  have len: "5 \<le> length (b_buffer p)" "?n \<le> length (b_buffer p)"
    using assms by (auto simp: take_packet_def Let_def split: if_splits)
  then have "take ?n (b_buffer p @ ys) = take ?n (b_buffer p)" "(b_buffer p @ ys) ! 4 = b_buffer p ! 4"
    "drop ?n (b_buffer p @ ys) = drop ?n (b_buffer p) @ ys" "drop (Suc 0) (b_buffer p @ ys) = drop (Suc 0) (b_buffer p) @ ys"
    by (simp_all add: nth_append)
  with len assms show ?thesis
    by (auto simp: take_packet_def Let_def discard_push push_def h30_discard_def
        simp del: drop_append take_append split: if_splits sum.splits)
qed

lemma step_go_push:
  assumes "drain_step p = (p', fs, True)"
  shows "drain_step (push p ys) = (push p' ys, fs, True)"
proof -
  from assms obtain start where s: "find_header (b_buffer p) = Some start"
    and t: "take_packet (h30_discard start p) = (p', fs, True)" and ne: "b_buffer p \<noteq> []"
    by (auto simp: drain_step_def split: option.splits if_splits)
  from find_header_Some [OF s] have "start \<le> length (b_buffer p)"
    by (simp add: hdr_at_def)
  with s ne take_packet_push [OF t] show ?thesis
    by (simp add: drain_step_def find_header_append discard_push)
qed

lemma step_stop_push:
  assumes "drain_step p = (p', fs, False)"
  shows "fs = [] \<and> drain (push p ys) = drain (push p' ys)"
proof -
  consider (empty) "b_buffer p = []" "p' = p" "fs = []"
    | (none) "b_buffer p \<noteq> []" "find_header (b_buffer p) = None" "fs = []"
        "p' = h30_discard (length (b_buffer p) - (if last (b_buffer p) = 0x59 then 1 else 0)) p"
    | (start) start where "find_header (b_buffer p) = Some start" "p' = h30_discard start p" "fs = []"
  proof (cases "find_header (b_buffer p)")
    case None
    with assms empty none show ?thesis by (auto simp: drain_step_def split: if_splits)
  next
    case (Some start)
    then have "drain_step p = take_packet (h30_discard start p)"
      by (auto simp: drain_step_def)
    with assms have "p' = h30_discard start p \<and> fs = []"
      by (cases rule: take_packet_cases [of "h30_discard start p"]) auto
    with Some that(3) show ?thesis by blast
  qed
  then show ?thesis
  proof cases
    case empty
    then show ?thesis by simp
  next
    case none
    let ?n = "length (b_buffer p) - (if last (b_buffer p) = 0x59 then 1 else 0)"
    have no: "\<not> hdr_at (b_buffer p) k" for k
      using none(2) by (simp add: find_header_None)
    have "\<not> hdr_at (b_buffer p @ ys) k" if "k < ?n" for k
    proof (cases "Suc k < length (b_buffer p)")
      case True
      with no [of k] show ?thesis by (auto simp: hdr_at_def nth_append)
    next
      case False
      with that have "Suc k = length (b_buffer p)" "last (b_buffer p) \<noteq> 0x59"
        by (auto split: if_splits)
      then show ?thesis
        using none(1) by (auto simp: hdr_at_def nth_append last_conv_nth dest: sym)
    qed
    then have "drain (push p ys) = drain (h30_discard ?n (push p ys))"
      using none(1) by (intro drain_skip) (auto split: if_splits simp: last_append length_greater_0_conv [symmetric] simp del: length_greater_0_conv)
    with none show ?thesis by (simp add: discard_push)
  next
    case start
    from find_header_Some [OF start(1)] have s: "Suc start < length (b_buffer p)" "\<forall>k < start. \<not> hdr_at (b_buffer p) k"
      by (auto simp: hdr_at_def)
    then have "\<forall>k < start. \<not> hdr_at (b_buffer p @ ys) k"
      by (auto simp: hdr_at_def nth_append)
    then have "drain (push p ys) = drain (h30_discard start (push p ys))"
      using s by (intro drain_skip) auto
    with start s show ?thesis by (simp add: discard_push)
  qed
qed

text \<open>Draining early changes nothing: the key to chunk independence.\<close>

lemma drain_push:
  "drain (push p ys) = (case drain p of (p1, fs) \<Rightarrow> case drain (push p1 ys) of (p2, gs) \<Rightarrow> (p2, fs @ gs))"
proof (induction p rule: drain.induct)
  case (1 p)
  obtain p' fs go where step: "drain_step p = (p', fs, go)" by (cases "drain_step p") auto
  show ?case
  proof (cases go)
    case True
    with step have "drain (push p ys) = (case drain (push p' ys) of (p2, gs) \<Rightarrow> (p2, fs @ gs))"
      using step_go_push [of p p' fs ys] by (subst drain.simps) simp
    with 1 [OF step [symmetric] refl True] step True show ?thesis
      by (simp add: drain.simps [of p] split: prod.splits)
  next
    case False
    with step step_stop_push [of p p' fs ys] show ?thesis
      by (simp add: drain.simps [of p] split: prod.splits)
  qed
qed

lemma feed_chunks_drain: "bs \<noteq> [] \<Longrightarrow> feed_chunks bs p = drain (push p bs)"
proof (induction bs p rule: feed_chunks.induct)
  case (1 bs p)
  let ?now = "take max_packet bs" and ?rest = "drop max_packet bs"
  obtain p' fs where d: "drain (push p ?now) = (p', fs)" by (cases "drain (push p ?now)") auto
  have step: "feed_chunks bs p = (case feed_chunks ?rest p' of (p'', gs) \<Rightarrow> (p'', fs @ gs))"
    using "1.prems" d by (subst feed_chunks.simps) (simp add: push_def)
  show ?case
  proof (cases "?rest = []")
    case True
    then have "?now = bs" by simp
    with step d True show ?thesis by (simp add: feed_chunks.simps [of "[]"])
  next
    case False
    have "feed_chunks ?rest p' = drain (push p' ?rest)"
      by (rule "1.IH" [OF "1.prems" _ False]) (use d in \<open>simp add: push_def\<close>)
    with step d drain_push [of "push p ?now" ?rest] show ?thesis by simp
  qed
qed

lemma feed_chunks_Nil [simp]: "feed_chunks [] p = (p, [])"
  by (simp add: feed_chunks.simps)

lemma feed_chunks_append:
  "feed_chunks (xs @ ys) p = (case feed_chunks xs p of (p1, fs) \<Rightarrow>
     case feed_chunks ys p1 of (p2, gs) \<Rightarrow> (p2, fs @ gs))"
  by (cases "xs = []"; cases "ys = []")
    (simp_all add: feed_chunks_drain drain_push [of "push p xs" ys, simplified] split: prod.splits)

section \<open>What a loop iteration consumes\<close>

definition consumed :: "h30_frame list \<Rightarrow> nat" where
  "consumed fs = sum_list (map (length \<circ> h_packet) fs)"

lemma consumed_simps [simp]:
  "consumed [] = 0" "consumed (f # fs) = length (h_packet f) + consumed fs"
  "consumed (fs @ gs) = consumed fs + consumed gs"
  by (simp_all add: consumed_def)

text \<open>Well-formed type-length-value fields, and the packet that carries them.\<close>

definition tlv_ok :: "8 word \<times> bytes \<Rightarrow> bool" where
  "tlv_ok t \<longleftrightarrow> length (snd t) < 256
     \<and> (case map_of known_lengths (fst t) of Some l \<Rightarrow> length (snd t) = l | None \<Rightarrow> True)"

definition encode_tlv :: "8 word \<times> bytes \<Rightarrow> bytes" where
  "encode_tlv t = fst t # of_nat (length (snd t)) # snd t"

definition encode_tlvs :: "(8 word \<times> bytes) list \<Rightarrow> bytes" where
  "encode_tlvs ts = concat (map encode_tlv ts)"

definition packet_ok :: "int \<Rightarrow> (8 word \<times> bytes) list \<Rightarrow> bool" where
  "packet_ok tid ts \<longleftrightarrow> 0 \<le> tid \<and> tid < 65536 \<and> distinct (map fst ts) \<and> list_all tlv_ok ts
     \<and> length (encode_tlvs ts) < 256"

definition encode_packet :: "int \<Rightarrow> (8 word \<times> bytes) list \<Rightarrow> bytes" where
  "encode_packet tid ts = (let body = [word_of_int tid, word_of_int (tid div 256),
      of_nat (length (encode_tlvs ts))] @ encode_tlvs ts in [0x59, 0x53] @ body @ h30_checksum body)"

definition frame_of :: "int \<Rightarrow> (8 word \<times> bytes) list \<Rightarrow> h30_frame" where
  "frame_of tid ts = \<lparr>h_tid = tid, h_packet = encode_packet tid ts, h_tlvs = ts,
     h_fields = concat (map (\<lambda>(i, v). tlv_fields i v) ts)\<rparr>"

lemma frame_of_simps [simp]:
  "h_tid (frame_of t ts) = t" "h_tlvs (frame_of t ts) = ts" "h_packet (frame_of t ts) = encode_packet t ts"
  by (simp_all add: frame_of_def)

lemma decode_tlvs_Inr:
  "decode_tlvs bs ts0 fs0 = Inr (ts, fs) \<Longrightarrow> distinct (map fst ts0) \<Longrightarrow>
     \<exists>us. ts = ts0 @ us \<and> bs = encode_tlvs us \<and> distinct (map fst ts) \<and> list_all tlv_ok us
       \<and> fs = fs0 @ concat (map (\<lambda>(i, v). tlv_fields i v) us)"
proof (induction bs ts0 fs0 rule: decode_tlvs.induct)
  case (1 ts0 fs0)
  then show ?case by (simp add: encode_tlvs_def)
next
  case (2 x ts0 fs0)
  then show ?case by simp
next
  case (3 i n rest ts0 fs0)
  let ?v = "take (unat n) rest"
  from "3.prems"(1) have ok: "unat n \<le> length rest" "i \<notin> set (map fst ts0)"
      "\<not> (case map_of known_lengths i of Some l \<Rightarrow> unat n \<noteq> l | None \<Rightarrow> False)"
    and go: "decode_tlvs (drop (unat n) rest) (ts0 @ [(i, ?v)]) (fs0 @ tlv_fields i ?v) = Inr (ts, fs)"
    by (simp_all add: Let_def split: if_splits)
  have "unat n < 256" using unsigned_less [of n, where 'a = nat] by simp
  with ok have t: "tlv_ok (i, ?v)" by (auto simp: tlv_ok_def split: option.splits)
  from "3.IH" [OF _ _ _ refl go] ok "3.prems"(2)
  obtain us where us: "ts = ts0 @ (i, ?v) # us" "drop (unat n) rest = encode_tlvs us"
    "distinct (map fst ts)" "list_all tlv_ok us"
    "fs = fs0 @ tlv_fields i ?v @ concat (map (\<lambda>(i, v). tlv_fields i v) us)"
    by auto
  have "i # n # rest = encode_tlvs ((i, ?v) # us)"
    using ok(1) us(2) append_take_drop_id [of "unat n" rest]
    by (simp add: encode_tlvs_def encode_tlv_def min_absorb2)
  with us t show ?case by (intro exI [of _ "(i, ?v) # us"]) simp
qed

lemma decode_tlvs_encode:
  "distinct (map fst (ts0 @ us)) \<Longrightarrow> list_all tlv_ok us \<Longrightarrow>
   decode_tlvs (encode_tlvs us) ts0 fs0 = Inr (ts0 @ us, fs0 @ concat (map (\<lambda>(i, v). tlv_fields i v) us))"
proof (induction us arbitrary: ts0 fs0)
  case Nil
  then show ?case by (simp add: encode_tlvs_def)
next
  case (Cons u us)
  obtain i v where u: "u = (i, v)" by (cases u)
  have ok: "tlv_ok (i, v)" and rest: "list_all tlv_ok us" and i: "i \<notin> set (map fst ts0)"
    and dist: "distinct (map fst ((ts0 @ [(i, v)]) @ us))"
    using Cons.prems by (auto simp: u)
  have n: "unat (of_nat (length v) :: 8 word) = length v"
    using ok by (simp add: tlv_ok_def unat_of_nat)
  have "encode_tlvs (u # us) = i # of_nat (length v) # v @ encode_tlvs us"
    by (simp add: u encode_tlvs_def encode_tlv_def)
  moreover have "\<not> (case map_of known_lengths i of Some l \<Rightarrow> length v \<noteq> l | None \<Rightarrow> False)"
    using ok by (auto simp: tlv_ok_def split: option.splits)
  ultimately show ?case
    using i n Cons.IH [OF dist rest] by (auto simp: u Let_def split: option.splits)
qed

text \<open>A frame is genuine when its packet is the encoding of its own fields.\<close>

definition genuine :: "h30_frame \<Rightarrow> bool" where
  "genuine f \<longleftrightarrow> packet_ok (h_tid f) (h_tlvs f) \<and> f = frame_of (h_tid f) (h_tlvs f)"

lemma packet_slices:
  assumes "packet = a # b # t1 # t2 # k # pay @ tail" "length tail = 2" "n = length pay + 7"
  shows "slice 2 (n - 2) packet = t1 # t2 # k # pay" "drop (n - 2) packet = tail"
    "slice 5 (length packet - 2) packet = pay" "slice 2 4 packet = [t1, t2]"
  using assms by (simp_all add: slice_def eval_nat_numeral)

lemma take_packet_genuine:
  assumes "take_packet p = (p', fs, go)" "hdr_at (b_buffer p) 0" "f \<in> set fs"
  shows "genuine f"
proof (cases rule: take_packet_cases [of p])
  case (frame n g)
  let ?buf = "b_buffer p"
  from frame(2) assms(2) obtain t1 t2 k rest where buf: "?buf = 0x59 # 0x53 # t1 # t2 # k # rest"
    by (auto simp: hdr_at_def Suc_le_length_iff numeral_eq_Suc)
  have n: "n = unat k + 7" and len: "unat k + 2 \<le> length rest"
    using frame(1,3) by (simp_all add: buf)
  let ?pay = "take (unat k) rest" and ?sum = "take 2 (drop (unat k) rest)"
  have packet: "take n ?buf = 0x59 # 0x53 # t1 # t2 # k # ?pay @ ?sum"
  proof -
    have "n = Suc (Suc (Suc (Suc (Suc (unat k + 2)))))" using n by simp
    then show ?thesis by (simp only: buf take_Suc_Cons take_add)
  qed
  have parts: "length ?sum = 2" "n = length ?pay + 7" using n len by auto
  note mid = packet_slices [OF packet parts]
  obtain ts fields where d: "decode_tlvs ?pay [] [] = Inr (ts, fields)"
    and g: "g = \<lparr>h_tid = le_value [t1, t2], h_packet = take n ?buf, h_tlvs = ts, h_fields = fields\<rparr>"
    using frame(5) unfolding decode_packet_def mid(3,4) by (auto simp: result_simps)
  from decode_tlvs_Inr [OF d] have ts: "?pay = encode_tlvs ts" "distinct (map fst ts)" "list_all tlv_ok ts"
    "fields = concat (map (\<lambda>(i, v). tlv_fields i v) ts)" by auto
  have k: "of_nat (length (encode_tlvs ts)) = k" "length (encode_tlvs ts) < 256"
    using len unsigned_less [of k, where 'a = nat] by (simp_all flip: ts(1))
  have t: "0 \<le> uint t1" "uint t1 < 256" "0 \<le> uint t2" "uint t2 < 256"
    using uint_bounded [of t1] uint_bounded [of t2] by simp_all
  then have "(uint t1 + 256 * uint t2) div 256 = uint t2" by simp
  then have "word_of_int ((uint t1 + 256 * uint t2) div 256) = t2" by simp
  moreover have "word_of_int (uint t1 + 256 * uint t2) = t1"
  proof -
    have "(256 :: 8 word) = 0" by simp
    then show ?thesis by (simp only: of_int_add of_int_mult word_of_int_uint of_int_numeral mult_zero_left add_0_right)
  qed
  ultimately have "take n ?buf = encode_packet (le_value [t1, t2]) ts"
    using frame(4) k(1) ts(1) unfolding mid(1,2) unfolding packet by (simp add: encode_packet_def Let_def)
  then have "g = frame_of (le_value [t1, t2]) ts" using g ts(4) by (simp add: frame_of_def)
  moreover have "packet_ok (le_value [t1, t2]) ts"
    using t k ts by (simp add: packet_ok_def)
  ultimately show ?thesis
    using frame(6) assms(1,3) by (simp add: genuine_def g)
qed (use assms in auto)

definition accounts :: "h30_parser \<Rightarrow> h30_parser \<Rightarrow> h30_frame list \<Rightarrow> bool" where
  "accounts p p' fs \<longleftrightarrow>
     b_discarded p' + length (b_buffer p') + consumed fs = b_discarded p + length (b_buffer p)
     \<and> b_frames p' = b_frames p + length fs \<and> b_resets p' = b_resets p \<and> (\<forall>f \<in> set fs. genuine f)"

lemma decode_packet_raw: "decode_packet bs = Inr f \<Longrightarrow> h_packet f = bs"
  by (auto simp: decode_packet_def result_simps)

lemma take_packet_accounts:
  assumes "take_packet p = (p', fs, go)" "hdr_at (b_buffer p) 0"
  shows "accounts p p' fs" "\<not> go \<Longrightarrow> length (b_buffer p') < max_packet"
proof -
  have "unat (b_buffer p ! 4) < 256"
    using unsigned_less [of "b_buffer p ! 4", where 'a = nat] by simp
  then show "\<not> go \<Longrightarrow> length (b_buffer p') < max_packet"
    using assms by (cases rule: take_packet_cases [of p]) (auto simp: max_packet_def)
  have "\<forall>f \<in> set fs. genuine f"
    using take_packet_genuine [OF assms] by blast
  then show "accounts p p' fs"
    using assms by (cases rule: take_packet_cases [of p])
      (auto simp: accounts_def h30_discard_def dest!: decode_packet_raw)
qed

lemma drain_step_accounts:
  assumes "drain_step p = (p', fs, go)"
  shows "accounts p p' fs" "\<not> go \<Longrightarrow> length (b_buffer p') < max_packet"
proof -
  have "accounts p p' fs \<and> (\<not> go \<longrightarrow> length (b_buffer p') < max_packet)"
  proof (cases "find_header (b_buffer p)")
    case None
    with assms show ?thesis
      by (auto simp: drain_step_def accounts_def h30_discard_def max_packet_def Suc_le_eq split: if_splits)
  next
    case (Some start)
    let ?q = "h30_discard start p"
    from find_header_Some [OF Some] have h: "hdr_at (b_buffer p) start" by blast
    then have "hdr_at (b_buffer ?q) 0" "b_discarded ?q + length (b_buffer ?q) = b_discarded p + length (b_buffer p)"
      "b_frames ?q = b_frames p" "b_resets ?q = b_resets p"
      by (auto simp: hdr_at_def h30_discard_def)
    moreover have "take_packet ?q = (p', fs, go)"
      using assms Some h by (cases "b_buffer p = []") (auto simp: drain_step_def hdr_at_def)
    ultimately show ?thesis
      using take_packet_accounts [of ?q p' fs go] by (simp add: accounts_def)
  qed
  then show "accounts p p' fs" "\<not> go \<Longrightarrow> length (b_buffer p') < max_packet" by blast+
qed

lemma accounts_trans: "accounts p q fs \<Longrightarrow> accounts q r gs \<Longrightarrow> accounts p r (fs @ gs)"
  by (auto simp: accounts_def)

lemma drain_accounts:
  "drain p = (p', fs) \<Longrightarrow> accounts p p' fs \<and> length (b_buffer p') < max_packet"
proof (induction p arbitrary: p' fs rule: drain.induct)
  case (1 p)
  obtain q gs go where step: "drain_step p = (q, gs, go)" by (cases "drain_step p") auto
  show ?case
  proof (cases go)
    case True
    obtain r hs where "drain q = (r, hs)" by (cases "drain q") auto
    with "1.prems" step True "1.IH" [OF step [symmetric] refl True] drain_step_accounts(1) [OF step]
    show ?thesis by (auto simp: drain.simps [of p] intro: accounts_trans)
  next
    case False
    with "1.prems" step drain_step_accounts [OF step] show ?thesis
      by (simp add: drain.simps [of p])
  qed
qed

lemma feed_chunks_accounts:
  assumes "feed_chunks bs p = (p', fs)" "length (b_buffer p) < max_packet"
  shows "accounts (push p bs) p' fs" "length (b_buffer p') < max_packet"
proof -
  have "accounts (push p bs) p' fs \<and> length (b_buffer p') < max_packet"
  proof (cases "bs = []")
    case True
    with assms show ?thesis by (simp add: accounts_def)
  next
    case False
    with assms drain_accounts [of "push p bs" p' fs] show ?thesis by (simp add: feed_chunks_drain)
  qed
  then show "accounts (push p bs) p' fs" "length (b_buffer p') < max_packet" by blast+
qed

lemma push_sel [simp]: "b_frames (push p xs) = b_frames p" "b_discarded (push p xs) = b_discarded p"
  "b_resets (push p xs) = b_resets p"
  by (simp_all add: push_def)

text \<open>One encoded packet, in front of anything, is one frame.\<close>

lemma encode_packet_shape:
  assumes "packet_ok tid ts"
  shows "encode_packet tid ts = 0x59 # 0x53 # word_of_int tid # word_of_int (tid div 256)
      # of_nat (length (encode_tlvs ts)) # encode_tlvs ts
      @ h30_checksum (word_of_int tid # word_of_int (tid div 256) # of_nat (length (encode_tlvs ts)) # encode_tlvs ts)"
    and "unat (of_nat (length (encode_tlvs ts)) :: 8 word) = length (encode_tlvs ts)"
    and "length (encode_packet tid ts) = length (encode_tlvs ts) + 7"
  using assms by (simp_all add: encode_packet_def packet_ok_def unat_of_nat)

lemma le_value_tid: "0 \<le> tid \<Longrightarrow> tid < 65536 \<Longrightarrow> le_value [word_of_int tid, word_of_int (tid div 256)] = tid"
  by (simp add: uint_word_of_int)

lemma drain_one_packet:
  assumes ok: "packet_ok tid ts" and empty: "b_buffer p = []"
  shows "drain (push p (encode_packet tid ts)) = (p\<lparr>b_frames := b_frames p + 1\<rparr>, [frame_of tid ts])"
proof -
  let ?pk = "encode_packet tid ts" and ?k = "length (encode_tlvs ts)"
  let ?q = "push p ?pk"
  note shape = encode_packet_shape [OF ok]
  have slices: "slice 2 (?k + 7 - 2) ?pk = word_of_int tid # word_of_int (tid div 256) # of_nat ?k # encode_tlvs ts"
    "drop (?k + 7 - 2) ?pk = h30_checksum (word_of_int tid # word_of_int (tid div 256) # of_nat ?k # encode_tlvs ts)"
    "slice 5 (length ?pk - 2) ?pk = encode_tlvs ts" "slice 2 4 ?pk = [word_of_int tid, word_of_int (tid div 256)]"
    using packet_slices [OF shape(1) h30_checksum_length refl] by simp_all
  have decode: "decode_packet ?pk = Inr (frame_of tid ts)"
    using ok decode_tlvs_encode [of "[]" ts "[]"]
    by (simp add: decode_packet_def slices(3,4) frame_of_def packet_ok_def le_value_tid del: le_value.simps)
  have buf: "b_buffer ?q = ?pk" "?pk ! 4 = of_nat ?k" "?pk \<noteq> []" "find_header ?pk = Some 0"
    using empty by (simp_all add: shape(1))
  have "take_packet ?q = (?q\<lparr>b_buffer := [], b_frames := b_frames ?q + 1\<rparr>, [frame_of tid ts], True)"
    unfolding take_packet_def Let_def buf(1,2) shape(2)
    using shape(3) slices(1,2) decode by simp
  then have "drain_step ?q = (p\<lparr>b_frames := b_frames p + 1\<rparr>, [frame_of tid ts], True)"
    using buf empty by (simp add: drain_step_def) (simp add: push_def)
  then show ?thesis
    using empty by (subst drain.simps) simp
qed

section \<open>Runs\<close>

datatype h30_op = Feed pyval | Reset

fun h30_step :: "h30_op \<Rightarrow> h30_parser \<Rightarrow> (exc + h30_frame list) \<times> h30_parser" where
  "h30_step (Feed data) p = h30_feed data p"
| "h30_step Reset p = (Inr [], h30_reset p)"

definition frames_of :: "(exc + h30_frame list) list \<Rightarrow> h30_frame list" where
  "frames_of outs = concat (map (case_sum (\<lambda>_. []) id) outs)"

fun fed :: "h30_op \<Rightarrow> nat" where
  "fed (Feed (PBytes bs)) = length bs"
| "fed _ = 0"

lemma frames_of_simps [simp]: "frames_of [] = []" "frames_of (r # rs) = case_sum (\<lambda>_. []) id r @ frames_of rs"
  by (simp_all add: frames_of_def)

definition bounded_buffer :: "h30_parser \<Rightarrow> bool" where
  "bounded_buffer p \<longleftrightarrow> length (b_buffer p) < max_packet"

lemma h30_step_accounts:
  assumes "h30_step op p = (r, p')" "bounded_buffer p"
  defines "fs \<equiv> frames_of [r]"
  shows "bounded_buffer p'" "b_frames p' = b_frames p + length fs" "\<forall>f \<in> set fs. genuine f"
    "b_discarded p' + length (b_buffer p') + consumed fs = b_discarded p + length (b_buffer p) + fed op"
proof -
  have "bounded_buffer p' \<and> b_frames p' = b_frames p + length fs \<and> (\<forall>f \<in> set fs. genuine f)
    \<and> b_discarded p' + length (b_buffer p') + consumed fs = b_discarded p + length (b_buffer p) + fed op"
  proof (cases "\<exists>bs. op = Feed (PBytes bs)")
    case True
    then obtain bs where op: "op = Feed (PBytes bs)" by blast
    obtain q gs where f: "feed_chunks bs p = (q, gs)" by (cases "feed_chunks bs p") auto
    from assms(2) have "length (b_buffer p) < max_packet" by (simp add: bounded_buffer_def)
    from feed_chunks_accounts [OF f this] assms(1) f show ?thesis
      by (auto simp: op fs_def h30_feed_def bounded_buffer_def accounts_def)
  next
    case False
    then have "fed op = 0" by (cases op rule: fed.cases) auto
    with False assms(1,2) show ?thesis
      by (cases op) (auto simp: fs_def h30_feed_def bounded_buffer_def h30_reset_def max_packet_def split: pyval.splits)
  qed
  then show "bounded_buffer p'" "b_frames p' = b_frames p + length fs" "\<forall>f \<in> set fs. genuine f"
    "b_discarded p' + length (b_buffer p') + consumed fs = b_discarded p + length (b_buffer p) + fed op" by blast+
qed

interpretation h30: preserves h30_step bounded_buffer
proof
  fix op p
  assume "bounded_buffer p"
  then show "bounded_buffer (snd (h30_step op p))"
    using h30_step_accounts(1) [of op p] by (cases "h30_step op p") auto
qed

lemma run_accounts:
  "bounded_buffer p \<Longrightarrow>
   (let q = run_state h30_step ops p; fs = frames_of (run_outs h30_step ops p) in
      b_frames q = b_frames p + length fs \<and> list_all genuine fs
      \<and> b_discarded q + length (b_buffer q) + consumed fs = b_discarded p + length (b_buffer p) + sum_list (map fed ops))"
proof (induction ops arbitrary: p)
  case Nil
  then show ?case by simp
next
  case (Cons op ops)
  obtain r p' where s: "h30_step op p = (r, p')" by (cases "h30_step op p") auto
  note now = h30_step_accounts [OF s Cons.prems]
  from Cons.IH [OF now(1)] now(2-4) s show ?case
    by (auto simp: Let_def list_all_iff)
qed

lemma init_bounded [simp]: "bounded_buffer h30_init"
  by (simp add: bounded_buffer_def h30_init_def max_packet_def)

lemma run_feed:
  "run_state h30_step (map (Feed \<circ> PBytes) cs) p = fst (feed_chunks (concat cs) p)"
  "frames_of (run_outs h30_step (map (Feed \<circ> PBytes) cs) p) = snd (feed_chunks (concat cs) p)"
  by (induction cs arbitrary: p) (simp_all add: feed_chunks_append h30_feed_def split: prod.splits)

lemma feed_packets:
  "b_buffer p = [] \<Longrightarrow> list_all (\<lambda>(tid, ts). packet_ok tid ts) ps \<Longrightarrow>
   feed_chunks (concat (map (\<lambda>(tid, ts). encode_packet tid ts) ps)) p
     = (p\<lparr>b_frames := b_frames p + length ps\<rparr>, map (\<lambda>(tid, ts). frame_of tid ts) ps)"
proof (induction ps arbitrary: p)
  case Nil
  then show ?case by simp
next
  case (Cons pk ps)
  obtain tid ts where pk: "pk = (tid, ts)" by (cases pk)
  have ok: "packet_ok tid ts" using Cons.prems by (simp add: pk)
  then have "encode_packet tid ts \<noteq> []" by (simp add: encode_packet_shape(1))
  then have "feed_chunks (encode_packet tid ts) p = (p\<lparr>b_frames := b_frames p + 1\<rparr>, [frame_of tid ts])"
    using Cons.prems(1) ok by (simp add: feed_chunks_drain drain_one_packet)
  with Cons pk show ?case by (simp add: feed_chunks_append)
qed

section \<open>Properties\<close>

text \<open>
  C3. Chunk independence: however a byte stream is cut into \<open>feed\<close> calls, the frames returned and the
  final state, buffer and statistics included, are those of feeding it in one call.
\<close>

theorem h30_chunk_independent:
  "run_state h30_step (map (Feed \<circ> PBytes) chunks) p = snd (h30_feed (PBytes (concat chunks)) p)
   \<and> Inr (frames_of (run_outs h30_step (map (Feed \<circ> PBytes) chunks) p))
       = fst (h30_feed (PBytes (concat chunks)) p)"
  by (simp add: run_feed h30_feed_def split: prod.splits)

text \<open>
  C16. No byte is lost or invented, and memory is bounded: after any sequence of \<open>feed\<close> and \<open>reset\<close>
  calls at most 261 bytes are retained, every byte fed is in exactly one of the discarded count, the
  returned frames and the buffer, and the frame statistic counts the frames returned.
\<close>

theorem h30_conserves_bytes:
  "length (b_buffer (run_state h30_step ops h30_init)) < 262
   \<and> b_discarded (run_state h30_step ops h30_init) + length (b_buffer (run_state h30_step ops h30_init))
       + consumed (frames_of (run_outs h30_step ops h30_init)) = sum_list (map fed ops)
   \<and> b_frames (run_state h30_step ops h30_init) = length (frames_of (run_outs h30_step ops h30_init))"
  using run_accounts [OF init_bounded, of ops] h30.run_keeps [OF init_bounded, of ops]
  by (simp add: Let_def bounded_buffer_def max_packet_def) (simp add: h30_init_def)

text \<open>
  C33. Every frame is genuine: each frame returned in any run is, byte for byte, the packet that encodes
  its own TID and type-length-value fields, with a correct checksum, distinct ids and the prescribed
  lengths, and its decoded fields are those of these values.
\<close>

theorem h30_frames_genuine:
  "list_all genuine (frames_of (run_outs h30_step ops h30_init))"
  using run_accounts [OF init_bounded, of ops] by (simp add: Let_def)

text \<open>
  C19. Encoded packets decode: a stream of well-formed packets, however it is cut into chunks, gives
  exactly their frames in order, and leaves no byte discarded or buffered.
\<close>

theorem h30_decodes_stream:
  assumes "list_all (\<lambda>(tid, ts). packet_ok tid ts) ps"
    and "concat chunks = concat (map (\<lambda>(tid, ts). encode_packet tid ts) ps)"
  shows "frames_of (run_outs h30_step (map (Feed \<circ> PBytes) chunks) h30_init) = map (\<lambda>(tid, ts). frame_of tid ts) ps
    \<and> run_state h30_step (map (Feed \<circ> PBytes) chunks) h30_init = h30_init\<lparr>b_frames := length ps\<rparr>"
  using feed_packets [OF _ assms(1), of h30_init] by (simp add: run_feed assms(2)) (simp add: h30_init_def)

theorem h30_decodes_stream_witness:
  "frames_of (run_outs h30_step [Feed (PBytes [0x59]), Feed (PBytes [0x53, 7, 1]),
      Feed (PBytes [6, 0x51, 4, 1, 2, 0, 0, 0x66, 0x75])] h30_init) = [frame_of 263 [(0x51, [1, 2, 0, 0])]]"
proof -
  have "list_all (\<lambda>(tid, ts). packet_ok tid ts) [(263, [(0x51, [1, 2, 0, 0])])]"
    by (simp add: packet_ok_def tlv_ok_def known_lengths_def encode_tlvs_def encode_tlv_def)
  moreover have "concat [[0x59], [0x53, 7, 1], [6, 0x51, 4, 1, 2, 0, 0, 0x66, 0x75]]
      = concat (map (\<lambda>(tid, ts). encode_packet tid ts) [(263, [(0x51, [1, 2, 0, 0])])])"
    by (simp add: encode_packet_def encode_tlvs_def encode_tlv_def h30_checksum_def)
  ultimately show ?thesis
    using h30_decodes_stream [of "[(263, [(0x51, [1, 2, 0, 0])])]"
        "[[0x59], [0x53, 7, 1], [6, 0x51, 4, 1, 2, 0, 0, 0x66, 0x75]]"] by simp
qed

text \<open>Which type-length-value fields a decoded name comes from.\<close>

lemma tlv_names:
  "(''orientation_xyzw'' \<in> fst ` set (tlv_fields i v)) = (i = 0x41)"
  "(''acceleration_m_s2'' \<in> fst ` set (tlv_fields i v)) = (i = 0x10)"
  "(''angular_velocity_rad_s'' \<in> fst ` set (tlv_fields i v)) = (i = 0x20)"
  by (auto simp: tlv_fields_def vector_fields_def)

lemma has_key_fields:
  "has_key (concat (map (\<lambda>(i, v). tlv_fields i v) ts)) k
     = (\<exists>(i, v) \<in> set ts. k \<in> fst ` set (tlv_fields i v))"
proof -
  have "fst ` set (concat (map (\<lambda>(i, v). tlv_fields i v) ts)) = (\<Union>(i, v) \<in> set ts. fst ` set (tlv_fields i v))"
    by (induction ts) auto
  then show ?thesis
    by (auto simp: has_key_def map_of_eq_None_iff)
qed

lemma tlv_values_not_None: "(k, x) \<in> set (tlv_fields i v) \<Longrightarrow> x \<noteq> PNone"
  by (auto simp: tlv_fields_def vector_fields_def scaled_def split: if_splits)

lemma dget_fields: "h_fields f = concat (map (\<lambda>(i, v). tlv_fields i v) (h_tlvs f)) \<Longrightarrow>
    dget (h_fields f) k = PNone \<longleftrightarrow> \<not> has_key (h_fields f) k"
  by (auto simp: dget_def has_key_def split: option.splits dest!: map_of_SomeD tlv_values_not_None)

text \<open>
  No estimate is invented: for a frame of the parser, the dictionary offers an angular velocity or
  a linear acceleration exactly when the packet carried that field, an orientation exactly when it
  carried one of unit norm within the tolerance, marks every absent one by the covariance \<open>-1\<close>, and never
  claims a valid measurement time.
\<close>

lemma imu_dict_invents_nothing:
  assumes "genuine f" "imu_dict quat_norm f tolerance = Inr d"
  shows "(dget d ''angular_velocity'' \<noteq> PNone \<longleftrightarrow> 0x20 \<in> present_ids f)
    \<and> (dget d ''linear_acceleration'' \<noteq> PNone \<longleftrightarrow> 0x10 \<in> present_ids f)
    \<and> (dget d ''orientation'' \<noteq> PNone \<longleftrightarrow> 0x41 \<in> present_ids f
         \<and> f_abs (f_sub (quat_norm (floats_of (dget (h_fields f) ''orientation_xyzw''))) (Fin 1)) \<le> tolerance)
    \<and> dget d ''angular_velocity_covariance'' = imu_covariance (0x20 \<in> present_ids f)
    \<and> dget d ''linear_acceleration_covariance'' = imu_covariance (0x10 \<in> present_ids f)
    \<and> dget d ''orientation_covariance'' = imu_covariance (dget d ''orientation'' \<noteq> PNone)
    \<and> dget d ''time_valid'' = PBool False"
proof -
  have fields: "h_fields f = concat (map (\<lambda>(i, v). tlv_fields i v) (h_tlvs f))"
    using assms(1) by (metis genuine_def frame_of_def h30_frame.select_convs(4))
  have in_ids: "(\<exists>(i, v) \<in> set (h_tlvs f). i = j) \<longleftrightarrow> j \<in> present_ids f" for j
    by (force simp: present_ids_def)
  have keys: "dget (h_fields f) ''angular_velocity_rad_s'' \<noteq> PNone \<longleftrightarrow> 0x20 \<in> present_ids f"
    "dget (h_fields f) ''acceleration_m_s2'' \<noteq> PNone \<longleftrightarrow> 0x10 \<in> present_ids f"
    "dget (h_fields f) ''orientation_xyzw'' \<noteq> PNone \<longleftrightarrow> 0x41 \<in> present_ids f"
    unfolding dget_fields [OF fields] unfolding fields has_key_fields tlv_names in_ids by simp_all
  have d: "d = projr (imu_dict quat_norm f tolerance)" "f_finite tolerance \<and> Fin 0 \<le> tolerance \<and> tolerance < Fin 1"
    using assms(2) by (auto simp: imu_dict_def split: if_splits)
  show ?thesis
    using d(2) keys unfolding d(1) imu_dict_def Let_def by (auto simp del: less_eq_pyfloat.simps)
qed

end
