(* ===== verification/Device_Time.thy ===== *)
theory Device_Time
  imports Py_Value
begin

text \<open>
  \<open>src/src/wc_imu/device_time.py\<close>: device-relative H30 time. A reviewed timing profile fixes the tick
  unit and the counter policy; a validator follows the two 32-bit device counters of a stream, unwraps
  them when the policy allows it, and latches the first discontinuity.

  State: \<open>device_time\<close>, the attributes of class \<open>DeviceTimeValidator\<close>. Operations:
  \<open>load_timing_profile\<close>, \<open>advance_device_counter\<close>, \<open>dt_observe\<close>, \<open>dt_report\<close>,
  \<open>message_timing_metadata\<close>. The file system, the JSON parser and SHA-256 are parameters, gathered in
  \<open>timing_world\<close>.
\<close>

section \<open>The timing profile\<close>

text \<open>The entries of the accepted profile that the program reads; \<open>max_gap_ticks\<close> may be absent.\<close>

record timing_profile =
  t_unit :: string
  t_tick_ns :: int
  t_required :: "string list"
  t_policy :: string
  t_max_gap :: "int option"
  t_tolerance :: "int option"
  t_quarantine :: int
  t_sha256 :: string

record timing_world =
  w_linked :: "string list \<Rightarrow> bool"
  w_read :: "string list \<Rightarrow> bytes option"
  w_json :: "bytes \<Rightarrow> pyval option"
  w_sha256 :: "bytes \<Rightarrow> string"

text \<open>A path is the list of its parts; \<open>prefixes\<close> are the path and its parents.\<close>

definition ordinary :: "timing_world \<Rightarrow> string list \<Rightarrow> exc + string list" where
  "ordinary w path = (if list_ex (w_linked w) (prefixes path)
     then raise ValueError ''IMU_TIMING_LINKED_PATH'' else Inr path)"

definition path_parts :: "string \<Rightarrow> string list" where
  "path_parts s = filter (\<lambda>p. p \<noteq> [] \<and> p \<noteq> ''.'') (split_on (CHR ''/'') s)"

definition sample_field :: string where "sample_field = ''sample_timestamp_raw''"
definition dataready_field :: string where "dataready_field = ''dataready_timestamp_raw''"

text \<open>The identity keys, in the order the source tests them.\<close>

fun identity_check :: "pydict \<Rightarrow> string list \<Rightarrow> exc + unit" where
  "identity_check value [] = Inr ()"
| "identity_check value (key # keys) = (case dget value key of
       PStr s \<Rightarrow> if strip s = [] then raise ValueError (''IMU_TIMING_IDENTITY_REQUIRED: '' @ key)
                 else identity_check value keys
     | _ \<Rightarrow> raise ValueError (''IMU_TIMING_IDENTITY_REQUIRED: '' @ key))"

definition unhashable :: "pyval \<Rightarrow> bool" where
  "unhashable v \<longleftrightarrow> is_list v \<or> is_dict v"

definition required_check :: "pyval \<Rightarrow> exc + string list" where
  "required_check required = (let bad = raise ValueError ''IMU_TIMING_REQUIRED_FIELDS_INVALID'' in
     case required of
       PList xs \<Rightarrow>
         if xs = [] then bad
         else if list_ex unhashable xs then raise TypeError ''unhashable type''
         else if set xs \<subseteq> {PStr sample_field, PStr dataready_field} \<and> distinct xs \<and> PStr sample_field \<in> set xs
         then Inr (map (\<lambda>x. if x = PStr sample_field then sample_field else dataready_field) xs)
         else bad
     | _ \<Rightarrow> bad)"

definition positive_int :: "pyval \<Rightarrow> bool" where
  "positive_int v \<longleftrightarrow> (case v of PInt i \<Rightarrow> 0 < i | _ \<Rightarrow> False)"

definition int_in :: "int \<Rightarrow> int \<Rightarrow> pyval \<Rightarrow> bool" where
  "int_in lo hi v \<longleftrightarrow> (case v of PInt i \<Rightarrow> lo \<le> i \<and> i \<le> hi | _ \<Rightarrow> False)"

definition opt_int :: "pyval \<Rightarrow> int option" where
  "opt_int v = (case v of PInt i \<Rightarrow> Some i | _ \<Rightarrow> None)"

fun evidence_check :: "timing_world \<Rightarrow> string list \<Rightarrow> pyval list \<Rightarrow> exc + unit" where
  "evidence_check w parent [] = Inr ()"
| "evidence_check w parent (row # rows) =
     (case row of
        PDict d \<Rightarrow>
          (case dget d ''path'' of
             PStr s \<Rightarrow>
               (let parts = path_parts s
                in if (s \<noteq> [] \<and> hd s = CHR ''/'') \<or> ''..'' \<in> set parts \<or> parts = []
                   then raise ValueError ''IMU_TIMING_EVIDENCE_PATH_INVALID''
                   else bindr (ordinary w (parent @ parts)) (\<lambda>target.
                     case dget d ''sha256'' of
                       PStr expected \<Rightarrow>
                         if \<not> sha256_text expected then raise ValueError ''IMU_TIMING_EVIDENCE_HASH_INVALID''
                         else (case w_read w target of
                             None \<Rightarrow> raise OSError ''read_bytes''
                           | Some bs \<Rightarrow> if w_sha256 w bs \<noteq> expected
                               then raise ValueError (''IMU_TIMING_EVIDENCE_HASH_MISMATCH: '' @ join_with ''/'' parts)
                               else evidence_check w parent rows)
                     | _ \<Rightarrow> raise ValueError ''IMU_TIMING_EVIDENCE_HASH_INVALID''))
           | _ \<Rightarrow> raise ValueError ''IMU_TIMING_EVIDENCE_PATH_INVALID'')
      | _ \<Rightarrow> raise ValueError ''IMU_TIMING_EVIDENCE_PATH_INVALID'')"

text \<open>The validation of the parsed profile, between reading it and checking its evidence.\<close>

definition timing_checks :: "pyval option \<Rightarrow> pydict \<Rightarrow> exc + (string list \<times> pyval)" where
  "timing_checks sensor_id value =
     (if dget value ''schema_version'' \<noteq> PInt 1 \<or> dget value ''status'' \<noteq> PStr ''VERIFIED_DEVICE_RELATIVE_TIME''
      then raise ValueError ''IMU_TIMING_VERIFIED_PROFILE_REQUIRED''
      else bindr (identity_check value [''sensor_id'', ''hardware_serial'', ''product_version'']) (\<lambda>_.
      if (case (dget value ''sensor_id'', dget value ''hardware_serial'') of
            (PStr a, PStr b) \<Rightarrow> a \<noteq> ''H30-'' @ b | _ \<Rightarrow> True)
         \<or> (case sensor_id of None \<Rightarrow> False | Some i \<Rightarrow> dget value ''sensor_id'' \<noteq> i)
      then raise ValueError ''IMU_TIMING_SENSOR_IDENTITY_MISMATCH''
      else if dget value ''device_timestamp_unit'' \<notin> {PStr ''us'', PStr ''100us''} \<or> \<not> is_int (dget value ''tick_ns'')
      then raise ValueError ''IMU_TIMING_EXPLICIT_UNIT_REQUIRED''
      else if dget value ''tick_ns'' \<noteq> PInt (if dget value ''device_timestamp_unit'' = PStr ''us'' then 1000 else 100000)
      then raise ValueError ''IMU_TIMING_UNIT_SCALE_MISMATCH''
      else bindr (required_check (dget value ''required_fields'')) (\<lambda>required.
      if dget value ''backward_policy'' \<notin> {PStr ''reject'', PStr ''guarded_uint32_wrap''}
         \<or> dget value ''duplicate_policy'' \<noteq> PStr ''reject''
      then raise ValueError ''IMU_TIMING_EXPLICIT_COUNTER_POLICY_REQUIRED''
      else if dget value ''read_mode'' \<notin> {PStr ''event'', PStr ''poll''}
      then raise ValueError ''IMU_TIMING_READ_MODE_INVALID''
      else let quarantine = dget_or value ''startup_quarantine_ns'' (PInt 250000000) in
      if \<not> int_in 1 2000000000 quarantine
      then raise ValueError ''IMU_TIMING_STARTUP_QUARANTINE_OUTSIDE_0_TO_2_SECONDS''
      else if has_key value ''max_gap_ticks'' \<and> \<not> positive_int (dget value ''max_gap_ticks'')
      then raise ValueError ''IMU_TIMING_MAX_GAP_INVALID''
      else if dget value ''backward_policy'' = PStr ''guarded_uint32_wrap''
         \<and> (\<not> int_in 1 (2 ^ 31 - 1) (dget value ''max_gap_ticks'')
            \<or> (case dget value ''wrap_host_tolerance_ns'' of PInt t \<Rightarrow> t < 0 | _ \<Rightarrow> True))
      then raise ValueError ''IMU_TIMING_WRAP_GUARDS_REQUIRED''
      else Inr (required, quarantine))))"

text \<open>The entries of the validated profile that the program reads later.\<close>

definition timing_entries :: "pydict \<Rightarrow> string list \<Rightarrow> pyval \<Rightarrow> string \<Rightarrow> timing_profile" where
  "timing_entries value required quarantine sha =
     (let us = (dget value ''device_timestamp_unit'' = PStr ''us'')
      in \<lparr>t_unit = (if us then ''us'' else ''100us''), t_tick_ns = (if us then 1000 else 100000), t_required = required,
          t_policy = (if dget value ''backward_policy'' = PStr ''guarded_uint32_wrap''
                      then ''guarded_uint32_wrap'' else ''reject''),
          t_max_gap = opt_int (dget value ''max_gap_ticks''),
          t_tolerance = opt_int (dget value ''wrap_host_tolerance_ns''),
          t_quarantine = (case quarantine of PInt q \<Rightarrow> q | _ \<Rightarrow> 0), t_sha256 = sha\<rparr>)"

definition timing_policy :: "pyval option \<Rightarrow> pyval \<Rightarrow> string \<Rightarrow> exc + timing_profile" where
  "timing_policy sensor_id v sha = (case v of
       PDict value \<Rightarrow> bindr (timing_checks sensor_id value) (\<lambda>(required, quarantine).
         Inr (timing_entries value required quarantine sha))
     | _ \<Rightarrow> raise ValueError ''IMU_TIMING_VERIFIED_PROFILE_REQUIRED'')"

definition load_timing_profile :: "timing_world \<Rightarrow> string list \<Rightarrow> pyval option \<Rightarrow> exc + timing_profile" where
  "load_timing_profile w path sensor_id =
     bindr (ordinary w path) (\<lambda>path.
     case w_read w path of None \<Rightarrow> raise OSError ''read_bytes''
     | Some raw \<Rightarrow>
       if 65536 < int (length raw) then raise ValueError ''IMU_TIMING_PROFILE_OVERSIZED''
       else case w_json w raw of None \<Rightarrow> raise ValueError ''json''
       | Some v \<Rightarrow>
         bindr (timing_policy sensor_id v (w_sha256 w raw)) (\<lambda>profile.
         case v of
           PDict value \<Rightarrow>
             (case dget value ''evidence'' of
                PList rows \<Rightarrow> if rows = [] then raise ValueError ''IMU_TIMING_EVIDENCE_REQUIRED''
                  else bindr (evidence_check w (butlast path) rows) (\<lambda>_. Inr profile)
              | _ \<Rightarrow> raise ValueError ''IMU_TIMING_EVIDENCE_REQUIRED'')
         | _ \<Rightarrow> raise ValueError ''IMU_TIMING_EVIDENCE_REQUIRED''))"

section \<open>One counter\<close>

definition in_uint32 :: "int \<Rightarrow> bool" where
  "in_uint32 v \<longleftrightarrow> 0 \<le> v \<and> v < 2 ^ 32"

definition advance_device_counter :: "pyval \<Rightarrow> pyval \<Rightarrow> pyval \<Rightarrow> timing_profile \<Rightarrow> exc + (int \<times> bool)" where
  "advance_device_counter previous current host_delta profile =
     (case (previous, current) of
        (PInt prev, PInt cur) \<Rightarrow>
          if \<not> in_uint32 prev \<or> \<not> in_uint32 cur then raise ValueError ''IMU_DEVICE_TIME_RANGE''
          else let delta = cur - prev in
          if delta = 0 then raise ValueError ''IMU_DEVICE_TIME_DUPLICATE''
          else if 0 < delta
          then (if (case t_max_gap profile of Some g \<Rightarrow> g < delta | None \<Rightarrow> False)
                then raise ValueError ''IMU_DEVICE_TIME_GAP_EXCEEDED'' else Inr (delta, False))
          else if t_policy profile \<noteq> ''guarded_uint32_wrap''
          then raise ValueError ''IMU_DEVICE_TIME_BACKWARD_RESET_OR_WRAP''
          else (case t_max_gap profile of None \<Rightarrow> raise KeyError ''max_gap_ticks''
          | Some bound \<Rightarrow>
            (case host_delta of
               PInt host \<Rightarrow>
                 if host < 0 then raise ValueError ''IMU_DEVICE_TIME_WRAP_HOST_DELTA_REQUIRED''
                 else let delta = delta + 2 ^ 32; bad = raise ValueError ''IMU_DEVICE_TIME_UNPROVEN_WRAP_OR_RESET'' in
                 if prev < 2 ^ 32 - bound \<or> bound < cur \<or> \<not> (0 < delta \<and> delta \<le> bound) then bad
                 else (case t_tolerance profile of None \<Rightarrow> raise KeyError ''wrap_host_tolerance_ns''
                   | Some tol \<Rightarrow> if tol < \<bar>delta * t_tick_ns profile - host\<bar> then bad else Inr (delta, True))
             | _ \<Rightarrow> raise ValueError ''IMU_DEVICE_TIME_WRAP_HOST_DELTA_REQUIRED''))
      | _ \<Rightarrow> raise ValueError ''IMU_DEVICE_TIME_RANGE'')"

section \<open>The validator\<close>

record device_time =
  v_profile :: timing_profile
  v_previous :: "(string \<times> int) list"
  v_error :: "string option"
  v_accepted :: nat
  v_first :: "(string \<times> int) list"
  v_last :: "(string \<times> int) list"
  v_previous_host :: pyval
  v_wraps :: "(string \<times> int) list"
  v_elapsed :: "(string \<times> int) list"

definition dt_init :: "timing_profile \<Rightarrow> device_time" where
  "dt_init profile = \<lparr>v_profile = profile, v_previous = [], v_error = None, v_accepted = 0, v_first = [],
     v_last = [], v_previous_host = PNone, v_wraps = [], v_elapsed = []\<rparr>"

text \<open>\<open>host_monotonic_ns - self.previous_host\<close> when both are there.\<close>

definition host_delta :: "pyval \<Rightarrow> pyval \<Rightarrow> exc + pyval" where
  "host_delta host previous =
     (if previous = PNone \<or> host = PNone then Inr PNone
      else case (py_num host, py_num previous) of (Some _, Some _) \<Rightarrow> Inr (py_sub host previous)
      | _ \<Rightarrow> raise TypeError ''unsupported operand type(s) for -'')"

text \<open>One field of the frame: absent and optional (\<open>None\<close>), or its value with its advance,
  \<open>(0, False)\<close> for the first value of the stream.\<close>

definition observe_field :: "device_time \<Rightarrow> pydict \<Rightarrow> pyval \<Rightarrow> string \<Rightarrow> exc + (int \<times> int \<times> bool) option" where
  "observe_field d seen host field =
     (case dget seen field of
        PNone \<Rightarrow> if field \<in> set (t_required (v_profile d)) then raise ValueError (''IMU_DEVICE_TIME_MISSING: '' @ field)
                 else Inr None
      | PInt v \<Rightarrow>
          if \<not> in_uint32 v then raise ValueError (''IMU_DEVICE_TIME_RANGE: '' @ field)
          else (case map_of (v_previous d) field of
              None \<Rightarrow> Inr (Some (v, 0, False))
            | Some prev \<Rightarrow> bindr (host_delta host (v_previous_host d)) (\<lambda>delta.
                bindr (advance_device_counter (PInt prev) (PInt v) delta (v_profile d)) (\<lambda>(ticks, wrapped).
                  Inr (Some (v, ticks, wrapped)))))
      | _ \<Rightarrow> raise ValueError (''IMU_DEVICE_TIME_RANGE: '' @ field))"

definition host_check :: "device_time \<Rightarrow> pyval \<Rightarrow> exc + unit" where
  "host_check d host = guard (t_policy (v_profile d) = ''guarded_uint32_wrap''
       \<and> (case host of PInt h \<Rightarrow> h < 0 \<or> v_previous_host d \<noteq> PNone \<and> py_lt host (v_previous_host d) | _ \<Rightarrow> True))
     ValueError ''IMU_DEVICE_TIME_HOST_MONOTONIC_REQUIRED''"

definition observe_all :: "device_time \<Rightarrow> pydict \<Rightarrow> pyval \<Rightarrow> exc + (string \<times> int \<times> int \<times> bool) list" where
  "observe_all d seen host =
     bindr (host_check d host) (\<lambda>_.
     bindr (observe_field d seen host sample_field) (\<lambda>s.
     bindr (observe_field d seen host dataready_field) (\<lambda>r.
       Inr ((case s of None \<Rightarrow> [] | Some x \<Rightarrow> [(sample_field, x)])
            @ (case r of None \<Rightarrow> [] | Some x \<Rightarrow> [(dataready_field, x)])))))"

definition add_count :: "string \<times> int \<Rightarrow> (string \<times> int) list \<Rightarrow> (string \<times> int) list" where
  "add_count kv d = dput (fst kv) ((case map_of d (fst kv) of None \<Rightarrow> 0 | Some n \<Rightarrow> n) + snd kv) d"

definition dt_result :: "timing_profile \<Rightarrow> (string \<times> int) list \<Rightarrow> pydict" where
  "dt_result profile values =
     [(''device_timestamp_unit'', PStr (t_unit profile)), (''device_time_status'', PStr ''VALID_DEVICE_RELATIVE_TIME''),
      (''timing_profile_sha256'', PStr (t_sha256 profile)),
      (sample_field, PInt (case map_of values sample_field of None \<Rightarrow> 0 | Some v \<Rightarrow> v)),
      (''sample_timestamp_valid'', PBool (map_of values sample_field \<noteq> None)),
      (dataready_field, PInt (case map_of values dataready_field of None \<Rightarrow> 0 | Some v \<Rightarrow> v)),
      (''dataready_timestamp_valid'', PBool (map_of values dataready_field \<noteq> None))]"

definition dt_observe :: "pydict \<times> pyval \<Rightarrow> device_time \<Rightarrow> (exc + pydict) \<times> device_time" where
  "dt_observe obs d = (case obs of (frame, host) \<Rightarrow>
     (case v_error d of
        Some e \<Rightarrow> (raise ValueError (''IMU_DEVICE_TIME_LATCHED: '' @ e), d)
      | None \<Rightarrow>
        (case observe_all d frame host of
           Inl e \<Rightarrow> (Inl e, d\<lparr>v_error := Some (str_exc e)\<rparr>)
         | Inr seen \<Rightarrow>
             (let values = map (\<lambda>(f, v, _, _). (f, v)) seen
              in (Inr (dt_result (v_profile d) values),
                  d\<lparr>v_previous := dupdate values (v_previous d), v_previous_host := host,
                    v_elapsed := foldl (\<lambda>e (f, _, ticks, _). add_count (f, ticks) e) (v_elapsed d) seen,
                    v_wraps := foldl (\<lambda>e (f, _, _, wrapped). add_count (f, if wrapped then 1 else 0) e) (v_wraps d) seen,
                    v_first := (if v_accepted d = 0 then values else v_first d),
                    v_last := values, v_accepted := v_accepted d + 1\<rparr>)))))"

definition counts_dict :: "(string \<times> int) list \<Rightarrow> pyval" where
  "counts_dict d = PDict (map (\<lambda>(k, v). (k, PInt v)) d)"

definition dt_report :: "device_time \<Rightarrow> exc + pydict" where
  "dt_report d = bindr (f_div (round64 (of_int (2 ^ 32 * t_tick_ns (v_profile d)))) (Fin 1000000000)) (\<lambda>period.
     Inr [(''accepted_frames'', PInt (int (v_accepted d))),
          (''error'', case v_error d of None \<Rightarrow> PNone | Some e \<Rightarrow> PStr e),
          (''first_raw'', counts_dict (v_first d)), (''last_raw'', counts_dict (v_last d)),
          (''timing_profile_sha256'', PStr (t_sha256 (v_profile d))),
          (''device_timestamp_unit'', PStr (t_unit (v_profile d))),
          (''counter_wrap_policy'', PStr (t_policy (v_profile d))),
          (''wrap_counts'', counts_dict (v_wraps d)), (''elapsed_ticks'', counts_dict (v_elapsed d)),
          (''mathematical_counter_period_s'', PFloat period),
          (''common_measurement_time_validated'', PBool False)])"

section \<open>Message metadata\<close>

text \<open>The attributes of a message that are read; an absent one is \<open>None\<close>.\<close>

record imu_message =
  i_flags :: "string list"
  i_unit :: "pyval option"
  i_sample_valid :: "pyval option"
  i_sample_raw :: "pyval option"
  i_dataready_valid :: "pyval option"
  i_dataready_raw :: "pyval option"

definition profile_flag :: string where "profile_flag = ''TIMING_PROFILE_SHA256:''"
definition valid_flag :: string where "valid_flag = ''DEVICE_RELATIVE_TIME_VALIDATED''"

definition attr_or :: "pyval option \<Rightarrow> pyval \<Rightarrow> pyval" where
  "attr_or a v = (case a of None \<Rightarrow> v | Some x \<Rightarrow> x)"

definition message_timing_metadata :: "imu_message \<Rightarrow> exc + pydict" where
  "message_timing_metadata m =
     (let hashes = map (drop (length profile_flag)) (filter (prefix profile_flag) (i_flags m))
      in if 1 < length hashes \<or> hashes \<noteq> [] \<and> \<not> sha256_text (hd hashes)
         then raise ValueError ''IMU_TIMING_MESSAGE_PROFILE_INVALID''
         else if (hashes \<noteq> []) \<noteq> (valid_flag \<in> set (i_flags m))
         then raise ValueError ''IMU_TIMING_MESSAGE_STATUS_MISMATCH''
         else Inr
           [(''device_timestamp_unit'', attr_or (i_unit m) (PStr ''UNKNOWN_us_or_100us'')),
            (''device_time_status'', PStr (if hashes \<noteq> [] then ''VALID_DEVICE_RELATIVE_TIME'' else ''LEGACY_ARRIVAL_ONLY'')),
            (''timing_profile_sha256'', if hashes \<noteq> [] then PStr (hd hashes) else PNone),
            (''sample_timestamp_valid'', attr_or (i_sample_valid m) (PBool False)),
            (''sample_timestamp_raw'', attr_or (i_sample_raw m) (PInt 0)),
            (''dataready_timestamp_valid'', attr_or (i_dataready_valid m) (PBool False)),
            (''dataready_timestamp_raw'', attr_or (i_dataready_raw m) (PInt 0))])"

section \<open>Lemmas\<close>

lemma advance_Inr:
  assumes "advance_device_counter (PInt prev) (PInt cur) host profile = Inr (ticks, wrapped)"
  shows "0 < ticks" "ticks < 2 ^ 32" "ticks = cur - prev + (if wrapped then 2 ^ 32 else 0)"
    "in_uint32 prev" "in_uint32 cur" "wrapped \<longleftrightarrow> cur < prev"
    "\<And>g. t_max_gap profile = Some g \<Longrightarrow> ticks \<le> g"
    "wrapped \<Longrightarrow> \<exists>h tol. host = PInt h \<and> t_tolerance profile = Some tol \<and> \<bar>ticks * t_tick_ns profile - h\<bar> \<le> tol
       \<and> t_policy profile = ''guarded_uint32_wrap''"
  using assms by (auto simp: advance_device_counter_def Let_def in_uint32_def
      split: if_splits option.splits pyval.splits)

lemma dupdate_map: "distinct (map fst e) \<Longrightarrow> map_of (dupdate e d) = map_of d ++ map_of e"
proof (induction e arbitrary: d)
  case Nil
  then show ?case by simp
next
  case (Cons kv e)
  obtain k v where kv: "kv = (k, v)" by (cases kv)
  have "k \<notin> dom (map_of e)" using Cons.prems by (simp add: kv dom_map_of_conv_image_fst)
  with Cons show ?case
    by (simp add: kv fun_eq_iff map_add_def split: option.splits) (auto simp: domIff)
qed

definition count_of :: "(string \<times> int) list \<Rightarrow> string \<Rightarrow> int" where
  "count_of d f = (case map_of d f of None \<Rightarrow> 0 | Some n \<Rightarrow> n)"

lemma add_count_map [simp]:
  "map_of (add_count (f, n) d) = (map_of d)(f \<mapsto> count_of d f + n)"
  by (simp add: add_count_def count_of_def)

lemma fold_counts:
  "distinct (map fst seen) \<Longrightarrow>
   map_of (foldl (\<lambda>e x. add_count (fst x, c (snd x)) e) d seen) f
     = (case map_of seen f of None \<Rightarrow> map_of d f | Some y \<Rightarrow> Some (count_of d f + c y))"
proof (induction seen arbitrary: d)
  case Nil
  then show ?case by simp
next
  case (Cons x seen)
  have "fst x \<notin> dom (map_of seen)" using Cons.prems by (simp add: dom_map_of_conv_image_fst)
  then have "map_of seen (fst x) = None" by (simp add: domIff)
  with Cons show ?case
    by (cases x) (auto simp: count_of_def split: option.splits)
qed

lemma observe_all_Inr:
  assumes "observe_all d frame host = Inr seen" "f = sample_field \<or> f = dataready_field"
  shows "observe_field d frame host f = Inr (map_of seen f)" "distinct (map fst seen)"
proof -
  from assms(1) obtain s r where "observe_field d frame host sample_field = Inr s"
      "observe_field d frame host dataready_field = Inr r"
      "seen = (case s of None \<Rightarrow> [] | Some x \<Rightarrow> [(sample_field, x)])
            @ (case r of None \<Rightarrow> [] | Some x \<Rightarrow> [(dataready_field, x)])"
    by (auto simp: observe_all_def result_simps)
  moreover have "sample_field \<noteq> dataready_field" by (simp add: sample_field_def dataready_field_def)
  ultimately show "observe_field d frame host f = Inr (map_of seen f)" "distinct (map fst seen)"
    using assms(2) by (cases s; cases r; auto)+
qed

lemma dt_observe_cases:
  obtains (latched) e where "v_error d = Some e"
      "dt_observe (frame, host) d = (raise ValueError (''IMU_DEVICE_TIME_LATCHED: '' @ e), d)"
  | (failed) e where "v_error d = None" "observe_all d frame host = Inl e"
      "dt_observe (frame, host) d = (Inl e, d\<lparr>v_error := Some (str_exc e)\<rparr>)"
  | (ok) seen where "v_error d = None" "observe_all d frame host = Inr seen"
      "fst (dt_observe (frame, host) d) = Inr (dt_result (v_profile d) (map (\<lambda>(f, v, _). (f, v)) seen))"
      "v_profile (snd (dt_observe (frame, host) d)) = v_profile d"
      "v_error (snd (dt_observe (frame, host) d)) = None"
      "v_accepted (snd (dt_observe (frame, host) d)) = v_accepted d + 1"
      "v_previous (snd (dt_observe (frame, host) d)) = dupdate (map (\<lambda>(f, v, _). (f, v)) seen) (v_previous d)"
      "v_first (snd (dt_observe (frame, host) d)) = (if v_accepted d = 0 then map (\<lambda>(f, v, _). (f, v)) seen else v_first d)"
      "v_last (snd (dt_observe (frame, host) d)) = map (\<lambda>(f, v, _). (f, v)) seen"
      "v_elapsed (snd (dt_observe (frame, host) d)) = foldl (\<lambda>e x. add_count (fst x, (\<lambda>(v, t, w). t) (snd x)) e) (v_elapsed d) seen"
      "v_wraps (snd (dt_observe (frame, host) d)) = foldl (\<lambda>e x. add_count (fst x, (\<lambda>(v, t, w). if w then 1 else 0) (snd x)) e) (v_wraps d) seen"
proof (cases "v_error d")
  case (Some e)
  then show ?thesis by (intro latched) (simp_all add: dt_observe_def)
next
  case None
  show ?thesis
  proof (cases "observe_all d frame host")
    case (Inl e)
    with None show ?thesis by (intro failed) (simp_all add: dt_observe_def)
  next
    case (Inr seen)
    have "(\<lambda>(f, v, _, _). (f, v)) = (\<lambda>(f :: string, v :: int, _ :: int \<times> bool). (f, v))" by auto
    moreover have "(\<lambda>e (f, _, ticks, _). add_count (f, ticks) e)
        = (\<lambda>e (x :: string \<times> int \<times> int \<times> bool). add_count (fst x, (\<lambda>(v, t, w). t) (snd x)) e)" by (auto simp: fun_eq_iff)
    moreover have "(\<lambda>e (f, _, _, wrapped). add_count (f, if wrapped then 1 else 0) e)
        = (\<lambda>e (x :: string \<times> int \<times> int \<times> bool). add_count (fst x, (\<lambda>(v, t, w). if w then 1 else 0) (snd x)) e)" by (auto simp: fun_eq_iff)
    ultimately show ?thesis
      using None Inr by (intro ok [of seen]) (simp_all add: dt_observe_def Let_def)
  qed
qed

interpretation dt: fail_stop_strict dt_observe "\<lambda>d. v_error d \<noteq> None"
proof
  fix d :: device_time and obs :: "pydict \<times> pyval"
  obtain frame host where obs: "obs = (frame, host)" by (cases obs)
  show "v_error d \<noteq> None \<Longrightarrow> isl (fst (dt_observe obs d))"
    by (cases rule: dt_observe_cases [of d frame host]) (auto simp: obs)
  show "v_error d \<noteq> None \<Longrightarrow> v_error (snd (dt_observe obs d)) \<noteq> None"
    by (cases rule: dt_observe_cases [of d frame host]) (auto simp: obs)
  show "isl (fst (dt_observe obs d)) \<Longrightarrow> v_error (snd (dt_observe obs d)) \<noteq> None"
    by (cases rule: dt_observe_cases [of d frame host]) (auto simp: obs)
qed

text \<open>What the state says of a required field.\<close>

definition tracks :: "string \<Rightarrow> device_time \<Rightarrow> bool" where
  "tracks f d \<longleftrightarrow> f \<in> set (t_required (v_profile d)) \<and>
     (if v_accepted d = 0
      then map_of (v_previous d) f = None \<and> map_of (v_elapsed d) f = None \<and> map_of (v_wraps d) f = None
      else \<exists>a b e w. map_of (v_first d) f = Some a \<and> map_of (v_last d) f = Some b
        \<and> map_of (v_previous d) f = Some b \<and> map_of (v_elapsed d) f = Some e \<and> map_of (v_wraps d) f = Some w
        \<and> e = b - a + 2 ^ 32 * w \<and> 0 \<le> w \<and> int (v_accepted d) - 1 \<le> e)"

lemma values_map: "map_of (map (\<lambda>(f, v, _). (f, v)) seen) f = map_option fst (map_of seen f)"
  by (induction seen) auto

lemma observe_field_required:
  assumes "observe_field d frame host f = Inr r" "f \<in> set (t_required (v_profile d))"
  obtains v ticks wrapped where "r = Some (v, ticks, wrapped)"
    "(case map_of (v_previous d) f of None \<Rightarrow> ticks = 0 \<and> \<not> wrapped
      | Some prev \<Rightarrow> 0 < ticks \<and> ticks = v - prev + (if wrapped then 2 ^ 32 else 0))"
proof -
  from assms obtain v where "dget frame f = PInt v"
    by (cases "dget frame f") (auto simp: observe_field_def)
  note v = this
  show ?thesis
  proof (cases "map_of (v_previous d) f")
    case None
    with assms(1) v have "r = Some (v, 0, False)"
      by (simp add: observe_field_def split: if_splits)
    with None show ?thesis by (intro that [of v 0 False]) simp_all
  next
    case (Some prev)
    with assms(1) v obtain delta ticks wrapped
      where adv: "advance_device_counter (PInt prev) (PInt v) delta (v_profile d) = Inr (ticks, wrapped)"
        and r: "r = Some (v, ticks, wrapped)"
      by (auto simp: observe_field_def result_simps split: if_splits)
    from advance_Inr(1,3) [OF adv] Some that [OF r] show ?thesis by simp
  qed
qed

lemma observe_tracks:
  assumes "tracks f d" "f = sample_field \<or> f = dataready_field"
  shows "tracks f (snd (dt_observe obs d))"
proof -
  obtain frame host where obs: "obs = (frame, host)" by (cases obs)
  show ?thesis
  proof (cases rule: dt_observe_cases [of d frame host])
    case latched
    with assms show ?thesis by (simp add: obs)
  next
    case failed
    have "tracks f (d\<lparr>v_error := x\<rparr>) = tracks f d" for x by (simp add: tracks_def)
    with failed assms show ?thesis by (simp add: obs)
  next
    case (ok seen)
    have req: "f \<in> set (t_required (v_profile d))" using assms(1) by (simp add: tracks_def)
    note seen = observe_all_Inr [OF ok(2) assms(2)]
    obtain v ticks wrapped where r: "map_of seen f = Some (v, ticks, wrapped)"
      and t: "case map_of (v_previous d) f of None \<Rightarrow> ticks = 0 \<and> \<not> wrapped
        | Some prev \<Rightarrow> 0 < ticks \<and> ticks = v - prev + (if wrapped then 2 ^ 32 else 0)"
      by (rule observe_field_required [OF seen(1) req])
    have dist: "distinct (map fst (map (\<lambda>(f, v, _). (f, v)) seen))"
      using seen(2) by (simp add: comp_def case_prod_unfold)
    have prev: "map_of (v_previous (snd (dt_observe obs d))) f = Some v"
      "map_of (v_last (snd (dt_observe obs d))) f = Some v"
      "map_of (v_elapsed (snd (dt_observe obs d))) f = Some (count_of (v_elapsed d) f + ticks)"
      "map_of (v_wraps (snd (dt_observe obs d))) f = Some (count_of (v_wraps d) f + (if wrapped then 1 else 0))"
      by (simp_all add: obs ok dupdate_map [OF dist] values_map r fold_counts [OF seen(2)])
    show ?thesis
    proof (cases "v_accepted d = 0")
      case True
      with assms(1) t prev req show ?thesis
        by (simp add: tracks_def count_of_def obs ok values_map r)
    next
      case False
      with assms(1) obtain a b e w where old: "map_of (v_first d) f = Some a" "map_of (v_previous d) f = Some b"
        "map_of (v_elapsed d) f = Some e" "map_of (v_wraps d) f = Some w" "e = b - a + 2 ^ 32 * w" "0 \<le> w"
        "int (v_accepted d) - 1 \<le> e"
        by (auto simp: tracks_def)
      with t prev req False show ?thesis
        by (auto simp: tracks_def count_of_def obs ok)
    qed
  qed
qed

lemma run_tracks:
  "tracks f d \<Longrightarrow> f = sample_field \<or> f = dataready_field \<Longrightarrow> tracks f (run_state dt_observe obs d)"
  by (induction obs arbitrary: d) (auto intro: observe_tracks)

lemma init_tracks: "f \<in> set (t_required profile) \<Longrightarrow> tracks f (dt_init profile)"
  by (simp add: tracks_def dt_init_def)

section \<open>Properties\<close>

text \<open>
  Unwrapping is right: when a 32-bit counter moves on by \<open>elapsed\<close> ticks, less than one period, an
  accepted advance returns exactly \<open>elapsed\<close>, reports a wrap exactly when the counter overflowed,
  respects the configured gap, and claims a wrap only on host-clock evidence within the tolerance.
\<close>

lemma advance_recovers_elapsed:
  assumes "advance_device_counter (PInt prev) (PInt ((prev + elapsed) mod 2 ^ 32)) host profile = Inr (ticks, wrapped)"
    and "0 \<le> elapsed" "elapsed < 2 ^ 32"
  shows "ticks = elapsed \<and> (wrapped \<longleftrightarrow> 2 ^ 32 \<le> prev + elapsed)
    \<and> (case t_max_gap profile of Some g \<Rightarrow> elapsed \<le> g | None \<Rightarrow> True)
    \<and> (wrapped \<longrightarrow> (case (host, t_tolerance profile) of
         (PInt h, Some tol) \<Rightarrow> \<bar>elapsed * t_tick_ns profile - h\<bar> \<le> tol | _ \<Rightarrow> False))"
proof -
  note adv = advance_Inr [OF assms(1)]
  have prev: "0 \<le> prev" "prev < 2 ^ 32"
    using adv(4) by (simp_all add: in_uint32_def)
  have cur: "(prev + elapsed) mod 2 ^ 32 = prev + elapsed - (if 2 ^ 32 \<le> prev + elapsed then 2 ^ 32 else 0)"
  proof (cases "2 ^ 32 \<le> prev + elapsed")
    case True
    then have "(prev + elapsed - 2 ^ 32) mod 2 ^ 32 = prev + elapsed - 2 ^ 32"
      using prev assms(2,3) by (intro mod_pos_pos_trivial) linarith+
    with True show ?thesis by (simp del: mod_pos_pos_trivial)
  next
    case False
    with prev assms(2) show ?thesis by simp
  qed
  have wrapped: "wrapped \<longleftrightarrow> 2 ^ 32 \<le> prev + elapsed"
    using adv(6) prev assms(2,3) unfolding cur by (simp split: if_splits)
  with adv(3) have ticks: "ticks = elapsed"
    unfolding cur by (simp split: if_splits)
  with wrapped adv(7,8) show ?thesis
    by (auto split: option.splits)
qed

definition example_timing :: timing_profile where
  "example_timing = \<lparr>t_unit = ''us'', t_tick_ns = 1000, t_required = [sample_field],
     t_policy = ''guarded_uint32_wrap'', t_max_gap = Some 100, t_tolerance = Some 2000,
     t_quarantine = 250000000, t_sha256 = ''ab''\<rparr>"

text \<open>
  C12. Elapsed device time is exact: after any sequence of frames, accepted or not, a required counter's
  accumulated ticks are its last raw value minus its first one plus \<open>2 ^ 32\<close> for every wrap counted, and
  are at least one per accepted frame after the first.
\<close>

theorem device_time_unwraps:
  assumes "f = sample_field \<or> f = dataready_field" and "f \<in> set (t_required profile)"
    and "d = run_state dt_observe observations (dt_init profile)" and "0 < v_accepted d"
  shows "\<exists>first last elapsed wraps. map_of (v_first d) f = Some first \<and> map_of (v_last d) f = Some last
    \<and> map_of (v_elapsed d) f = Some elapsed \<and> map_of (v_wraps d) f = Some wraps
    \<and> elapsed = last - first + 2 ^ 32 * wraps \<and> 0 \<le> wraps \<and> int (v_accepted d) - 1 \<le> elapsed"
  using run_tracks [OF init_tracks [OF assms(2)] assms(1), of observations] assms(3,4)
  by (auto simp: tracks_def)

theorem device_time_unwraps_witness:
  "\<exists>elapsed. map_of (v_elapsed (run_state dt_observe
      [([(sample_field, PInt 4294967290)], PInt 5000), ([(sample_field, PInt 4)], PInt 16000)] (dt_init example_timing)))
      sample_field = Some elapsed \<and> 1 \<le> elapsed"
proof -
  let ?d = "run_state dt_observe
      [([(sample_field, PInt 4294967290)], PInt 5000), ([(sample_field, PInt 4)], PInt 16000)] (dt_init example_timing)"
  have acc: "v_accepted ?d = 2"
    by (simp add: dt_observe_def dt_init_def observe_all_def host_check_def observe_field_def host_delta_def
        advance_device_counter_def example_timing_def in_uint32_def sample_field_def dataready_field_def py_lt_def Let_def)
  have "sample_field \<in> set (t_required example_timing)" by (simp add: example_timing_def)
  from device_time_unwraps [OF _ this refl, of "[([(sample_field, PInt 4294967290)], PInt 5000), ([(sample_field, PInt 4)], PInt 16000)]"]
  show ?thesis using acc by auto
qed

text \<open>
  A discontinuity is final: once one frame of a stream has been refused, every later one is, and the
  first reason is kept in the state.
\<close>

lemma device_time_latches:
  assumes "isl (run_outs dt_observe observations (dt_init profile) ! i)" "i \<le> j" "j < length observations"
  shows "isl (run_outs dt_observe observations (dt_init profile) ! j)
    \<and> v_error (run_state dt_observe observations (dt_init profile)) \<noteq> None"
proof
  show "isl (run_outs dt_observe observations (dt_init profile) ! j)"
    by (rule dt.first_failure_is_final [OF assms])
  have i: "i < length observations" using assms(2,3) by simp
  have ok_keeps: "v_error (snd (dt_observe obs d)) = None"
    if "\<not> v_error d \<noteq> None" "is_ok (fst (dt_observe obs d))" for obs d
    using that by (cases obs) (cases rule: dt_observe_cases [of d "fst obs" "snd obs"]; auto)
  have "\<not> (\<forall>r \<in> set (run_outs dt_observe observations (dt_init profile)). is_ok r)"
    using assms(1) i by (metis nth_mem run_outs_length)
  then show "v_error (run_state dt_observe observations (dt_init profile)) \<noteq> None"
    using dt.run_ok_iff_not_failed [of "dt_init profile" observations] ok_keeps
    by (auto simp: dt_init_def)
qed

text \<open>What it means for an evidence row, and for a profile, to be verified.\<close>

definition row_backed :: "timing_world \<Rightarrow> string list \<Rightarrow> pyval \<Rightarrow> bool" where
  "row_backed w parent row \<longleftrightarrow> (case row of
       PDict d \<Rightarrow> (case (dget d ''path'', dget d ''sha256'') of
          (PStr s, PStr expected) \<Rightarrow>
            ''..'' \<notin> set (path_parts s) \<and> \<not> prefix ''/'' s \<and> sha256_text expected
            \<and> \<not> list_ex (w_linked w) (prefixes (parent @ path_parts s))
            \<and> map_option (w_sha256 w) (w_read w (parent @ path_parts s)) = Some expected
        | _ \<Rightarrow> False)
     | _ \<Rightarrow> False)"

definition profile_wf :: "timing_profile \<Rightarrow> bool" where
  "profile_wf p \<longleftrightarrow> (t_unit p, t_tick_ns p) \<in> {(''us'', 1000), (''100us'', 100000)}
     \<and> sample_field \<in> set (t_required p) \<and> distinct (t_required p)
     \<and> set (t_required p) \<subseteq> {sample_field, dataready_field}
     \<and> 0 < t_quarantine p \<and> t_quarantine p \<le> 2000000000
     \<and> (case t_max_gap p of Some g \<Rightarrow> 0 < g | None \<Rightarrow> t_policy p = ''reject'')
     \<and> (t_policy p = ''reject''
        \<or> t_policy p = ''guarded_uint32_wrap''
          \<and> (case (t_max_gap p, t_tolerance p) of (Some g, Some tol) \<Rightarrow> 0 < g \<and> g < 2 ^ 31 \<and> 0 \<le> tol | _ \<Rightarrow> False))"

lemma required_check_Inr:
  assumes "required_check v = Inr required"
  shows "sample_field \<in> set required \<and> distinct required \<and> set required \<subseteq> {sample_field, dataready_field}"
proof -
  let ?g = "\<lambda>x. if x = PStr sample_field then sample_field else dataready_field"
  from assms obtain xs where xs: "set xs \<subseteq> {PStr sample_field, PStr dataready_field}" "distinct xs"
      "PStr sample_field \<in> set xs" "required = map ?g xs"
    by (auto simp: required_check_def Let_def split: pyval.splits if_splits)
  have ne: "sample_field \<noteq> dataready_field" by (simp add: sample_field_def dataready_field_def)
  have "inj_on ?g (set xs)"
    using xs(1) ne by (auto simp: inj_on_def split: if_splits)
  with xs show ?thesis by (auto simp: distinct_map)
qed

lemma timing_checks_Inr:
  assumes "timing_checks sid entries = Inr (required, quarantine)"
  shows "required_check (dget entries ''required_fields'') = Inr required"
    "int_in 1 2000000000 quarantine"
    "has_key entries ''max_gap_ticks'' \<longrightarrow> positive_int (dget entries ''max_gap_ticks'')"
    "dget entries ''backward_policy'' = PStr ''guarded_uint32_wrap'' \<longrightarrow>
       int_in 1 (2 ^ 31 - 1) (dget entries ''max_gap_ticks'')
       \<and> (case dget entries ''wrap_host_tolerance_ns'' of PInt t \<Rightarrow> \<not> t < 0 | _ \<Rightarrow> False)"
  using assms unfolding timing_checks_def Let_def
  by (simp_all add: bindr_eq_Inr split: if_split_asm) (auto split: pyval.splits)

lemma timing_policy_wf:
  assumes "timing_policy sid v sha = Inr p"
  shows "profile_wf p \<and> t_sha256 p = sha"
proof -
  from assms obtain entries required quarantine
    where c: "timing_checks sid entries = Inr (required, quarantine)"
      and p: "p = timing_entries entries required quarantine sha"
    by (auto simp: timing_policy_def result_simps split: pyval.splits)
  note c = timing_checks_Inr [OF c]
  have "case t_max_gap p of Some gap \<Rightarrow> 0 < gap | None \<Rightarrow> t_policy p = ''reject''"
  proof (cases "dget entries ''max_gap_ticks''")
    case (PInt g)
    then have "has_key entries ''max_gap_ticks''"
      by (auto simp: dget_def has_key_def split: option.splits)
    with c(3) PInt show ?thesis
      by (simp add: p timing_entries_def Let_def opt_int_def positive_int_def)
  qed (use c(4) in \<open>auto simp: p timing_entries_def Let_def opt_int_def int_in_def\<close>)
  moreover have "t_policy p = ''reject'' \<or> t_policy p = ''guarded_uint32_wrap''
      \<and> (case (t_max_gap p, t_tolerance p) of (Some gap, Some tol) \<Rightarrow> 0 < gap \<and> gap < 2 ^ 31 \<and> 0 \<le> tol | _ \<Rightarrow> False)"
  proof (cases "dget entries ''backward_policy'' = PStr ''guarded_uint32_wrap''")
    case True
    with c(4) obtain g t where "dget entries ''max_gap_ticks'' = PInt g" "1 \<le> g" "g \<le> 2 ^ 31 - 1"
        "dget entries ''wrap_host_tolerance_ns'' = PInt t" "0 \<le> t"
      by (auto simp: int_in_def not_less split: pyval.splits)
    with True show ?thesis by (simp add: p timing_entries_def Let_def opt_int_def)
  qed (simp add: p timing_entries_def Let_def)
  moreover have "0 < t_quarantine p" "t_quarantine p \<le> 2000000000"
    using c(2) by (auto simp: p timing_entries_def Let_def int_in_def split: pyval.splits)
  moreover have "(t_unit p, t_tick_ns p) \<in> {(''us'', 1000), (''100us'', 100000)}" "t_required p = required" "t_sha256 p = sha"
    by (simp_all add: p timing_entries_def Let_def)
  ultimately show ?thesis
    using required_check_Inr [OF c(1)] by (simp add: profile_wf_def)
qed

lemma evidence_backed: "evidence_check w parent rows = Inr () \<Longrightarrow> list_all (row_backed w parent) rows"
proof (induction w parent rows rule: evidence_check.induct)
  case (1 w parent)
  then show ?case by simp
next
  case (2 w parent row rows)
  from "2.prems" obtain d where row: "row = PDict d" by (cases row) auto
  with "2.prems" obtain s where s: "dget d ''path'' = PStr s" by (cases "dget d ''path''") auto
  from "2.prems" row s have ok: "\<not> (s \<noteq> [] \<and> hd s = CHR ''/'')" "''..'' \<notin> set (path_parts s)" "path_parts s \<noteq> []"
      "\<not> list_ex (w_linked w) (prefixes (parent @ path_parts s))"
    by (auto simp: Let_def ordinary_def split: if_splits)
  with "2.prems" row s obtain expected where e: "dget d ''sha256'' = PStr expected"
    by (cases "dget d ''sha256''") (auto simp: Let_def ordinary_def)
  with "2.prems" row s ok obtain bs where bs: "w_read w (parent @ path_parts s) = Some bs"
      "sha256_text expected" "w_sha256 w bs = expected" "evidence_check w parent rows = Inr ()"
    by (auto simp: Let_def ordinary_def split: if_splits option.splits)
  have "list_all (row_backed w parent) rows"
    using "2.IH" [OF row s refl _ e _ bs(1) _ bs(4)] ok bs by auto
  moreover have "\<not> prefix ''/'' s" using ok(1) by (cases s) auto
  ultimately show ?case
    using ok s e bs by (simp add: row row_backed_def [of _ _ "PDict d"])
qed

text \<open>
  A profile is only accepted when verified: its unit and tick agree, it requires the sample counter,
  its bounds are in range, a wrapping policy comes with a gap below \<open>2 ^ 31\<close> and a host tolerance, its
  hash is that of the file read, and every evidence row names an existing unlinked file below the
  profile's own directory whose SHA-256 is the one stated; there is at least one such row.
\<close>

lemma timing_profile_is_backed:
  assumes "load_timing_profile w path sensor_id = Inr p"
  shows "profile_wf p \<and> (\<exists>raw entries rows. w_read w path = Some raw \<and> t_sha256 p = w_sha256 w raw
    \<and> w_json w raw = Some (PDict entries) \<and> dget entries ''evidence'' = PList rows
    \<and> rows \<noteq> [] \<and> list_all (row_backed w (butlast path)) rows)"
proof -
  from assms obtain raw v q where raw: "w_read w path = Some raw" "w_json w raw = Some v"
    and q: "timing_policy sensor_id v (w_sha256 w raw) = Inr q"
    by (auto simp: load_timing_profile_def ordinary_def result_simps split: if_splits option.splits)
  then obtain entries where v: "v = PDict entries"
    by (cases v) (auto simp: timing_policy_def)
  with assms raw q have policy: "timing_policy sensor_id v (w_sha256 w raw) = Inr p"
    by (auto simp: load_timing_profile_def ordinary_def result_simps split: if_splits pyval.splits)
  with assms raw v obtain rows where "dget entries ''evidence'' = PList rows" "rows \<noteq> []"
      "evidence_check w (butlast path) rows = Inr ()"
    by (cases "dget entries ''evidence''") (auto simp: load_timing_profile_def ordinary_def result_simps split: if_splits)
  with raw v timing_policy_wf [OF policy] evidence_backed show ?thesis by blast
qed

definition example_policy :: pydict where
  "example_policy = [(''schema_version'', PInt 1), (''status'', PStr ''VERIFIED_DEVICE_RELATIVE_TIME''),
     (''sensor_id'', PStr ''H30-7''), (''hardware_serial'', PStr ''7''), (''product_version'', PStr ''v''),
     (''device_timestamp_unit'', PStr ''us''), (''tick_ns'', PInt 1000),
     (''required_fields'', PList [PStr ''sample_timestamp_raw'']), (''backward_policy'', PStr ''reject''),
     (''duplicate_policy'', PStr ''reject''), (''read_mode'', PStr ''poll''),
     (''evidence'', PList [PDict [(''path'', PStr ''./log''), (''sha256'', PStr (replicate 64 CHR ''a''))]])]"

definition example_world :: timing_world where
  "example_world = \<lparr>w_linked = (\<lambda>_. False),
     w_read = (\<lambda>p. if p = [''etc'', ''p''] then Some [1] else if p = [''etc'', ''log''] then Some [2] else None),
     w_json = (\<lambda>_. Some (PDict example_policy)), w_sha256 = (\<lambda>_. replicate 64 CHR ''a'')\<rparr>"

end
