(* ===== verification/Device_Bindings.thy ===== *)
theory Device_Bindings
  imports Py_Value
begin

text \<open>
  \<open>src/src/wc_runtime/device_bindings.py\<close>: the machine's explicit device bindings. Identity tokens and
  Linux device names are validated without opening anything, and a complete binding record is read
  from the local file when there is one and from the base file otherwise.

  The file system and the JSON parser are the parameters of \<open>bindings_world\<close>; strings are lists of
  8-bit code points.
\<close>

section \<open>Character classes\<close>

definition ascii_digit :: "char \<Rightarrow> bool" where
  "ascii_digit c \<longleftrightarrow> (let n = (of_char c :: nat) in 48 \<le> n \<and> n \<le> 57)"

definition ascii_alnum :: "char \<Rightarrow> bool" where
  "ascii_alnum c \<longleftrightarrow> (let n = (of_char c :: nat) in
     48 \<le> n \<and> n \<le> 57 \<or> 65 \<le> n \<and> n \<le> 90 \<or> 97 \<le> n \<and> n \<le> 122)"

text \<open>\<open>re.fullmatch('[A-Za-z0-9][A-Za-z0-9<extra>]{0,n}', s)\<close>.\<close>

definition token_match :: "string \<Rightarrow> nat \<Rightarrow> string \<Rightarrow> bool" where
  "token_match extra n s \<longleftrightarrow> (case s of [] \<Rightarrow> False
     | c # cs \<Rightarrow> ascii_alnum c \<and> length cs \<le> n \<and> list_all (\<lambda>c. ascii_alnum c \<or> c \<in> set extra) cs)"

section \<open>Identities and device names\<close>

definition identity_token :: "pyval \<Rightarrow> string option \<Rightarrow> exc + string" where
  "identity_token v required_prefix = (case v of
       PStr s \<Rightarrow>
         if \<not> token_match ''_.:-'' 127 s then raise ValueError ''explicit bounded sensor identity required''
         else (case required_prefix of
             None \<Rightarrow> Inr s
           | Some p \<Rightarrow> if \<not> prefix p s \<or> length s = length p
               then raise ValueError (''sensor identity must start with '' @ p @ '' and identify one device'')
               else Inr s)
     | _ \<Rightarrow> raise ValueError ''explicit bounded sensor identity required'')"

text \<open>The parts of \<open>PurePosixPath(s)\<close> below its proj, and its normalized absolute text.\<close>

definition posix_parts :: "string \<Rightarrow> string list" where
  "posix_parts s = filter (\<lambda>p. p \<noteq> [] \<and> p \<noteq> ''.'') (split_on (CHR ''/'') s)"

definition posix_text :: "string list \<Rightarrow> string" where
  "posix_text parts = ''/'' @ join_with ''/'' parts"

definition posix_name :: "string \<Rightarrow> string" where
  "posix_name s = (case posix_parts s of [] \<Rightarrow> [] | ps \<Rightarrow> last ps)"

definition numbered_node :: "string \<Rightarrow> bool" where
  "numbered_node s \<longleftrightarrow> list_ex (\<lambda>p. prefix p s \<and> drop (length p) s \<noteq> [] \<and> list_all ascii_digit (drop (length p) s))
     [''/dev/ttyACM'', ''/dev/ttyUSB'', ''/dev/ttyS'', ''/dev/video'']"

definition device_path :: "pyval \<Rightarrow> bool \<Rightarrow> bool \<Rightarrow> exc + string" where
  "device_path v by_id by_path = (case v of
       PStr s \<Rightarrow>
         if s = [] \<or> 512 < int (length s) \<or> CHR 0x5C \<in> set s \<or> list_ex (\<lambda>c. (of_char c :: nat) < 33) s
         then raise ValueError ''explicit absolute Linux device path required''
         else let parts = posix_parts s in
         if hd s \<noteq> CHR ''/'' \<or> ''..'' \<in> set parts \<or> posix_text parts \<noteq> s \<or> take 1 parts \<noteq> [''dev'']
         then raise ValueError ''device path must be a normalized child of /dev''
         else if parts = [''dev''] then raise ValueError ''a device path is required''
         else if by_id \<and> butlast parts \<noteq> [''dev'', ''serial'', ''by-id'']
         then raise ValueError ''explicit /dev/serial/by-id identity required''
         else if by_path \<and> butlast parts \<noteq> [''dev'', ''v4l'', ''by-path'']
         then raise ValueError ''explicit /dev/v4l/by-path camera identity required''
         else if numbered_node s then raise ValueError ''numbered device nodes are not stable identity bindings''
         else Inr s
     | _ \<Rightarrow> raise ValueError ''explicit absolute Linux device path required'')"

definition topology :: "pyval \<Rightarrow> exc + string" where
  "topology v = (case v of
       PStr s \<Rightarrow> if token_match ''_.:+-'' 255 s then Inr s else raise ValueError ''explicit udev ID_PATH topology required''
     | _ \<Rightarrow> raise ValueError ''explicit udev ID_PATH topology required'')"

section \<open>The binding record\<close>

text \<open>\<open>_unique\<close>, the hook that builds a dictionary from the pairs of a JSON object.\<close>

fun unique_pairs :: "pydict \<Rightarrow> pydict \<Rightarrow> exc + pydict" where
  "unique_pairs acc [] = Inr acc"
| "unique_pairs acc ((k, v) # rest) = (if has_key acc k then raise ValueError (''duplicate device binding key: '' @ k)
     else unique_pairs (acc @ [(k, v)]) rest)"

definition keys_are :: "pydict \<Rightarrow> string list \<Rightarrow> bool" where
  "keys_are d ks \<longleftrightarrow> set (map fst d) = set ks"

definition check_imu :: "pydict \<Rightarrow> exc + unit" where
  "check_imu imu =
     bindr (identity_token (dget imu ''hardware_serial'') None) (\<lambda>serial.
     if \<not> token_match ''_.-'' 63 serial then raise ValueError ''invalid hardware serial''
     else bindr (device_path (dget imu ''device'') False False) (\<lambda>_.
     bindr (device_path (dget imu ''expected_by_id'') True False) (\<lambda>by_id.
     if \<not> sublist serial (posix_name by_id) \<or> dget imu ''sensor_id'' \<noteq> PStr (''H30-'' @ serial)
     then raise ValueError ''IMU serial, by-id and sensor_id must refer to the same device''
     else Inr ())))"

definition check_network :: "pyval \<Rightarrow> exc + unit" where
  "check_network network = (case network of
       PDict d \<Rightarrow>
         if \<not> keys_are d [''interface''] then raise ValueError ''network requires one explicit interface or null''
         else (case dget d ''interface'' of
             PNone \<Rightarrow> Inr ()
           | PStr s \<Rightarrow> if token_match ''_.:-'' 14 s then Inr () else raise ValueError ''invalid Linux network interface name''
           | _ \<Rightarrow> raise ValueError ''invalid Linux network interface name'')
     | _ \<Rightarrow> raise ValueError ''network requires one explicit interface or null'')"

definition validate_device_bindings :: "pyval \<Rightarrow> exc + pydict" where
  "validate_device_bindings v = (case v of
       PDict d \<Rightarrow>
         if \<not> keys_are d [''schema_version'', ''imu'', ''network''] \<or> dget d ''schema_version'' \<noteq> PInt 1
         then raise ValueError ''device bindings schema_version=1 with imu and network required''
         else (case dget d ''imu'' of
             PDict imu \<Rightarrow>
               if \<not> keys_are imu [''device'', ''expected_by_id'', ''hardware_serial'', ''sensor_id'']
               then raise ValueError ''complete IMU device, by-id, serial and sensor_id binding required''
               else bindr (check_imu imu) (\<lambda>_. bindr (check_network (dget d ''network'')) (\<lambda>_. Inr d))
           | _ \<Rightarrow> raise ValueError ''complete IMU device, by-id, serial and sensor_id binding required'')
     | _ \<Rightarrow> raise ValueError ''device bindings schema_version=1 with imu and network required'')"

section \<open>Loading\<close>

text \<open>What the file system says of a path (a list of parts), and the JSON parser with the
  duplicate-key hook. \<open>x_size\<close> is the size \<open>stat\<close> reports before the file is read.\<close>

record bindings_world =
  x_exists :: "string list \<Rightarrow> bool"
  x_symlink :: "string list \<Rightarrow> bool"
  x_regular :: "string list \<Rightarrow> bool"
  x_size :: "string list \<Rightarrow> int"
  x_read :: "string list \<Rightarrow> bytes"
  x_parse :: "bytes \<Rightarrow> exc + pyval"
  x_text :: "bytes \<Rightarrow> string"
  x_sha256 :: "bytes \<Rightarrow> string"

definition chosen_binding :: "bindings_world \<Rightarrow> string list \<Rightarrow> string list" where
  "chosen_binding w proj =
     (let base = proj @ [''config'', ''device_bindings.json'']; local = proj @ [''config'', ''device_bindings.local.json'']
      in if x_exists w local \<or> x_symlink w local then local else base)"

definition load_device_bindings :: "bindings_world \<Rightarrow> string list \<Rightarrow> exc + pydict" where
  "load_device_bindings w proj =
     (let chosen = chosen_binding w proj
      in if list_ex (x_symlink w) (prefixes chosen) then raise ValueError ''device binding file/parents must not be linked''
         else if \<not> x_regular w chosen \<or> 16384 < x_size w chosen
         then raise ValueError (''missing or oversized device binding configuration: '' @ posix_text chosen)
         else let raw = x_read w chosen in
         if 16384 < int (length raw) then raise ValueError ''device binding configuration grew beyond its limit''
         else bindr (x_parse w raw) (\<lambda>v. bindr (validate_device_bindings v) (\<lambda>result.
           Inr (dput ''_provenance'' (PDict [(''selected_path'', PStr (posix_text chosen)),
             (''sha256'', PStr (x_sha256 w raw)), (''original_text'', PStr (x_text w raw))]) result))))"

section \<open>Properties\<close>

lemma device_path_Inr:
  assumes "device_path v by_id by_path = Inr s"
  shows "v = PStr s" "length s \<le> 512" "posix_text (posix_parts s) = s" "''..'' \<notin> set (posix_parts s)"
    "\<exists>p ps. posix_parts s = ''dev'' # p # ps" "\<not> numbered_node s" "list_all (\<lambda>c. 33 \<le> (of_char c :: nat)) s"
    "by_id \<Longrightarrow> butlast (posix_parts s) = [''dev'', ''serial'', ''by-id'']"
    "by_path \<Longrightarrow> butlast (posix_parts s) = [''dev'', ''v4l'', ''by-path'']"
proof -
  from assms obtain t where v: "v = PStr t" by (cases v) (auto simp: device_path_def)
  with assms have s: "t = s" by (auto simp: device_path_def Let_def split: if_splits)
  with assms v show "v = PStr s" "length s \<le> 512" "posix_text (posix_parts s) = s" "''..'' \<notin> set (posix_parts s)"
    "\<not> numbered_node s" "list_all (\<lambda>c. 33 \<le> (of_char c :: nat)) s"
    "by_id \<Longrightarrow> butlast (posix_parts s) = [''dev'', ''serial'', ''by-id'']"
    "by_path \<Longrightarrow> butlast (posix_parts s) = [''dev'', ''v4l'', ''by-path'']"
    by (auto simp: device_path_def Let_def list_all_iff list_ex_iff not_less split: if_splits)
  from assms v s have "take 1 (posix_parts s) = [''dev'']" "posix_parts s \<noteq> [''dev'']"
    by (auto simp: device_path_def Let_def split: if_splits)
  then show "\<exists>p ps. posix_parts s = ''dev'' # p # ps"
    by (cases "posix_parts s" rule: remdups_adj.cases) auto
qed

text \<open>
  A device name is confined and stable: what \<open>device_path\<close> returns is its argument, starts with
  \<open>/dev/\<close>, is already in normal form with no \<open>..\<close> part, and is no numbered node; with \<open>by_id\<close> it names an
  entry of \<open>/dev/serial/by-id\<close> itself.
\<close>

lemma device_path_confined:
  assumes "device_path v by_id by_path = Inr s"
  shows "v = PStr s \<and> prefix ''/dev/'' s \<and> posix_text (posix_parts s) = s \<and> ''..'' \<notin> set (posix_parts s)
    \<and> \<not> numbered_node s \<and> list_all (\<lambda>c. 33 \<le> (of_char c :: nat)) s
    \<and> (by_id \<longrightarrow> (\<exists>name. s = ''/dev/serial/by-id/'' @ name \<and> posix_parts s = [''dev'', ''serial'', ''by-id'', name]))"
proof -
  note d = device_path_Inr [OF assms]
  from d(5) obtain p ps where parts: "posix_parts s = ''dev'' # p # ps" by blast
  then have "posix_text (posix_parts s) = ''/dev/'' @ join_with ''/'' (p # ps)"
    by (simp add: posix_text_def)
  then have "prefix ''/dev/'' s" using d(3) by (metis prefixI)
  moreover have "\<exists>name. s = ''/dev/serial/by-id/'' @ name \<and> posix_parts s = [''dev'', ''serial'', ''by-id'', name]" if by_id
  proof -
    have "posix_parts s = butlast (posix_parts s) @ [last (posix_parts s)]"
      using parts by simp
    then have "posix_parts s = [''dev'', ''serial'', ''by-id'', last (posix_parts s)]"
      unfolding d(8) [OF that] by simp
    then obtain name where name: "posix_parts s = [''dev'', ''serial'', ''by-id'', name]" by blast
    then have "s = ''/dev/serial/by-id/'' @ name"
      using d(3) unfolding name by (simp add: posix_text_def)
    with name show ?thesis by blast
  qed
  ultimately show ?thesis using d by blast
qed

text \<open>
  Bindings come from one file and are consistent: a loaded record is the validated content of the
  local file if that exists, and of the base file otherwise, never of a linked path; its sensor id is
  \<open>H30-\<close> followed by its serial, and its by-id name contains that serial.
\<close>

lemma bindings_consistent:
  assumes "load_device_bindings w proj = Inr r"
  shows "\<exists>d imu serial by_id. x_parse w (x_read w (chosen_binding w proj)) = Inr (PDict d)
    \<and> \<not> list_ex (x_symlink w) (prefixes (chosen_binding w proj))
    \<and> (x_exists w (proj @ [''config'', ''device_bindings.local.json'']) \<longleftrightarrow>
         chosen_binding w proj = proj @ [''config'', ''device_bindings.local.json''])
    \<and> dget d ''imu'' = PDict imu \<and> dget imu ''hardware_serial'' = PStr serial
    \<and> dget imu ''sensor_id'' = PStr (''H30-'' @ serial)
    \<and> dget imu ''expected_by_id'' = PStr by_id \<and> sublist serial (posix_name by_id)
    \<and> (\<forall>k. k \<noteq> ''_provenance'' \<longrightarrow> dget r k = dget d k)"
proof -
  let ?c = "chosen_binding w proj"
  from assms obtain v d where parse: "x_parse w (x_read w ?c) = Inr v" and valid: "validate_device_bindings v = Inr d"
    and link: "\<not> list_ex (x_symlink w) (prefixes ?c)"
    and r: "\<exists>p. r = dput ''_provenance'' p d"
    by (auto simp: load_device_bindings_def Let_def result_simps split: if_splits)
  from valid obtain imu where v: "v = PDict d" and imu: "dget d ''imu'' = PDict imu" and ok: "check_imu imu = Inr ()"
    by (auto simp: validate_device_bindings_def result_simps split: pyval.splits if_splits)
  from ok obtain serial by_id where "identity_token (dget imu ''hardware_serial'') None = Inr serial"
      and dev: "device_path (dget imu ''expected_by_id'') True False = Inr by_id"
      and "sublist serial (posix_name by_id)" "dget imu ''sensor_id'' = PStr (''H30-'' @ serial)"
    by (auto simp: check_imu_def result_simps split: if_splits)
  moreover from this have "dget imu ''hardware_serial'' = PStr serial"
    by (auto simp: identity_token_def split: pyval.splits if_splits)
  moreover have "x_exists w (proj @ [''config'', ''device_bindings.local.json'']) \<longleftrightarrow>
         ?c = proj @ [''config'', ''device_bindings.local.json'']"
  proof -
    have "?c \<in> set (prefixes ?c)" by simp
    with link have "\<not> x_symlink w ?c" by (auto simp: list_ex_iff)
    then show ?thesis by (auto simp: chosen_binding_def Let_def split: if_splits)
  qed
  moreover have "\<forall>k. k \<noteq> ''_provenance'' \<longrightarrow> dget r k = dget d k"
    using r by (auto simp: dget_def)
  ultimately show ?thesis
    using parse v imu link device_path_Inr(1) [OF dev] by blast
qed

definition example_bindings :: pydict where
  "example_bindings = [(''schema_version'', PInt 1), (''imu'', PDict [(''device'', PStr ''/dev/imu''),
     (''expected_by_id'', PStr ''/dev/serial/by-id/usb-77''), (''hardware_serial'', PStr ''77''),
     (''sensor_id'', PStr ''H30-77'')]), (''network'', PDict [(''interface'', PNone)])]"

definition example_bindings_world :: bindings_world where
  "example_bindings_world = \<lparr>x_exists = (\<lambda>_. False), x_symlink = (\<lambda>_. False), x_regular = (\<lambda>_. True),
     x_size = (\<lambda>_. 10), x_read = (\<lambda>_. []), x_parse = (\<lambda>_. Inr (PDict example_bindings)),
     x_text = (\<lambda>_. []), x_sha256 = (\<lambda>_. [])\<rparr>"

end
