(* ===== verification/Serial_Feedback.thy ===== *)
theory Serial_Feedback
  imports Modbus_Protocol Device_Bindings
begin

text \<open>
  The serial side of \<open>src/src/wc_motion/feedback_transport.py\<close>: the one permitted query, the reviewed
  configuration, the raw terminal attributes and their readback, and class \<open>FeedbackSerialLease\<close>: an
  all-or-nothing \<open>open\<close> and \<open>exchange\<close>, exactly one bounded transaction that latches on any failure.

  What the operating system answers is a parameter: \<open>open_io\<close> and \<open>exchange_io\<close> hold the results of the
  calls in the order the code makes them.
\<close>

section \<open>The permitted query and the reviewed configuration\<close>

definition query :: bytes where
  "query = projr (read_request (PInt 1) (PInt 0x20AB) (PInt 2))"

text \<open>A bound with the text \<open>bounded\<close> prints for it.\<close>

type_synonym bound = "pyval \<times> string"

definition int_bound :: "int \<Rightarrow> string \<Rightarrow> bound" where "int_bound i s = (PInt i, s)"

definition rat_bound :: "rat \<Rightarrow> string \<Rightarrow> bound" where "rat_bound q s = (PFloat (round64 q), s)"

definition bounded :: "pyval \<Rightarrow> string \<Rightarrow> bound \<Rightarrow> bound \<Rightarrow> exc + pyval" where
  "bounded v name low high =
     (let bad = raise FeedbackError (name @ '' must be finite in ['' @ snd low @ '', '' @ snd high @ '']'') in
      case v of
        PInt _ \<Rightarrow> bindr (py_isfinite v) (\<lambda>fin. if \<not> fin \<or> \<not> (py_le (fst low) v \<and> py_le v (fst high)) then bad else Inr v)
      | PFloat _ \<Rightarrow> bindr (py_isfinite v) (\<lambda>fin. if \<not> fin \<or> \<not> (py_le (fst low) v \<and> py_le v (fst high)) then bad else Inr v)
      | _ \<Rightarrow> bad)"

definition hundredth :: bound where "hundredth = (PFloat (round64 (1 / 100)), ''0.01'')"
definition half :: bound where "half = (PFloat (Fin (1 / 2)), ''0.5'')"

definition validate_config :: "pydict \<Rightarrow> exc + pydict" where
  "validate_config config =
     (if dget config ''schema'' \<noteq> PStr ''wc_8030d_feedback_transport_v1''
         \<or> dget config ''read_request_reviewed'' \<noteq> PBool True \<or> \<not> py_true (dget config ''request_evidence'')
      then raise FeedbackError ''explicit reviewed FC03 request evidence required''
      else if dget config ''request_hex'' \<noteq> PStr (to_hex query) \<or> \<not> py_eq (dget config ''baud'') (PInt 115200)
      then raise FeedbackError ''this transport permits only the reviewed 115200 baud FC03 query''
      else case bindr (identity_token (dget config ''hardware_serial'') None) (\<lambda>serial.
                bindr (device_path (dget config ''device'') False False) (\<lambda>_.
                bindr (device_path (dget config ''expected_by_id'') True False) (\<lambda>by_id. Inr (serial, by_id)))) of
        Inl e \<Rightarrow> raise FeedbackError (msg_of e)
      | Inr (serial, by_id) \<Rightarrow>
        if dget config ''device_id'' \<noteq> PStr (''ZLAC8030D-'' @ serial) \<or> \<not> sublist serial (posix_name by_id)
        then raise FeedbackError ''configured serial, by-id and 8030D device_id must match''
        else if dget config ''usb_vid'' \<noteq> PStr ''1a86'' \<or> dget config ''usb_pid'' \<noteq> PStr ''55d3''
        then raise FeedbackError ''reviewed USB VID/PID required''
        else bindr (bounded (dget config ''timeout_s'') ''transaction timeout'' hundredth half) (\<lambda>_.
             bindr (bounded (dget_or config ''startup_settle_s'' (PFloat (Fin 1))) ''startup settle''
                      (PInt 0, ''0'') (PFloat (Fin 2), ''2.0'')) (\<lambda>_. Inr config)))"

section \<open>Terminal attributes\<close>

text \<open>The platform's \<open>termios\<close> constants: a flag that is missing is 0, as with \<open>getattr(t, name, 0)\<close>.\<close>

record termios =
  t_flag :: "string \<Rightarrow> int"
  t_B115200 :: int
  t_VMIN :: nat
  t_VTIME :: nat

record attrs =
  a_iflag :: int
  a_oflag :: int
  a_cflag :: int
  a_lflag :: int
  a_ispeed :: int
  a_ospeed :: int
  a_cc :: "pyval list"

definition input_names :: "string list" where
  "input_names = [''IGNBRK'', ''BRKINT'', ''PARMRK'', ''ISTRIP'', ''INLCR'', ''IGNCR'', ''ICRNL'', ''IXON'', ''IXOFF'', ''IXANY'']"

definition control_names :: "string list" where
  "control_names = [''CSIZE'', ''PARENB'', ''CSTOPB'', ''CRTSCTS'', ''HUPCL'']"

definition local_names :: "string list" where
  "local_names = [''ECHO'', ''ECHONL'', ''ICANON'', ''ISIG'', ''IEXTEN'']"

definition clear_flags :: "termios \<Rightarrow> string list \<Rightarrow> int \<Rightarrow> int" where
  "clear_flags t names x = foldl (\<lambda>x name. x AND NOT (t_flag t name)) x names"

definition raw_attributes :: "attrs \<Rightarrow> termios \<Rightarrow> attrs" where
  "raw_attributes a t = a\<lparr>
     a_iflag := clear_flags t input_names (a_iflag a),
     a_oflag := clear_flags t [''OPOST''] (a_oflag a),
     a_cflag := clear_flags t control_names (a_cflag a) OR (t_flag t ''CS8'' OR t_flag t ''CLOCAL'' OR t_flag t ''CREAD''),
     a_lflag := clear_flags t local_names (a_lflag a),
     a_ispeed := t_B115200 t, a_ospeed := t_B115200 t,
     a_cc := (a_cc a)[t_VTIME t := PInt 0, t_VMIN t := PInt 0]\<rparr>"

definition flag_sum :: "termios \<Rightarrow> string list \<Rightarrow> int" where
  "flag_sum t names = sum_list (map (t_flag t) names)"

definition timer_ok :: "pyval \<Rightarrow> bool" where
  "timer_ok v \<longleftrightarrow> py_eq v (PInt 0) \<or> v = PBytes [0]"

definition validate_raw_attributes :: "attrs \<Rightarrow> termios \<Rightarrow> exc + unit" where
  "validate_raw_attributes a t =
     (let receive = t_flag t ''CLOCAL'' OR t_flag t ''CREAD'' in
      if a_ispeed a \<noteq> t_B115200 t \<or> a_ospeed a \<noteq> t_B115200 t
      then raise FeedbackError ''host serial baud readback is not 115200''
      else if a_cflag a AND t_flag t ''CSIZE'' \<noteq> t_flag t ''CS8'' \<or> a_cflag a AND receive \<noteq> receive
      then raise FeedbackError ''host serial readback is not local 8-bit receive mode''
      else if a_cflag a AND flag_sum t (tl control_names) \<noteq> 0
      then raise FeedbackError ''host serial parity/stop/flow/HUPCL readback is invalid''
      else if a_iflag a AND flag_sum t input_names \<noteq> 0 \<or> a_oflag a AND t_flag t ''OPOST'' \<noteq> 0
              \<or> a_lflag a AND flag_sum t local_names \<noteq> 0
      then raise FeedbackError ''host serial readback retains non-raw processing''
      else if \<not> timer_ok (a_cc a ! t_VMIN t) \<or> \<not> timer_ok (a_cc a ! t_VTIME t)
      then raise FeedbackError ''host serial readback has blocking character timers''
      else Inr ())"

section \<open>Opening the lease\<close>

record lease =
  l_fd :: bool
  l_lock :: bool
  l_failed :: bool
  l_device :: "string option"

definition closed_lease :: lease where
  "closed_lease = \<lparr>l_fd = False, l_lock = False, l_failed = False, l_device = None\<rparr>"

datatype modem = ModemBits int | ModemErrno string | ModemFault exc

text \<open>An identity is the resolved device name with its device and inode numbers.\<close>

type_synonym identity = "string \<times> int \<times> int"

record open_io =
  o_absolute :: bool
  o_identity :: "exc + identity"
  o_lock :: "exc + unit"
  o_regular :: "exc + bool"
  o_flock :: "exc + unit"
  o_occupancy :: "exc + unit"
  o_identity_again :: "exc + identity"
  o_open :: "exc + unit"
  o_character :: bool
  o_opened :: "int \<times> int"
  o_exclusive_ioctl :: "exc + unit"
  o_exclusive_check :: "exc + unit"
  o_before :: "exc + attrs"
  o_set :: "attrs \<Rightarrow> exc + attrs"
  o_modem :: modem
  o_settle :: "exc + unit"
  o_record :: "exc + unit"

definition lease_close :: "lease \<Rightarrow> lease" where
  "lease_close l = l\<lparr>l_fd := False, l_lock := False\<rparr>"

text \<open>\<open>require_only_self\<close>: \<open>fuser\<close>'s exit code, the process ids it printed (\<open>None\<close> when they do not
  parse) and whether its error output was empty.\<close>

definition require_only_self :: "int \<Rightarrow> int \<Rightarrow> int list option \<Rightarrow> bool \<Rightarrow> exc + unit" where
  "require_only_self self code pids quiet = (case pids of
       None \<Rightarrow> raise FeedbackError ''cannot parse post-open serial ownership''
     | Some ps \<Rightarrow> if code \<noteq> 0 \<or> set ps \<noteq> {self} \<or> \<not> quiet
         then raise FeedbackError ''serial owner appeared during open; no request transmitted'' else Inr ())"

text \<open>The part of \<open>open\<close> inside its \<open>try\<close>: any exception here closes both handles.\<close>

definition open_steps :: "termios \<Rightarrow> open_io \<Rightarrow> identity \<Rightarrow> exc + attrs" where
  "open_steps t io first =
     bindr (o_regular io) (\<lambda>regular.
     if \<not> regular then raise FeedbackError ''serial ownership lock is not a regular file''
     else bindr (o_flock io) (\<lambda>_. bindr (o_occupancy io) (\<lambda>_. bindr (o_identity_again io) (\<lambda>again.
     if fst again \<noteq> fst first \<or> snd first \<noteq> snd again
     then raise FeedbackError ''serial identity changed during preflight''
     else bindr (o_open io) (\<lambda>_.
     if \<not> o_character io \<or> o_opened io \<noteq> snd again then raise FeedbackError ''opened serial identity mismatch''
     else bindr (o_exclusive_ioctl io) (\<lambda>_. bindr (o_exclusive_check io) (\<lambda>_. bindr (o_before io) (\<lambda>before.
     bindr (o_set io (raw_attributes before t)) (\<lambda>after.
     bindr (validate_raw_attributes after t) (\<lambda>_.
     bindr (case o_modem io of ModemBits _ \<Rightarrow> Inr ()
            | ModemErrno name \<Rightarrow> if name \<in> {''ENOTTY'', ''EINVAL''} then Inr () else raise OSError name
            | ModemFault e \<Rightarrow> Inl e) (\<lambda>_.
     bindr (o_settle io) (\<lambda>_. bindr (o_record io) (\<lambda>_. Inr after)))))))))))))"

definition lease_open :: "termios \<Rightarrow> open_io \<Rightarrow> lease \<Rightarrow> (exc + attrs) \<times> lease" where
  "lease_open t io l =
     (if l_fd l \<or> \<not> o_absolute io then (raise FeedbackError ''closed lease and absolute shared runtime root required'', l)
      else case o_identity io of
        Inl e \<Rightarrow> (Inl e, l)
      | Inr first \<Rightarrow>
          let l = l\<lparr>l_device := Some (fst first)\<rparr> in
          case o_lock io of
            Inl e \<Rightarrow> (Inl e, l)
          | Inr _ \<Rightarrow>
            (case open_steps t io first of
               Inl e \<Rightarrow> (Inl e, lease_close l)
             | Inr after \<Rightarrow> (Inr after, l\<lparr>l_fd := True, l_lock := True\<rparr>)))"

section \<open>One transaction\<close>

text \<open>One turn of the receive loop: the deadline has passed, \<open>select\<close> saw nothing, a chunk was read
  (empty at a disconnect), or a call raised.\<close>

datatype read_event = Expired | Silent | Chunk bytes | Fault exc

record exchange_io =
  q_pre :: "exc + bytes option"
  q_writable :: "exc + bool"
  q_sent :: "exc + nat"
  q_reads :: "read_event list"

text \<open>An exception with the two attributes of \<open>QueryFailure\<close>; an exception of another class has neither.\<close>

record query_error =
  e_exc :: exc
  e_response :: bytes
  e_sent :: nat

fun receive :: "read_event list \<Rightarrow> nat \<Rightarrow> bytes \<Rightarrow> (exc \<times> bytes) + bytes" where
  "receive reads expected response =
     (if expected \<le> length response then Inr response
      else case reads of
        Chunk chunk # rest \<Rightarrow>
          if chunk = [] then Inl (Exc QueryFailure ''serial disconnected; no reconnect'', response)
          else let response = response @ chunk;
                   expected = (if 2 \<le> length response \<and> response ! 1 = 0x83 then 5 else expected)
               in if expected < length response
                  then Inl (Exc QueryFailure ''response overflow / overlapping traffic'', response)
                  else receive rest expected response
      | Fault e # _ \<Rightarrow> Inl (e, response)
      | _ \<Rightarrow> Inl (Exc QueryFailure ''response timeout; no retry'', response))"

declare receive.simps [simp del]

text \<open>The body of the \<open>try\<close>: the error with what had been received and sent, or the response; and the
  buffers handed to \<open>os.write\<close>.\<close>

definition transact :: "exchange_io \<Rightarrow> (query_error + bytes) \<times> bytes list" where
  "transact io = (case q_pre io of
       Inl e \<Rightarrow> (Inl \<lparr>e_exc = e, e_response = [], e_sent = 0\<rparr>, [])
     | Inr (Some pending) \<Rightarrow>
         (Inl \<lparr>e_exc = Exc QueryFailure ''unsolicited bytes before query'', e_response = pending, e_sent = 0\<rparr>, [])
     | Inr None \<Rightarrow> (case q_writable io of
         Inl e \<Rightarrow> (Inl \<lparr>e_exc = e, e_response = [], e_sent = 0\<rparr>, [])
       | Inr False \<Rightarrow>
           (Inl \<lparr>e_exc = Exc QueryFailure ''request write readiness timeout'', e_response = [], e_sent = 0\<rparr>, [])
       | Inr True \<Rightarrow> (case q_sent io of
           Inl e \<Rightarrow> (Inl \<lparr>e_exc = e, e_response = [], e_sent = 0\<rparr>, [query])
         | Inr sent \<Rightarrow>
             if sent \<noteq> length query
             then (Inl \<lparr>e_exc = Exc QueryFailure ''partial FC03 transmission; no retry'', e_response = [], e_sent = sent\<rparr>, [query])
             else (case receive (q_reads io) 9 [] of
                 Inl (e, response) \<Rightarrow> (Inl \<lparr>e_exc = e, e_response = response, e_sent = sent\<rparr>, [query])
               | Inr response \<Rightarrow> (case parse_exchange query response of
                     Inl e \<Rightarrow> (Inl \<lparr>e_exc = e, e_response = response, e_sent = sent\<rparr>, [query])
                   | Inr _ \<Rightarrow> (Inr response, [query]))))))"

text \<open>The handler: every exception latches \<open>failed\<close>; all but an interrupt leave as a \<open>QueryFailure\<close>.\<close>

definition as_query_failure :: "query_error \<Rightarrow> query_error" where
  "as_query_failure e = (if exn_of (e_exc e) \<in> {KeyboardInterrupt, SystemExit, QueryFailure} then e
     else e\<lparr>e_exc := Exc QueryFailure (str_exc (e_exc e))\<rparr>)"

definition exchange :: "exchange_io \<Rightarrow> bytes \<Rightarrow> pyval \<Rightarrow> lease \<Rightarrow> ((query_error + bytes) \<times> bytes list) \<times> lease" where
  "exchange io request timeout l =
     (if \<not> l_fd l \<or> l_failed l \<or> request \<noteq> query
      then ((Inl \<lparr>e_exc = Exc QueryFailure ''closed/failed lease or non-allowlisted request'', e_response = [], e_sent = 0\<rparr>, []), l)
      else case bounded timeout ''transaction timeout'' hundredth half of
        Inl e \<Rightarrow> ((Inl \<lparr>e_exc = e, e_response = [], e_sent = 0\<rparr>, []), l)
      | Inr _ \<Rightarrow> (case transact io of
          (Inl e, sent) \<Rightarrow> ((Inl (as_query_failure e), sent), l\<lparr>l_failed := True\<rparr>)
        | (Inr response, sent) \<Rightarrow> ((Inr response, sent), l)))"

section \<open>Lemmas\<close>

lemma query_request: "read_request (PInt 1) (PInt 8363) (PInt 2) = Inr query"
  by (simp add: query_def read_request_def)

lemma query_length [simp]: "length query = 8"
  using read_request_length [OF query_request] .

lemma query_not_Nil [simp]: "query \<noteq> []"
  using query_length by fastforce

lemma parse_query_response:
  assumes "parse_exchange query response = Inr (s, a, ws)"
  shows "s = 1" "a = 8363" "length ws = 2" "response = read_response 1 ws" "\<forall>w \<in> set ws. 0 \<le> w \<and> w < 65536"
proof -
  from assms have req: "read_request (PInt s) (PInt a) (PInt (int (length ws))) = Inr query"
    and rest: "response = read_response s ws" "\<forall>w \<in> set ws. 0 \<le> w \<and> w < 65536"
    by (auto simp: parse_exchange_iff)
  from read_request_fields [OF req] read_request_fields [OF query_request]
  show "s = 1" "a = 8363" "length ws = 2" by auto
  with rest show "response = read_response 1 ws" "\<forall>w \<in> set ws. 0 \<le> w \<and> w < 65536" by auto
qed

lemma receive_chunks:
  "receive reads expected acc = Inr response \<Longrightarrow>
     \<exists>chunks. response = acc @ concat chunks \<and> prefix (map Chunk chunks) reads"
proof (induction reads expected acc rule: receive.induct)
  case (1 reads expected acc)
  show ?case
  proof (cases "expected \<le> length acc")
    case True
    with "1.prems" show ?thesis
      by (intro exI [of _ "[]"]) (simp add: receive.simps [of reads expected acc])
  next
    case False
    with "1.prems" obtain chunk rest where reads: "reads = Chunk chunk # rest" and "chunk \<noteq> []"
      by (subst (asm) receive.simps) (auto split: list.splits read_event.splits if_splits)
    let ?e = "if 2 \<le> length (acc @ chunk) \<and> (acc @ chunk) ! 1 = 0x83 then 5 else expected"
    have "receive reads expected acc = (if ?e < length (acc @ chunk)
        then Inl (Exc QueryFailure ''response overflow / overlapping traffic'', acc @ chunk)
        else receive rest ?e (acc @ chunk))"
      using False \<open>chunk \<noteq> []\<close> by (subst receive.simps) (simp only: reads Let_def read_event.case list.case if_False)
    with "1.prems" have over: "\<not> ?e < length (acc @ chunk)" and go_on: "receive rest ?e (acc @ chunk) = Inr response"
      by (metis sum.distinct(1))+
    from "1.IH" [OF False reads refl \<open>chunk \<noteq> []\<close> refl refl over go_on]
    obtain chunks where "response = (acc @ chunk) @ concat chunks" "prefix (map Chunk chunks) rest" by blast
    then show ?thesis
      by (intro exI [of _ "chunk # chunks"]) (simp add: reads)
  qed
qed

lemma transact_Inr:
  assumes "transact io = (Inr response, sent)"
  shows "sent = [query]" "q_pre io = Inr None" "q_sent io = Inr 8"
    "receive (q_reads io) 9 [] = Inr response" "is_ok (parse_exchange query response)"
proof -
  have pre: "q_pre io = Inr None"
    using assms by (cases "q_pre io"; cases "projr (q_pre io)") (simp_all add: transact_def)
  moreover from assms this have "q_writable io = Inr True"
    by (cases "q_writable io"; cases "projr (q_writable io)") (simp_all add: transact_def)
  moreover from assms this pre have "q_sent io = Inr 8"
    by (cases "q_sent io") (simp_all add: transact_def split: if_splits)
  moreover from assms this calculation have rx: "receive (q_reads io) 9 [] = Inr response"
    by (cases "receive (q_reads io) 9 []"; cases "parse_exchange query (projr (receive (q_reads io) 9 []))")
      (auto simp: transact_def)
  moreover from assms this calculation have "is_ok (parse_exchange query response)"
    by (cases "parse_exchange query response") (auto simp: transact_def)
  ultimately show "sent = [query]" "q_pre io = Inr None" "q_sent io = Inr 8"
    "receive (q_reads io) 9 [] = Inr response" "is_ok (parse_exchange query response)"
    using assms by (auto simp: transact_def split: sum.splits)
qed

lemma transact_sent: "transact io = (r, sent) \<Longrightarrow> sent = [] \<or> sent = [query]"
  by (auto simp: transact_def split: sum.splits option.splits bool.splits if_splits)

text \<open>The guards of a transaction, before anything is read or sent.\<close>

definition passes_guards :: "bytes \<Rightarrow> pyval \<Rightarrow> lease \<Rightarrow> bool" where
  "passes_guards request timeout l \<longleftrightarrow> l_fd l \<and> \<not> l_failed l \<and> request = query
     \<and> is_ok (bounded timeout ''transaction timeout'' hundredth half)"

lemma exchange_cases:
  obtains (refused) e where "\<not> passes_guards request timeout l" "exchange io request timeout l = ((Inl e, []), l)"
  | (failed) e sent where "transact io = (Inl e, sent)" "passes_guards request timeout l" "l_fd l" "\<not> l_failed l" "request = query"
      "exchange io request timeout l = ((Inl (as_query_failure e), sent), l\<lparr>l_failed := True\<rparr>)"
  | (completed) response where "transact io = (Inr response, [query])" "passes_guards request timeout l" "l_fd l" "\<not> l_failed l" "request = query"
      "exchange io request timeout l = ((Inr response, [query]), l)"
proof (cases "\<not> l_fd l \<or> l_failed l \<or> request \<noteq> query")
  case True
  then show ?thesis by (intro refused) (auto simp: exchange_def passes_guards_def)
next
  case ok: False
  show ?thesis
  proof (cases "bounded timeout ''transaction timeout'' hundredth half")
    case (Inl e)
    with ok show ?thesis by (intro refused) (simp_all add: exchange_def passes_guards_def)
  next
    case (Inr b)
    obtain r sent where t: "transact io = (r, sent)" by (cases "transact io") auto
    show ?thesis
    proof (cases r)
      case (Inl e)
      with ok Inr t show ?thesis by (intro failed) (auto simp: exchange_def passes_guards_def)
    next
      case (Inr response)
      with ok \<open>bounded _ _ _ _ = _\<close> t transact_Inr(1) [of io response sent] show ?thesis
        by (intro completed) (auto simp: exchange_def passes_guards_def)
    qed
  qed
qed

text \<open>Successive exchanges on one lease: whether each returned, and what each handed to \<open>os.write\<close>.\<close>

fun transmissions :: "(exchange_io \<times> bytes \<times> pyval) list \<Rightarrow> lease \<Rightarrow> (bool \<times> bytes list) list" where
  "transmissions [] l = []"
| "transmissions ((io, request, timeout) # rest) l = (case exchange io request timeout l of
     ((r, sent), l') \<Rightarrow> (\<not> isl r, sent) # transmissions rest l')"

lemma failed_silent: "l_failed l \<Longrightarrow> list_all (\<lambda>(ok, sent). \<not> ok \<and> sent = []) (transmissions xs l)"
  by (induction xs l rule: transmissions.induct) (auto simp: exchange_def)

lemma transmissions_length [simp]: "length (transmissions xs l) = length xs"
  by (induction xs l rule: transmissions.induct) (simp_all split: prod.splits)

section \<open>Properties\<close>

text \<open>
  C1. Only the reviewed query is ever transmitted, and never again after a failure: in any sequence of
  exchanges on a lease each one hands at most the fixed FC03 read to the operating system, and once one
  has transmitted and failed, none of the later ones transmits anything or succeeds.
\<close>

theorem only_query_until_failure:
  assumes "i < length xs"
  shows "transmissions xs l ! i \<in> {(True, [query]), (False, [query]), (False, [])}
    \<and> (transmissions xs l ! i = (False, [query]) \<longrightarrow>
        (\<forall>j. i < j \<and> j < length xs \<longrightarrow> transmissions xs l ! j = (False, [])))"
  using assms
proof (induction xs l arbitrary: i rule: transmissions.induct)
  case (1 l)
  then show ?case by simp
next
  case (2 io request timeout rest l)
  show ?case
  proof (cases i)
    case (Suc k)
    obtain r sent l' where e: "exchange io request timeout l = ((r, sent), l')"
      by (cases "exchange io request timeout l") auto
    have "k < length rest" using "2.prems" Suc by simp
    note ih = "2.IH" [OF e [symmetric] refl this]
    have "\<exists>m. j = Suc m \<and> k < m" if "Suc k < j" for j
      using that by (cases j) auto
    with ih Suc e show ?thesis by fastforce
  next
    case 0
    show ?thesis
    proof (cases rule: exchange_cases [of request timeout l io])
      case (refused e)
      with 0 show ?thesis by simp
    next
      case (failed e sent)
      from transact_sent [OF failed(1)] have sent: "sent = [] \<or> sent = [query]" .
      have "list_all (\<lambda>(ok, sent). \<not> ok \<and> sent = []) (transmissions rest (l\<lparr>l_failed := True\<rparr>))"
        by (rule failed_silent) simp
      then have "transmissions rest (l\<lparr>l_failed := True\<rparr>) ! m = (False, [])" if "m < length rest" for m
        using that by (force simp: list_all_length)
      moreover have "\<exists>m. j = Suc m" if "0 < j" for j :: nat
        using that by (cases j) auto
      ultimately show ?thesis
        using failed(6) 0 sent by fastforce
    next
      case (completed response)
      with 0 show ?thesis by simp
    qed
  qed
qed

definition example_lease :: lease where
  "example_lease = \<lparr>l_fd = True, l_lock = True, l_failed = False, l_device = None\<rparr>"

definition example_io :: "bytes list \<Rightarrow> exchange_io" where
  "example_io chunks = \<lparr>q_pre = Inr None, q_writable = Inr True, q_sent = Inr 8, q_reads = map Chunk chunks\<rparr>"

lemma timeout_ok: "bounded (PFloat (Fin (1 / 4))) ''transaction timeout'' hundredth half = Inr (PFloat (Fin (1 / 4)))"
  using low_bound [of "1 / 100" "1 / 4"] by (simp add: bounded_def hundredth_def half_def py_le_def)

lemma example_response: "parse_exchange query (read_response 1 [3, 5]) = Inr (1, 8363, [3, 5])"
  using query_request by (simp add: parse_exchange_iff)

theorem only_query_until_failure_witness:
  "transmissions [(example_io [[1]], query, PFloat (Fin (1 / 4))), (example_io [read_response 1 [3, 5]], query, PFloat (Fin (1 / 4)))]
     example_lease ! 1 = (False, [])"
proof -
  let ?xs = "[(example_io [[1]], query, PFloat (Fin (1 / 4))), (example_io [read_response 1 [3, 5]], query, PFloat (Fin (1 / 4)))]"
  have "transmissions ?xs example_lease ! 0 = (False, [query])"
    by (simp add: exchange_def timeout_ok transact_def example_io_def example_lease_def receive.simps)
  with only_query_until_failure [of 0 ?xs example_lease] show ?thesis by simp
qed

text \<open>
  C7. A returned response is authentic: \<open>exchange\<close> returns only on an open, unfailed lease, after
  transmitting the whole query and seeing no unsolicited byte before it; the response is exactly the
  concatenation of the chunks read, and is the frame slave 1 sends for the two registers asked for.
  The lease is then unchanged. A call that passes the guards (an open, unfailed lease, the reviewed query, a timeout within
  its bounds) and raises has latched the lease, whether or not anything was sent; a call that does not pass them raises, sends nothing
  and leaves the lease as it was.
\<close>

theorem exchange_authentic:
  assumes "exchange io request timeout l = ((r, sent), l')"
  shows "(\<forall>response. r = Inr response \<longrightarrow> l' = l \<and> l_fd l \<and> \<not> l_failed l \<and> request = query \<and> sent = [query]
       \<and> q_pre io = Inr None \<and> q_sent io = Inr 8
       \<and> (\<exists>chunks ws. response = concat chunks \<and> prefix (map Chunk chunks) (q_reads io)
            \<and> length ws = 2 \<and> response = read_response 1 ws \<and> parse_exchange query response = Inr (1, 8363, ws)))
    \<and> (if passes_guards request timeout l then isl r \<longrightarrow> l' = l\<lparr>l_failed := True\<rparr>
       else isl r \<and> sent = [] \<and> l' = l)
    \<and> (sent \<noteq> [] \<and> isl r \<longrightarrow> l_failed l')"
proof (cases rule: exchange_cases [of request timeout l io])
  case (refused e)
  with assms show ?thesis by auto
next
  case (failed e s)
  with assms show ?thesis by auto
next
  case (completed response)
  note t = transact_Inr [OF completed(1)]
  obtain s a ws where p: "parse_exchange query response = Inr (s, a, ws)"
    using t(5) by (cases "parse_exchange query response") auto
  note p' = parse_query_response [OF p]
  from receive_chunks [OF t(4)] have "\<exists>chunks. response = concat chunks \<and> prefix (map Chunk chunks) (q_reads io)"
    by simp
  then have "\<exists>chunks ws. response = concat chunks \<and> prefix (map Chunk chunks) (q_reads io)
      \<and> length ws = 2 \<and> response = read_response 1 ws \<and> parse_exchange query response = Inr (1, 8363, ws)"
    using p p' by blast
  moreover have "r = Inr response" "sent = [query]" "l' = l"
    using completed(6) assms by simp_all
  ultimately show ?thesis
    using completed(2-5) t by simp
qed

theorem exchange_authentic_witness:
  "\<exists>l'. exchange (example_io [take 2 (read_response 1 [3, 5]), drop 2 (read_response 1 [3, 5])]) query (PFloat (Fin (1 / 4))) example_lease
      = ((Inr (read_response 1 [3, 5]), [query]), l') \<and> l' = example_lease"
proof -
  let ?io = "example_io [take 2 (read_response 1 [3, 5]), drop 2 (read_response 1 [3, 5])]"
  have rx: "receive (q_reads ?io) 9 [] = Inr (read_response 1 [3, 5])"
    by (simp add: example_io_def receive.simps read_response_shape read_response_def crc16_def crc_eval be16_def)
  obtain l' where e: "exchange ?io query (PFloat (Fin (1 / 4))) example_lease = ((Inr (read_response 1 [3, 5]), [query]), l')"
    using rx example_response
    by (simp add: exchange_def timeout_ok transact_def example_lease_def) (simp add: example_io_def)
  from exchange_authentic [OF e] e show ?thesis by auto
qed

text \<open>
  Opening is all or nothing: from a closed lease \<open>open\<close> either returns with both handles held, on a
  character device with the identity checked twice before and once after opening, owned by nobody else,
  with a terminal readback that passed validation; or it raises with neither handle held.
\<close>

lemma lease_open_all_or_nothing:
  assumes "lease_open t io l = (r, l')" "\<not> l_fd l" "\<not> l_lock l"
  shows "(isl r \<longrightarrow> \<not> l_fd l' \<and> \<not> l_lock l')
    \<and> (\<forall>after. r = Inr after \<longrightarrow> l_fd l' \<and> l_lock l' \<and> o_identity io = o_identity_again io
         \<and> o_opened io = snd (projr (o_identity io)) \<and> o_character io
         \<and> o_flock io = Inr () \<and> o_occupancy io = Inr () \<and> o_exclusive_ioctl io = Inr () \<and> o_exclusive_check io = Inr ()
         \<and> validate_raw_attributes after t = Inr () \<and> l_device l' = Some (fst (projr (o_identity io))))"
proof -
  have steps: "o_identity_again io = Inr first \<and> o_opened io = snd first \<and> o_character io
         \<and> o_flock io = Inr () \<and> o_occupancy io = Inr () \<and> o_exclusive_ioctl io = Inr () \<and> o_exclusive_check io = Inr ()
         \<and> validate_raw_attributes after t = Inr ()" if "open_steps t io first = Inr after" for first after
    using that by (auto simp: open_steps_def result_simps prod_eq_iff split: if_splits)
  show ?thesis
  proof (cases "o_absolute io \<and> is_ok (o_identity io) \<and> is_ok (o_lock io)")
    case False
    then have "isl r \<and> \<not> l_fd l' \<and> \<not> l_lock l'"
      using assms by (cases "o_identity io"; cases "o_lock io") (auto simp: lease_open_def split: if_splits)
    then show ?thesis by auto
  next
    case True
    then obtain first u where io: "o_absolute io" "o_identity io = Inr first" "o_lock io = Inr u"
      by (cases "o_identity io"; cases "o_lock io") auto
    show ?thesis
    proof (cases "open_steps t io first")
      case (Inl e)
      with assms io show ?thesis by (auto simp: lease_open_def lease_close_def)
    next
      case (Inr after)
      with assms(2) io have "lease_open t io l = (Inr after, l\<lparr>l_device := Some (fst first), l_fd := True, l_lock := True\<rparr>)"
        by (simp add: lease_open_def Let_def)
      with assms(1) have "r = Inr after" "l' = l\<lparr>l_device := Some (fst first), l_fd := True, l_lock := True\<rparr>"
        by simp_all
      with io steps [OF Inr] show ?thesis by simp
    qed
  qed
qed

text \<open>Platform constants in which every flag is one bit of its own (the values of Linux for these).\<close>

definition linux_termios :: termios where
  "linux_termios = \<lparr>t_flag = (\<lambda>name. case map_of
      [(''IGNBRK'', 1), (''BRKINT'', 2), (''PARMRK'', 8), (''ISTRIP'', 32), (''INLCR'', 64), (''IGNCR'', 128),
       (''ICRNL'', 256), (''IXON'', 1024), (''IXOFF'', 4096), (''IXANY'', 2048), (''OPOST'', 1), (''CSIZE'', 48),
       (''PARENB'', 256), (''CSTOPB'', 64), (''CRTSCTS'', 2147483648), (''HUPCL'', 1024), (''CS8'', 48),
       (''CLOCAL'', 2048), (''CREAD'', 128), (''ECHO'', 8), (''ECHONL'', 64), (''ICANON'', 2), (''ISIG'', 1),
       (''IEXTEN'', 32768)] name of None \<Rightarrow> 0 | Some v \<Rightarrow> v),
     t_B115200 = 4098, t_VMIN = 6, t_VTIME = 5\<rparr>"

definition example_attrs :: attrs where
  "example_attrs = \<lparr>a_iflag = 1280, a_oflag = 5, a_cflag = 1215, a_lflag = 35387, a_ispeed = 15, a_ospeed = 15,
     a_cc = replicate 32 (PInt 1)\<rparr>"

definition example_open :: open_io where
  "example_open = \<lparr>o_absolute = True, o_identity = Inr (''/dev/w'', 1, 2), o_lock = Inr (), o_regular = Inr True,
     o_flock = Inr (), o_occupancy = Inr (), o_identity_again = Inr (''/dev/w'', 1, 2), o_open = Inr (), o_character = True,
     o_opened = (1, 2), o_exclusive_ioctl = Inr (), o_exclusive_check = Inr (), o_before = Inr example_attrs,
     o_set = (\<lambda>a. Inr a), o_modem = ModemErrno ''ENOTTY'', o_settle = Inr (), o_record = Inr ()\<rparr>"

text \<open>What the platform promises of its constants: the flags of one word occupy disjoint bits, \<open>CS8\<close> lies
  inside the mask \<open>CSIZE\<close>, and \<open>CLOCAL\<close> and \<open>CREAD\<close> are apart from the flags that are cleared.\<close>

fun disjoint_flags :: "termios \<Rightarrow> string list \<Rightarrow> bool" where
  "disjoint_flags t [] = True"
| "disjoint_flags t (n # ns) = (list_all (\<lambda>m. t_flag t n AND t_flag t m = 0) ns \<and> disjoint_flags t ns)"

definition termios_ok :: "termios \<Rightarrow> bool" where
  "termios_ok t \<longleftrightarrow> disjoint_flags t input_names \<and> disjoint_flags t local_names
     \<and> disjoint_flags t ([''CLOCAL'', ''CREAD''] @ control_names) \<and> t_flag t ''CS8'' AND t_flag t ''CSIZE'' = t_flag t ''CS8''"

lemma bit_clear_flags:
  "bit (clear_flags t names x) k \<longleftrightarrow> bit x k \<and> (\<forall>n \<in> set names. \<not> bit (t_flag t n) k)"
  unfolding clear_flags_def by (induction names arbitrary: x) (auto simp: bit_and_iff bit_not_iff)

lemma zero_and_iff: "x AND y = (0 :: int) \<longleftrightarrow> (\<forall>k. \<not> (bit x k \<and> bit y k))"
  by (auto simp: bit_eq_iff bit_and_iff)

lemma bit_flag_sum:
  "disjoint_flags t names \<Longrightarrow> bit (flag_sum t names) k \<longleftrightarrow> (\<exists>n \<in> set names. bit (t_flag t n) k)"
proof (induction names arbitrary: k)
  case Nil
  then show ?case by (simp add: flag_sum_def)
next
  case (Cons n ns)
  have "t_flag t n AND flag_sum t ns = 0"
    using Cons by (auto simp: zero_and_iff list_all_iff)
  then have "flag_sum t (n # ns) = t_flag t n OR flag_sum t ns"
    using plus_and_or [of "t_flag t n" "flag_sum t ns"] by (simp add: flag_sum_def)
  with Cons show ?case by (auto simp: bit_or_iff)
qed

text \<open>
  The requested terminal mode passes its own readback: for every previous setting, the attributes
  \<open>raw_attributes\<close> asks for are accepted by \<open>validate_raw_attributes\<close>, so a rejection means that the kernel
  did not apply them.
\<close>

lemma raw_attributes_accepted:
  assumes "termios_ok t" "t_VMIN t < length (a_cc a)" "t_VTIME t < length (a_cc a)"
  shows "validate_raw_attributes (raw_attributes a t) t = Inr ()"
proof -
  let ?r = "raw_attributes a t"
  let ?set = "t_flag t ''CS8'' OR t_flag t ''CLOCAL'' OR t_flag t ''CREAD''"
  from assms(1) have input: "disjoint_flags t input_names" and local: "disjoint_flags t local_names"
    and control: "disjoint_flags t (tl control_names)"
    and cs8: "t_flag t ''CS8'' AND t_flag t ''CSIZE'' = t_flag t ''CS8''"
    and apart: "list_all (\<lambda>m. t_flag t ''CLOCAL'' AND t_flag t m = 0 \<and> t_flag t ''CREAD'' AND t_flag t m = 0) control_names"
    and masks: "list_all (\<lambda>m. t_flag t ''CSIZE'' AND t_flag t m = 0) (tl control_names)"
    by (auto simp: termios_ok_def control_names_def)
  have cleared: "clear_flags t names x AND flag_sum t names = 0" if "disjoint_flags t names" for names x
    using that by (auto simp: zero_and_iff bit_clear_flags bit_flag_sum)
  have cs8_bits: "bit (t_flag t ''CSIZE'') k" if "bit (t_flag t ''CS8'') k" for k
    using arg_cong [OF cs8, of "\<lambda>x. bit x k"] that by (simp add: bit_and_iff)
  have "a_cflag ?r AND t_flag t ''CSIZE'' = t_flag t ''CS8''"
  proof (rule bit_eqI)
    fix k
    show "bit (a_cflag ?r AND t_flag t ''CSIZE'') k = bit (t_flag t ''CS8'') k"
      using apart cs8_bits [of k]
      by (auto simp: raw_attributes_def bit_and_iff bit_or_iff bit_clear_flags control_names_def zero_and_iff)
  qed
  moreover have "a_cflag ?r AND (t_flag t ''CLOCAL'' OR t_flag t ''CREAD'') = t_flag t ''CLOCAL'' OR t_flag t ''CREAD''"
    by (rule bit_eqI) (auto simp: raw_attributes_def bit_and_iff bit_or_iff)
  moreover have "a_cflag ?r AND flag_sum t (tl control_names) = 0"
  proof -
    have "\<not> (bit (a_cflag ?r) k \<and> bit (flag_sum t (tl control_names)) k)" for k
      using apart masks cs8_bits [of k] unfolding bit_flag_sum [OF control]
      by (auto simp: raw_attributes_def bit_or_iff bit_clear_flags control_names_def zero_and_iff)
    then show ?thesis by (simp add: zero_and_iff)
  qed
  moreover have "a_iflag ?r AND flag_sum t input_names = 0" "a_lflag ?r AND flag_sum t local_names = 0"
    "a_oflag ?r AND t_flag t ''OPOST'' = 0"
    using cleared [OF input] cleared [OF local] cleared [of "[''OPOST'']"]
    by (simp_all add: raw_attributes_def flag_sum_def)
  moreover have "timer_ok (a_cc ?r ! t_VMIN t)" "timer_ok (a_cc ?r ! t_VTIME t)"
    using assms(2,3) by (auto simp: raw_attributes_def timer_ok_def nth_list_update)
  ultimately show ?thesis
    by (simp add: validate_raw_attributes_def Let_def) (simp add: raw_attributes_def)
qed

end
