(* ===== verification/Journal.thy ===== *)
theory Journal
  imports Serial_Feedback
begin

text \<open>
  The journal side of \<open>src/src/wc_motion/feedback_transport.py\<close>: classes \<open>SyncJournal\<close>, \<open>AsyncJournal\<close> and
  \<open>FeedbackPoller\<close>.

  A journal file is the list of the records whose lines have been written. \<open>encode\<close> stands for
  \<open>json.dumps(record, allow_nan=False) + '\n'\<close>, \<open>None\<close> for its \<open>ValueError\<close>. The asynchronous journal is a
  state \<open>ajournal\<close> with the producer's call \<open>aj_put\<close>, and a step relation \<open>aj_step\<close> for everything that can
  happen to it: the worker thread's critical sections and I/O between them, the producer, \<open>close\<close>,
  and the clock. The durations it measures, which nothing reads back, are left out.
  The poller works over any journal: the locale \<open>journal\<close> states what it needs, and both journals
  interpret it.
\<close>

type_synonym encoder = "pydict \<Rightarrow> string option"

section \<open>The synchronous journal\<close>

text \<open>\<open>s_io\<close> holds the outcomes of the coming \<open>write\<close>/\<open>flush\<close> pairs; they succeed once it is exhausted.
  \<open>s_file\<close> is what has been acknowledged: the records whose call returned. A failed write or flush may leave its line, or part of it, in
  the buffer or on disk; such a remnant is not counted.\<close>

record sync_journal =
  s_closed :: bool
  s_written :: nat
  s_synced :: bool
  s_file :: "pydict list"
  s_io :: "(exc + unit) list"

definition sync_init :: "(exc + unit) list \<Rightarrow> sync_journal" where
  "sync_init io = \<lparr>s_closed = False, s_written = 0, s_synced = False, s_file = [], s_io = io\<rparr>"

definition sync_check :: "sync_journal \<Rightarrow> exc + unit" where
  "sync_check j = (if s_closed j then raise FeedbackError ''JOURNAL_CLOSED'' else Inr ())"

definition sync_put :: "encoder \<Rightarrow> pydict \<Rightarrow> sync_journal \<Rightarrow> (exc + unit) \<times> sync_journal" where
  "sync_put encode r j = (case sync_check j of
       Inl e \<Rightarrow> (Inl e, j)
     | Inr _ \<Rightarrow> (case encode r of
         None \<Rightarrow> (raise ValueError ''Out of range float values are not JSON compliant'', j)
       | Some line \<Rightarrow>
           (case (if s_io j = [] then Inr () else hd (s_io j)) of
              Inl e \<Rightarrow> (Inl e, j\<lparr>s_io := tl (s_io j)\<rparr>)
            | Inr _ \<Rightarrow> (Inr (), j\<lparr>s_io := tl (s_io j), s_file := s_file j @ [r], s_written := s_written j + 1\<rparr>))))"

definition sync_close :: "exc + unit \<Rightarrow> sync_journal \<Rightarrow> (exc + unit) \<times> sync_journal" where
  "sync_close flushed j = (case flushed of
       Inl e \<Rightarrow> (Inl e, j\<lparr>s_closed := True\<rparr>)
     | Inr _ \<Rightarrow> (Inr (), j\<lparr>s_synced := True, s_closed := True\<rparr>))"

definition sync_status :: "sync_journal \<Rightarrow> pydict" where
  "sync_status j = [(''mode'', PStr ''synchronous''), (''written_events'', PInt (int (s_written j))),
     (''final_fsync_complete'', PBool (s_synced j))]"

section \<open>The asynchronous journal\<close>

definition journal_record_bytes :: nat where "journal_record_bytes = 65536"
definition journal_batch_events :: nat where "journal_batch_events = 64"
definition journal_batch_bytes :: nat where "journal_batch_bytes = 65536"

text \<open>Where the worker thread is: waiting for a first event, aggregating a batch, writing it, writing
  the finalization record, in the final \<open>fsync\<close>, closing its stream, gone. \<open>j_file\<close> holds the records of the
  producer; the finalization record that the worker appends after the last of them is not among them.\<close>

datatype worker = Waiting | Batching | Writing | Finalizing | Syncing | Closing | Exited

record ajournal =
  j_max_events :: nat
  j_max_bytes :: nat
  j_queue :: "(pydict \<times> nat) list"
  j_batch :: "(pydict \<times> nat) list"
  j_file :: "pydict list"
  j_worker :: worker
  j_closing :: bool
  j_exited :: bool
  j_synced :: bool
  j_error :: "string option"
  j_enqueued :: nat
  j_written :: nat
  j_pending :: nat
  j_pending_bytes :: nat
  j_rejected :: nat
  j_high_events :: nat
  j_high_bytes :: nat
  j_batches :: nat
  j_max_batch_events :: nat
  j_max_batch_bytes :: nat
  j_now :: int

definition aj_init :: "pyval \<Rightarrow> pyval \<Rightarrow> pyval \<Rightarrow> exc + ajournal" where
  "aj_init max_events max_bytes close_timeout = (case (max_events, max_bytes) of
       (PInt e, PInt b) \<Rightarrow>
         if e < 1 \<or> b < 1 then raise FeedbackError ''positive integer async journal bounds required''
         else bindr (bounded close_timeout ''journal close timeout'' (PFloat (round64 (1 / 1000)), ''0.001'') (PInt 90, ''90'')) (\<lambda>_.
           Inr \<lparr>j_max_events = nat e, j_max_bytes = nat b, j_queue = [], j_batch = [], j_file = [], j_worker = Waiting,
                j_closing = False, j_exited = False, j_synced = False, j_error = None, j_enqueued = 0, j_written = 0,
                j_pending = 0, j_pending_bytes = 0, j_rejected = 0, j_high_events = 0, j_high_bytes = 0,
                j_batches = 0, j_max_batch_events = 0, j_max_batch_bytes = 0, j_now = 0\<rparr>)
     | _ \<Rightarrow> raise FeedbackError ''positive integer async journal bounds required'')"

text \<open>\<open>_fail_locked\<close>: the first reason is kept.\<close>

definition aj_fail :: "string \<Rightarrow> ajournal \<Rightarrow> ajournal" where
  "aj_fail reason j = j\<lparr>j_error := Some (case j_error j of Some e \<Rightarrow> e | None \<Rightarrow> reason), j_closing := True\<rparr>"

definition aj_reason :: "ajournal \<Rightarrow> string" where
  "aj_reason j = (case j_error j of Some e \<Rightarrow> e | None \<Rightarrow> ''ASYNC_JOURNAL_CLOSED'')"

definition aj_check :: "ajournal \<Rightarrow> exc + unit" where
  "aj_check j = (if j_error j \<noteq> None \<or> j_closing j then raise FeedbackError (aj_reason j) else Inr ())"

definition aj_stamped :: "pydict \<Rightarrow> ajournal \<Rightarrow> pydict" where
  "aj_stamped r j = dput ''journal_enqueued_monotonic_ns'' (PInt (j_now j))
     (dput ''journal_event_index'' (PInt (int (j_enqueued j) + 1)) r)"

definition aj_put :: "encoder \<Rightarrow> pydict \<Rightarrow> ajournal \<Rightarrow> (exc + unit) \<times> ajournal" where
  "aj_put encode r j = (case aj_check j of
       Inl e \<Rightarrow> (Inl e, j)
     | Inr _ \<Rightarrow> (case encode (aj_stamped r j) of
         None \<Rightarrow> (let j' = aj_fail ''ASYNC_JOURNAL_ENCODE_FAILED: Out of range float values are not JSON compliant'' j
                 in (raise FeedbackError (aj_reason j'), j'))
       | Some line \<Rightarrow>
           (let size = length line in
            if journal_record_bytes < size \<or> j_max_events j \<le> j_pending j \<or> j_max_bytes j < j_pending_bytes j + size
            then (let j' = aj_fail (if journal_record_bytes < size then ''ASYNC_JOURNAL_RECORD_TOO_LARGE'' else ''ASYNC_JOURNAL_QUEUE_FULL'')
                             (j\<lparr>j_rejected := j_rejected j + 1\<rparr>)
                  in (raise FeedbackError (aj_reason j'), j'))
            else (Inr (), j\<lparr>j_queue := j_queue j @ [(aj_stamped r j, size)], j_enqueued := j_enqueued j + 1,
                   j_pending := j_pending j + 1, j_pending_bytes := j_pending_bytes j + size,
                   j_high_events := max (j_high_events j) (j_pending j + 1),
                   j_high_bytes := max (j_high_bytes j) (j_pending_bytes j + size)\<rparr>))))"

definition batch_bytes :: "(pydict \<times> nat) list \<Rightarrow> nat" where
  "batch_bytes b = sum_list (map snd b)"

text \<open>The inner loop that moves events from the queue into the batch.\<close>

fun fill_batch :: "(pydict \<times> nat) list \<Rightarrow> (pydict \<times> nat) list \<Rightarrow> (pydict \<times> nat) list \<times> (pydict \<times> nat) list" where
  "fill_batch batch [] = (batch, [])"
| "fill_batch batch (x # queue) =
     (if length batch < journal_batch_events \<and> \<not> (batch \<noteq> [] \<and> journal_batch_bytes < batch_bytes batch + snd x)
      then fill_batch (batch @ [x]) queue else (batch, x # queue))"

definition aj_fill :: "ajournal \<Rightarrow> ajournal" where
  "aj_fill j = (case fill_batch (j_batch j) (j_queue j) of
     (batch, queue) \<Rightarrow> j\<lparr>j_batch := batch, j_queue := queue, j_worker := Batching\<rparr>)"

definition aj_write_failed :: "string \<Rightarrow> ajournal \<Rightarrow> ajournal" where
  "aj_write_failed e j = (aj_fail (''ASYNC_JOURNAL_WRITE_FAILED: '' @ e) j)\<lparr>j_worker := Closing\<rparr>"

text \<open>\<open>close\<close> after its \<open>join\<close> has returned; \<open>alive\<close> is \<open>thread.is_alive()\<close>.\<close>

definition aj_close_result :: "bool \<Rightarrow> ajournal \<Rightarrow> (exc + unit) \<times> ajournal" where
  "aj_close_result alive j =
     (let j' = (if alive then aj_fail ''ASYNC_JOURNAL_CLOSE_TIMEOUT'' j else j)
      in (case j_error j' of
            Some e \<Rightarrow> (raise FeedbackError e, j')
          | None \<Rightarrow> if \<not> j_synced j' then (raise FeedbackError ''ASYNC_JOURNAL_NOT_SYNCED'', j') else (Inr (), j')))"

inductive aj_step :: "encoder \<Rightarrow> ajournal \<Rightarrow> ajournal \<Rightarrow> bool" for encode where
  tick: "j_now j \<le> t \<Longrightarrow> aj_step encode j (j\<lparr>j_now := t\<rparr>)"
| produce: "aj_step encode j (snd (aj_put encode r j))"
| close_request: "aj_step encode j (j\<lparr>j_closing := True\<rparr>)"
| close_result: "j_closing j \<Longrightarrow> alive \<or> j_exited j \<Longrightarrow> aj_step encode j (snd (aj_close_result alive j))"
| start_batch: "j_worker j = Waiting \<Longrightarrow> j_queue j \<noteq> [] \<Longrightarrow> aj_step encode j (aj_fill j)"
| more: "j_worker j = Batching \<Longrightarrow> aj_step encode j (aj_fill j)"
| end_batch: "j_worker j = Batching \<Longrightarrow> aj_step encode j (j\<lparr>j_worker := Writing,
     j_max_batch_events := max (j_max_batch_events j) (length (j_batch j)),
     j_max_batch_bytes := max (j_max_batch_bytes j) (batch_bytes (j_batch j))\<rparr>)"
| batch_written: "j_worker j = Writing \<Longrightarrow> aj_step encode j (j\<lparr>j_worker := Waiting,
     j_file := j_file j @ map fst (j_batch j), j_batches := j_batches j + 1,
     j_written := j_written j + length (j_batch j), j_pending := j_pending j - length (j_batch j),
     j_pending_bytes := j_pending_bytes j - batch_bytes (j_batch j), j_batch := []\<rparr>)"
| batch_failed: "j_worker j = Writing \<Longrightarrow> aj_step encode j (aj_write_failed e j)"
| drained: "j_worker j = Waiting \<Longrightarrow> j_queue j = [] \<Longrightarrow> j_closing j \<Longrightarrow> aj_step encode j (j\<lparr>j_worker := Finalizing\<rparr>)"
| finalized: "j_worker j = Finalizing \<Longrightarrow> aj_step encode j (j\<lparr>j_worker := Syncing\<rparr>)"
| finalize_failed: "j_worker j = Finalizing \<Longrightarrow> aj_step encode j (aj_write_failed e j)"
| synced: "j_worker j = Syncing \<Longrightarrow> aj_step encode j (j\<lparr>j_worker := Closing, j_synced := True\<rparr>)"
| sync_failed: "j_worker j = Syncing \<Longrightarrow> aj_step encode j (aj_write_failed e j)"
| stream_closed: "j_worker j = Closing \<Longrightarrow> aj_step encode j (j\<lparr>j_worker := Exited, j_exited := True\<rparr>)"
| stream_close_failed: "j_worker j = Closing \<Longrightarrow>
     aj_step encode j ((aj_fail (''ASYNC_JOURNAL_CLOSE_FAILED: '' @ e) j)\<lparr>j_worker := Exited, j_exited := True\<rparr>)"

inductive aj_reach :: "encoder \<Rightarrow> ajournal \<Rightarrow> ajournal \<Rightarrow> bool" for encode where
  here: "aj_reach encode j j"
| step: "aj_reach encode j k \<Longrightarrow> aj_step encode k l \<Longrightarrow> aj_reach encode j l"

inductive_cases aj_stepE: "aj_step encode j k"

text \<open>Every record the journal has accepted, oldest first.\<close>

definition aj_accepted :: "ajournal \<Rightarrow> pydict list" where
  "aj_accepted j = j_file j @ map fst (j_batch j) @ map fst (j_queue j)"

section \<open>Invariant of the asynchronous journal\<close>

definition aj_counts :: "ajournal \<Rightarrow> bool" where
  "aj_counts j \<longleftrightarrow>
     j_pending j = length (j_batch j) + length (j_queue j)
     \<and> j_pending_bytes j = batch_bytes (j_batch j) + batch_bytes (j_queue j)
     \<and> j_enqueued j = j_written j + j_pending j \<and> length (j_file j) = j_written j"

definition aj_bounds :: "ajournal \<Rightarrow> bool" where
  "aj_bounds j \<longleftrightarrow> j_pending j \<le> j_max_events j \<and> j_pending_bytes j \<le> j_max_bytes j
     \<and> j_high_events j \<le> j_max_events j \<and> j_high_bytes j \<le> j_max_bytes j
     \<and> length (j_batch j) \<le> journal_batch_events
     \<and> (length (j_batch j) \<le> 1 \<or> batch_bytes (j_batch j) \<le> journal_batch_bytes)"

definition aj_indexed :: "pydict list \<Rightarrow> bool" where
  "aj_indexed rs \<longleftrightarrow> map (\<lambda>r. dget r ''journal_event_index'') rs = map (\<lambda>i. PInt (int i + 1)) [0..<length rs]"

definition aj_phases :: "ajournal \<Rightarrow> bool" where
  "aj_phases j \<longleftrightarrow> (j_error j \<noteq> None \<longrightarrow> j_closing j)
     \<and> (j_worker j = Waiting \<longrightarrow> j_batch j = [])
     \<and> (j_worker j = Finalizing \<or> j_worker j = Syncing \<or> j_synced j \<longrightarrow> j_closing j \<and> j_queue j = [] \<and> j_batch j = [])
     \<and> (j_synced j \<longrightarrow> j_worker j = Closing \<or> j_worker j = Exited)
     \<and> (j_worker j = Closing \<or> j_worker j = Exited \<longrightarrow> j_closing j)"

definition aj_inv :: "ajournal \<Rightarrow> bool" where
  "aj_inv j \<longleftrightarrow> aj_counts j \<and> aj_bounds j \<and> aj_indexed (aj_accepted j) \<and> aj_phases j"

lemma batch_bytes_simps [simp]:
  "batch_bytes [] = 0" "batch_bytes (x # b) = snd x + batch_bytes b" "batch_bytes (a @ b) = batch_bytes a + batch_bytes b"
  by (simp_all add: batch_bytes_def)

lemma fill_batch_append: "fill_batch b q = (b', q') \<Longrightarrow> b' @ q' = b @ q"
  by (induction b q rule: fill_batch.induct) (auto split: if_splits)

lemma fill_batch_bounds:
  "fill_batch b q = (b', q') \<Longrightarrow> length b \<le> journal_batch_events \<Longrightarrow> length b \<le> 1 \<or> batch_bytes b \<le> journal_batch_bytes \<Longrightarrow>
     length b' \<le> journal_batch_events \<and> (length b' \<le> 1 \<or> batch_bytes b' \<le> journal_batch_bytes)"
proof (induction b q rule: fill_batch.induct)
  case (1 b)
  then show ?case by auto
next
  case (2 b x q)
  show ?case
  proof (cases "length b < journal_batch_events \<and> \<not> (b \<noteq> [] \<and> journal_batch_bytes < batch_bytes b + snd x)")
    case True
    with "2.prems" have "fill_batch (b @ [x]) q = (b', q')" by simp
    moreover have "length (b @ [x]) \<le> journal_batch_events" "length (b @ [x]) \<le> 1 \<or> batch_bytes (b @ [x]) \<le> journal_batch_bytes"
      using True by (auto simp: not_less)
    ultimately show ?thesis using "2.IH" [OF True] by blast
  next
    case False
    with "2.prems" show ?thesis by (simp split: if_splits)
  qed
qed

lemma aj_fill_shape:
  obtains b q where "aj_fill j = j\<lparr>j_batch := b, j_queue := q, j_worker := Batching\<rparr>"
    "length b + length q = length (j_batch j) + length (j_queue j)"
    "batch_bytes b + batch_bytes q = batch_bytes (j_batch j) + batch_bytes (j_queue j)"
    "map fst b @ map fst q = map fst (j_batch j) @ map fst (j_queue j)"
    "length (j_batch j) \<le> journal_batch_events \<and> (length (j_batch j) \<le> 1 \<or> batch_bytes (j_batch j) \<le> journal_batch_bytes) \<longrightarrow>
     length b \<le> journal_batch_events \<and> (length b \<le> 1 \<or> batch_bytes b \<le> journal_batch_bytes)"
proof -
  obtain b q where f: "fill_batch (j_batch j) (j_queue j) = (b, q)"
    by (cases "fill_batch (j_batch j) (j_queue j)") auto
  from fill_batch_append [OF f] have app: "b @ q = j_batch j @ j_queue j" .
  show thesis
    by (rule that [where b = b and q = q])
      (use f fill_batch_bounds [OF f] arg_cong [OF app, of length] arg_cong [OF app, of batch_bytes]
        arg_cong [OF app, of "map fst"] in \<open>simp_all add: aj_fill_def\<close>)
qed

lemma aj_fill_inv:
  assumes "aj_inv j" "j_worker j = Waiting \<or> j_worker j = Batching"
  shows "aj_inv (aj_fill j)" "aj_accepted (aj_fill j) = aj_accepted j"
proof -
  obtain b q where f: "aj_fill j = j\<lparr>j_batch := b, j_queue := q, j_worker := Batching\<rparr>"
    "length b + length q = length (j_batch j) + length (j_queue j)"
    "batch_bytes b + batch_bytes q = batch_bytes (j_batch j) + batch_bytes (j_queue j)"
    "map fst b @ map fst q = map fst (j_batch j) @ map fst (j_queue j)"
    "length (j_batch j) \<le> journal_batch_events \<and> (length (j_batch j) \<le> 1 \<or> batch_bytes (j_batch j) \<le> journal_batch_bytes) \<longrightarrow>
     length b \<le> journal_batch_events \<and> (length b \<le> 1 \<or> batch_bytes b \<le> journal_batch_bytes)"
    by (rule aj_fill_shape [of j])
  have acc: "aj_accepted (aj_fill j) = aj_accepted j"
    by (simp add: aj_accepted_def f(1,4))
  have "aj_counts (aj_fill j)" "aj_bounds (aj_fill j)"
    using assms(1) f by (auto simp: aj_inv_def aj_counts_def aj_bounds_def)
  moreover have "aj_phases (aj_fill j)"
    using assms by (auto simp: aj_inv_def aj_phases_def f(1))
  ultimately show "aj_inv (aj_fill j)"
    using assms(1) acc by (simp add: aj_inv_def)
  show "aj_accepted (aj_fill j) = aj_accepted j" by (rule acc)
qed

lemma aj_fail_sel [simp]:
  "j_closing (aj_fail reason j)" "j_error (aj_fail reason j) \<noteq> None" "aj_accepted (aj_fail reason j) = aj_accepted j"
  "aj_counts (aj_fail reason j) = aj_counts j" "aj_bounds (aj_fail reason j) = aj_bounds j"
  "j_synced (aj_fail reason j) = j_synced j" "j_worker (aj_fail reason j) = j_worker j"
  "j_queue (aj_fail reason j) = j_queue j" "j_batch (aj_fail reason j) = j_batch j" "j_file (aj_fail reason j) = j_file j"
  by (simp_all add: aj_fail_def aj_accepted_def aj_counts_def aj_bounds_def)

lemma aj_fail_inv: "aj_inv j \<Longrightarrow> aj_inv (aj_fail reason j)"
  by (simp add: aj_inv_def aj_phases_def)

lemma aj_fail_rejected: "aj_inv (j\<lparr>j_rejected := n\<rparr>) = aj_inv j" "aj_accepted (j\<lparr>j_rejected := n\<rparr>) = aj_accepted j"
  by (simp_all add: aj_inv_def aj_counts_def aj_bounds_def aj_phases_def aj_accepted_def)

definition aj_enqueue :: "pydict \<Rightarrow> nat \<Rightarrow> ajournal \<Rightarrow> ajournal" where
  "aj_enqueue r len j = j\<lparr>j_queue := j_queue j @ [(aj_stamped r j, len)], j_enqueued := j_enqueued j + 1,
     j_pending := j_pending j + 1, j_pending_bytes := j_pending_bytes j + len,
     j_high_events := max (j_high_events j) (j_pending j + 1),
     j_high_bytes := max (j_high_bytes j) (j_pending_bytes j + len)\<rparr>"

lemma aj_put_cases:
  obtains (closed) e where "aj_put encode r j = (Inl e, j)" "j_error j \<noteq> None \<or> j_closing j"
  | (refused) e reason n where "aj_put encode r j = (Inl e, aj_fail reason (j\<lparr>j_rejected := n\<rparr>))"
  | (accepted) len where "aj_put encode r j = (Inr (), aj_enqueue r len j)" "\<not> j_closing j" "j_error j = None"
      "j_pending j < j_max_events j" "j_pending_bytes j + len \<le> j_max_bytes j"
proof (cases "j_error j \<noteq> None \<or> j_closing j")
  case True
  then show ?thesis by (intro closed) (auto simp: aj_put_def aj_check_def)
next
  case False
  then have check: "aj_check j = Inr ()" by (simp add: aj_check_def)
  show ?thesis
  proof (cases "encode (aj_stamped r j)")
    case None
    have "j = j\<lparr>j_rejected := j_rejected j\<rparr>" by simp
    with check None show ?thesis
      by (intro refused [of _ _ "j_rejected j"]) (simp add: aj_put_def Let_def)
  next
    case (Some line)
    show ?thesis
    proof (cases "journal_record_bytes < length line \<or> j_max_events j \<le> j_pending j \<or> j_max_bytes j < j_pending_bytes j + length line")
      case True
      with check Some show ?thesis
        by (intro refused [of _ _ "j_rejected j + 1"]) (simp add: aj_put_def Let_def)
    next
      case ok: False
      with check Some False show ?thesis
        by (intro accepted [of "length line"]) (auto simp: aj_put_def Let_def aj_enqueue_def)
    qed
  qed
qed

lemma aj_indexed_snoc:
  "aj_indexed rs \<Longrightarrow> dget r ''journal_event_index'' = PInt (int (length rs) + 1) \<Longrightarrow> aj_indexed (rs @ [r])"
  by (simp add: aj_indexed_def)

lemma dget_dput [simp]: "dget (dput k v d) k' = (if k = k' then v else dget d k')"
  by (simp add: dget_def)

lemma aj_enqueue_inv:
  assumes "aj_inv j" "\<not> j_closing j" "j_error j = None" "j_pending j < j_max_events j" "j_pending_bytes j + len \<le> j_max_bytes j"
  shows "aj_inv (aj_enqueue r len j)" "aj_accepted (aj_enqueue r len j) = aj_accepted j @ [aj_stamped r j]"
proof -
  show acc: "aj_accepted (aj_enqueue r len j) = aj_accepted j @ [aj_stamped r j]"
    by (simp add: aj_accepted_def aj_enqueue_def)
  have "length (aj_accepted j) = j_enqueued j"
    using assms(1) by (simp add: aj_inv_def aj_counts_def aj_accepted_def)
  then have "aj_indexed (aj_accepted (aj_enqueue r len j))"
    using assms(1) unfolding acc by (intro aj_indexed_snoc) (simp_all add: aj_inv_def aj_stamped_def)
  moreover have "aj_counts (aj_enqueue r len j)" "aj_bounds (aj_enqueue r len j)"
    using assms by (simp_all add: aj_inv_def aj_counts_def aj_bounds_def aj_enqueue_def)
  moreover have "aj_phases (aj_enqueue r len j)"
    using assms by (auto simp: aj_inv_def aj_phases_def aj_enqueue_def)
  ultimately show "aj_inv (aj_enqueue r len j)"
    by (simp add: aj_inv_def)
qed

lemma aj_put_inv: "aj_inv j \<Longrightarrow> aj_inv (snd (aj_put encode r j))"
  by (cases rule: aj_put_cases [of encode r j]) (auto simp: aj_fail_rejected intro: aj_fail_inv aj_enqueue_inv(1))

lemma aj_step_inv:
  assumes "aj_step encode j k" "aj_inv j"
  shows "aj_inv k"
  using assms
proof (cases rule: aj_step.cases)
  case (produce r)
  with assms(2) show ?thesis by (simp add: aj_put_inv)
next
  case (close_result alive)
  with assms(2) show ?thesis
    by (auto simp: aj_close_result_def Let_def aj_fail_inv split: option.splits)
next
  case start_batch
  with assms(2) aj_fill_inv show ?thesis by simp
next
  case more
  with assms(2) aj_fill_inv show ?thesis by simp
next
  case batch_written
  with assms(2) show ?thesis
    by (auto simp: aj_inv_def aj_counts_def aj_bounds_def aj_phases_def aj_accepted_def)
next
  case (batch_failed e)
  with assms(2) show ?thesis
    by (auto simp: aj_inv_def aj_counts_def aj_bounds_def aj_phases_def aj_accepted_def aj_write_failed_def aj_fail_def simp del: aj_fail_sel)
next
  case (finalize_failed e)
  with assms(2) show ?thesis
    by (auto simp: aj_inv_def aj_counts_def aj_bounds_def aj_phases_def aj_accepted_def aj_write_failed_def aj_fail_def simp del: aj_fail_sel)
next
  case (sync_failed e)
  with assms(2) show ?thesis
    by (auto simp: aj_inv_def aj_counts_def aj_bounds_def aj_phases_def aj_accepted_def aj_write_failed_def aj_fail_def simp del: aj_fail_sel)
next
  case (stream_close_failed e)
  with assms(2) show ?thesis
    by (auto simp: aj_inv_def aj_counts_def aj_bounds_def aj_phases_def aj_accepted_def aj_fail_def simp del: aj_fail_sel)
qed (auto simp: aj_inv_def aj_counts_def aj_bounds_def aj_phases_def aj_accepted_def)

lemma aj_step_accepted:
  assumes "aj_step encode j k" "aj_inv j"
  shows "prefix (aj_accepted j) (aj_accepted k)"
  using assms
proof (cases rule: aj_step.cases)
  case (produce r)
  then show ?thesis
    by (cases rule: aj_put_cases [of encode r j])
      (auto simp: aj_fail_rejected aj_enqueue_def aj_accepted_def)
next
  case (close_result alive)
  then show ?thesis by (auto simp: aj_close_result_def Let_def split: option.splits)
next
  case start_batch
  with assms(2) show ?thesis by (simp add: aj_fill_inv(2))
next
  case more
  with assms(2) show ?thesis by (simp add: aj_fill_inv(2))
qed (auto simp: aj_accepted_def aj_write_failed_def)

lemma reach_inv: "aj_reach encode j k \<Longrightarrow> aj_inv j \<Longrightarrow> aj_inv k \<and> prefix (aj_accepted j) (aj_accepted k)"
  by (induction rule: aj_reach.induct) (auto dest: aj_step_inv aj_step_accepted intro: prefix_order.trans)

lemma aj_init_inv: "aj_init e b t = Inr j \<Longrightarrow> aj_inv j \<and> aj_accepted j = []"
  by (auto simp: aj_init_def result_simps aj_inv_def aj_counts_def aj_bounds_def aj_phases_def aj_accepted_def aj_indexed_def
      journal_batch_events_def split: pyval.splits if_splits)

section \<open>Properties of the asynchronous journal\<close>

text \<open>
  C23. Nothing is lost on a normal close: whatever the interleaving of producer, worker and clock, if
  \<open>close\<close> returns, then the file holds every record that was ever accepted, in the order of acceptance
  and with consecutive indices, no error occurred, and the journal accepts nothing more.
\<close>

theorem journal_close_is_lossless:
  assumes "aj_init max_events max_bytes timeout = Inr j0" "aj_reach encode j0 earlier" "aj_reach encode earlier j"
    and "aj_close_result alive j = (Inr (), j')"
  shows "j_file j = aj_accepted j \<and> prefix (aj_accepted earlier) (j_file j) \<and> length (j_file j) = j_enqueued j
    \<and> aj_indexed (j_file j) \<and> j_error j = None \<and> isl (fst (aj_put encode r j))"
proof -
  from reach_inv [OF assms(2)] aj_init_inv [OF assms(1)] have "aj_inv earlier" by blast
  from reach_inv [OF assms(3) this] have inv: "aj_inv j" "prefix (aj_accepted earlier) (aj_accepted j)" by blast+
  from assms(4) have ok: "j_synced j" "j_error j = None"
    by (auto simp: aj_close_result_def Let_def split: if_splits option.splits)
  with inv have "j_queue j = []" "j_batch j = []" "j_closing j" by (auto simp: aj_inv_def aj_phases_def)
  with inv ok show ?thesis
    by (auto simp: aj_inv_def aj_counts_def aj_accepted_def aj_put_def aj_check_def)
qed

text \<open>A run of the worker that drains one record and closes.\<close>

definition example_encoder :: encoder where
  "example_encoder r = Some ''{}''"

lemma reach_trans: "aj_reach encode k l \<Longrightarrow> aj_reach encode j k \<Longrightarrow> aj_reach encode j l"
  by (induction rule: aj_reach.induct) (auto intro: aj_reach.step)

definition example_journal :: ajournal where
  "example_journal = \<lparr>j_max_events = 4, j_max_bytes = 100, j_queue = [], j_batch = [], j_file = [], j_worker = Waiting,
     j_closing = False, j_exited = False, j_synced = False, j_error = None, j_enqueued = 0, j_written = 0,
     j_pending = 0, j_pending_bytes = 0, j_rejected = 0, j_high_events = 0, j_high_bytes = 0,
     j_batches = 0, j_max_batch_events = 0, j_max_batch_bytes = 0, j_now = 0\<rparr>"

lemma example_journal_init: "aj_init (PInt 4) (PInt 100) (PInt 10) = Inr example_journal"
proof -
  have "bounded (PInt 10) ''journal close timeout'' (PFloat (round64 (1 / 1000)), ''0.001'') (PInt 90, ''90'') = Inr (PInt 10)"
    using low_bound [of "1 / 1000" 10] by (simp add: bounded_def py_le_def int_overflows_def)
  then show ?thesis by (simp add: aj_init_def example_journal_def)
qed

text \<open>The journal after one accepted event.\<close>

definition example_one :: ajournal where
  "example_one = aj_enqueue [(''event'', PStr ''x'')] 2 example_journal"

lemma example_put: "aj_put example_encoder [(''event'', PStr ''x'')] example_journal = (Inr (), example_one)"
  by (simp add: aj_put_def aj_check_def example_encoder_def example_one_def aj_enqueue_def example_journal_def
      journal_record_bytes_def)

definition drain_run :: "ajournal \<Rightarrow> ajournal" where
  "drain_run j = (let j = j\<lparr>j_closing := True\<rparr>; j = aj_fill j;
     j = j\<lparr>j_worker := Writing, j_max_batch_events := max (j_max_batch_events j) (length (j_batch j)),
       j_max_batch_bytes := max (j_max_batch_bytes j) (batch_bytes (j_batch j))\<rparr>;
     j = j\<lparr>j_worker := Waiting, j_file := j_file j @ map fst (j_batch j), j_batches := j_batches j + 1,
       j_written := j_written j + length (j_batch j), j_pending := j_pending j - length (j_batch j),
       j_pending_bytes := j_pending_bytes j - batch_bytes (j_batch j), j_batch := []\<rparr>;
     j = j\<lparr>j_worker := Finalizing\<rparr>; j = j\<lparr>j_worker := Syncing\<rparr>; j = j\<lparr>j_worker := Closing, j_synced := True\<rparr>
     in j\<lparr>j_worker := Exited, j_exited := True\<rparr>)"

lemma drain_run_reach:
  assumes "j_worker j = Waiting" "j_queue j = [x]" "j_batch j = []"
  shows "aj_reach encode j (drain_run j)"
proof -
  have fill: "aj_fill (j\<lparr>j_closing := True\<rparr>) = j\<lparr>j_closing := True, j_batch := [x], j_queue := [], j_worker := Batching\<rparr>"
    using assms by (simp add: aj_fill_def journal_batch_events_def)
  show ?thesis
    unfolding drain_run_def Let_def
    by (rule aj_reach.step [OF aj_reach.step [OF aj_reach.step [OF aj_reach.step [OF aj_reach.step
          [OF aj_reach.step [OF aj_reach.step [OF aj_reach.step [OF aj_reach.here aj_step.close_request] aj_step.start_batch]
            aj_step.end_batch] aj_step.batch_written] aj_step.drained] aj_step.finalized] aj_step.synced] aj_step.stream_closed])
      (use assms in \<open>simp_all add: fill\<close>)
qed

theorem journal_close_is_lossless_witness:
  "length (j_file (drain_run example_one)) = 1"
proof -
  let ?j = example_one
  note init = example_journal_init
  have "aj_reach example_encoder example_journal (snd (aj_put example_encoder [(''event'', PStr ''x'')] example_journal))"
    by (rule aj_reach.step [OF aj_reach.here aj_step.produce])
  then have one: "aj_reach example_encoder example_journal ?j"
    by (simp add: example_put)
  have q: "j_worker ?j = Waiting" "length (j_queue ?j) = 1" "j_batch ?j = []"
    by (simp_all add: example_one_def aj_enqueue_def example_journal_def)
  then obtain x where "j_queue ?j = [x]" by (cases "j_queue ?j") auto
  from drain_run_reach [OF q(1) this q(3)] have two: "aj_reach example_encoder ?j (drain_run ?j)" .
  have close: "aj_close_result False (drain_run ?j) = (Inr (), drain_run ?j)"
  proof -
    have "j_synced (drain_run ?j)" "j_error (drain_run ?j) = None"
      by (simp_all add: drain_run_def Let_def aj_fill_def example_one_def aj_enqueue_def example_journal_def
          journal_batch_events_def)
    then show ?thesis by (simp add: aj_close_result_def)
  qed
  from journal_close_is_lossless [OF init one two close] have "length (j_file (drain_run ?j)) = j_enqueued (drain_run ?j)" by blast
  also have "\<dots> = 1"
    by (simp add: drain_run_def Let_def aj_fill_def example_one_def aj_enqueue_def example_journal_def
        journal_batch_events_def)
  finally show ?thesis .
qed

text \<open>
  C26. The asynchronous journal is a bounded FIFO: in every reachable state the unwritten records are at
  most the configured number and bytes, a batch holds at most 64 events and, unless it is a single
  record, 64 KiB, the file is a prefix of the accepted records, which carry consecutive indices, and
  after an error or a close request nothing more is accepted.
\<close>

theorem journal_bounded_fifo:
  assumes "aj_init max_events max_bytes timeout = Inr j0" "aj_reach encode j0 j"
  shows "j_pending j \<le> j_max_events j \<and> j_pending_bytes j \<le> j_max_bytes j
    \<and> j_pending j = length (aj_accepted j) - length (j_file j)
    \<and> length (j_batch j) \<le> 64 \<and> (length (j_batch j) \<le> 1 \<or> batch_bytes (j_batch j) \<le> 65536)
    \<and> prefix (j_file j) (aj_accepted j) \<and> aj_indexed (aj_accepted j)
    \<and> (j_error j \<noteq> None \<or> j_closing j \<longrightarrow> isl (fst (aj_put encode r j)) \<and> snd (aj_put encode r j) = j)"
proof -
  from reach_inv [OF assms(2)] aj_init_inv [OF assms(1)] have "aj_inv j" by blast
  moreover have "isl (fst (aj_put encode r j)) \<and> snd (aj_put encode r j) = j" if "j_error j \<noteq> None \<or> j_closing j"
    using that by (simp add: aj_put_def aj_check_def)
  ultimately show ?thesis
    by (auto simp: aj_inv_def aj_counts_def aj_bounds_def aj_accepted_def journal_batch_events_def journal_batch_bytes_def)
qed

theorem journal_bounded_fifo_witness:
  "j_pending example_one \<le> 4"
proof -
  have "aj_reach example_encoder example_journal (snd (aj_put example_encoder [(''event'', PStr ''x'')] example_journal))"
    by (rule aj_reach.step [OF aj_reach.here aj_step.produce])
  then have "aj_reach example_encoder example_journal example_one"
    by (simp add: example_put)
  from journal_bounded_fifo [OF example_journal_init this]
  have "j_pending example_one \<le> j_max_events example_one" by blast
  also have "\<dots> = 4" by (simp add: example_one_def aj_enqueue_def example_journal_def)
  finally show ?thesis .
qed

section \<open>The poller\<close>

record poller =
  y_device :: string
  y_timeout :: pyval
  y_epoch :: string
  y_sequence :: int
  y_failed :: bool

definition poller_init :: "pydict \<Rightarrow> string \<Rightarrow> exc + poller" where
  "poller_init config epoch = bindr (validate_config config) (\<lambda>c. case dget c ''device_id'' of
       PStr device \<Rightarrow> Inr \<lparr>y_device = device, y_timeout = dget c ''timeout_s'', y_epoch = epoch,
                           y_sequence = 0, y_failed = False\<rparr>
     | _ \<Rightarrow> raise KeyError ''device_id'')"

text \<open>The clock readings of one \<open>sample\<close>, in nanoseconds.\<close>

record sample_clock =
  c_request_unix :: int
  c_request :: int
  c_started :: int
  c_completed :: int
  c_stamp :: int
  c_receive :: int

definition sample_base :: "poller \<Rightarrow> sample_clock \<Rightarrow> pydict" where
  "sample_base y c =
     [(''schema'', PStr ''wc_wheel_feedback_v1''), (''device_id'', PStr (y_device y)),
      (''stream_epoch'', PStr (y_epoch y)), (''sequence'', PInt (y_sequence y)),
      (''request_hex'', PStr (to_hex query)), (''request_unix_ns'', PInt (c_request_unix c)),
      (''request_monotonic_ns'', PInt (c_request c)), (''time_valid'', PBool False),
      (''time_source'', PStr ''arrival_only''), (''uncertainty_ns'', PNone),
      (''protocol_units_state'', PStr ''UNVALIDATED''), (''formal_odometry_eligible'', PBool False)]"

definition sample_record :: "(bytes \<Rightarrow> string) \<Rightarrow> poller \<Rightarrow> sample_clock \<Rightarrow> bytes \<Rightarrow> int list \<Rightarrow> pydict" where
  "sample_record sha256 y c response ws = sample_base y c @
     [(''stamp_ns'', PInt (c_stamp c)), (''receive_monotonic_ns'', PInt (c_receive c)),
      (''exchange_started_monotonic_ns'', PInt (c_started c)), (''exchange_completed_monotonic_ns'', PInt (c_completed c)),
      (''response_hex'', PStr (to_hex response)), (''response_sha256'', PStr (sha256 response)),
      (''status'', PStr ''RESPONSE_VALID''), (''transmitted_bytes'', PInt (int (length query))),
      (''register_words_u16'', PList (map PInt ws)), (''control_transmissions'', PInt 0)]"

text \<open>An error of \<open>sample\<close> with the response and the \<open>transmitted_bytes\<close> its failure record will carry:
  a \<open>QueryFailure\<close> brings both, any other exception leaves what \<open>sample\<close> knows.\<close>

type_synonym sample_error = "exc \<times> bytes \<times> pyval \<times> bool"

definition exchange_failure :: "query_error \<Rightarrow> sample_error" where
  "exchange_failure e = (if exn_of (e_exc e) = QueryFailure
     then (e_exc e, e_response e, PInt (int (e_sent e)), True) else (e_exc e, [], PNone, True))"

definition sample_finish :: "('j \<Rightarrow> exc + unit) \<Rightarrow> (pydict \<Rightarrow> 'j \<Rightarrow> (exc + unit) \<times> 'j) \<Rightarrow> pydict \<Rightarrow> bytes
    \<Rightarrow> 'j \<Rightarrow> (sample_error + pydict) \<times> 'j" where
  "sample_finish check put r response j =
     (let failure = (\<lambda>e. (e, response, if response \<noteq> [] then PInt (int (length query)) else PNone, True)) in
      case check j of
        Inl e \<Rightarrow> (Inl (failure e), j)
      | Inr _ \<Rightarrow> (case put ((''event'', PStr ''transaction_complete'') # r) j of
          (Inl e, j) \<Rightarrow> (Inl (failure e), j)
        | (Inr _, j) \<Rightarrow> (case check j of Inl e \<Rightarrow> (Inl (failure e), j) | Inr _ \<Rightarrow> (Inr r, j))))"

definition sample_try :: "('j \<Rightarrow> exc + unit) \<Rightarrow> (pydict \<Rightarrow> 'j \<Rightarrow> (exc + unit) \<times> 'j) \<Rightarrow> (bytes \<Rightarrow> string)
    \<Rightarrow> sample_clock \<Rightarrow> exchange_io \<Rightarrow> poller \<Rightarrow> lease \<Rightarrow> 'j
    \<Rightarrow> (sample_error + pydict) \<times> bytes list \<times> lease \<times> 'j" where
  "sample_try check put sha256 c io y l j =
     (let early = (\<lambda>e. (e, [], PInt 0, False)) in
      case check j of
        Inl e \<Rightarrow> (Inl (early e), [], l, j)
      | Inr _ \<Rightarrow> (case put ((''event'', PStr ''request_planned'') # sample_base y c) j of
          (Inl e, j) \<Rightarrow> (Inl (early e), [], l, j)
        | (Inr _, j) \<Rightarrow> (case check j of
            Inl e \<Rightarrow> (Inl (early e), [], l, j)
          | Inr _ \<Rightarrow> (case exchange io query (y_timeout y) l of
              ((Inl qe, sent), l) \<Rightarrow> (Inl (exchange_failure qe), sent, l, j)
            | ((Inr response, sent), l) \<Rightarrow> (case parse_exchange query response of
                Inl e \<Rightarrow> (Inl (e, response, PInt (int (length query)), True), sent, l, j)
              | Inr (_, _, ws) \<Rightarrow>
                  (case sample_finish check put (sample_record sha256 y c response ws) response j of
                     (r, j) \<Rightarrow> (r, sent, l, j)))))))"

definition failure_record :: "poller \<Rightarrow> sample_clock \<Rightarrow> sample_error \<Rightarrow> pydict" where
  "failure_record y c err = (case err of (e, response, transmitted, started) \<Rightarrow>
     (''event'', PStr ''transaction_failed'') # sample_base y c @
     [(''stamp_ns'', PInt (c_stamp c)), (''receive_monotonic_ns'', PInt (c_receive c)), (''status'', PStr ''ERROR''),
      (''error'', PStr (str_exc e)), (''exchange_started_monotonic_ns'', if started then PInt (c_started c) else PNone),
      (''response_hex'', PStr (to_hex response)), (''transmitted_bytes'', transmitted), (''control_transmissions'', PInt 0)])"

definition sample :: "('j \<Rightarrow> exc + unit) \<Rightarrow> (pydict \<Rightarrow> 'j \<Rightarrow> (exc + unit) \<times> 'j) \<Rightarrow> (bytes \<Rightarrow> string)
    \<Rightarrow> sample_clock \<times> exchange_io \<Rightarrow> poller \<times> lease \<times> 'j
    \<Rightarrow> ((exc + pydict) \<times> bytes list) \<times> poller \<times> lease \<times> 'j" where
  "sample check put sha256 inp st = (case (inp, st) of ((c, io), (y, l, j)) \<Rightarrow>
     if y_failed y
     then ((raise FeedbackError ''failed stream may not retry; start a reviewed new session'', []), (y, l, j))
     else case sample_try check put sha256 c io y l j of
       (Inl err, sent, l, j) \<Rightarrow>
         ((Inl (fst err), sent), (y\<lparr>y_failed := True\<rparr>, l,
            (case check j of Inl _ \<Rightarrow> j | Inr _ \<Rightarrow> snd (put (failure_record y c err) j))))
     | (Inr r, sent, l, j) \<Rightarrow> ((Inr r, sent), (y\<lparr>y_sequence := y_sequence y + 1\<rparr>, l, j)))"

subsection \<open>Interface: what the poller needs of a journal\<close>

definition kind_of :: "pydict \<Rightarrow> pyval \<times> pyval" where
  "kind_of r = (dget r ''event'', dget r ''sequence'')"

locale journal =
  fixes check :: "'j \<Rightarrow> exc + unit"
    and put :: "pydict \<Rightarrow> 'j \<Rightarrow> (exc + unit) \<times> 'j"
    and accepted :: "'j \<Rightarrow> pydict list"
  assumes put_ok: "put r j = (Inr u, j') \<Longrightarrow> map kind_of (accepted j') = map kind_of (accepted j) @ [kind_of r]"
    and put_fail: "put r j = (Inl e, j') \<Longrightarrow> accepted j' = accepted j"
begin

abbreviation kinds :: "'j \<Rightarrow> (pyval \<times> pyval) list" where
  "kinds j \<equiv> map kind_of (accepted j)"

abbreviation event :: "string \<Rightarrow> poller \<Rightarrow> pyval \<times> pyval" where
  "event name y \<equiv> (PStr name, PInt (y_sequence y))"

lemma finish_kinds:
  assumes "sample_finish check put r response j = (out, j')"
  shows "is_ok out \<longrightarrow> kinds j' = kinds j @ [(PStr ''transaction_complete'', dget r ''sequence'')]"
    "kinds j' = kinds j \<or> kinds j' = kinds j @ [(PStr ''transaction_complete'', dget r ''sequence'')]"
  using assms by (auto simp: sample_finish_def Let_def kind_of_def put_fail
      dest!: put_ok split: sum.splits prod.splits)

lemma try_kinds:
  assumes "sample_try check put sha256 c io y l j = (out, sent, l', j')"
  shows "is_ok out \<longrightarrow> kinds j' = kinds j @ [event ''request_planned'' y, event ''transaction_complete'' y]"
    "kinds j' = kinds j \<and> sent = [] \<or> (\<exists>tail. kinds j' = kinds j @ event ''request_planned'' y # tail
       \<and> (tail = [] \<or> tail = [event ''transaction_complete'' y]))"
proof -
  let ?plan = "(''event'', PStr ''request_planned'') # sample_base y c"
  have plan: "kind_of ?plan = event ''request_planned'' y"
    by (simp add: kind_of_def sample_base_def)
  have seq: "dget (sample_record sha256 y c response ws) ''sequence'' = PInt (y_sequence y)" for response ws
    by (simp add: sample_record_def sample_base_def)
  obtain j1 where p1: "put ?plan j = (Inr (), j1) \<or> isl (fst (put ?plan j))"
    by (cases "put ?plan j"; cases "fst (put ?plan j)") auto
  have "(is_ok out \<longrightarrow> kinds j' = kinds j @ [event ''request_planned'' y, event ''transaction_complete'' y])
    \<and> (kinds j' = kinds j \<and> sent = [] \<or> (\<exists>tail. kinds j' = kinds j @ event ''request_planned'' y # tail
       \<and> (tail = [] \<or> tail = [event ''transaction_complete'' y])))"
  proof (cases "isl (check j) \<or> isl (fst (put ?plan j))")
    case True
    with assms show ?thesis
      by (cases "put ?plan j") (auto simp: sample_try_def Let_def put_fail split: sum.splits)
  next
    case False
    with p1 have j1: "put ?plan j = (Inr (), j1)" and check: "\<not> isl (check j)" by auto
    from put_ok [OF j1] have k1: "kinds j1 = kinds j @ [event ''request_planned'' y]"
      by (simp add: plan)
    show ?thesis
    proof (cases "isl (check j1) \<or> isl (fst (fst (exchange io query (y_timeout y) l)))")
      case True
      with assms j1 check k1 show ?thesis
        by (cases "exchange io query (y_timeout y) l") (auto simp: sample_try_def Let_def split: sum.splits)
    next
      case False
      then obtain response sent1 l1 where ex: "exchange io query (y_timeout y) l = ((Inr response, sent1), l1)"
        by (cases "exchange io query (y_timeout y) l"; cases "fst (fst (exchange io query (y_timeout y) l))") auto
      show ?thesis
      proof (cases "parse_exchange query response")
        case (Inl e)
        with assms j1 check False ex k1 show ?thesis
          by (auto simp: sample_try_def Let_def split: sum.splits)
      next
        case (Inr sw)
        obtain s a ws where sw: "sw = (s, a, ws)" by (cases sw)
        obtain out2 j2 where fin: "sample_finish check put (sample_record sha256 y c response ws) response j1 = (out2, j2)"
          by (cases "sample_finish check put (sample_record sha256 y c response ws) response j1") auto
        have "out = out2" "j' = j2"
          using assms j1 check False ex Inr sw fin by (auto simp: sample_try_def Let_def split: sum.splits)
        with finish_kinds [OF fin] k1 show ?thesis by (auto simp: seq)
      qed
    qed
  qed
  then show "is_ok out \<longrightarrow> kinds j' = kinds j @ [event ''request_planned'' y, event ''transaction_complete'' y]"
    "kinds j' = kinds j \<and> sent = [] \<or> (\<exists>tail. kinds j' = kinds j @ event ''request_planned'' y # tail
       \<and> (tail = [] \<or> tail = [event ''transaction_complete'' y]))" by blast+
qed

lemma put_failure: "kinds (snd (put (failure_record y c err) j)) = kinds j
   \<or> kinds (snd (put (failure_record y c err) j)) = kinds j @ [event ''transaction_failed'' y]"
proof -
  obtain r k where p: "put (failure_record y c err) j = (r, k)" by (cases "put (failure_record y c err) j") auto
  have "kind_of (failure_record y c err) = event ''transaction_failed'' y"
    by (simp add: kind_of_def failure_record_def sample_base_def split: prod.splits)
  with p put_ok put_fail show ?thesis by (cases r) auto
qed

lemma sample_cases:
  assumes "sample check put sha256 inp (y, l, j) = ((r, sent), (y', l', j'))"
  obtains (stopped) "y_failed y" "y' = y" "j' = j" "sent = []" "isl r"
  | (ok) "\<not> y_failed y" "is_ok r" "y' = y\<lparr>y_sequence := y_sequence y + 1\<rparr>"
      "kinds j' = kinds j @ [event ''request_planned'' y, event ''transaction_complete'' y]"
  | (failed) tail where "\<not> y_failed y" "isl r" "y' = y\<lparr>y_failed := True\<rparr>" "kinds j' = kinds j @ tail"
      "length tail \<le> 3" "\<forall>k \<in> set tail. snd k = PInt (y_sequence y)"
      "sent = [] \<or> (\<exists>rest. tail = event ''request_planned'' y # rest)"
proof -
  obtain c io where inp: "inp = (c, io)" by (cases inp)
  show thesis
  proof (cases "y_failed y")
    case True
    with assms show ?thesis by (intro stopped) (auto simp: sample_def inp)
  next
    case False
    obtain out sent1 l1 j1 where t: "sample_try check put sha256 c io y l j = (out, sent1, l1, j1)"
      by (cases "sample_try check put sha256 c io y l j") auto
    note kinds = try_kinds [OF t]
    show ?thesis
    proof (cases out)
      case (Inr rec)
      with assms False t kinds show ?thesis by (intro ok) (auto simp: sample_def inp)
    next
      case (Inl err)
      with assms False t have r: "r = Inl (fst err)" "sent = sent1" "y' = y\<lparr>y_failed := True\<rparr>"
        and j': "j' = j1 \<or> j' = snd (put (failure_record y c err) j1)"
        by (auto simp: sample_def inp split: sum.splits)
      from j' put_failure [of y c err j1] have last: "kinds j' = kinds j1 \<or> kinds j' = kinds j1 @ [event ''transaction_failed'' y]"
        by auto
      from kinds(2) show ?thesis
      proof
        assume *: "kinds j1 = kinds j \<and> sent1 = []"
        with last have "kinds j' = kinds j @ [] \<or> kinds j' = kinds j @ [event ''transaction_failed'' y]" by simp
        then obtain tail where "kinds j' = kinds j @ tail" "tail = [] \<or> tail = [event ''transaction_failed'' y]" by blast
        with * r False show ?thesis by (intro failed [of tail]) auto
      next
        let ?plan = "event ''request_planned'' y" and ?bad = "event ''transaction_failed'' y"
        assume "\<exists>tail. kinds j1 = kinds j @ ?plan # tail \<and> (tail = [] \<or> tail = [event ''transaction_complete'' y])"
        then obtain tail where "kinds j1 = kinds j @ ?plan # tail" and tail: "tail = [] \<or> tail = [event ''transaction_complete'' y]"
          by blast
        with last have "kinds j' = kinds j @ (?plan # tail @ []) \<or> kinds j' = kinds j @ (?plan # tail @ [?bad])"
          by auto
        then obtain more where "kinds j' = kinds j @ ?plan # tail @ more" "more = [] \<or> more = [?bad]" by blast
        with tail r False show ?thesis by (intro failed [of "?plan # tail @ more"]) auto
      qed
    qed
  qed
qed

text \<open>The complete transactions of the sequence numbers below \<open>n\<close>.\<close>

abbreviation transactions :: "nat \<Rightarrow> (pyval \<times> pyval) list" where
  "transactions n \<equiv> concat (map (\<lambda>i. [(PStr ''request_planned'', PInt (int i)), (PStr ''transaction_complete'', PInt (int i))]) [0..<n])"

definition poll_inv :: "poller \<times> lease \<times> 'j \<Rightarrow> bool" where
  "poll_inv st \<longleftrightarrow> (case st of (y, l, j) \<Rightarrow> \<exists>n tail. y_sequence y = int n \<and> kinds j = transactions n @ tail
     \<and> length tail \<le> 3 \<and> (\<not> y_failed y \<longrightarrow> tail = []) \<and> (\<forall>k \<in> set tail. snd k = PInt (int n)))"

lemma sample_inv:
  assumes "poll_inv st"
  shows "poll_inv (snd (sample check put sha256 inp st))"
proof -
  obtain y l j where st: "st = (y, l, j)" by (cases st)
  obtain r sent y' l' j' where s: "sample check put sha256 inp (y, l, j) = ((r, sent), (y', l', j'))"
    by (cases "sample check put sha256 inp (y, l, j)") auto
  from assms obtain n tail where inv: "y_sequence y = int n" "kinds j = transactions n @ tail" "length tail \<le> 3"
    "\<not> y_failed y \<longrightarrow> tail = []" "\<forall>k \<in> set tail. snd k = PInt (int n)"
    by (auto simp: poll_inv_def st)
  from s show ?thesis
  proof (cases rule: sample_cases)
    case stopped
    with assms s show ?thesis by (auto simp: poll_inv_def st)
  next
    case ok
    with inv have "kinds j' = transactions (Suc n) @ []" "y_sequence y' = int (Suc n)" by simp_all
    then have "poll_inv (y', l', j')" unfolding poll_inv_def prod.case by (intro exI [of _ "Suc n"] exI [of _ "[]"]) simp
    then show ?thesis by (simp add: st s)
  next
    case (failed more)
    with inv have "kinds j' = transactions n @ more" "y_sequence y' = int n" by simp_all
    with failed inv have "poll_inv (y', l', j')"
      unfolding poll_inv_def prod.case by (intro exI [of _ n] exI [of _ more]) simp
    then show ?thesis by (simp add: st s)
  qed
qed

end

text \<open>Successive samples, the caller going on after an exception.\<close>

fun samples :: "('j \<Rightarrow> exc + unit) \<Rightarrow> (pydict \<Rightarrow> 'j \<Rightarrow> (exc + unit) \<times> 'j) \<Rightarrow> (bytes \<Rightarrow> string)
    \<Rightarrow> (sample_clock \<times> exchange_io) list \<Rightarrow> poller \<times> lease \<times> 'j \<Rightarrow> poller \<times> lease \<times> 'j" where
  "samples check put sha256 [] st = st"
| "samples check put sha256 (i # inputs) st = samples check put sha256 inputs (snd (sample check put sha256 i st))"

context journal
begin

lemma samples_inv: "poll_inv st \<Longrightarrow> poll_inv (samples check put sha256 inputs st)"
  by (induction inputs arbitrary: st) (simp_all add: sample_inv)

end

interpretation sync: journal sync_check "sync_put encode" s_file for encode
proof
  fix r j u j'
  assume "sync_put encode r j = (Inr u, j')"
  then show "map kind_of (s_file j') = map kind_of (s_file j) @ [kind_of r]"
    by (auto simp: sync_put_def split: sum.splits option.splits)
next
  fix r j e j'
  assume "sync_put encode r j = (Inl e, j')"
  then show "s_file j' = s_file j"
    by (auto simp: sync_put_def split: sum.splits option.splits)
qed

interpretation async: journal aj_check "aj_put encode" aj_accepted for encode
proof
  fix r j u j'
  assume put: "aj_put encode r j = (Inr u, j')"
  then have "\<exists>len. j' = aj_enqueue r len j"
    by (cases rule: aj_put_cases [of encode r j]) auto
  then show "map kind_of (aj_accepted j') = map kind_of (aj_accepted j) @ [kind_of r]"
    by (auto simp: aj_accepted_def aj_enqueue_def kind_of_def aj_stamped_def)
next
  fix r j e j'
  assume "aj_put encode r j = (Inl e, j')"
  then show "aj_accepted j' = aj_accepted j"
    by (cases rule: aj_put_cases [of encode r j]) (auto simp: aj_fail_rejected)
qed

section \<open>Properties of the poller\<close>

text \<open>
  C31. The journal tells the whole story: after any sequence of samples on a fresh poller over an empty
  synchronous journal, the file holds a planned and a completed event for each returned sample, with
  consecutive sequence numbers from 0, followed, only if a sample failed, by at most three events of
  the one failed transaction; nothing is sampled after that.
\<close>

theorem poller_journal_complete:
  assumes "poller_init config epoch = Inr y0"
    and "samples sync_check (sync_put encode) sha256 inputs (y0, l0, sync_init io) = (y, l, j)"
  shows "\<exists>n tail. y_sequence y = int n
    \<and> map kind_of (s_file j) = concat (map (\<lambda>i. [(PStr ''request_planned'', PInt (int i)),
         (PStr ''transaction_complete'', PInt (int i))]) [0..<n]) @ tail
    \<and> length tail \<le> 3 \<and> (\<forall>k \<in> set tail. snd k = PInt (int n)) \<and> (tail \<noteq> [] \<longrightarrow> y_failed y)"
proof -
  obtain c where "(case dget c ''device_id'' of PStr device \<Rightarrow> Inr \<lparr>y_device = device, y_timeout = dget c ''timeout_s'',
      y_epoch = epoch, y_sequence = 0, y_failed = False\<rparr> | _ \<Rightarrow> raise KeyError ''device_id'') = Inr y0"
    using assms(1) by (auto simp: poller_init_def result_simps)
  then have "y_sequence y0 = 0"
    by (cases "dget c ''device_id''") auto
  then have "sync.poll_inv (y0, l0, sync_init io)"
    unfolding sync.poll_inv_def by (auto simp: sync_init_def intro: exI [of _ 0])
  from sync.samples_inv [OF this, of encode sha256 inputs] assms(2) show ?thesis
    by (auto simp: sync.poll_inv_def)
qed

definition example_feedback_config :: pydict where
  "example_feedback_config = [(''schema'', PStr ''wc_8030d_feedback_transport_v1''), (''read_request_reviewed'', PBool True),
     (''request_evidence'', PStr ''log''), (''request_hex'', PStr (to_hex query)), (''baud'', PInt 115200),
     (''hardware_serial'', PStr ''7''), (''device'', PStr ''/dev/wheel''), (''expected_by_id'', PStr ''/dev/serial/by-id/usb-7''),
     (''device_id'', PStr ''ZLAC8030D-7''), (''usb_vid'', PStr ''1a86''), (''usb_pid'', PStr ''55d3''),
     (''timeout_s'', PFloat (Fin (1 / 4)))]"

lemma example_poller: "poller_init example_feedback_config ''e''
    = Inr \<lparr>y_device = ''ZLAC8030D-7'', y_timeout = PFloat (Fin (1 / 4)), y_epoch = ''e'', y_sequence = 0, y_failed = False\<rparr>"
proof -
  have checks: "identity_token (PStr ''7'') None = Inr ''7''" "device_path (PStr ''/dev/wheel'') False False = Inr ''/dev/wheel''"
    "device_path (PStr ''/dev/serial/by-id/usb-7'') True False = Inr ''/dev/serial/by-id/usb-7''"
    "sublist ''7'' (posix_name ''/dev/serial/by-id/usb-7'')"
    "bounded (PFloat (Fin 1)) ''startup settle'' (PInt 0, ''0'') (PFloat (Fin 2), ''2.0'') = Inr (PFloat (Fin 1))"
    by code_simp+
  show ?thesis
    by (simp add: poller_init_def validate_config_def example_feedback_config_def checks timeout_ok)
qed

definition example_clock :: sample_clock where
  "example_clock = \<lparr>c_request_unix = 1, c_request = 2, c_started = 3, c_completed = 4, c_stamp = 5, c_receive = 6\<rparr>"

theorem poller_journal_complete_witness:
  "\<exists>y l j n. samples sync_check (sync_put example_encoder) (\<lambda>_. []) [(example_clock, example_io [read_response 1 [3, 5]])]
     (projr (poller_init example_feedback_config ''e''), example_lease, sync_init []) = (y, l, j) \<and> y_sequence y = int n"
proof -
  obtain y l j where run: "samples sync_check (sync_put example_encoder) (\<lambda>_. []) [(example_clock, example_io [read_response 1 [3, 5]])]
     (projr (poller_init example_feedback_config ''e''), example_lease, sync_init []) = (y, l, j)"
    by (rule prod_cases3)
  have "poller_init example_feedback_config ''e'' = Inr (projr (poller_init example_feedback_config ''e''))"
    by (simp add: example_poller)
  from poller_journal_complete [OF this run] run show ?thesis by blast
qed

text \<open>
  A query is journalled before it is sent: whenever a sample hands anything to the serial port, the
  asynchronous journal has first accepted a \<open>request_planned\<close> record with the sample's sequence number;
  and a sample that returns has also had its completion record accepted.
\<close>

lemma planned_before_transmit:
  assumes "sample aj_check (aj_put encode) sha256 inp (y, l, j) = ((r, sent), (y', l', j'))"
  shows "(sent \<noteq> [] \<longrightarrow> (\<exists>rest. map kind_of (aj_accepted j') =
            map kind_of (aj_accepted j) @ (PStr ''request_planned'', PInt (y_sequence y)) # rest))
    \<and> (is_ok r \<longrightarrow> \<not> y_failed y' \<and> y_sequence y' = y_sequence y + 1
        \<and> map kind_of (aj_accepted j') = map kind_of (aj_accepted j)
            @ [(PStr ''request_planned'', PInt (y_sequence y)), (PStr ''transaction_complete'', PInt (y_sequence y))])
    \<and> (isl r \<longrightarrow> y_failed y' \<and> y_sequence y' = y_sequence y)"
  by (cases rule: async.sample_cases [OF assms]) auto

end
