(* ===== verification/Fusion_Core.thy ===== *)
theory Fusion_Core
  imports Py_Value "HOL-Library.Product_Lexorder"
begin

text \<open>
  \<open>src/src/wc_fusion/core.py\<close>: the fusion front end. \<open>DualFusion\<close> admits frames of two sources into two
  bounded sorted queues and pairs them; \<open>MotionHistory\<close> keeps the last completed poses.

  The array computations (point filtering, rigid transforms, pose prediction) are parameters, gathered
  in \<open>numeric\<close>: each returns its result or the \<open>FusionError\<close> it raises. Everything else is modelled:
  identity, time, sequence and freshness checks, the queues, pairing, the error budget, and latching.
  A latched or pausing reason is never empty (the code tests its truth, the model whether there is one).
  A frame has all the keys the code subscripts; \<open>'c\<close> is its point cloud, \<open>'p\<close> the filtered one, \<open>'g\<close> the
  fused geometry.
\<close>

section \<open>Policy\<close>

definition integer_ns :: "pyval \<Rightarrow> exc + int" where
  "integer_ns v = (case v of PInt i \<Rightarrow> Inr i | _ \<Rightarrow> raise FusionError ''TIME_MUST_BE_INTEGER_NS'')"

record policy =
  k_max_pair_ns :: int
  k_max_queue :: nat
  k_max_age_ns :: int
  k_min_points :: int
  k_min_range :: pyfloat
  k_max_range :: pyfloat
  k_velocity :: pyfloat
  k_angular :: pyfloat
  k_max_time_error :: pyfloat
  k_prediction_error :: pyfloat
  k_max_prediction_ns :: int
  k_motion_speed :: pyfloat
  k_motion_angular :: pyfloat

text \<open>\<open>Policy.__post_init__\<close>: the fields by name, in the order of \<open>vars\<close>.\<close>

definition policy_numbers :: "pydict \<Rightarrow> exc + unit" where
  "policy_numbers fs = all_pass (map (\<lambda>(name, v). bindr (py_isfinite v) (\<lambda>fin.
     guard (\<not> fin \<or> py_le v (PInt 0)) FusionError (''INVALID_POLICY:'' @ name))) fs)"

definition policy_init :: "pydict \<Rightarrow> exc + policy" where
  "policy_init fs =
     bindr (policy_numbers fs) (\<lambda>_.
     bindr (integer_ns (dget fs ''max_pair_ns'')) (\<lambda>pair_ns.
     bindr (integer_ns (dget fs ''max_queue'')) (\<lambda>queue.
     bindr (integer_ns (dget fs ''max_age_ns'')) (\<lambda>age.
     bindr (integer_ns (dget fs ''min_points_per_source'')) (\<lambda>points.
     bindr (integer_ns (dget fs ''max_prediction_ns'')) (\<lambda>prediction.
     if py_le (dget fs ''max_range_m'') (dget fs ''min_range_m'') then raise FusionError ''INVALID_RANGE''
     else Inr \<lparr>k_max_pair_ns = pair_ns, k_max_queue = nat queue, k_max_age_ns = age, k_min_points = points,
       k_min_range = to_float (dget fs ''min_range_m''), k_max_range = to_float (dget fs ''max_range_m''),
       k_velocity = to_float (dget fs ''velocity_bound_mps''), k_angular = to_float (dget fs ''angular_bound_radps''),
       k_max_time_error = to_float (dget fs ''max_time_error_m''),
       k_prediction_error = to_float (dget fs ''prediction_error_bound_m''), k_max_prediction_ns = prediction,
       k_motion_speed = to_float (dget fs ''max_motion_speed_mps''),
       k_motion_angular = to_float (dget fs ''max_motion_angular_radps'')\<rparr>))))))"

section \<open>Motion history\<close>

record 'm history =
  h_poses :: "(int \<times> 'm) list"
  h_epoch :: "string option"

definition history_init :: "'m history" where
  "history_init = \<lparr>h_poses = [], h_epoch = None\<rparr>"

text \<open>\<open>matrix\<close> validates a pose; \<open>deque(maxlen=3)\<close> drops its oldest entry.\<close>

definition history_add :: "('a \<Rightarrow> exc + 'm) \<Rightarrow> pyval \<Rightarrow> 'a \<Rightarrow> string \<Rightarrow> 'm history \<Rightarrow> (exc + unit) \<times> 'm history" where
  "history_add matrix stamp pose epoch h = (case bindr (integer_ns stamp) (\<lambda>t. bindr (matrix pose) (\<lambda>m. Inr (t, m))) of
       Inl e \<Rightarrow> (Inl e, h)
     | Inr (t, m) \<Rightarrow>
         if h_epoch h \<noteq> None \<and> h_epoch h \<noteq> Some epoch
         then (raise FusionError ''ODOM_EPOCH_CHANGED'', h\<lparr>h_poses := [], h_epoch := Some epoch\<rparr>)
         else let h = h\<lparr>h_epoch := Some epoch\<rparr> in
         if h_poses h \<noteq> [] \<and> t \<le> fst (last (h_poses h)) then (raise FusionError ''ODOM_TIME_NOT_INCREASING'', h)
         else (Inr (), h\<lparr>h_poses := (let ps = h_poses h @ [(t, m)] in drop (length ps - 3) ps)\<rparr>))"

text \<open>\<open>predict\<close> up to its array arithmetic: the two poses it extrapolates from.\<close>

definition history_window :: "policy \<Rightarrow> pyval \<Rightarrow> 'm history \<Rightarrow> exc + ((int \<times> 'm) \<times> (int \<times> 'm) \<times> int)" where
  "history_window k stamp h = bindr (integer_ns stamp) (\<lambda>t.
     if length (h_poses h) < 2 then raise FusionError ''PREDICTION_NEEDS_COMPLETED_HISTORY''
     else let p1 = last (h_poses h); p0 = last (butlast (h_poses h)) in
     if t < fst p0 \<or> k_max_prediction_ns k < t - fst p1 then raise FusionError ''PREDICTION_EXPIRED''
     else Inr (p0, p1, t))"

section \<open>Frames, bundles, state\<close>

record 'c frame =
  m_side :: string
  m_sensor_id :: string
  m_session :: string
  m_clock :: string
  m_time_valid :: bool
  m_uncertainty :: pyval
  m_time_source :: string
  m_common :: pyval
  m_host :: pyval
  m_epoch :: string
  m_sequence :: pyval
  m_cloud :: 'c

text \<open>A checked frame, as it waits in a queue.\<close>

record 'p ready =
  r_side :: string
  r_key :: string
  r_common :: int
  r_sequence :: int
  r_host :: int
  r_uncertainty :: int
  r_cloud :: 'p

record 'g fused =
  b_session :: string
  b_id :: nat
  b_t_ref :: int
  b_left_key :: string
  b_right_key :: string
  b_compensation :: string
  b_error :: pyfloat
  b_geometry :: 'g

text \<open>The array computations. \<open>n_predict\<close> and \<open>n_requires_prediction\<close> stand for the motion history that the front end asks: it is that of the
  time of the run, and completed poses that would change it between two pushes are not events of a run.\<close>

record ('c, 'p, 'g) numeric =
  n_cloud :: "policy \<Rightarrow> 'c \<Rightarrow> exc + 'p"
  n_predict :: "int \<Rightarrow> exc + unit"
  n_requires_prediction :: bool
  n_mode :: string
  n_geometry :: "string \<Rightarrow> 'p ready \<Rightarrow> 'p ready \<Rightarrow> exc + 'g"

record 'p dual =
  d_policy :: policy
  d_session :: string
  d_sensor_ids :: "(string \<times> string) list"
  d_clock_ids :: "(string \<times> string) list"
  d_calibration_id :: string
  d_source_mode :: string
  d_left :: "'p ready list"
  d_right :: "'p ready list"
  d_epochs :: "(string \<times> string) list"
  d_seen :: "string set"
  d_seen_order :: "string list"
  d_highwater :: "((string \<times> string) \<times> int) list"
  d_stamp_highwater :: "((string \<times> string) \<times> int \<times> int) list"
  d_last_seen :: "(string \<times> int) list"
  d_started :: "int option"
  d_last_bundle :: "int option"
  d_counts :: "(string \<times> nat) list"
  d_bundles :: nat
  d_latched :: "string option"

text \<open>The constructor's checks; the calibration and quality profile are JSON records, the right
  transform is validated by \<open>matrix\<close>.\<close>

definition dual_init :: "(pyval \<Rightarrow> exc + 'm) \<Rightarrow> string \<Rightarrow> (string \<times> string) list \<Rightarrow> pydict \<Rightarrow> (string \<times> string) list
    \<Rightarrow> policy \<Rightarrow> string \<Rightarrow> pyval \<Rightarrow> exc + 'p dual" where
  "dual_init matrix session sensor_ids calibration clock_ids k source_mode quality =
     (if set (map fst sensor_ids) \<noteq> {''left'', ''right''} \<or> length (remdups (map snd sensor_ids)) \<noteq> 2
      then raise FusionError ''DUPLICATE_OR_MISSING_SENSOR_ID''
      else if set (map fst clock_ids) \<noteq> {''left'', ''right''} then raise FusionError ''MISSING_CLOCK_MODELS''
      else if source_mode \<noteq> ''real'' \<and> source_mode \<noteq> ''synthetic'' then raise FusionError ''INVALID_SOURCE_MODE''
      else if \<not> py_eq (dget calibration ''sensor_ids'') (PDict (map (\<lambda>(a, b). (a, PStr b)) sensor_ids))
      then raise FusionError ''CALIBRATION_IDENTITY_MISMATCH''
      else if dget calibration ''T_left_right'' = PNone then raise FusionError ''CALIBRATION_REQUIRED''
      else if source_mode = ''real'' \<and> (dget calibration ''status'' \<noteq> PStr ''VALIDATED'' \<or> dget calibration ''source_mode'' \<noteq> PStr ''real'')
      then raise FusionError ''LIVE_CALIBRATION_UNVALIDATED''
      else if source_mode = ''real'' \<and> (case quality of
             PDict q \<Rightarrow> q = [] \<or> dget q ''status'' \<noteq> PStr ''VALIDATED'' \<or> \<not> py_true (dget q ''evidence'') | _ \<Rightarrow> True)
      then raise FusionError ''LIVE_QUALITY_PROFILE_UNVALIDATED''
      else case dget calibration ''calibration_id'' of
        PStr calibration_id \<Rightarrow> bindr (matrix (dget calibration ''T_left_right'')) (\<lambda>_.
          Inr \<lparr>d_policy = k, d_session = session, d_sensor_ids = sensor_ids, d_clock_ids = clock_ids,
               d_calibration_id = calibration_id, d_source_mode = source_mode, d_left = [], d_right = [],
               d_epochs = [], d_seen = {}, d_seen_order = [], d_highwater = [], d_stamp_highwater = [],
               d_last_seen = [], d_started = None, d_last_bundle = None, d_counts = [], d_bundles = 0, d_latched = None\<rparr>)
      | _ \<Rightarrow> raise KeyError ''calibration_id'')"

section \<open>Latching, freshness, resuming\<close>

definition count :: "string \<Rightarrow> (string \<times> nat) list \<Rightarrow> (string \<times> nat) list" where
  "count k d = dput k ((case map_of d k of None \<Rightarrow> 0 | Some n \<Rightarrow> n) + 1) d"

definition df_latch :: "string \<Rightarrow> 'p dual \<Rightarrow> 'p dual" where
  "df_latch reason d = d\<lparr>d_latched := Some reason, d_left := [], d_right := [], d_counts := count reason (d_counts d)\<rparr>"

definition get_or :: "('k \<times> 'v) list \<Rightarrow> 'k \<Rightarrow> 'v \<Rightarrow> 'v" where
  "get_or d k v = (case map_of d k of None \<Rightarrow> v | Some w \<Rightarrow> w)"

definition df_stale :: "int \<Rightarrow> int \<Rightarrow> 'p dual \<Rightarrow> string \<Rightarrow> bool" where
  "df_stale now started d side \<longleftrightarrow> (let age = now - get_or (d_last_seen d) side started
     in age < 0 \<or> k_max_age_ns (d_policy d) < age)"

definition df_check_freshness :: "int \<Rightarrow> 'p dual \<Rightarrow> bool \<times> 'p dual" where
  "df_check_freshness now d =
     (if d_latched d \<noteq> None then (False, d)
      else case d_started d of None \<Rightarrow> (True, d)
      | Some started \<Rightarrow>
          if df_stale now started d ''left'' then (False, df_latch ''SOURCE_TIMEOUT:left'' d)
          else if df_stale now started d ''right'' then (False, df_latch ''SOURCE_TIMEOUT:right'' d)
          else if k_max_age_ns (d_policy d) < now - (case d_last_bundle d of Some t \<Rightarrow> t | None \<Rightarrow> started)
          then (False, df_latch ''PAIR_STREAM_TIMEOUT'' d)
          else (True, d))"

definition same_ids :: "(string \<times> string) list \<Rightarrow> (string \<times> string) list \<Rightarrow> bool" where
  "same_ids a b \<longleftrightarrow> set a = set b"

definition df_resume :: "bool \<Rightarrow> bool \<Rightarrow> bool \<Rightarrow> string \<Rightarrow> (string \<times> string) list \<Rightarrow> 'p dual \<Rightarrow> (exc + unit) \<times> 'p dual" where
  "df_resume explicit settled continuity calibration_id clock_ids d =
     (if \<not> (explicit \<and> settled \<and> continuity) then (raise FusionError ''RESUME_PRECONDITIONS_UNMET'', d)
      else if calibration_id \<noteq> d_calibration_id d \<or> \<not> same_ids clock_ids (d_clock_ids d)
      then (raise FusionError ''RESUME_CONFIG_MISMATCH'', d)
      else (Inr (), d\<lparr>d_latched := None, d_left := [], d_right := [], d_last_seen := [], d_started := None,
                      d_last_bundle := None\<rparr>))"

section \<open>Admission of a frame\<close>

definition raw_key :: "'c frame \<Rightarrow> int \<Rightarrow> string" where
  "raw_key f seq = m_sensor_id f @ ''/'' @ m_epoch f @ ''/'' @ show_int seq"

text \<open>The checks that read the frame and the configuration only, in the source's order: the common
  time, uncertainty and host time of a frame that passes.\<close>

definition df_check_identity :: "'p dual \<Rightarrow> 'c frame \<Rightarrow> pyval \<Rightarrow> exc + (int \<times> int \<times> int)" where
  "df_check_identity d f now =
     (if map_of (d_sensor_ids d) (m_side f) \<noteq> Some (m_sensor_id f) then raise FusionError ''SOURCE_IDENTITY_MISMATCH''
      else if m_session f \<noteq> d_session d then raise FusionError ''SOURCE_SESSION_MISMATCH''
      else if map_of (d_clock_ids d) (m_side f) \<noteq> Some (m_clock f) then raise FusionError ''CLOCK_MODEL_MISMATCH''
      else if \<not> m_time_valid f \<or> m_uncertainty f = PNone then raise FusionError ''TIME_UNVALIDATED''
      else if d_source_mode d = ''real'' \<and> m_time_source f \<noteq> ''validated_model''
      then raise FusionError ''LIVE_TIME_SOURCE_UNVALIDATED''
      else bindr (integer_ns (m_common f)) (\<lambda>stamp. bindr (integer_ns (m_uncertainty f)) (\<lambda>unc.
      if unc < 0 then raise FusionError ''NEGATIVE_UNCERTAINTY''
      else bindr (integer_ns now) (\<lambda>t. bindr (integer_ns (m_host f)) (\<lambda>host.
      if t - host < 0 \<or> k_max_age_ns (d_policy d) < t - host
      then raise FusionError ''SOURCE_STALE_OR_MONOTONIC_DOMAIN_MISMATCH''
      else if m_epoch f = [] then raise FusionError ''MISSING_STREAM_EPOCH''
      else Inr (stamp, unc, host))))))"

text \<open>Remembering a key: the window of the last \<open>16 * max_queue\<close> keys.\<close>

definition df_remember :: "string \<Rightarrow> 'p dual \<Rightarrow> 'p dual" where
  "df_remember key d =
     (let order = d_seen_order d @ [key]; n = length order - k_max_queue (d_policy d) * 16
      in d\<lparr>d_seen := insert key (d_seen d) - set (take n order), d_seen_order := drop n order\<rparr>)"

definition df_check :: "('c, 'p, 'g) numeric \<Rightarrow> 'c frame \<Rightarrow> pyval \<Rightarrow> 'p dual \<Rightarrow> (exc + 'p ready) \<times> 'p dual" where
  "df_check num f now d = (case df_check_identity d f now of
       Inl e \<Rightarrow> (Inl e, d)
     | Inr (stamp, unc, host) \<Rightarrow>
         let side = m_side f; stream = (side, m_epoch f); changed = (get_or (d_epochs d) side (m_epoch f) \<noteq> m_epoch f);
             d = d\<lparr>d_epochs := dput side (m_epoch f) (d_epochs d)\<rparr>
         in if changed then (raise FusionError ''STREAM_EPOCH_CHANGED'', d)
            else case integer_ns (m_sequence f) of Inl e \<Rightarrow> (Inl e, d)
            | Inr seq \<Rightarrow>
              if seq < 0 then (raise FusionError ''NEGATIVE_SEQUENCE'', d)
              else let key = raw_key f seq; high = map_of (d_stamp_highwater d) stream in
              if (case high of None \<Rightarrow> False | Some (s, t) \<Rightarrow> s < seq \<and> stamp \<le> t)
              then (raise FusionError ''SOURCE_TIME_JUMP'', d)
              else if key \<in> d_seen d \<or> seq \<le> get_or (d_highwater d) stream (- 1) - int (k_max_queue (d_policy d)) * 4
              then (raise FusionError ''DUPLICATE_OR_TOO_OLD_FRAME'', d)
              else let d = df_remember key (d\<lparr>d_highwater := dput stream (max seq (get_or (d_highwater d) stream (- 1))) (d_highwater d),
                       d_stamp_highwater := (if (case high of None \<Rightarrow> True | Some (s, t) \<Rightarrow> s < seq)
                         then dput stream (seq, stamp) (d_stamp_highwater d) else d_stamp_highwater d)\<rparr>)
                   in case n_cloud num (d_policy d) (m_cloud f) of
                        Inl e \<Rightarrow> (Inl e, d)
                      | Inr cloud \<Rightarrow> (Inr \<lparr>r_side = side, r_key = key, r_common = stamp, r_sequence = seq, r_host = host,
                                        r_uncertainty = unc, r_cloud = cloud\<rparr>, d))"

section \<open>Pairing\<close>

definition nano :: pyfloat where "nano = round64 (1 / 1000000000)"

definition df_seconds :: "int \<Rightarrow> pyfloat" where
  "df_seconds ns = f_mul (round64 (of_int ns)) nano"

definition df_bound_per_s :: "policy \<Rightarrow> pyfloat" where
  "df_bound_per_s k = f_add (k_velocity k) (f_mul (k_max_range k) (k_angular k))"

definition df_static_error :: "policy \<Rightarrow> 'p ready \<Rightarrow> 'p ready \<Rightarrow> pyfloat" where
  "df_static_error k l r = f_mul (df_bound_per_s k) (df_seconds (\<bar>r_common l - r_common r\<bar> + (r_uncertainty l + r_uncertainty r)))"

text \<open>The compensation mode and the error bound, or the rejection.\<close>

definition df_compensation :: "('c, 'p, 'g) numeric \<Rightarrow> policy \<Rightarrow> 'p ready \<Rightarrow> 'p ready \<Rightarrow> exc + (string \<times> pyfloat)" where
  "df_compensation num k l r =
     (if k_max_time_error k < df_static_error k l r \<or> n_requires_prediction num
      then bindr (n_predict num (max (r_common l) (r_common r))) (\<lambda>_.
           bindr (n_predict num (r_common l)) (\<lambda>_. bindr (n_predict num (r_common r)) (\<lambda>_.
           let error = f_add (f_mul (df_bound_per_s k) (df_seconds (r_uncertainty l + r_uncertainty r))) (k_prediction_error k)
           in if k_max_time_error k < error then raise FusionError ''TIME_ERROR_BUDGET_EXCEEDED''
              else Inr (n_mode num, error))))
      else Inr (''bounded_static'', df_static_error k l r))"

definition df_fuse :: "('c, 'p, 'g) numeric \<Rightarrow> 'p ready \<Rightarrow> 'p ready \<Rightarrow> 'p dual \<Rightarrow> (exc + 'g fused) \<times> 'p dual" where
  "df_fuse num l r d = (case bindr (df_compensation num (d_policy d) l r) (\<lambda>(mode, error).
        bindr (n_geometry num mode l r) (\<lambda>g. Inr (mode, error, g))) of
       Inl e \<Rightarrow> (Inl e, d)
     | Inr (mode, error, g) \<Rightarrow>
         (Inr \<lparr>b_session = d_session d, b_id = d_bundles d + 1, b_t_ref = max (r_common l) (r_common r),
               b_left_key = r_key l, b_right_key = r_key r, b_compensation = mode, b_error = error, b_geometry = g\<rparr>,
          d\<lparr>d_bundles := d_bundles d + 1, d_counts := count ''BUNDLE_DUAL'' (d_counts d)\<rparr>))"

text \<open>\<open>_pair\<close>: every turn drops a frame or returns.\<close>

function df_pair :: "('c, 'p, 'g) numeric \<Rightarrow> int \<Rightarrow> 'p dual \<Rightarrow> (exc + 'g fused option) \<times> 'p dual" where
  "df_pair num now d = (case (d_left d, d_right d) of
       (l # ls, r # rs) \<Rightarrow>
         if k_max_age_ns (d_policy d) < now - min (r_host l) (r_host r)
         then (raise FusionError ''PAIR_STALE'', df_latch ''PAIR_STALE'' d)
         else let dt = r_common l - r_common r in
         if k_max_pair_ns (d_policy d) < \<bar>dt\<bar>
         then df_pair num now (if dt < 0 then d\<lparr>d_left := ls, d_counts := count ''PAIR_WINDOW_EXCEEDED'' (d_counts d)\<rparr>
                            else d\<lparr>d_right := rs, d_counts := count ''PAIR_WINDOW_EXCEEDED'' (d_counts d)\<rparr>)
         else (case df_fuse num l r (d\<lparr>d_left := ls, d_right := rs\<rparr>) of
             (Inr b, d) \<Rightarrow> (Inr (Some b), d)
           | (Inl e, d) \<Rightarrow> (Inl e, if exn_of e = FusionError then df_latch (msg_of e) d else d))
     | _ \<Rightarrow> (Inr None, d))"
  by pat_completeness auto
termination
  by (relation "measure (\<lambda>(_, _, d). length (d_left d) + length (d_right d))")
    (auto dest!: arg_cong [of "_ # _" _ length])

declare df_pair.simps [simp del]

definition order_key :: "'p ready \<Rightarrow> int \<times> int" where
  "order_key f = (r_common f, r_sequence f)"

text \<open>\<open>q.append(frame); q.sort(...)\<close> and the overflow loop.\<close>

definition df_enqueue :: "'p ready \<Rightarrow> nat \<Rightarrow> 'p ready list \<Rightarrow> 'p ready list \<times> nat" where
  "df_enqueue f limit q = (let q = sort_key order_key (q @ [f]); n = length q - limit in (drop n q, n))"

text \<open>The part of \<open>push\<close> after the freshness test.\<close>

definition push_tail :: "('c, 'p, 'g) numeric \<Rightarrow> 'p ready \<Rightarrow> int \<Rightarrow> 'p dual \<Rightarrow> (exc + 'g fused option) \<times> 'p dual" where
  "push_tail num fr t d =
     (let (q, over) = df_enqueue fr (k_max_queue (d_policy d)) (if r_side fr = ''left'' then d_left d else d_right d);
          d = (if r_side fr = ''left'' then d\<lparr>d_left := q\<rparr> else d\<lparr>d_right := q\<rparr>);
          d = d\<lparr>d_counts := ((\<lambda>c. count ''QUEUE_OVERFLOW'' c) ^^ over) (d_counts d)\<rparr>
      in (case df_pair num t d of
            (Inr (Some b), d) \<Rightarrow> (Inr (Some b), d\<lparr>d_last_bundle := Some t\<rparr>)
          | (r, d) \<Rightarrow> (r, d)))"

definition df_push :: "('c, 'p, 'g) numeric \<Rightarrow> 'c frame \<Rightarrow> pyval \<Rightarrow> 'p dual \<Rightarrow> (exc + 'g fused option) \<times> 'p dual" where
  "df_push num f now d = (case d_latched d of
       Some reason \<Rightarrow> (raise FusionError (''PAUSED_INVALID:'' @ reason), d)
     | None \<Rightarrow> (case df_check num f now d of
         (Inl e, d) \<Rightarrow> (Inl e, if exn_of e \<noteq> FusionError then d
            else if msg_of e = ''DUPLICATE_OR_TOO_OLD_FRAME'' then d\<lparr>d_counts := count (msg_of e) (d_counts d)\<rparr>
            else df_latch (msg_of e) d)
       | (Inr fr, d) \<Rightarrow> (case now of
           PInt t \<Rightarrow>
             let d = d\<lparr>d_started := (case d_started d of None \<Rightarrow> Some t | s \<Rightarrow> s),
                       d_last_seen := dput (r_side fr) (max (r_host fr) (get_or (d_last_seen d) (r_side fr) (r_host fr))) (d_last_seen d)\<rparr>
             in (case df_check_freshness t d of
                (False, d) \<Rightarrow> (raise FusionError (case d_latched d of Some s \<Rightarrow> s | None \<Rightarrow> []), d)
              | (True, d) \<Rightarrow> push_tail num fr t d)
         | _ \<Rightarrow> (raise FusionError ''TIME_MUST_BE_INTEGER_NS'', d))))"

section \<open>The gate\<close>

text \<open>The entries of a bundle and of an assessment that \<open>Gate\<close> reads.\<close>

record gate_bundle =
  gb_id :: int
  gb_session :: string
  gb_mode :: string
  gb_left :: int
  gb_right :: int
  gb_t_ref :: int

record 'a assessment =
  as_bundle :: int
  as_session :: string
  as_stamp :: int
  as_valid :: bool
  as_pose :: "'a option"
  as_left :: int
  as_right :: int
  as_epoch :: string

record 'm gate =
  gt_session :: string
  gt_max_pending :: nat
  gt_timeout :: int
  gt_pending :: "(int \<times> gate_bundle \<times> int) list"
  gt_paused :: "string option"
  gt_epoch :: "string option"
  gt_last_stamp :: "int option"
  gt_accepted :: nat
  gt_last_pose :: "'m option"
  gt_last_result :: "int option"
  gt_max_speed :: pyfloat
  gt_max_angular :: pyfloat

text \<open>\<open>matrix\<close>, and the translation and rotation between two poses.\<close>

record ('a, 'm) gate_numeric =
  q_matrix :: "'a \<Rightarrow> exc + 'm"
  q_motion :: "'m \<Rightarrow> 'm \<Rightarrow> pyfloat \<times> pyfloat"

definition gate_init :: "string \<Rightarrow> nat \<Rightarrow> int \<Rightarrow> pyfloat \<Rightarrow> pyfloat \<Rightarrow> exc + 'm gate" where
  "gate_init session max_pending timeout speed angular =
     (if list_all (\<lambda>x. f_finite x \<and> Fin 0 < x) [speed, angular]
      then Inr \<lparr>gt_session = session, gt_max_pending = max_pending, gt_timeout = timeout, gt_pending = [], gt_paused = None,
        gt_epoch = None, gt_last_stamp = None, gt_accepted = 0, gt_last_pose = None, gt_last_result = None,
        gt_max_speed = speed, gt_max_angular = angular\<rparr>
      else raise FusionError ''INVALID_TRACKING_LIMITS'')"

definition gate_pause :: "string \<Rightarrow> 'm gate \<Rightarrow> 'm gate" where
  "gate_pause reason g = g\<lparr>gt_paused := Some reason, gt_pending := []\<rparr>"

definition gate_reject :: "string \<Rightarrow> 'm gate \<Rightarrow> (exc + 'o) \<times> 'm gate" where
  "gate_reject reason g = (raise FusionError reason, gate_pause reason g)"

definition gate_submit :: "gate_bundle \<Rightarrow> pyval \<Rightarrow> 'm gate \<Rightarrow> (exc + unit) \<times> 'm gate" where
  "gate_submit b now g = (case gt_paused g of
       Some reason \<Rightarrow> (raise FusionError (''GATE_PAUSED:'' @ reason), g)
     | None \<Rightarrow>
         if gb_session b \<noteq> gt_session g \<or> gb_mode b \<noteq> ''dual'' then gate_reject ''BUNDLE_SESSION_OR_MODE_MISMATCH'' g
         else if \<not> (0 < gb_left b \<and> 0 < gb_right b) then gate_reject ''DUAL_PARTICIPATION_MISSING'' g
         else if map_of (gt_pending g) (gb_id b) \<noteq> None \<or> gt_max_pending g \<le> length (gt_pending g)
         then gate_reject ''DUPLICATE_BUNDLE_OR_BACKLOG'' g
         else (case integer_ns now of
             Inl e \<Rightarrow> (Inl e, g)
           | Inr t \<Rightarrow> (Inr (), g\<lparr>gt_pending := dput (gb_id b) (b, t) (gt_pending g)\<rparr>)))"

text \<open>The first failed condition of \<open>assess\<close>, in the source's order.\<close>

definition assess_reason :: "'m gate \<Rightarrow> gate_bundle \<Rightarrow> int \<Rightarrow> 'a assessment \<Rightarrow> int \<Rightarrow> string option" where
  "assess_reason g b received a now =
     (if as_session a \<noteq> gt_session g \<or> as_stamp a \<noteq> gb_t_ref b then Some ''ASSESSMENT_ID_TIME_MISMATCH''
      else if now - received < 0 \<or> gt_timeout g < now - received then Some ''ICP_RESULT_TIMEOUT''
      else if \<not> as_valid a \<or> as_pose a = None then Some ''TRACKING_FAILED''
      else if as_left a \<noteq> gb_left b \<or> as_right a \<noteq> gb_right b then Some ''ICP_INPUT_SOURCE_MISMATCH''
      else if gt_epoch g \<noteq> None \<and> gt_epoch g \<noteq> Some (as_epoch a) then Some ''ODOM_EPOCH_CHANGED''
      else if (case gt_last_stamp g of None \<Rightarrow> False | Some t \<Rightarrow> as_stamp a \<le> t) then Some ''ODOM_TIME_NOT_INCREASING''
      else None)"

definition motion_jump :: "('a, 'm) gate_numeric \<Rightarrow> 'm gate \<Rightarrow> 'm \<Rightarrow> int \<Rightarrow> bool" where
  "motion_jump num g pose stamp = (case (gt_last_pose g, gt_last_stamp g) of
       (Some p, Some t) \<Rightarrow>
         (let dt = df_seconds (stamp - t); (translation, angle) = q_motion num p pose
          in (case f_div translation dt of Inr v \<Rightarrow> gt_max_speed g < v | Inl _ \<Rightarrow> True)
             \<or> (case f_div angle dt of Inr v \<Rightarrow> gt_max_angular g < v | Inl _ \<Rightarrow> True))
     | _ \<Rightarrow> False)"

definition gate_assess :: "('a, 'm) gate_numeric \<Rightarrow> 'a assessment \<Rightarrow> int \<Rightarrow> 'm gate \<Rightarrow> (exc + gate_bundle \<times> 'm) \<times> 'm gate" where
  "gate_assess num a now g = (case gt_paused g of
       Some reason \<Rightarrow> (raise FusionError (''GATE_PAUSED:'' @ reason), g)
     | None \<Rightarrow> (case map_of (gt_pending g) (as_bundle a) of
         None \<Rightarrow> gate_reject ''UNKNOWN_BUNDLE'' g
       | Some (b, received) \<Rightarrow> (case assess_reason g b received a now of
           Some reason \<Rightarrow> gate_reject reason g
         | None \<Rightarrow> (case as_pose a of
             None \<Rightarrow> gate_reject ''TRACKING_FAILED'' g
           | Some raw \<Rightarrow> (case q_matrix num raw of
               Inl e \<Rightarrow> (Inl e, if exn_of e = FusionError then gate_pause ''INVALID_ODOM_POSE'' g else g)
             | Inr pose \<Rightarrow>
                 if motion_jump num g pose (as_stamp a) then gate_reject ''ODOM_MOTION_JUMP'' g
                 else (Inr (b, pose), g\<lparr>gt_pending := AList.delete (as_bundle a) (gt_pending g), gt_epoch := Some (as_epoch a),
                         gt_last_stamp := Some (as_stamp a), gt_last_pose := Some pose, gt_last_result := Some now,
                         gt_accepted := gt_accepted g + 1\<rparr>))))))"

definition gate_expire :: "int \<Rightarrow> 'm gate \<Rightarrow> bool \<times> 'm gate" where
  "gate_expire now g =
     (if list_ex (\<lambda>(_, _, received). gt_timeout g < now - received) (gt_pending g)
      then (False, gate_pause ''ICP_RESULT_TIMEOUT'' g)
      else if (case gt_last_result g of None \<Rightarrow> False | Some t \<Rightarrow> gt_timeout g < now - t)
      then (False, gate_pause ''TRACKING_STREAM_TIMEOUT'' g)
      else (gt_paused g = None, g))"

definition gate_resume :: "bool \<Rightarrow> bool \<Rightarrow> bool \<Rightarrow> string option \<Rightarrow> 'm gate \<Rightarrow> (exc + unit) \<times> 'm gate" where
  "gate_resume explicit settled continuity epoch g =
     (if \<not> explicit \<or> \<not> settled \<or> \<not> continuity \<or> epoch \<noteq> gt_epoch g
      then (raise FusionError ''RESUME_PRECONDITIONS_UNMET'', g)
      else (Inr (), g\<lparr>gt_pending := [], gt_paused := None, gt_last_result := None\<rparr>))"

section \<open>Invariant of the two queues\<close>

definition queues_ok :: "'p dual \<Rightarrow> bool" where
  "queues_ok d \<longleftrightarrow> length (d_left d) \<le> k_max_queue (d_policy d) \<and> length (d_right d) \<le> k_max_queue (d_policy d)
     \<and> sorted (map order_key (d_left d)) \<and> sorted (map order_key (d_right d))
     \<and> list_all (\<lambda>f. r_side f = ''left'') (d_left d) \<and> list_all (\<lambda>f. r_side f \<noteq> ''left'') (d_right d)
     \<and> (d_latched d \<noteq> None \<longrightarrow> d_left d = [] \<and> d_right d = [])"

definition memory_ok :: "'p dual \<Rightarrow> bool" where
  "memory_ok d \<longleftrightarrow> d_seen d = set (d_seen_order d) \<and> distinct (d_seen_order d)
     \<and> length (d_seen_order d) \<le> k_max_queue (d_policy d) * 16"

lemma latch_sel [simp]:
  "d_left (df_latch x d) = []" "d_right (df_latch x d) = []" "d_latched (df_latch x d) = Some x"
  "d_policy (df_latch x d) = d_policy d" "d_seen (df_latch x d) = d_seen d" "d_seen_order (df_latch x d) = d_seen_order d"
  "d_bundles (df_latch x d) = d_bundles d" "queues_ok (df_latch x d)" "memory_ok (df_latch x d) = memory_ok d"
  by (simp_all add: df_latch_def queues_ok_def memory_ok_def)

definition bundle_of :: "'p dual \<Rightarrow> 'p ready \<Rightarrow> 'p ready \<Rightarrow> string \<Rightarrow> pyfloat \<Rightarrow> 'g \<Rightarrow> 'g fused" where
  "bundle_of d l r mode error geometry = \<lparr>b_session = d_session d, b_id = d_bundles d + 1, b_t_ref = max (r_common l) (r_common r),
     b_left_key = r_key l, b_right_key = r_key r, b_compensation = mode, b_error = error, b_geometry = geometry\<rparr>"

lemma df_fuse_cases:
  obtains (fused) mode error geometry where "df_compensation num (d_policy d) l r = Inr (mode, error)" "n_geometry num mode l r = Inr geometry"
      "df_fuse num l r d = (Inr (bundle_of d l r mode error geometry), d\<lparr>d_bundles := d_bundles d + 1, d_counts := count ''BUNDLE_DUAL'' (d_counts d)\<rparr>)"
  | (failed) e where "df_fuse num l r d = (Inl e, d)"
proof (cases "bindr (df_compensation num (d_policy d) l r) (\<lambda>(mode, error).
        bindr (n_geometry num mode l r) (\<lambda>g. Inr (mode, error, g)))")
  case (Inl e)
  then show ?thesis by (intro failed) (simp add: df_fuse_def)
next
  case (Inr x)
  obtain mode error geometry where x: "x = (mode, error, geometry)" by (cases x)
  with Inr have "df_compensation num (d_policy d) l r = Inr (mode, error)" "n_geometry num mode l r = Inr geometry"
    by (auto simp: result_simps)
  with Inr x show ?thesis by (intro fused) (simp_all add: df_fuse_def bundle_of_def)
qed

text \<open>The configuration, which no operation changes, and the frames that wait.\<close>

definition config_of :: "'p dual \<Rightarrow> policy \<times> string \<times> (string \<times> string) list \<times> (string \<times> string) list \<times> string" where
  "config_of d = (d_policy d, d_session d, d_sensor_ids d, d_clock_ids d, d_source_mode d)"

definition queued :: "'p dual \<Rightarrow> 'p ready set" where
  "queued d = set (d_left d) \<union> set (d_right d)"

lemma latch_config [simp]: "config_of (df_latch x d) = config_of d" "queued (df_latch x d) = {}"
  by (simp_all add: df_latch_def config_of_def queued_def)

text \<open>The frame as pushed, of which the checks make a waiting one.\<close>

definition checked_from :: "('c, 'p, 'g) numeric \<Rightarrow> policy \<times> string \<times> (string \<times> string) list \<times> (string \<times> string) list \<times> string \<Rightarrow> 'c frame \<Rightarrow> 'p ready \<Rightarrow> bool" where
  "checked_from num = (\<lambda>(k, session, ids, clocks, mode) f x.
     m_session f = session \<and> map_of ids (m_side f) = Some (m_sensor_id f) \<and> map_of clocks (m_side f) = Some (m_clock f)
     \<and> m_time_valid f \<and> (mode = ''real'' \<longrightarrow> m_time_source f = ''validated_model'') \<and> m_epoch f \<noteq> []
     \<and> integer_ns (m_common f) = Inr (r_common x) \<and> integer_ns (m_host f) = Inr (r_host x)
     \<and> integer_ns (m_uncertainty f) = Inr (r_uncertainty x) \<and> 0 \<le> r_uncertainty x
     \<and> integer_ns (m_sequence f) = Inr (r_sequence x) \<and> 0 \<le> r_sequence x
     \<and> r_side x = m_side f \<and> r_key x = raw_key f (r_sequence x) \<and> n_cloud num k (m_cloud f) = Inr (r_cloud x))"

text \<open>What a bundle says of the two frames it joins.\<close>

definition admissible :: "('c, 'p, 'g) numeric \<Rightarrow> policy \<Rightarrow> string \<Rightarrow> int \<Rightarrow> 'p ready \<Rightarrow> 'p ready \<Rightarrow> 'g fused \<Rightarrow> bool" where
  "admissible num k session now l r b \<longleftrightarrow> b_session b = session
     \<and> df_compensation num k l r = Inr (b_compensation b, b_error b) \<and> n_geometry num (b_compensation b) l r = Inr (b_geometry b)
     \<and> r_side l = ''left'' \<and> r_side r \<noteq> ''left''
     \<and> b_left_key b = r_key l \<and> b_right_key b = r_key r \<and> b_t_ref b = max (r_common l) (r_common r)
     \<and> \<bar>r_common l - r_common r\<bar> \<le> k_max_pair_ns k
     \<and> now - min (r_host l) (r_host r) \<le> k_max_age_ns k
     \<and> \<not> k_max_time_error k < b_error b"

lemma compensation_bounded: "df_compensation num k l r = Inr (mode, error) \<Longrightarrow> \<not> k_max_time_error k < error"
  by (auto simp: df_compensation_def result_simps Let_def split: if_splits)

definition pair_result :: "('c, 'p, 'g) numeric \<Rightarrow> int \<Rightarrow> 'p dual \<Rightarrow> exc + 'g fused option \<Rightarrow> 'p dual \<Rightarrow> bool" where
  "pair_result num now d out d' \<longleftrightarrow> queues_ok d' \<and> config_of d' = config_of d \<and> queued d' \<subseteq> queued d \<and> d_policy d' = d_policy d \<and> d_seen d' = d_seen d \<and> d_seen_order d' = d_seen_order d
    \<and> (case out of
         Inr (Some b) \<Rightarrow> d_latched d' = d_latched d \<and> b_id b = d_bundles d + 1 \<and> d_bundles d' = d_bundles d + 1
           \<and> (\<exists>l \<in> set (d_left d). \<exists>r \<in> set (d_right d). admissible num (d_policy d) (d_session d) now l r b)
       | Inr None \<Rightarrow> d_latched d' = d_latched d \<and> d_bundles d' = d_bundles d \<and> (d_left d' = [] \<or> d_right d' = [])
       | Inl e \<Rightarrow> d_bundles d' = d_bundles d \<and> (exn_of e = FusionError \<longrightarrow> d_latched d' = Some (msg_of e)))"

lemma pair_result_weaken:
  assumes "pair_result num now c out d'" "d_policy c = d_policy d" "d_seen c = d_seen d" "d_seen_order c = d_seen_order d"
    "d_latched c = d_latched d" "d_bundles c = d_bundles d" "config_of c = config_of d" "set (d_left c) \<subseteq> set (d_left d)" "set (d_right c) \<subseteq> set (d_right d)"
  shows "pair_result num now d out d'"
  using assms by (auto simp: pair_result_def config_of_def queued_def split: sum.splits option.splits) blast+

lemma df_pair_props:
  "df_pair num now d = (out, d') \<Longrightarrow> queues_ok d \<Longrightarrow> pair_result num now d out d'"
proof (induction num now d arbitrary: out d' rule: df_pair.induct)
  case (1 num now d)
  show ?case
  proof (cases "d_left d = [] \<or> d_right d = []")
    case True
    with "1.prems" show ?thesis
      by (auto simp: df_pair.simps [of num now d] pair_result_def split: list.splits)
  next
    case False
    then obtain l ls r rs where q: "d_left d = l # ls" "d_right d = r # rs"
      by (cases "d_left d"; cases "d_right d") auto
    have sides: "r_side l = ''left''" "r_side r \<noteq> ''left''"
      using "1.prems"(2) by (simp_all add: queues_ok_def q)
    show ?thesis
    proof (cases "k_max_age_ns (d_policy d) < now - min (r_host l) (r_host r)")
      case True
      with "1.prems" q show ?thesis by (auto simp: df_pair.simps [of num now d] pair_result_def)
    next
      case fresh: False
      show ?thesis
      proof (cases "k_max_pair_ns (d_policy d) < \<bar>r_common l - r_common r\<bar>")
        case far: True
        let ?d = "if r_common l - r_common r < 0 then d\<lparr>d_left := ls, d_counts := count ''PAIR_WINDOW_EXCEEDED'' (d_counts d)\<rparr>
                  else d\<lparr>d_right := rs, d_counts := count ''PAIR_WINDOW_EXCEEDED'' (d_counts d)\<rparr>"
        have "queues_ok ?d"
          using "1.prems"(2) by (simp add: queues_ok_def q)
        moreover have "df_pair num now ?d = (out, d')"
          using "1.prems"(1) fresh far q by (subst (asm) df_pair.simps) (simp add: Let_def)
        ultimately have "pair_result num now ?d out d'"
          by (intro "1.IH" [OF refl q(1) q(2) fresh refl far])
        then show ?thesis
          by (rule pair_result_weaken) (auto simp: q config_of_def)
      next
        case near: False
        let ?d = "d\<lparr>d_left := ls, d_right := rs\<rparr>"
        have ok: "queues_ok ?d"
          using "1.prems"(2) by (simp add: queues_ok_def q)
        have step: "df_pair num now d = (case df_fuse num l r ?d of
             (Inr b, d) \<Rightarrow> (Inr (Some b), d)
           | (Inl e, d) \<Rightarrow> (Inl e, if exn_of e = FusionError then df_latch (msg_of e) d else d))"
          using fresh near q by (subst df_pair.simps) (simp add: Let_def)
        show ?thesis
        proof (cases rule: df_fuse_cases [of num ?d l r])
          case (fused mode error geometry)
          have "\<not> k_max_time_error (d_policy d) < error"
            using compensation_bounded [OF fused(1)] by simp
          moreover have "out = Inr (Some (bundle_of d l r mode error geometry))"
              "d' = ?d\<lparr>d_bundles := d_bundles d + 1, d_counts := count ''BUNDLE_DUAL'' (d_counts d)\<rparr>"
            using "1.prems"(1) step fused(3) by (simp_all add: bundle_of_def)
          ultimately have "admissible num (d_policy d) (d_session d) now l r (bundle_of d l r mode error geometry)"
            using fused(1,2) fresh near sides by (simp add: admissible_def bundle_of_def)
          moreover have "queues_ok d'" using ok by (simp add: \<open>d' = _\<close> queues_ok_def)
          ultimately show ?thesis
            unfolding pair_result_def \<open>out = _\<close> \<open>d' = _\<close> by (auto simp: q config_of_def queued_def bundle_of_def)
        next
          case (failed e)
          moreover have "config_of ?d = config_of d" "queued ?d \<subseteq> queued d" by (auto simp: config_of_def queued_def q)
          ultimately show ?thesis using "1.prems"(1) step ok
            by (auto simp: pair_result_def split: if_splits)
        qed
      qed
    qed
  qed
qed

lemma remember_memory:
  assumes "memory_ok d" "key \<notin> d_seen d"
  shows "memory_ok (df_remember key d)"
    "length (d_seen_order (df_remember key d)) = min (k_max_queue (d_policy d) * 16) (length (d_seen_order d) + 1)"
proof -
  let ?order = "d_seen_order d @ [key]" and ?q = "k_max_queue (d_policy d) * 16"
  let ?n = "length ?order - ?q"
  have dist: "distinct ?order" using assms by (simp add: memory_ok_def)
  have "set ?order - set (take ?n ?order) = set (drop ?n ?order)"
    using dist by (metis Diff_cancel Un_Diff append_take_drop_id distinct_append Diff_triv inf_commute set_append sup_bot_left)
  then show "memory_ok (df_remember key d)"
    using assms(1) dist by (simp add: memory_ok_def df_remember_def Let_def distinct_drop del: drop_append take_append)
  show "length (d_seen_order (df_remember key d)) = min ?q (length (d_seen_order d) + 1)"
    by (simp add: df_remember_def Let_def)
qed

lemma df_check_props:
  assumes "df_check num f now d = (out, d')"
  shows "d_left d' = d_left d \<and> d_right d' = d_right d \<and> d_latched d' = d_latched d \<and> d_policy d' = d_policy d
    \<and> d_bundles d' = d_bundles d \<and> d_sensor_ids d' = d_sensor_ids d \<and> (memory_ok d \<longrightarrow> memory_ok d')
    \<and> config_of d' = config_of d
    \<and> (\<forall>fr. out = Inr fr \<longrightarrow> r_side fr = m_side f \<and> map_of (d_sensor_ids d) (m_side f) \<noteq> None \<and> r_key fr \<notin> d_seen d
         \<and> checked_from num (config_of d) f fr)"
proof (cases "df_check_identity d f now")
  case (Inl e)
  with assms show ?thesis by (auto simp: df_check_def)
next
  case (Inr ids)
  then obtain stamp unc host where ids: "df_check_identity d f now = Inr (stamp, unc, host)"
    by (cases ids) auto
  then have side: "map_of (d_sensor_ids d) (m_side f) \<noteq> None"
    by (auto simp: df_check_identity_def split: if_splits)
  have checked: "checked_from num (config_of d) f \<lparr>r_side = m_side f, r_key = raw_key f seq, r_common = stamp, r_sequence = seq, r_host = host,
      r_uncertainty = unc, r_cloud = cloud\<rparr>" if "integer_ns (m_sequence f) = Inr seq" "\<not> seq < 0" "n_cloud num (d_policy d) (m_cloud f) = Inr cloud" for seq cloud
    using ids that by (auto simp: df_check_identity_def checked_from_def config_of_def result_simps split: if_splits)
  let ?d = "d\<lparr>d_epochs := dput (m_side f) (m_epoch f) (d_epochs d)\<rparr>"
  have frame: "config_of (df_remember k c) = config_of c" "d_left (df_remember k c) = d_left c" "d_right (df_remember k c) = d_right c" "d_latched (df_remember k c) = d_latched c"
    "d_policy (df_remember k c) = d_policy c" "d_bundles (df_remember k c) = d_bundles c" "d_sensor_ids (df_remember k c) = d_sensor_ids c"
    for k and c :: "'p dual" by (simp_all add: df_remember_def config_of_def Let_def)
  have mem: "memory_ok (df_remember k c)"
    if "memory_ok d" "k \<notin> d_seen d" "d_seen c = d_seen d" "d_seen_order c = d_seen_order d" "d_policy c = d_policy d"
    for k and c :: "'p dual"
    by (rule remember_memory(1)) (use that in \<open>simp_all add: memory_ok_def\<close>)
  have same: "memory_ok ?d = memory_ok d" by (simp add: memory_ok_def)
  have conf: "config_of (d\<lparr>d_epochs := x, d_highwater := y, d_stamp_highwater := z\<rparr>) = config_of d" "config_of (d\<lparr>d_epochs := x\<rparr>) = config_of d"
      "config_of (d\<lparr>d_epochs := x, d_highwater := y\<rparr>) = config_of d" for x y z
    by (simp_all add: config_of_def)
  show ?thesis
    using assms side unfolding df_check_def ids
    by (auto simp: Let_def frame same conf mem checked split: if_splits sum.splits option.splits)
qed

lemma enqueue_props:
  assumes "df_enqueue f n q = (q', over)"
  shows "sorted (map order_key q')" "length q' \<le> n" "set q' \<subseteq> insert f (set q)"
  using assms by (auto simp: df_enqueue_def Let_def sorted_drop drop_map [symmetric] dest: in_set_dropD)

definition dual_inv :: "'p dual \<Rightarrow> bool" where
  "dual_inv d \<longleftrightarrow> queues_ok d \<and> memory_ok d"

lemma freshness_cases:
  obtains (fresh) "df_check_freshness t d = (True, d)" "d_latched d = None"
  | (paused) s where "df_check_freshness t d = (False, d)" "d_latched d = Some s"
  | (late) reason where "df_check_freshness t d = (False, df_latch reason d)" "d_latched d = None"
proof (cases "d_latched d")
  case (Some s)
  then show ?thesis by (intro paused) (simp_all add: df_check_freshness_def)
next
  case None
  then have "df_check_freshness t d = (True, d) \<or> (\<exists>reason. df_check_freshness t d = (False, df_latch reason d))"
    by (auto simp: df_check_freshness_def split: option.splits)
  then show ?thesis using None fresh late by blast
qed

definition push_result :: "('c, 'p, 'g) numeric \<Rightarrow> 'p ready set \<Rightarrow> pyval \<Rightarrow> 'p dual \<Rightarrow> exc + 'g fused option \<Rightarrow> 'p dual \<Rightarrow> bool" where
  "push_result num S now d out d' \<longleftrightarrow> dual_inv d' \<and> d_policy d' = d_policy d \<and> config_of d' = config_of d \<and> queued d' \<subseteq> S
    \<and> (case out of
         Inr (Some b) \<Rightarrow> d_latched d' = None \<and> b_id b = d_bundles d + 1 \<and> d_bundles d' = d_bundles d + 1
           \<and> (\<exists>t. \<exists>l \<in> S. \<exists>r \<in> S. now = PInt t \<and> admissible num (d_policy d) (d_session d) t l r b)
       | Inr None \<Rightarrow> d_latched d' = None \<and> d_bundles d' = d_bundles d
       | Inl e \<Rightarrow> d_bundles d' = d_bundles d
           \<and> (exn_of e = FusionError \<and> msg_of e \<noteq> ''DUPLICATE_OR_TOO_OLD_FRAME'' \<longrightarrow> d_latched d' \<noteq> None))"

lemma stamp_bundle:
  assumes "(case r of Inl e \<Rightarrow> (Inl e, c) | Inr None \<Rightarrow> (Inr None, c)
      | Inr (Some b) \<Rightarrow> (Inr (Some b), c\<lparr>d_last_bundle := Some t\<rparr>)) = (out, d')"
  shows "out = r \<and> d' = (case r of Inr (Some b) \<Rightarrow> c\<lparr>d_last_bundle := Some t\<rparr> | _ \<Rightarrow> c)"
proof (cases r)
  case (Inl e)
  with assms have "out = Inl e" "d' = c" by simp_all
  with Inl show ?thesis by simp
next
  case (Inr b)
  show ?thesis
  proof (cases b)
    case None
    with assms Inr have "out = Inr None" "d' = c" by simp_all
    with Inr None show ?thesis by simp
  next
    case (Some x)
    with assms Inr have "out = Inr (Some x)" "d' = c\<lparr>d_last_bundle := Some t\<rparr>" by simp_all
    with Inr Some show ?thesis by simp
  qed
qed

lemma push_result_intro:
  assumes pr: "pair_result num t m r c"
    and m: "queued m \<subseteq> S" "config_of m = config_of d" "d_policy m = d_policy d" "d_bundles m = d_bundles d" "d_latched m = None" "memory_ok m" "memory_ok c"
    and d': "d' = (case r of Inr (Some b) \<Rightarrow> c\<lparr>d_last_bundle := Some t\<rparr> | _ \<Rightarrow> c)" and out: "out = r"
  shows "push_result num S (PInt t) d out d'"
proof -
  have keep: "config_of (c\<lparr>d_last_bundle := x\<rparr>) = config_of c" "queued (c\<lparr>d_last_bundle := x\<rparr>) = queued c"
      "queues_ok (c\<lparr>d_last_bundle := x\<rparr>) = queues_ok c" "memory_ok (c\<lparr>d_last_bundle := x\<rparr>) = memory_ok c" for x
    by (simp_all add: queues_ok_def memory_ok_def config_of_def queued_def)
  have session: "d_session m = d_session d" using m(2) by (simp add: config_of_def)
  have sub: "x \<in> S" if "x \<in> set (d_left m) \<or> x \<in> set (d_right m)" for x using m(1) that by (auto simp: queued_def)
  show ?thesis
  proof (cases r)
    case (Inl e)
    with assms show ?thesis by (auto simp: push_result_def pair_result_def dual_inv_def)
  next
    case (Inr b)
    show ?thesis
    proof (cases b)
      case None
      with Inr assms show ?thesis by (auto simp: push_result_def pair_result_def dual_inv_def)
    next
      case (Some x)
      with Inr pr m(3) session sub have "\<exists>l \<in> S. \<exists>r \<in> S. admissible num (d_policy d) (d_session d) t l r x"
        by (auto simp: pair_result_def)
      with Some Inr assms show ?thesis by (auto simp: push_result_def pair_result_def dual_inv_def keep)
    qed
  qed
qed

lemma push_tail_props:
  assumes "push_tail num fr t d = (out, d')" "dual_inv d" "d_latched d = None"
  shows "push_result num (insert fr (queued d)) (PInt t) d out d'"
proof -
  obtain q over where e: "df_enqueue fr (k_max_queue (d_policy d)) (if r_side fr = ''left'' then d_left d else d_right d) = (q, over)"
    by (cases "df_enqueue fr (k_max_queue (d_policy d)) (if r_side fr = ''left'' then d_left d else d_right d)") auto
  let ?e = "if r_side fr = ''left'' then d\<lparr>d_left := q\<rparr> else d\<lparr>d_right := q\<rparr>"
  let ?d = "?e\<lparr>d_counts := ((\<lambda>c. count ''QUEUE_OVERFLOW'' c) ^^ over) (d_counts ?e)\<rparr>"
  define m where "m = ?d"
  obtain r c where p: "df_pair num t m = (r, c)" by (cases "df_pair num t m") auto
  have ok: "queues_ok m"
    using assms(2,3) enqueue_props [OF e]
    by (auto simp: dual_inv_def queues_ok_def list_all_iff m_def split: if_splits)
  have same: "queued m \<subseteq> insert fr (queued d)" "config_of m = config_of d" "d_policy m = d_policy d" "d_bundles m = d_bundles d" "d_latched m = None" "memory_ok m"
    using assms(2,3) enqueue_props(3) [OF e] by (auto simp: dual_inv_def memory_ok_def m_def queued_def config_of_def split: if_splits)
  have tail: "out = r \<and> d' = (case r of Inr (Some b) \<Rightarrow> c\<lparr>d_last_bundle := Some t\<rparr> | _ \<Rightarrow> c)"
    by (rule stamp_bundle) (use assms(1) [unfolded push_tail_def e Let_def prod.case] p in \<open>simp add: m_def\<close>)
  then have out: "out = r" and d': "d' = (case r of Inr (Some b) \<Rightarrow> c\<lparr>d_last_bundle := Some t\<rparr> | _ \<Rightarrow> c)"
    by blast+
  have pr: "pair_result num t m r c" by (rule df_pair_props [OF p ok])
  then have mem: "memory_ok c"
    using same by (simp add: pair_result_def memory_ok_def)
  show ?thesis
    by (rule push_result_intro [OF pr same mem]) (simp_all add: out d')
qed

lemma push_result_weaken:
  assumes "push_result num S now c out d'" "S \<subseteq> T" "config_of c = config_of d" "d_bundles c = d_bundles d"
  shows "push_result num T now d out d'"
proof -
  have same: "d_policy c = d_policy d" "d_session c = d_session d" using assms(3) by (simp_all add: config_of_def)
  show ?thesis
  proof (cases out)
    case (Inl e)
    with assms same show ?thesis by (auto simp: push_result_def)
  next
    case (Inr b)
    show ?thesis
    proof (cases b)
      case None
      with Inr assms same show ?thesis by (auto simp: push_result_def)
    next
      case (Some x)
      with Inr assms(1) same have "\<exists>t. \<exists>l \<in> S. \<exists>r \<in> S. now = PInt t \<and> admissible num (d_policy d) (d_session d) t l r x"
        by (auto simp: push_result_def)
      with assms(2) have "\<exists>t. \<exists>l \<in> T. \<exists>r \<in> T. now = PInt t \<and> admissible num (d_policy d) (d_session d) t l r x" by blast
      with Some Inr assms same show ?thesis by (auto simp: push_result_def)
    qed
  qed
qed

lemma df_push_props:
  assumes "df_push num f now d = (out, d')" "dual_inv d"
  shows "push_result num (queued d \<union> {x. checked_from num (config_of d) f x}) now d out d'"
proof (cases "d_latched d")
  case (Some reason)
  with assms show ?thesis by (auto simp: df_push_def push_result_def queued_def)
next
  case None
  obtain r c where c: "df_check num f now d = (r, c)" by (cases "df_check num f now d") auto
  note props = df_check_props [OF c]
  have inv: "dual_inv c" "d_latched c = None" "d_policy c = d_policy d" "d_bundles c = d_bundles d"
      "config_of c = config_of d" "queued c = queued d"
    using props assms(2) None by (auto simp: dual_inv_def queues_ok_def queued_def)
  show ?thesis
  proof (cases r)
    case (Inl e)
    have "dual_inv (c\<lparr>d_counts := x\<rparr>) = dual_inv c" "config_of (c\<lparr>d_counts := x\<rparr>) = config_of c" "queued (c\<lparr>d_counts := x\<rparr>) = queued c" for x
      by (simp_all add: dual_inv_def queues_ok_def memory_ok_def config_of_def queued_def)
    with Inl assms(1) None c inv show ?thesis
      by (auto simp: df_push_def push_result_def dual_inv_def split: if_splits)
  next
    case (Inr fr)
    show ?thesis
    proof (cases "\<exists>t. now = PInt t")
      case False
      have "\<not> is_int now" using False by (cases now) auto
      then have "isl (df_check_identity d f now)"
        by (cases now; cases "integer_ns (m_common f)"; cases "integer_ns (m_uncertainty f)")
          (auto simp: df_check_identity_def integer_ns_def)
      with c Inr show ?thesis by (auto simp: df_check_def split: sum.splits)
    next
      case True
      then obtain t where t: "now = PInt t" by blast
      let ?c = "c\<lparr>d_started := (case d_started c of None \<Rightarrow> Some t | s \<Rightarrow> s),
         d_last_seen := dput (r_side fr) (max (r_host fr) (get_or (d_last_seen c) (r_side fr) (r_host fr))) (d_last_seen c)\<rparr>"
      have c': "dual_inv ?c" "d_latched ?c = None" "d_policy ?c = d_policy d" "d_bundles ?c = d_bundles d"
          "config_of ?c = config_of d" "queued ?c = queued d"
        using inv by (auto simp: dual_inv_def queues_ok_def memory_ok_def config_of_def queued_def)
      have fr: "checked_from num (config_of d) f fr" using props Inr by blast
      have step: "(case df_check_freshness t ?c of
                (False, d) \<Rightarrow> (raise FusionError (case d_latched d of Some s \<Rightarrow> s | None \<Rightarrow> []), d)
              | (True, d) \<Rightarrow> push_tail num fr t d) = (out, d')"
        using assms(1) None c Inr t by (simp add: df_push_def)
      show ?thesis
      proof (cases rule: freshness_cases [of t ?c])
        case fresh
        with step have "push_tail num fr t ?c = (out, d')" by simp
        from push_tail_props [OF this c'(1,2)] show ?thesis
          unfolding t by (rule push_result_weaken) (use c' fr in auto)
      next
        case (paused s)
        with c' show ?thesis by simp
      next
        case (late reason)
        with step c' show ?thesis
          by (auto simp: push_result_def dual_inv_def)
      qed
    qed
  qed
qed

section \<open>Runs of the front end\<close>

datatype 'c dual_op = Op_push "'c frame" pyval | Op_fresh int | Op_latch string
  | Op_resume bool bool bool string "(string \<times> string) list"

fun dual_step :: "('c, 'p, 'g) numeric \<Rightarrow> 'c dual_op \<Rightarrow> 'p dual \<Rightarrow> (exc + 'g fused option) \<times> 'p dual" where
  "dual_step num (Op_push f now) d = df_push num f now d"
| "dual_step num (Op_fresh now) d = (Inr None, snd (df_check_freshness now d))"
| "dual_step num (Op_latch reason) d = (Inr None, df_latch reason d)"
| "dual_step num (Op_resume explicit settled continuity calibration clocks) d =
    (case df_resume explicit settled continuity calibration clocks d of (r, d) \<Rightarrow> (bindr r (\<lambda>_. Inr None), d))"

definition dual_ok :: "policy \<Rightarrow> 'p dual \<Rightarrow> bool" where
  "dual_ok k d \<longleftrightarrow> dual_inv d \<and> d_policy d = k"

lemma push_ok: "dual_ok k d \<Longrightarrow> dual_ok k (snd (df_push num f now d))"
  using df_push_props [of num f now d "fst (df_push num f now d)" "snd (df_push num f now d)"]
  by (simp add: dual_ok_def push_result_def)

lemma dual_step_ok: "dual_ok k d \<Longrightarrow> dual_ok k (snd (dual_step num e d))"
proof (cases e)
  case (Op_fresh t)
  assume "dual_ok k d"
  with Op_fresh show ?thesis
    by (cases rule: freshness_cases [of t d]) (auto simp: dual_ok_def dual_inv_def)
next
  case (Op_resume a b c i ids)
  assume "dual_ok k d"
  then have "dual_ok k (d\<lparr>d_latched := None, d_left := [], d_right := [], d_last_seen := [], d_started := None, d_last_bundle := None\<rparr>)"
    by (auto simp: dual_ok_def dual_inv_def queues_ok_def memory_ok_def)
  with Op_resume \<open>dual_ok k d\<close> show ?thesis by (simp add: df_resume_def)
next
  case (Op_push f t)
  assume "dual_ok k d"
  with Op_push show ?thesis by (simp add: push_ok)
next
  case (Op_latch reason)
  assume "dual_ok k d"
  with Op_latch show ?thesis by (simp add: dual_ok_def dual_inv_def)
qed

interpretation dual: preserves "dual_step num" "dual_ok k" for num k
  by unfold_locales (rule dual_step_ok)

text \<open>A latched front end: pushes and freshness tests are its operations until it is resumed.\<close>

datatype 'c live_op = Live_push "'c frame" pyval | Live_fresh int

fun live_step :: "('c, 'p, 'g) numeric \<Rightarrow> 'c live_op \<Rightarrow> 'p dual \<Rightarrow> (exc + 'g fused option) \<times> 'p dual" where
  "live_step num (Live_push f now) d = df_push num f now d"
| "live_step num (Live_fresh now) d = (case df_check_freshness now d of
      (True, d) \<Rightarrow> (Inr None, d) | (False, d) \<Rightarrow> (raise FusionError (case d_latched d of Some s \<Rightarrow> s | None \<Rightarrow> []), d))"

lemma push_latched: "d_latched d = Some reason \<Longrightarrow> df_push num f now d = (raise FusionError (''PAUSED_INVALID:'' @ reason), d)"
  by (simp add: df_push_def)

lemma fresh_latched: "d_latched d = Some reason \<Longrightarrow> df_check_freshness now d = (False, d)"
  by (simp add: df_check_freshness_def)

interpretation live: fail_stop "live_step num" "\<lambda>d. d_latched d \<noteq> None" for num
proof (unfold_locales, goal_cases)
  case (1 s e)
  then show ?case by (cases e) (auto simp: push_latched fresh_latched)
next
  case (2 s e)
  then show ?case by (cases e) (auto simp: push_latched fresh_latched)
qed

lemma dual_init_ok:
  assumes "dual_init matrix session ids calibration clocks k mode quality = Inr d"
  shows "dual_ok k d"
proof -
  from assms have "(case dget calibration ''calibration_id'' of PStr i \<Rightarrow> bindr (matrix (dget calibration ''T_left_right'')) (\<lambda>_.
          Inr \<lparr>d_policy = k, d_session = session, d_sensor_ids = ids, d_clock_ids = clocks,
               d_calibration_id = i, d_source_mode = mode, d_left = [], d_right = [],
               d_epochs = [], d_seen = {}, d_seen_order = [], d_highwater = [], d_stamp_highwater = [],
               d_last_seen = [], d_started = None, d_last_bundle = None, d_counts = [], d_bundles = 0, d_latched = None\<rparr>)
      | _ \<Rightarrow> raise KeyError ''calibration_id'') = Inr d"
    unfolding dual_init_def if_raise by blast
  then show ?thesis
    by (cases "dget calibration ''calibration_id''")
      (auto simp: dual_ok_def dual_inv_def queues_ok_def memory_ok_def result_simps)
qed

text \<open>
  C28. From the constructor on, whatever is called in whatever order, both queues hold at most
  \<open>max_queue\<close> frames sorted by time and sequence and are empty while the front end is latched; the
  duplicate memory is the last keys admitted, without repetition, at most \<open>16 * max_queue\<close> of them.\<close>

theorem dual_queues_bounded:
  assumes "dual_init matrix session ids calibration clocks k mode quality = Inr d"
  shows "(let s = run_state (dual_step num) ops d in
      length (d_left s) \<le> k_max_queue k \<and> length (d_right s) \<le> k_max_queue k
      \<and> sorted (map order_key (d_left s)) \<and> sorted (map order_key (d_right s))
      \<and> (d_latched s \<noteq> None \<longrightarrow> d_left s = [] \<and> d_right s = [])
      \<and> d_seen s = set (d_seen_order s) \<and> distinct (d_seen_order s)
      \<and> length (d_seen_order s) \<le> k_max_queue k * 16)"
  using dual.run_keeps [OF dual_init_ok [OF assms], of num ops]
  by (auto simp: Let_def dual_ok_def dual_inv_def queues_ok_def memory_ok_def)

text \<open>The frames pushed in a run, and that every waiting frame is one of them, checked.\<close>

fun pushed :: "'c dual_op list \<Rightarrow> 'c frame list" where
  "pushed [] = []"
| "pushed (Op_push f now # ops) = f # pushed ops"
| "pushed (_ # ops) = pushed ops"

lemma pushed_Cons: "set (pushed (e # ops)) = set (pushed [e]) \<union> set (pushed ops)"
  by (cases e) simp_all

definition traced :: "('c, 'p, 'g) numeric \<Rightarrow> 'p dual \<Rightarrow> 'c frame set \<Rightarrow> 'p dual \<Rightarrow> bool" where
  "traced num d0 F d \<longleftrightarrow> dual_inv d \<and> config_of d = config_of d0 \<and> (\<forall>x \<in> queued d. \<exists>f \<in> F. checked_from num (config_of d0) f x)"

lemma traced_step: "traced num d0 F d \<Longrightarrow> traced num d0 (F \<union> set (pushed [e])) (snd (dual_step num e d))"
proof -
  assume t: "traced num d0 F d"
  then have "dual_ok (d_policy d0) d" by (auto simp: traced_def dual_ok_def config_of_def)
  from dual_step_ok [OF this, of num e] have inv: "dual_inv (snd (dual_step num e d))" by (simp add: dual_ok_def)
  show ?thesis
  proof (cases e)
    case (Op_push f now)
    from t have "dual_inv d" by (simp add: traced_def)
    from df_push_props [OF prod.collapse [symmetric] this] t Op_push inv show ?thesis
      by (fastforce simp: traced_def push_result_def)
  next
    case (Op_fresh now)
    with t inv show ?thesis by (cases rule: freshness_cases [of now d]) (auto simp: traced_def)
  next
    case (Op_latch reason)
    with t inv show ?thesis by (auto simp: traced_def)
  next
    case (Op_resume explicit settled continuity calibration clocks)
    moreover have "config_of (d\<lparr>d_latched := None, d_left := [], d_right := [], d_last_seen := [], d_started := None, d_last_bundle := None\<rparr>) = config_of d"
      by (simp add: config_of_def)
    moreover have "queued (d\<lparr>d_latched := None, d_left := [], d_right := [], d_last_seen := [], d_started := None, d_last_bundle := None\<rparr>) = {}"
      by (simp add: queued_def)
    ultimately show ?thesis using t inv by (auto simp: traced_def df_resume_def)
  qed
qed

lemma traced_run: "traced num d0 F d \<Longrightarrow> traced num d0 (F \<union> set (pushed ops)) (run_state (dual_step num) ops d)"
proof (induction ops arbitrary: F d)
  case (Cons e ops)
  from Cons.IH [OF traced_step [OF Cons.prems]] show ?case by (simp add: pushed_Cons [of e ops] Un_assoc)
qed simp

lemma dual_init_config:
  assumes "dual_init matrix session ids calibration clocks k mode quality = Inr d"
  shows "config_of d = (k, session, ids, clocks, mode)" "queued d = {}" "fst ` set ids = {''left'', ''right''}"
proof -
  from assms have "(case dget calibration ''calibration_id'' of PStr i \<Rightarrow> bindr (matrix (dget calibration ''T_left_right'')) (\<lambda>_.
          Inr \<lparr>d_policy = k, d_session = session, d_sensor_ids = ids, d_clock_ids = clocks,
               d_calibration_id = i, d_source_mode = mode, d_left = [], d_right = [],
               d_epochs = [], d_seen = {}, d_seen_order = [], d_highwater = [], d_stamp_highwater = [],
               d_last_seen = [], d_started = None, d_last_bundle = None, d_counts = [], d_bundles = 0, d_latched = None\<rparr>)
      | _ \<Rightarrow> raise KeyError ''calibration_id'') = Inr d" and ids: "set (map fst ids) = {''left'', ''right''}"
    unfolding dual_init_def if_raise by blast+
  then obtain i where "d = \<lparr>d_policy = k, d_session = session, d_sensor_ids = ids, d_clock_ids = clocks,
               d_calibration_id = i, d_source_mode = mode, d_left = [], d_right = [],
               d_epochs = [], d_seen = {}, d_seen_order = [], d_highwater = [], d_stamp_highwater = [],
               d_last_seen = [], d_started = None, d_last_bundle = None, d_counts = [], d_bundles = 0, d_latched = None\<rparr>"
    by (cases "dget calibration ''calibration_id''") (auto simp only: pyval.case result_simps sum.inject)
  then show "config_of d = (k, session, ids, clocks, mode)" "queued d = {}" by (simp_all add: config_of_def queued_def)
  show "fst ` set ids = {''left'', ''right''}" using ids by simp
qed

text \<open>
  C10. In any reachable state a push that returns a bundle joined two frames that were pushed, in the run before or by this call. One is
  of the left sensor, the other of the right; each passed the checks with its own times, sequence and cloud: it has the identity and clock
  model configured for its side, this session, a validated time (in live operation from a validated model) and an uncertainty. Their measurement times
  differ by at most \<open>max_pair_ns\<close> and neither was received longer ago than \<open>max_age_ns\<close>. The bundle carries their keys, the later of the two
  times, the next number, the geometry computed of them, and the compensation and error bound computed of them, which is not above the budget.\<close>

theorem dual_bundle_admissible:
  fixes d :: "'p dual" and num :: "('c, 'p, 'g) numeric"
  assumes "dual_init matrix session ids calibration clocks k mode quality = Inr d"
    and "df_push num f (PInt t) (run_state (dual_step num) ops d) = (Inr (Some b), d')"
  shows "b_session b = session \<and> b_id b = d_bundles (run_state (dual_step num) ops d) + 1
    \<and> (\<exists>fl \<in> set (pushed ops @ [f]). \<exists>fr \<in> set (pushed ops @ [f]). \<exists>l r.
        m_side fl = ''left'' \<and> m_side fr = ''right''
      \<and> checked_from num (k, session, ids, clocks, mode) fl l \<and> checked_from num (k, session, ids, clocks, mode) fr r
      \<and> \<bar>r_common l - r_common r\<bar> \<le> k_max_pair_ns k \<and> t - r_host l \<le> k_max_age_ns k \<and> t - r_host r \<le> k_max_age_ns k
      \<and> b_left_key b = r_key l \<and> b_right_key b = r_key r \<and> b_t_ref b = max (r_common l) (r_common r)
      \<and> df_compensation num k l r = Inr (b_compensation b, b_error b) \<and> \<not> k_max_time_error k < b_error b
      \<and> n_geometry num (b_compensation b) l r = Inr (b_geometry b))"
proof -
  let ?s = "run_state (dual_step num) ops d" and ?conf = "(k, session, ids, clocks, mode)"
  note conf = dual_init_config [OF assms(1)]
  have "traced num d {} d" using dual_init_ok [OF assms(1)] conf(2) by (simp add: traced_def dual_ok_def)
  from traced_run [OF this, of ops] have run: "dual_inv ?s" "config_of ?s = ?conf" "\<forall>x \<in> queued ?s. \<exists>f \<in> set (pushed ops). checked_from num ?conf f x"
    by (simp_all add: traced_def conf(1))
  from df_push_props [OF assms(2) run(1)] have id: "b_id b = d_bundles ?s + 1"
    and "\<exists>l \<in> queued ?s \<union> {x. checked_from num ?conf f x}. \<exists>r \<in> queued ?s \<union> {x. checked_from num ?conf f x}.
      admissible num (d_policy ?s) (d_session ?s) t l r b"
    by (auto simp: push_result_def run(2))
  moreover have "d_policy ?s = k" "d_session ?s = session" using run(2) by (simp_all add: config_of_def)
  ultimately obtain l r where a: "admissible num k session t l r b"
    and q: "l \<in> queued ?s \<union> {x. checked_from num ?conf f x}" "r \<in> queued ?s \<union> {x. checked_from num ?conf f x}"
    by auto
  have "\<exists>g \<in> set (pushed ops @ [f]). checked_from num ?conf g x" if "x \<in> queued ?s \<union> {x. checked_from num ?conf f x}" for x
    using run(3) that by auto
  from this [OF q(1)] this [OF q(2)] obtain fl fr
    where src: "fl \<in> set (pushed ops @ [f])" "checked_from num ?conf fl l" "fr \<in> set (pushed ops @ [f])" "checked_from num ?conf fr r"
    by blast
  have side: "m_side g \<in> {''left'', ''right''} \<and> m_side g = r_side x" if "checked_from num ?conf g x" for g x
  proof -
    from that have "map_of ids (m_side g) = Some (m_sensor_id g)" "r_side x = m_side g" by (simp_all add: checked_from_def)
    with conf(3) show ?thesis by (metis fst_conv image_eqI map_of_SomeD)
  qed
  have left: "m_side fl = ''left''" and right: "m_side fr = ''right''"
    using a side [OF src(2)] side [OF src(4)] unfolding admissible_def by auto
  have age: "t - r_host l \<le> k_max_age_ns k" "t - r_host r \<le> k_max_age_ns k" using a by (simp_all add: admissible_def min_def split: if_splits)
  have joined: "\<bar>r_common l - r_common r\<bar> \<le> k_max_pair_ns k \<and> t - r_host l \<le> k_max_age_ns k \<and> t - r_host r \<le> k_max_age_ns k
      \<and> b_left_key b = r_key l \<and> b_right_key b = r_key r \<and> b_t_ref b = max (r_common l) (r_common r)
      \<and> df_compensation num k l r = Inr (b_compensation b, b_error b) \<and> \<not> k_max_time_error k < b_error b
      \<and> n_geometry num (b_compensation b) l r = Inr (b_geometry b)"
    using a age unfolding admissible_def by blast
  have "b_session b = session" using a by (simp add: admissible_def)
  moreover have "m_side fl = ''left'' \<and> m_side fr = ''right'' \<and> checked_from num ?conf fl l \<and> checked_from num ?conf fr r"
    using left right src by blast
  ultimately show ?thesis using id joined by (intro conjI bexI [OF _ src(1)] bexI [OF _ src(3)] exI [of _ l] exI [of _ r]) blast+
qed

text \<open>
  C34. A rejected frame stops the stream: when \<open>push\<close> raises a \<open>FusionError\<close> other than a duplicate, both
  queues are empty and every later push or freshness test raises, whatever its frame and time.\<close>

theorem dual_rejection_latches:
  assumes "dual_init matrix session ids calibration clocks k mode quality = Inr d"
    and "df_push num f now (run_state (dual_step num) ops d) = (Inl e, d')"
    and "exn_of e = FusionError" "msg_of e \<noteq> ''DUPLICATE_OR_TOO_OLD_FRAME''"
  shows "(\<forall>r \<in> set (run_outs (live_step num) later d'). isl r)
    \<and> d_left (run_state (live_step num) later d') = [] \<and> d_right (run_state (live_step num) later d') = []"
proof -
  have inv: "dual_ok k (run_state (dual_step num) ops d)"
    by (rule dual.run_keeps [OF dual_init_ok [OF assms(1)]])
  note r = df_push_props [OF assms(2)]
  have l: "d_latched d' \<noteq> None" and q: "dual_inv d'"
    using r inv assms(3,4) by (simp_all add: push_result_def dual_ok_def)
  have "run_state (live_step num) later d' = d'"
    using l
  proof (induction later)
    case (Cons e es)
    then obtain s where "d_latched d' = Some s" by auto
    then have "snd (live_step num e d') = d'" by (cases e) (simp_all add: push_latched fresh_latched)
    with Cons show ?case by simp
  qed simp
  with q l live.run_failed_raises [OF l, of num later] show ?thesis
    by (simp add: dual_inv_def queues_ok_def)
qed

text \<open>Only an explicit resume, with a settled and continuous stream and the calibration and clock models the
  front end was built with, clears the latch; it forgets no key, so no frame is admitted a second time by it.\<close>

lemma dual_resume_explicit:
  assumes "df_resume explicit settled continuity calibration clocks d = (r, d')" "d_latched d = Some reason"
  shows "(d_latched d' = None \<longleftrightarrow> r = Inr ()) \<and> (isl r \<longrightarrow> d' = d)
    \<and> (r = Inr () \<longleftrightarrow> explicit \<and> settled \<and> continuity \<and> calibration = d_calibration_id d \<and> same_ids clocks (d_clock_ids d))
    \<and> d_seen d' = d_seen d \<and> d_highwater d' = d_highwater d \<and> d_epochs d' = d_epochs d"
  using assms by (auto simp: df_resume_def split: if_splits)

section \<open>Runs of the gate\<close>

datatype 'a gate_op = Submit gate_bundle pyval | Assess "'a assessment" int | Expire int | Pause string
  | Resume_gate bool bool bool "string option"

fun gate_step :: "('a, 'm) gate_numeric \<Rightarrow> 'a gate_op \<Rightarrow> 'm gate \<Rightarrow> (exc + (gate_bundle \<times> 'm) option) \<times> 'm gate" where
  "gate_step num (Submit b now) g = (case gate_submit b now g of (r, g) \<Rightarrow> (bindr r (\<lambda>_. Inr None), g))"
| "gate_step num (Assess a now) g = (case gate_assess num a now g of (r, g) \<Rightarrow> (bindr r (\<lambda>x. Inr (Some x)), g))"
| "gate_step num (Expire now) g = (Inr None, snd (gate_expire now g))"
| "gate_step num (Pause reason) g = (Inr None, gate_pause reason g)"
| "gate_step num (Resume_gate explicit settled continuity epoch) g =
    (case gate_resume explicit settled continuity epoch g of (r, g) \<Rightarrow> (bindr r (\<lambda>_. Inr None), g))"

definition gate_ok :: "nat \<Rightarrow> 'm gate \<Rightarrow> bool" where
  "gate_ok n g \<longleftrightarrow> gt_max_pending g = n \<and> length (gt_pending g) \<le> n \<and> distinct (map fst (gt_pending g))
    \<and> list_all (\<lambda>(i, b, _). gb_id b = i \<and> gb_session b = gt_session g \<and> gb_mode b = ''dual'' \<and> 0 < gb_left b \<and> 0 < gb_right b) (gt_pending g)
    \<and> (gt_paused g \<noteq> None \<longrightarrow> gt_pending g = [])
    \<and> (gt_last_pose g = None \<longleftrightarrow> gt_last_stamp g = None)"

lemma gate_pause_sel [simp]:
  "gt_pending (gate_pause s g) = []" "gt_paused (gate_pause s g) = Some s" "gt_last_stamp (gate_pause s g) = gt_last_stamp g"
  "gt_session (gate_pause s g) = gt_session g" "gt_accepted (gate_pause s g) = gt_accepted g"
  "gate_ok n g \<Longrightarrow> gate_ok n (gate_pause s g)"
  by (simp_all add: gate_pause_def gate_ok_def)

text \<open>What an accepted assessment found, and what it changes.\<close>

lemma gate_assess_cases:
  obtains (accepted) b received pose where "gt_paused g = None" "map_of (gt_pending g) (as_bundle a) = Some (b, received)"
      "as_session a = gt_session g" "as_stamp a = gb_t_ref b" "0 \<le> now - received" "now - received \<le> gt_timeout g"
      "as_left a = gb_left b" "as_right a = gb_right b"
      "gt_epoch g = None \<or> gt_epoch g = Some (as_epoch a)"
      "case gt_last_stamp g of None \<Rightarrow> True | Some t \<Rightarrow> t < as_stamp a" "\<not> motion_jump num g pose (as_stamp a)"
      "gate_assess num a now g = (Inr (b, pose), g\<lparr>gt_pending := AList.delete (as_bundle a) (gt_pending g), gt_epoch := Some (as_epoch a),
                         gt_last_stamp := Some (as_stamp a), gt_last_pose := Some pose, gt_last_result := Some now,
                         gt_accepted := gt_accepted g + 1\<rparr>)"
  | (refused) e where "gate_assess num a now g = (Inl e, g)"
  | (paused) e reason where "gate_assess num a now g = (Inl e, gate_pause reason g)"
proof (cases "gt_paused g")
  case (Some s)
  then show ?thesis by (intro refused) (simp add: gate_assess_def)
next
  case running: None
  show ?thesis
  proof (cases "map_of (gt_pending g) (as_bundle a)")
    case None
    with running show ?thesis by (intro paused) (simp add: gate_assess_def gate_reject_def)
  next
    case (Some p)
    obtain b received where p: "p = (b, received)" by (cases p)
    show ?thesis
    proof (cases "assess_reason g b received a now")
      case reason: (Some s)
      with running Some p show ?thesis by (intro paused) (simp add: gate_assess_def gate_reject_def)
    next
      case fine: None
      then obtain raw where raw: "as_pose a = Some raw" by (auto simp: assess_reason_def split: if_splits)
      show ?thesis
      proof (cases "q_matrix num raw")
        case (Inl e)
        with running Some p fine raw show ?thesis
          by (cases "exn_of e = FusionError") (auto simp: gate_assess_def intro: paused refused)
      next
        case (Inr pose)
        show ?thesis
        proof (cases "motion_jump num g pose (as_stamp a)")
          case True
          with running Some p fine raw Inr show ?thesis by (intro paused) (simp add: gate_assess_def gate_reject_def)
        next
          case False
          with running Some p fine raw Inr show ?thesis
            by (intro accepted [of b received pose]) (auto simp: gate_assess_def assess_reason_def split: if_splits option.splits)
        qed
      qed
    qed
  qed
qed

lemma gate_submit_cases:
  obtains (submitted) t where "now = PInt t" "gt_paused g = None" "gb_session b = gt_session g" "gb_mode b = ''dual''"
      "0 < gb_left b" "0 < gb_right b" "map_of (gt_pending g) (gb_id b) = None" "length (gt_pending g) < gt_max_pending g"
      "gate_submit b now g = (Inr (), g\<lparr>gt_pending := dput (gb_id b) (b, t) (gt_pending g)\<rparr>)"
  | (refused) e where "gate_submit b now g = (Inl e, g)"
  | (paused) e reason where "gate_submit b now g = (Inl e, gate_pause reason g)"
proof (cases "gt_paused g")
  case (Some s)
  then show ?thesis by (intro refused) (simp add: gate_submit_def)
next
  case running: None
  consider "gb_session b \<noteq> gt_session g \<or> gb_mode b \<noteq> ''dual''" | "\<not> (0 < gb_left b \<and> 0 < gb_right b)"
    | "map_of (gt_pending g) (gb_id b) \<noteq> None \<or> gt_max_pending g \<le> length (gt_pending g)"
    | "gb_session b = gt_session g" "gb_mode b = ''dual''" "0 < gb_left b" "0 < gb_right b"
      "map_of (gt_pending g) (gb_id b) = None" "length (gt_pending g) < gt_max_pending g"
    by fastforce
  then show ?thesis
  proof cases
    case 4
    then show ?thesis
    proof (cases now)
      case (PInt t)
      with 4 running show ?thesis by (intro submitted) (simp_all add: gate_submit_def integer_ns_def)
    qed (use running in \<open>auto intro: refused simp: gate_submit_def integer_ns_def\<close>)
  next
    case 1
    then have "\<exists>e reason. gate_submit b now g = (Inl e, gate_pause reason g)"
      using running by (auto simp: gate_submit_def gate_reject_def)
    then show ?thesis using paused by blast
  next
    case 2
    then have "\<exists>e reason. gate_submit b now g = (Inl e, gate_pause reason g)"
      using running by (auto simp: gate_submit_def gate_reject_def)
    then show ?thesis using paused by blast
  next
    case 3
    then have "\<exists>e reason. gate_submit b now g = (Inl e, gate_pause reason g)"
      using running by (auto simp: gate_submit_def gate_reject_def)
    then show ?thesis using paused by blast
  qed
qed

lemma list_all_delete: "list_all P xs \<Longrightarrow> list_all P (AList.delete k xs)"
  by (induction xs) auto

lemma length_dput_new: "map_of xs k = None \<Longrightarrow> dput k v xs = xs @ [(k, v)]"
  by (induction xs) (auto split: if_splits)

lemma gate_step_ok: "gate_ok n g \<Longrightarrow> gate_ok n (snd (gate_step num e g))"
proof (cases e)
  case (Submit b now)
  assume ok: "gate_ok n g"
  show ?thesis
  proof (cases rule: gate_submit_cases [of now g b])
    case (submitted t)
    with ok Submit show ?thesis
      by (auto simp: gate_ok_def length_dput_new map_of_eq_None_iff)
  qed (use ok Submit in simp_all)
next
  case (Assess a now)
  assume ok: "gate_ok n g"
  show ?thesis
  proof (cases rule: gate_assess_cases [of g a now num])
    case (accepted b received pose)
    have "length (AList.delete (as_bundle a) (gt_pending g)) \<le> n"
      using ok by (metis gate_ok_def length_delete_le le_trans)
    with ok Assess accepted show ?thesis
      by (auto simp: gate_ok_def list_all_delete distinct_delete)
  qed (use ok Assess in simp_all)
next
  case (Expire now)
  assume "gate_ok n g"
  with Expire show ?thesis by (auto simp: gate_expire_def)
next
  case (Resume_gate x y z epoch)
  assume "gate_ok n g"
  with Resume_gate show ?thesis by (auto simp: gate_resume_def gate_ok_def)
qed simp_all

interpretation gate: preserves "gate_step num" "gate_ok n" for num n
  by unfold_locales (rule gate_step_ok)

fun gate_accepted :: "(exc + (gate_bundle \<times> 'm) option) list \<Rightarrow> gate_bundle list" where
  "gate_accepted [] = []"
| "gate_accepted (Inr (Some (b, _)) # rs) = b # gate_accepted rs"
| "gate_accepted (_ # rs) = gate_accepted rs"

fun gate_submitted :: "'a gate_op list \<Rightarrow> gate_bundle list" where
  "gate_submitted [] = []"
| "gate_submitted (Submit b _ # es) = b # gate_submitted es"
| "gate_submitted (_ # es) = gate_submitted es"

definition waiting :: "'m gate \<Rightarrow> gate_bundle set" where
  "waiting g = (\<lambda>(_, b, _). b) ` set (gt_pending g)"

definition tracked :: "gate_bundle set \<Rightarrow> 'm gate \<Rightarrow> (exc + (gate_bundle \<times> 'm) option) \<Rightarrow> 'm gate \<Rightarrow> bool" where
  "tracked new g r g' \<longleftrightarrow> waiting g' \<subseteq> waiting g \<union> new
     \<and> (case r of
          Inr (Some (b, _)) \<Rightarrow> b \<in> waiting g \<and> gt_last_stamp g' = Some (gb_t_ref b)
            \<and> (\<forall>t. gt_last_stamp g = Some t \<longrightarrow> t < gb_t_ref b)
        | _ \<Rightarrow> gt_last_stamp g' = gt_last_stamp g)"

lemma waiting_pause [simp]: "waiting (gate_pause reason g) = {}"
  by (simp add: waiting_def)

lemma set_delete_subset: "set (AList.delete k xs) \<subseteq> set xs"
  by (induction xs) auto

lemma gate_step_tracked: "gate_ok n g \<Longrightarrow> tracked (set (gate_submitted [e])) g (fst (gate_step num e g)) (snd (gate_step num e g))"
proof (cases e)
  case (Submit b now)
  show ?thesis
  proof (cases rule: gate_submit_cases [of now g b])
    case (submitted t)
    with Submit show ?thesis by (auto simp: tracked_def waiting_def length_dput_new)
  qed (use Submit in \<open>auto simp: tracked_def\<close>)
next
  case (Assess a now)
  show ?thesis
  proof (cases rule: gate_assess_cases [of g a now num])
    case (accepted b received pose)
    have "b \<in> waiting g" using map_of_SomeD [OF accepted(2)] by (force simp: waiting_def)
    moreover have "waiting (snd (gate_step num e g)) \<subseteq> waiting g"
      using accepted(12) Assess by (simp add: waiting_def image_mono set_delete_subset)
    ultimately show ?thesis
      using accepted Assess by (auto simp: tracked_def split: option.splits)
  qed (use Assess in \<open>auto simp: tracked_def\<close>)
next
  case (Expire now)
  then show ?thesis by (auto simp: tracked_def waiting_def gate_expire_def)
next
  case (Resume_gate x y z epoch)
  then show ?thesis by (auto simp: tracked_def waiting_def gate_resume_def)
next
  case (Pause reason)
  then show ?thesis by (auto simp: tracked_def waiting_def)
qed

lemma gate_accepted_Cons:
  "gate_accepted (r # rs) = (case r of Inr (Some (b, _)) \<Rightarrow> b # gate_accepted rs | _ \<Rightarrow> gate_accepted rs)"
  by (cases r; cases "projr r") auto

lemma gate_submitted_Cons: "gate_submitted (e # es) = gate_submitted [e] @ gate_submitted es"
  by (cases e) auto

lemma gate_run_tracked:
  "gate_ok n g \<Longrightarrow> sorted_wrt (<) (map gb_t_ref (gate_accepted (run_outs (gate_step num) es g)))
    \<and> (\<forall>b \<in> set (gate_accepted (run_outs (gate_step num) es g)).
        b \<in> waiting g \<union> set (gate_submitted es) \<and> (\<forall>t. gt_last_stamp g = Some t \<longrightarrow> t < gb_t_ref b))"
proof (induction es arbitrary: g)
  case Nil
  then show ?case by simp
next
  case (Cons e es)
  let ?g = "snd (gate_step num e g)" and ?r = "fst (gate_step num e g)"
  have tr: "tracked (set (gate_submitted [e])) g ?r ?g" by (rule gate_step_tracked [OF Cons.prems])
  note IH = Cons.IH [OF gate_step_ok [OF Cons.prems, of num e]]
  consider b p where "?r = Inr (Some (b, p))" | "gate_accepted (?r # run_outs (gate_step num) es ?g) = gate_accepted (run_outs (gate_step num) es ?g)"
      "gt_last_stamp ?g = gt_last_stamp g"
    using tr by (cases ?r; cases "projr ?r") (auto simp: tracked_def)
  then show ?case
  proof cases
    case 1
    with tr IH show ?thesis
      by (subst gate_submitted_Cons) (auto simp: tracked_def gate_accepted_Cons)
  next
    case 2
    with tr IH show ?thesis
      by (subst gate_submitted_Cons) (auto simp: tracked_def)
  qed
qed

text \<open>
  C20. The accepted output of the gate, whatever the calls: the bundles it hands to the graph have strictly
  increasing measurement times, hence no bundle twice, and each was submitted before.\<close>

theorem gate_output_ordered:
  assumes "gate_init session n timeout speed angular = Inr g"
  shows "sorted_wrt (<) (map gb_t_ref (gate_accepted (run_outs (gate_step num) ops g)))
    \<and> set (gate_accepted (run_outs (gate_step num) ops g)) \<subseteq> set (gate_submitted ops)"
proof -
  have g: "gate_ok n g \<and> waiting g = {}"
    using assms by (auto simp: gate_init_def gate_ok_def waiting_def split: if_splits)
  with gate_run_tracked [of n g num ops] show ?thesis by auto
qed

text \<open>
  An assessment is accepted only for a waiting two-source bundle of this session, at its exact
  measurement time, after the last accepted one and within the timeout, with its participation counts, in the
  same odometry epoch and without a motion jump; it is then no longer waiting.\<close>

lemma gate_accepts_only_matching:
  assumes "gate_init session n timeout speed angular = Inr g0"
    and "g = run_state (gate_step num) ops g0"
    and "gate_assess num a now g = (Inr (b, pose), g')"
  shows "(\<exists>received. map_of (gt_pending g) (as_bundle a) = Some (b, received) \<and> 0 \<le> now - received \<and> now - received \<le> gt_timeout g)
    \<and> gb_id b = as_bundle a \<and> gb_session b = gt_session g \<and> as_session a = gt_session g \<and> as_stamp a = gb_t_ref b
    \<and> gb_mode b = ''dual'' \<and> as_left a = gb_left b \<and> as_right a = gb_right b \<and> 0 < as_left a \<and> 0 < as_right a
    \<and> (\<forall>t. gt_last_stamp g = Some t \<longrightarrow> t < as_stamp a) \<and> (\<forall>ep. gt_epoch g = Some ep \<longrightarrow> ep = as_epoch a)
    \<and> \<not> motion_jump num g pose (as_stamp a)
    \<and> map_of (gt_pending g') (as_bundle a) = None \<and> gt_accepted g' = gt_accepted g + 1"
proof -
  have g0: "gate_ok n g0"
    using assms(1) by (auto simp: gate_init_def gate_ok_def split: if_splits)
  have ok: "gate_ok n g" unfolding assms(2) by (rule gate.run_keeps [OF g0])
  show ?thesis
  proof (cases rule: gate_assess_cases [of g a now num])
    case (accepted b' received pose')
    have "(as_bundle a, b', received) \<in> set (gt_pending g)" by (rule map_of_SomeD [OF accepted(2)])
    then have "gb_id b' = as_bundle a \<and> gb_session b' = gt_session g \<and> gb_mode b' = ''dual'' \<and> 0 < gb_left b' \<and> 0 < gb_right b'"
      using ok by (auto simp: gate_ok_def list_all_iff)
    with accepted assms(3) show ?thesis
      by (auto simp: delete_conv split: option.splits)
  qed (use assms(3) in auto)
qed

section \<open>Instances\<close>

text \<open>A synthetic session: two sensors, queues of one frame, no geometry.\<close>

definition demo_policy :: policy where
  "demo_policy = \<lparr>k_max_pair_ns = 20, k_max_queue = 1, k_max_age_ns = 300, k_min_points = 20, k_min_range = Fin 0,
     k_max_range = Fin 10, k_velocity = Fin 0, k_angular = Fin 0, k_max_time_error = Fin 1, k_prediction_error = Fin 0,
     k_max_prediction_ns = 150, k_motion_speed = Fin 1, k_motion_angular = Fin 1\<rparr>"

definition demo_ids :: "(string \<times> string) list" where "demo_ids = [(''left'', ''A''), (''right'', ''B'')]"

definition demo_num :: "(unit, unit, unit) numeric" where
  "demo_num = \<lparr>n_cloud = (\<lambda>_ _. Inr ()), n_predict = (\<lambda>_. Inr ()), n_requires_prediction = False, n_mode = ''odom'',
     n_geometry = (\<lambda>_ _ _. Inr ())\<rparr>"

definition demo_frame :: "string \<Rightarrow> string \<Rightarrow> int \<Rightarrow> int \<Rightarrow> unit frame" where
  "demo_frame side sensor seq t = \<lparr>m_side = side, m_sensor_id = sensor, m_session = ''s'', m_clock = sensor, m_time_valid = True,
     m_uncertainty = PInt 0, m_time_source = ''host'', m_common = PInt t, m_host = PInt t, m_epoch = ''e'',
     m_sequence = PInt seq, m_cloud = ()\<rparr>"

definition demo_calibration :: pydict where
  "demo_calibration = [(''sensor_ids'', PDict (map (\<lambda>(a, b). (a, PStr b)) demo_ids)), (''T_left_right'', PInt 1),
     (''calibration_id'', PStr ''c'')]"

definition demo_dual :: "unit dual" where
  "demo_dual = \<lparr>d_policy = demo_policy, d_session = ''s'', d_sensor_ids = demo_ids, d_clock_ids = demo_ids,
               d_calibration_id = ''c'', d_source_mode = ''synthetic'', d_left = [], d_right = [],
               d_epochs = [], d_seen = {}, d_seen_order = [], d_highwater = [], d_stamp_highwater = [],
               d_last_seen = [], d_started = None, d_last_bundle = None, d_counts = [], d_bundles = 0, d_latched = None\<rparr>"

lemma demo_init: "dual_init (\<lambda>_. Inr ()) ''s'' demo_ids demo_calibration demo_ids demo_policy ''synthetic'' PNone = Inr demo_dual"
  by (simp add: dual_init_def demo_dual_def demo_calibration_def demo_ids_def insert_commute)

theorem dual_queues_bounded_witness:
  "length (d_left (run_state (dual_step demo_num) [Op_push (demo_frame ''left'' ''A'' 0 5) (PInt 5)] demo_dual)) \<le> 1"
  using dual_queues_bounded [OF demo_init, of demo_num "[Op_push (demo_frame ''left'' ''A'' 0 5) (PInt 5)]"]
  by (simp add: Let_def demo_policy_def del: run_state.simps)

definition demo_ready :: "string \<Rightarrow> string \<Rightarrow> int \<Rightarrow> unit ready" where
  "demo_ready side key t = \<lparr>r_side = side, r_key = key, r_common = t, r_sequence = 0, r_host = t, r_uncertainty = 0, r_cloud = ()\<rparr>"

definition demo_waiting :: "unit dual" where
  "demo_waiting = demo_dual\<lparr>d_left := [demo_ready ''left'' ''A/e/0'' 5], d_epochs := [(''left'', ''e'')], d_seen := {''A/e/0''},
        d_seen_order := [''A/e/0''], d_highwater := [((''left'', ''e''), 0)], d_stamp_highwater := [((''left'', ''e''), 0, 5)],
        d_last_seen := [(''left'', 5)], d_started := Some 5\<rparr>"

lemma demo_left: "run_state (dual_step demo_num) [Op_push (demo_frame ''left'' ''A'' 0 5) (PInt 5)] demo_dual = demo_waiting"
  by code_simp

lemma f_mul_zero: "f_mul (Fin 0) x \<in> {Fin 0, NaN}"
  by (cases x) (simp_all add: f_inf_def)

lemma demo_static: "\<not> Fin 1 < df_static_error demo_policy l r" for l r :: "unit ready"
  using f_mul_zero [of "df_seconds (\<bar>r_common l - r_common r\<bar> + (r_uncertainty l + r_uncertainty r))"]
  by (auto simp: df_static_error_def df_bound_per_s_def demo_policy_def less_pyfloat_def)

lemma demo_compensation: "df_compensation demo_num demo_policy l r = Inr (''bounded_static'', df_static_error demo_policy l r)"
  using demo_static [of l r] by (simp add: df_compensation_def demo_num_def demo_policy_def)

lemma demo_limits: "k_max_pair_ns demo_policy = 20" "k_max_queue demo_policy = 1" "k_max_age_ns demo_policy = 300"
  "n_cloud demo_num k c = Inr ()" "n_geometry demo_num m l r = Inr ()"
  by (simp_all add: demo_policy_def demo_num_def)

definition demo_push :: "(exc + unit fused option) \<times> unit dual" where
  "demo_push = df_push demo_num (demo_frame ''right'' ''B'' 0 6) (PInt 6) demo_waiting"

lemma char_0: "char_of (48 :: nat) = CHR ''0''"
  by code_simp

lemma demo_bundle: "\<exists>b d. demo_push = (Inr (Some b), d) \<and> b_left_key b = ''A/e/0'' \<and> b_right_key b = ''B/e/0''"
  by (simp add: demo_push_def demo_waiting_def demo_dual_def demo_frame_def demo_ids_def demo_ready_def df_push_def df_check_def
      df_check_identity_def integer_ns_def get_or_def df_remember_def raw_key_def demo_limits show_int_def digits_of.simps
      df_check_freshness_def df_stale_def push_tail_def df_enqueue_def df_pair.simps df_fuse_def demo_compensation Let_def char_0)

theorem dual_bundle_admissible_witness:
  "\<exists>fl fr (l :: unit ready) (r :: unit ready). {fl, fr} \<subseteq> {demo_frame ''left'' ''A'' 0 5, demo_frame ''right'' ''B'' 0 6}
     \<and> m_side fl = ''left'' \<and> m_side fr = ''right'' \<and> r_key l = ''A/e/0'' \<and> r_key r = ''B/e/0'' \<and> \<bar>r_common l - r_common r\<bar> \<le> 20"
proof -
  obtain b d where b: "demo_push = (Inr (Some b), d)" "b_left_key b = ''A/e/0''" "b_right_key b = ''B/e/0''"
    using demo_bundle by blast
  let ?fs = "pushed [Op_push (demo_frame ''left'' ''A'' 0 5) (PInt 5)] @ [demo_frame ''right'' ''B'' 0 6]"
  from dual_bundle_admissible [OF demo_init b(1) [unfolded demo_push_def demo_left [symmetric]], THEN conjunct2, THEN conjunct2]
  obtain fl fr l r where p: "fl \<in> set ?fs" "fr \<in> set ?fs" "m_side fl = ''left''" "m_side fr = ''right''"
      "\<bar>r_common l - r_common r\<bar> \<le> k_max_pair_ns demo_policy" "b_left_key b = r_key (l :: unit ready)" "b_right_key b = r_key (r :: unit ready)"
    by blast
  then have "{fl, fr} \<subseteq> {demo_frame ''left'' ''A'' 0 5, demo_frame ''right'' ''B'' 0 6}" by auto
  with p b(2,3) show ?thesis unfolding demo_limits by auto
qed

definition demo_bad :: "(exc + unit fused option) \<times> unit dual" where
  "demo_bad = df_push demo_num (demo_frame ''left'' ''B'' 0 5) (PInt 5) (run_state (dual_step demo_num) [] demo_dual)"

theorem dual_rejection_latches_witness:
  "list_all isl (run_outs (live_step demo_num) [Live_push (demo_frame ''left'' ''A'' 0 5) (PInt 5), Live_fresh 6] (snd demo_bad))"
proof -
  have "demo_bad = (raise FusionError ''SOURCE_IDENTITY_MISMATCH'', snd demo_bad)" by code_simp
  from dual_rejection_latches [OF demo_init this [unfolded demo_bad_def], folded demo_bad_def] show ?thesis
    by (simp add: list_all_iff del: run_outs.simps)
qed

text \<open>The duplicate memory is shared by both sources: once the other source has filled it, a frame that is
  still above the sequence floor is admitted a second time.\<close>

definition readmission :: "unit dual_op list" where
  "readmission = Op_push (demo_frame ''left'' ''A'' 0 5) (PInt 5)
     # map (\<lambda>n. Op_push (demo_frame ''right'' ''B'' n (n + 30)) (PInt (n + 30))) [0..15]
     @ [Op_push (demo_frame ''left'' ''A'' 0 5) (PInt 50)]"

lemma frame_admitted_twice:
  "run_outs (dual_step demo_num) readmission demo_dual = replicate 18 (Inr None)
    \<and> last (d_seen_order (run_state (dual_step demo_num) readmission demo_dual)) = ''A/e/0''"
  by code_simp

definition demo_gate_bundle :: gate_bundle where
  "demo_gate_bundle = \<lparr>gb_id = 1, gb_session = ''s'', gb_mode = ''dual'', gb_left = 3, gb_right = 4, gb_t_ref = 6\<rparr>"

definition demo_assessment :: "unit assessment" where
  "demo_assessment = \<lparr>as_bundle = 1, as_session = ''s'', as_stamp = 6, as_valid = True, as_pose = Some (), as_left = 3, as_right = 4, as_epoch = ''e''\<rparr>"

definition demo_gate_num :: "(unit, unit) gate_numeric" where
  "demo_gate_num = \<lparr>q_matrix = (\<lambda>_. Inr ()), q_motion = (\<lambda>_ _. (Fin 0, Fin 0))\<rparr>"

definition demo_gate :: "unit gate" where
  "demo_gate = \<lparr>gt_session = ''s'', gt_max_pending = 8, gt_timeout = 500, gt_pending = [], gt_paused = None,
        gt_epoch = None, gt_last_stamp = None, gt_accepted = 0, gt_last_pose = None, gt_last_result = None,
        gt_max_speed = Fin 1, gt_max_angular = Fin 1\<rparr>"

lemma demo_gate_init: "gate_init ''s'' 8 500 (Fin 1) (Fin 1) = Inr demo_gate"
  by code_simp

theorem gate_output_ordered_witness:
  "gate_accepted (run_outs (gate_step demo_gate_num) [Submit demo_gate_bundle (PInt 7), Assess demo_assessment 8] demo_gate) = [demo_gate_bundle]
   \<and> sorted_wrt (<) (map gb_t_ref (gate_accepted (run_outs (gate_step demo_gate_num) [Submit demo_gate_bundle (PInt 7), Assess demo_assessment 8] demo_gate)))"
proof
  show "gate_accepted (run_outs (gate_step demo_gate_num) [Submit demo_gate_bundle (PInt 7), Assess demo_assessment 8] demo_gate) = [demo_gate_bundle]"
    by code_simp
qed (rule gate_output_ordered [OF demo_gate_init, THEN conjunct1])

end
