(* ===== verification/Wheel_Model.thy ===== *)
theory Wheel_Model
  imports Modbus_Protocol
begin

text \<open>
  \<open>src/src/wc_motion/model.py\<close>: differential wheel odometry. Arithmetic is binary64 as in
  \<open>Py_Value\<close>; \<open>sin\<close> and \<open>cos\<close> of finite arguments are parameters (\<open>trig\<close>). Speeds, geometry and
  positions keep the type the caller gave them; the integer width of a position counter is the one
  of its profile field.
\<close>

section \<open>Floats\<close>

record trig =
  tr_sin :: "rat \<Rightarrow> pyfloat"
  tr_cos :: "rat \<Rightarrow> pyfloat"

definition trig_call :: "(rat \<Rightarrow> pyfloat) \<Rightarrow> pyfloat \<Rightarrow> exc + pyfloat" where
  "trig_call f x = (case x of Fin q \<Rightarrow> Inr (f q) | NaN \<Rightarrow> Inr NaN | _ \<Rightarrow> raise ValueError ''math domain error'')"

text \<open>\<open>x % y\<close> for \<open>0 < y\<close>: the exact remainder towards zero, moved into \<open>[0, y)\<close>.\<close>

definition f_mod :: "pyfloat \<Rightarrow> rat \<Rightarrow> pyfloat" where
  "f_mod x y = (case x of Fin a \<Rightarrow>
       (let n = (if 0 \<le> a then \<lfloor>a / y\<rfloor> else \<lceil>a / y\<rceil>); r = a - of_int n * y
        in if r < 0 then round64 (r + y) else Fin r)
     | _ \<Rightarrow> NaN)"

definition of_ns :: "int \<Rightarrow> pyfloat" where
  "of_ns ns = f_mul (round64 (of_int ns)) (round64 (1 / 1000000000))"

fun int_of :: "pyval \<Rightarrow> int" where
  "int_of (PInt i) = i"
| "int_of (PBool b) = (if b then 1 else 0)"
| "int_of _ = 0"

section \<open>Geometry\<close>

definition positive :: "pyval \<Rightarrow> string \<Rightarrow> exc + unit" where
  "positive v name = (case v of PInt _ \<Rightarrow> bindr (py_isfinite v) (\<lambda>fin. guard (\<not> fin \<or> py_le v (PInt 0)) FeedbackError (''explicit positive finite '' @ name @ '' required''))
     | PFloat _ \<Rightarrow> bindr (py_isfinite v) (\<lambda>fin. guard (\<not> fin \<or> py_le v (PInt 0)) FeedbackError (''explicit positive finite '' @ name @ '' required''))
     | _ \<Rightarrow> raise FeedbackError (''explicit positive finite '' @ name @ '' required''))"

record geometry =
  g_left_radius :: pyval
  g_right_radius :: pyval
  g_track :: pyval
  g_left_sign :: pyval
  g_right_sign :: pyval
  g_left_turns :: pyval
  g_right_turns :: pyval
  g_counts :: pyval
  g_max_speed :: pyval
  g_max_gap :: pyval
  g_linear_variance :: pyval
  g_angular_variance :: pyval

text \<open>\<open>Geometry.__post_init__\<close>.\<close>

definition geometry_check :: "geometry \<Rightarrow> exc + unit" where
  "geometry_check g =
     bindr (all_pass (map (\<lambda>(v, name). positive v name) [(g_left_radius g, ''left_radius_m''), (g_right_radius g, ''right_radius_m''),
        (g_track g, ''track_width_m''), (g_left_turns g, ''left_motor_turns_per_wheel_turn''),
        (g_right_turns g, ''right_motor_turns_per_wheel_turn''), (g_max_speed g, ''max_wheel_speed_m_s''), (g_max_gap g, ''max_gap_s''),
        (g_linear_variance g, ''linear_velocity_variance''), (g_angular_variance g, ''angular_velocity_variance'')])) (\<lambda>_.
     if \<not> list_all (\<lambda>v. v = PInt (- 1) \<or> v = PInt 1) [g_left_sign g, g_right_sign g]
     then raise FeedbackError ''explicit measured left/right forward signs required''
     else if g_counts g \<noteq> PNone then bindr (integer (g_counts g) ''counts_per_motor_turn'' 1 None) (\<lambda>_. Inr ())
     else Inr ())"

section \<open>Observations\<close>

record wheel_observation =
  wo_stamp :: pyval
  wo_time_valid :: pyval
  wo_time_source :: pyval
  wo_uncertainty :: pyval
  wo_epoch :: pyval
  wo_sequence :: pyval
  wo_left_rpm :: pyval
  wo_right_rpm :: pyval
  wo_left_position :: pyval
  wo_right_position :: pyval
  wo_bits :: "nat option"

definition wheel_from_record :: "pydict \<Rightarrow> profile \<Rightarrow> exc + wheel_observation" where
  "wheel_from_record r p = bindr (profile_decode p r) (\<lambda>values.
     bindr (dsub r ''stamp_ns'') (\<lambda>stamp. bindr (dsub r ''time_valid'') (\<lambda>valid. bindr (dsub r ''time_source'') (\<lambda>source.
     bindr (dsub r ''uncertainty_ns'') (\<lambda>unc. bindr (dsub r ''stream_epoch'') (\<lambda>epoch. bindr (dsub r ''sequence'') (\<lambda>seq.
     Inr \<lparr>wo_stamp = stamp, wo_time_valid = valid, wo_time_source = source, wo_uncertainty = unc, wo_epoch = epoch,
          wo_sequence = seq, wo_left_rpm = dget values ''left_velocity'', wo_right_rpm = dget values ''right_velocity'',
          wo_left_position = dget values ''left_position'', wo_right_position = dget values ''right_position'',
          wo_bits = (case map_of (fp_fields p) ''left_position'' of None \<Rightarrow> None | Some f \<Rightarrow> Some (16 * nat (int_of (f_words f))))\<rparr>)))))))"

text \<open>\<open>not isinstance(v, bool) and isinstance(v, (float, int)) and isfinite(v)\<close>.\<close>

definition finite_number :: "pyval \<Rightarrow> exc + bool" where
  "finite_number v = (case v of PInt _ \<Rightarrow> py_isfinite v | PFloat _ \<Rightarrow> py_isfinite v | _ \<Rightarrow> Inr False)"

definition both_or_none :: "pyval \<Rightarrow> pyval \<Rightarrow> bool" where
  "both_or_none a b \<longleftrightarrow> (a = PNone) = (b = PNone)"

definition wheel_validate :: "wheel_observation \<Rightarrow> exc + unit" where
  "wheel_validate v =
     bindr (integer (wo_stamp v) ''stamp_ns'' 1 None) (\<lambda>_.
     bindr (integer (wo_sequence v) ''sequence'' 0 None) (\<lambda>_.
     if wo_time_valid v \<noteq> PBool True \<or> wo_time_source v \<notin> {PStr ''common_measurement'', PStr ''external_common_time''}
     then raise FeedbackError ''common measurement time required; arrival-only feedback cannot produce odometry''
     else bindr (integer (wo_uncertainty v) ''uncertainty_ns'' 0 None) (\<lambda>_.
     if \<not> is_str (wo_epoch v) \<or> \<not> py_true (wo_epoch v) then raise FeedbackError ''explicit acquisition epoch required''
     else if \<not> both_or_none (wo_left_rpm v) (wo_right_rpm v) then raise FeedbackError ''both wheel velocities required together''
     else if \<not> both_or_none (wo_left_position v) (wo_right_position v) then raise FeedbackError ''both wheel positions required together''
     else if wo_left_rpm v = PNone \<and> wo_left_position v = PNone then raise FeedbackError ''no actual wheel feedback''
     else bindr (if wo_left_rpm v = PNone then Inr ()
        else bindr (finite_number (wo_left_rpm v)) (\<lambda>l. if \<not> l then raise FeedbackError ''finite actual wheel velocities required''
        else bindr (finite_number (wo_right_rpm v)) (\<lambda>r. guard (\<not> r) FeedbackError ''finite actual wheel velocities required''))) (\<lambda>_.
     if wo_left_position v = PNone then Inr ()
     else case wo_bits v of
        None \<Rightarrow> raise FeedbackError ''verified position counter width required''
      | Some bits \<Rightarrow> if bits \<noteq> 16 \<and> bits \<noteq> 32 then raise FeedbackError ''verified position counter width required''
          else all_pass (map (\<lambda>x. bindr (integer x ''position count'' (- (2 ^ (bits - 1))) (Some (2 ^ bits - 1))) (\<lambda>_. Inr ()))
                 [wo_left_position v, wo_right_position v])))))"

section \<open>Odometry\<close>

definition wrapped_delta :: "int \<Rightarrow> int \<Rightarrow> nat \<Rightarrow> exc + int" where
  "wrapped_delta now previous bits = (let modulus = 2 ^ bits;
      delta = (now - previous + modulus div 2) mod modulus - modulus div 2
    in if \<bar>delta\<bar> = modulus div 2 then raise FeedbackError ''ambiguous half-range counter jump'' else Inr delta)"

record wheel_odometry =
  w_geometry :: geometry
  w_previous :: "wheel_observation option"
  w_x :: pyfloat
  w_y :: pyfloat
  w_yaw :: pyfloat
  w_blocked :: string

definition wheel_init :: "geometry \<Rightarrow> wheel_odometry" where
  "wheel_init g = \<lparr>w_geometry = g, w_previous = None, w_x = Fin 0, w_y = Fin 0, w_yaw = Fin 0, w_blocked = []\<rparr>"

definition wheel_reset :: "wheel_odometry \<Rightarrow> wheel_odometry" where
  "wheel_reset w = w\<lparr>w_previous := None, w_x := Fin 0, w_y := Fin 0, w_yaw := Fin 0, w_blocked := []\<rparr>"

record motion_estimate =
  me_stamp :: pyval
  me_epoch :: pyval
  me_sequence :: pyval
  me_x :: pyfloat
  me_y :: pyfloat
  me_yaw :: pyfloat
  me_linear :: pyfloat
  me_angular :: pyfloat
  me_time_source :: pyval
  me_uncertainty :: pyval
  me_linear_variance :: pyval
  me_angular_variance :: pyval
  me_source :: string

definition wheel_speed :: "pyval \<Rightarrow> pyval \<Rightarrow> pyval \<Rightarrow> pyval \<Rightarrow> exc + pyfloat" where
  "wheel_speed rpm radius sign turns = bindr (f_div two_pi (Fin 60)) (\<lambda>factor.
     f_div (f_mul (f_mul (f_mul (to_float rpm) factor) (to_float radius)) (to_float sign)) (to_float turns))"

definition rpm_speeds :: "geometry \<Rightarrow> wheel_observation \<Rightarrow> exc + (pyfloat \<times> pyfloat) option" where
  "rpm_speeds g v =
     (if wo_left_rpm v = PNone then Inr None
      else bindr (wheel_speed (wo_left_rpm v) (g_left_radius g) (g_left_sign g) (g_left_turns g)) (\<lambda>left.
           bindr (wheel_speed (wo_right_rpm v) (g_right_radius g) (g_right_sign g) (g_right_turns g)) (\<lambda>right.
           if py_lt (g_max_speed g) (PFloat (f_max (f_abs left) (f_abs right)))
           then raise FeedbackError ''wheel speed exceeds explicit plausibility bound''
           else Inr (Some (left, right)))))"

text \<open>Metres of travel per count.\<close>

definition resolution :: "pyval \<Rightarrow> pyval \<Rightarrow> pyval \<Rightarrow> exc + pyfloat" where
  "resolution radius turns counts =
     bindr (f_div (f_mul two_pi (to_float radius)) (to_float turns)) (\<lambda>x. f_div x (to_float counts))"

definition wrap_ambiguous :: "geometry \<Rightarrow> pyfloat \<Rightarrow> nat \<Rightarrow> pyfloat \<Rightarrow> exc + bool" where
  "wrap_ambiguous g dt bits res = bindr (f_div (f_mul (to_float (g_max_speed g)) dt) res) (\<lambda>q. Inr (Fin (2 ^ (bits - 1)) \<le> q))"

text \<open>Travel of the two wheels between two position samples, and the speeds derived from it.\<close>

definition position_travel :: "geometry \<Rightarrow> wheel_observation \<Rightarrow> wheel_observation \<Rightarrow> pyfloat
    \<Rightarrow> exc + ((pyfloat \<times> pyfloat) \<times> (pyfloat \<times> pyfloat))" where
  "position_travel g v p dt = (case wo_bits v of
       None \<Rightarrow> raise TypeError ''unsupported operand''
     | Some bits \<Rightarrow>
         bindr (resolution (g_left_radius g) (g_left_turns g) (g_counts g)) (\<lambda>rl.
         bindr (resolution (g_right_radius g) (g_right_turns g) (g_counts g)) (\<lambda>rr.
         bindr (wrap_ambiguous g dt bits rl) (\<lambda>al. bindr (if al then Inr True else wrap_ambiguous g dt bits rr) (\<lambda>ambiguous.
         if ambiguous then raise FeedbackError ''position interval admits ambiguous counter wrap''
         else bindr (wrapped_delta (int_of (wo_left_position v)) (int_of (wo_left_position p)) bits) (\<lambda>cl.
         bindr (wrapped_delta (int_of (wo_right_position v)) (int_of (wo_right_position p)) bits) (\<lambda>cr.
         let dl = f_mul (f_mul (round64 (of_int cl)) rl) (to_float (g_left_sign g));
             dr = f_mul (f_mul (round64 (of_int cr)) rr) (to_float (g_right_sign g))
         in bindr (f_div dl dt) (\<lambda>vl. bindr (f_div dr dt) (\<lambda>vr.
            if py_lt (g_max_speed g) (PFloat (f_max (f_abs vl) (f_abs vr)))
            then raise FeedbackError ''encoder count discontinuity / implausible wheel travel''
            else Inr ((dl, dr), (vl, vr)))))))))))"

text \<open>Trapezoidal travel of the two wheels between two velocity samples.\<close>

definition velocity_travel :: "geometry \<Rightarrow> wheel_observation \<Rightarrow> (pyfloat \<times> pyfloat) option \<Rightarrow> pyfloat \<Rightarrow> exc + (pyfloat \<times> pyfloat)" where
  "velocity_travel g p speeds dt = bindr (rpm_speeds g p) (\<lambda>before. case (before, speeds) of
       (Some (bl, br), Some (sl, sr)) \<Rightarrow> Inr (f_mul (f_mul (f_add bl sl) (Fin (1 / 2))) dt, f_mul (f_mul (f_add br sr) (Fin (1 / 2))) dt)
     | _ \<Rightarrow> raise TypeError ''NoneType object is not subscriptable'')"

text \<open>All that precedes the change of the pose: the travel if there is a previous sample, and the speeds.\<close>

definition wheel_motion :: "wheel_odometry \<Rightarrow> wheel_observation \<Rightarrow> exc + ((pyfloat \<times> pyfloat) option \<times> (pyfloat \<times> pyfloat) option)" where
  "wheel_motion w v = (let g = w_geometry w; position_mode = (wo_left_position v \<noteq> PNone) in
     bindr (wheel_validate v) (\<lambda>_. bindr (rpm_speeds g v) (\<lambda>speeds.
     if position_mode \<and> g_counts g = PNone then raise FeedbackError ''position conversion requires encoder counts per motor revolution''
     else case w_previous w of None \<Rightarrow> Inr (None, speeds)
     | Some p \<Rightarrow>
         if wo_epoch v \<noteq> wo_epoch p \<or> int_of (wo_sequence v) \<le> int_of (wo_sequence p) \<or> int_of (wo_stamp v) \<le> int_of (wo_stamp p)
         then raise FeedbackError ''wheel identity/time discontinuity; explicit reset required''
         else if position_mode \<noteq> (wo_left_position p \<noteq> PNone) \<or> wo_bits v \<noteq> wo_bits p
         then raise FeedbackError ''feedback mode changed during stream''
         else let dt = of_ns (int_of (wo_stamp v) - int_of (wo_stamp p)) in
         if py_lt (g_max_gap g) (PFloat dt) then raise FeedbackError ''wheel feedback gap too large''
         else if position_mode
         then bindr (position_travel g v p dt) (\<lambda>(travel, derived). Inr (Some travel, Some (case speeds of Some s \<Rightarrow> s | None \<Rightarrow> derived)))
         else bindr (velocity_travel g p speeds dt) (\<lambda>travel. Inr (Some travel, speeds)))))"

definition sinc_half :: "trig \<Rightarrow> pyfloat \<Rightarrow> exc + pyfloat" where
  "sinc_half tr half =
     (if round64 (1 / 10000000000) < f_abs half then bindr (trig_call (tr_sin tr) half) (\<lambda>s. f_div s half)
      else bindr (f_div (f_mul half half) (Fin 6)) (\<lambda>x. Inr (f_sub (Fin 1) x)))"

text \<open>Integration of a constant-curvature segment: \<open>x\<close>, \<open>y\<close> and \<open>yaw\<close> are assigned one after the other.\<close>

definition wheel_integrate :: "trig \<Rightarrow> pyfloat \<times> pyfloat \<Rightarrow> wheel_odometry \<Rightarrow> (exc + unit) \<times> wheel_odometry" where
  "wheel_integrate tr travel w = (let (dl, dr) = travel in
     case bindr (f_div (f_add dl dr) (Fin 2)) (\<lambda>distance. bindr (f_div (f_sub dr dl) (to_float (g_track (w_geometry w)))) (\<lambda>turn.
          bindr (f_div turn (Fin 2)) (\<lambda>half. bindr (sinc_half tr half) (\<lambda>sinc.
          bindr (trig_call (tr_cos tr) (f_add (w_yaw w) half)) (\<lambda>c. Inr (distance, turn, half, sinc, c)))))) of
       Inl e \<Rightarrow> (Inl e, w)
     | Inr (distance, turn, half, sinc, c) \<Rightarrow>
         let w = w\<lparr>w_x := f_add (w_x w) (f_mul (f_mul distance sinc) c)\<rparr> in
         (case trig_call (tr_sin tr) (f_add (w_yaw w) half) of
            Inl e \<Rightarrow> (Inl e, w)
          | Inr s \<Rightarrow> (Inr (), w\<lparr>w_y := f_add (w_y w) (f_mul (f_mul distance sinc) s),
               w_yaw := f_sub (f_mod (f_add (f_add (w_yaw w) turn) pi64) (884279719003555 / 140737488355328)) pi64\<rparr>)))"

definition wheel_estimate :: "wheel_odometry \<Rightarrow> wheel_observation \<Rightarrow> pyfloat \<times> pyfloat \<Rightarrow> exc + motion_estimate" where
  "wheel_estimate w v speeds = (let g = w_geometry w; (sl, sr) = speeds in
     bindr (f_div (f_add sl sr) (Fin 2)) (\<lambda>linear. bindr (f_div (f_sub sr sl) (to_float (g_track g))) (\<lambda>angular.
     Inr \<lparr>me_stamp = wo_stamp v, me_epoch = wo_epoch v, me_sequence = wo_sequence v, me_x = w_x w, me_y = w_y w, me_yaw = w_yaw w,
          me_linear = linear, me_angular = angular, me_time_source = wo_time_source v, me_uncertainty = wo_uncertainty v,
          me_linear_variance = g_linear_variance g, me_angular_variance = g_angular_variance g,
          me_source = (if wo_left_position v \<noteq> PNone then ''encoder_counts'' else ''actual_wheel_velocity'')\<rparr>)))"

definition wheel_advance :: "trig \<Rightarrow> wheel_observation \<Rightarrow> wheel_odometry \<Rightarrow> (exc + motion_estimate option) \<times> wheel_odometry" where
  "wheel_advance tr v w = (case wheel_motion w v of
       Inl e \<Rightarrow> (Inl e, w)
     | Inr (travel, speeds) \<Rightarrow>
         (case (case travel of None \<Rightarrow> (Inr (), w) | Some t \<Rightarrow> wheel_integrate tr t w) of
            (Inl e, w) \<Rightarrow> (Inl e, w)
          | (Inr _, w) \<Rightarrow> let w = w\<lparr>w_previous := Some v\<rparr> in
              (case speeds of None \<Rightarrow> (Inr None, w)
               | Some s \<Rightarrow> (bindr (wheel_estimate w v s) (\<lambda>m. Inr (Some m)), w))))"

definition wheel_update :: "trig \<Rightarrow> wheel_observation \<Rightarrow> wheel_odometry \<Rightarrow> (exc + motion_estimate option) \<times> wheel_odometry" where
  "wheel_update tr v w =
     (if w_blocked w \<noteq> [] then (raise FeedbackError (''motion model blocked: '' @ w_blocked w), w)
      else case wheel_advance tr v w of
         (Inl e, w) \<Rightarrow> (Inl e, if exn_of e \<in> {FeedbackError, TypeError, KeyError} then w\<lparr>w_blocked := msg_of e\<rparr> else w)
       | (Inr m, w) \<Rightarrow> (Inr m, w))"

text \<open>\<open>axle_twist_at_rig\<close>; \<open>all(isfinite(x) for x in ...)\<close> stops at the first that is not.\<close>

fun all_finite :: "pyval list \<Rightarrow> exc + bool" where
  "all_finite [] = Inr True"
| "all_finite (x # xs) = bindr (py_isfinite x) (\<lambda>fin. if fin then all_finite xs else Inr False)"

definition axle_twist_at_rig :: "trig \<Rightarrow> motion_estimate \<Rightarrow> pyval list \<Rightarrow> pyval \<Rightarrow> exc + (pyfloat \<times> pyfloat \<times> pyfloat)" where
  "axle_twist_at_rig tr m rig_origin yaw =
     (if length rig_origin \<noteq> 2 then raise FeedbackError ''explicit finite planar axle-to-rig relationship required''
      else bindr (all_finite (rig_origin @ [yaw])) (\<lambda>fin. if \<not> fin then raise FeedbackError ''explicit finite planar axle-to-rig relationship required''
      else let x = to_float (rig_origin ! 0); y = to_float (rig_origin ! 1); w = me_angular m; v = me_linear m;
               vx = f_sub v (f_mul w y); vy = f_mul w x
           in bindr (trig_call (tr_cos tr) (to_float yaw)) (\<lambda>c. bindr (trig_call (tr_sin tr) (to_float yaw)) (\<lambda>s.
              Inr (f_add (f_mul c vx) (f_mul s vy), f_add (f_mul (f_neg s) vx) (f_mul c vy), w)))))"

section \<open>Counter differences\<close>

text \<open>
  \<open>wrapped_delta\<close> returns the movement of a counter of \<open>bits\<close> bits, whatever its signedness and
  however often it wrapped: exactly the movements below half the range are returned, each for what it is.\<close>

lemma wrapped_delta_exact:
  assumes "0 < bits"
  shows "wrapped_delta now previous bits = Inr m \<longleftrightarrow> \<bar>m\<bar> < 2 ^ (bits - 1) \<and> (now - previous) mod 2 ^ bits = m mod 2 ^ bits"
proof -
  define h :: int where "h = 2 ^ (bits - 1)"
  have m: "(2 :: int) ^ bits = 2 * h" "0 < h"
    using assms by (simp_all add: h_def flip: power_Suc)
  let ?d = "(now - previous + h) mod (2 * h) - h"
  have range: "- h \<le> ?d" "?d < h" using m(2) pos_mod_bound [of "2 * h" "now - previous + h"] pos_mod_sign [of "2 * h" "now - previous + h"]
    by linarith+
  have cong: "(now - previous) mod (2 * h) = ?d mod (2 * h)"
    by (metis add_diff_cancel_right' mod_diff_left_eq)
  have unique: "m = ?d" if "\<bar>m\<bar> < h" "(now - previous) mod (2 * h) = m mod (2 * h)"
  proof -
    have "(m + h) mod (2 * h) = (now - previous + h) mod (2 * h)" using that(2) by (metis mod_add_left_eq)
    moreover have "(m + h) mod (2 * h) = m + h" using that(1) by (intro mod_pos_pos_trivial) linarith+
    ultimately show ?thesis by linarith
  qed
  have "wrapped_delta now previous bits = (if \<bar>?d\<bar> = h then raise FeedbackError ''ambiguous half-range counter jump'' else Inr ?d)"
    by (simp add: wrapped_delta_def Let_def m)
  then show ?thesis
    using range cong unique unfolding m h_def [symmetric] by auto
qed

section \<open>Failures latch\<close>

text \<open>Every exception carries a message.\<close>

definition loud :: "exc + 'a \<Rightarrow> bool" where
  "loud r \<longleftrightarrow> (case r of Inl e \<Rightarrow> msg_of e \<noteq> [] | Inr _ \<Rightarrow> True)"

lemma loud_simps [simp]:
  "loud (Inr x)" "loud (Inl e) \<longleftrightarrow> msg_of e \<noteq> []"
  by (simp_all add: loud_def)

lemma loud_bindr [intro!]: "loud r \<Longrightarrow> (\<And>x. r = Inr x \<Longrightarrow> loud (f x)) \<Longrightarrow> loud (bindr r f)"
  by (cases r) simp_all

lemma loud_bind_any: "loud r \<Longrightarrow> (\<And>x. loud (f x)) \<Longrightarrow> loud (bindr r f)"
  by (cases r) simp_all

lemma loud_ifI: "loud a \<Longrightarrow> loud b \<Longrightarrow> loud (if c then a else b)"
  by simp

lemma loud_guard [simp]: "loud (guard b c m) \<longleftrightarrow> \<not> b \<or> m \<noteq> []"
  by (simp add: guard_def)

lemma loud_f_div [simp]: "loud (f_div x y)"
  by (cases y; cases x) simp_all

declare f_div.simps [simp del]

lemma loud_integer [simp]: "loud (integer v n l u)"
  by (cases v) (simp_all add: integer_def)

lemma loud_isfinite [simp]: "loud (py_isfinite v)"
  by (cases v) simp_all

lemma loud_all_pass: "list_all loud cs \<Longrightarrow> loud (all_pass cs)"
  by (induction cs) auto

lemma loud_wrapped [simp]: "loud (wrapped_delta a b n)"
  by (simp add: wrapped_delta_def Let_def)

lemma loud_finite_number [simp]: "loud (finite_number v)"
  by (cases v) (simp_all add: finite_number_def del: py_isfinite.simps)

lemma loud_validate [simp]: "loud (wheel_validate v)"
  unfolding wheel_validate_def
  by (cases "wo_bits v"; simp only: option.case; intro loud_bind_any loud_ifI loud_all_pass)
    (simp_all add: loud_bind_any)

lemma loud_wheel_speed [simp]: "loud (wheel_speed r x s t)"
  by (auto simp: wheel_speed_def)

lemma loud_rpm [simp]: "loud (rpm_speeds g v)"
  by (auto simp: rpm_speeds_def)

lemma loud_travel [simp]: "loud (position_travel g v p dt)" "loud (velocity_travel g p speeds dt)"
  by (auto simp: position_travel_def velocity_travel_def resolution_def wrap_ambiguous_def Let_def split: option.splits)

lemma loud_motion [simp]: "loud (wheel_motion w v)"
  by (auto simp: wheel_motion_def Let_def split: option.splits)

text \<open>Only the checks before the pose changes raise \<open>FeedbackError\<close>, \<open>TypeError\<close> or \<open>KeyError\<close>.\<close>

definition arithmetic :: "exc + 'a \<Rightarrow> bool" where
  "arithmetic r \<longleftrightarrow> (case r of Inl e \<Rightarrow> exn_of e \<in> {ValueError, ZeroDivisionError} | Inr _ \<Rightarrow> True)"

lemma arithmetic_simps [simp]:
  "arithmetic (Inr x)" "arithmetic (Inl e) \<longleftrightarrow> exn_of e \<in> {ValueError, ZeroDivisionError}"
  by (simp_all add: arithmetic_def)

lemma arithmetic_bindr [intro!]: "arithmetic r \<Longrightarrow> (\<And>x. arithmetic (f x)) \<Longrightarrow> arithmetic (bindr r f)"
  by (cases r) simp_all

lemma arithmetic_f_div [simp]: "arithmetic (f_div x y)"
  by (cases y; cases x) (simp_all add: f_div.simps)

lemma arithmetic_trig [simp]: "arithmetic (trig_call f x)"
  by (cases x) (simp_all add: trig_call_def)

lemma arithmetic_sinc [simp]: "arithmetic (sinc_half tr h)"
  by (auto simp: sinc_half_def)

lemma arithmetic_estimate [simp]: "arithmetic (wheel_estimate w v s)"
  by (auto simp: wheel_estimate_def Let_def split: prod.splits)

lemma arithmetic_integrate: "arithmetic (fst (wheel_integrate tr t w))"
proof -
  obtain dl dr where t: "t = (dl, dr)" by (cases t)
  let ?r = "bindr (f_div (f_add dl dr) (Fin 2)) (\<lambda>distance. bindr (f_div (f_sub dr dl) (to_float (g_track (w_geometry w)))) (\<lambda>turn.
          bindr (f_div turn (Fin 2)) (\<lambda>half. bindr (sinc_half tr half) (\<lambda>sinc.
          bindr (trig_call (tr_cos tr) (f_add (w_yaw w) half)) (\<lambda>c. Inr (distance, turn, half, sinc, c))))))"
  have r: "arithmetic ?r" by (intro arithmetic_bindr) simp_all
  have s: "arithmetic (trig_call f x)" for f x by simp
  show ?thesis
  proof (cases ?r)
    case (Inl e)
    with r show ?thesis by (simp add: t wheel_integrate_def)
  next
    case (Inr z)
    obtain a b c d q where z: "z = (a, b, c, d, q)" by (cases z) auto
    show ?thesis
    proof (cases "trig_call (tr_sin tr) (f_add (w_yaw w) c)")
      case (Inl e)
      with s [of "tr_sin tr" "f_add (w_yaw w) c"] have "arithmetic (Inl e :: exc + unit)" by simp
      then show ?thesis by (simp add: t wheel_integrate_def Inr z Let_def Inl)
    next
      case ok: (Inr y)
      then show ?thesis by (simp add: t wheel_integrate_def Inr z Let_def)
    qed
  qed
qed

lemma advance_failure:
  assumes "wheel_advance tr v w = (Inl e, w')" "exn_of e \<in> {FeedbackError, TypeError, KeyError}"
  shows "w' = w \<and> msg_of e \<noteq> []"
proof (cases "wheel_motion w v")
  case (Inl x)
  moreover from loud_motion [of w v] have "msg_of x \<noteq> []" unfolding Inl by simp
  ultimately show ?thesis using assms by (auto simp: wheel_advance_def)
next
  case (Inr x)
  obtain travel speeds where x: "x = (travel, speeds)" by (cases x)
  let ?i = "case travel of None \<Rightarrow> (Inr (), w) | Some t \<Rightarrow> wheel_integrate tr t w"
  have "arithmetic (fst ?i)" by (cases travel) (simp_all add: arithmetic_integrate)
  moreover obtain r c where i: "?i = (r, c)" by (cases ?i) auto
  ultimately have r: "arithmetic r" by simp
  show ?thesis
  proof (cases r)
    case (Inl y)
    with r assms Inr x i show ?thesis by (auto simp: wheel_advance_def)
  next
    case ok: (Inr u)
    show ?thesis
    proof (cases speeds)
      case None
      with assms Inr x i ok show ?thesis by (simp add: wheel_advance_def Let_def)
    next
      case (Some s)
      have "arithmetic (bindr (wheel_estimate (c\<lparr>w_previous := Some v\<rparr>) v s) (\<lambda>m. Inr (Some m)))" by auto
      with assms Inr x i ok Some show ?thesis by (auto simp: wheel_advance_def Let_def)
    qed
  qed
qed

lemma update_blocked: "w_blocked w \<noteq> [] \<Longrightarrow> wheel_update tr v w = (raise FeedbackError (''motion model blocked: '' @ w_blocked w), w)"
  by (simp add: wheel_update_def)

interpretation wheel: fail_stop "wheel_update tr" "\<lambda>w. w_blocked w \<noteq> []" for tr
  by unfold_locales (simp_all add: update_blocked)

text \<open>
  C37. A discontinuity or an invalid observation blocks the model: when \<open>update\<close> raises \<open>FeedbackError\<close> the
  pose and the last sample are those before the call, and every later update raises and changes nothing,
  until the explicit reset.\<close>

theorem wheel_failure_latches:
  assumes "wheel_update tr v w = (Inl e, w')" "exn_of e = FeedbackError"
  shows "w_x w' = w_x w \<and> w_y w' = w_y w \<and> w_yaw w' = w_yaw w \<and> w_previous w' = w_previous w
    \<and> list_all isl (run_outs (wheel_update tr) vs w') \<and> run_state (wheel_update tr) vs w' = w'
    \<and> w_blocked (wheel_reset w') = []"
proof -
  have b: "w_blocked w' \<noteq> [] \<and> (\<exists>m. w' = w\<lparr>w_blocked := m\<rparr>)"
  proof (cases "w_blocked w = []")
    case True
    obtain r c where a: "wheel_advance tr v w = (r, c)" by (cases "wheel_advance tr v w")
    with assms True have r: "r = Inl e" by (auto simp: wheel_update_def split: sum.splits)
    with advance_failure [of tr v w e c] a assms True show ?thesis by (auto simp: wheel_update_def)
  next
    case False
    with assms(1) have "w' = w" by (simp add: update_blocked)
    with False show ?thesis by (intro conjI exI [of _ "w_blocked w"]) simp_all
  qed
  then have "run_state (wheel_update tr) vs w' = w'"
    by (induction vs) (simp_all add: update_blocked)
  with b wheel.run_failed_raises [of w' tr vs] show ?thesis
    by (auto simp: list_all_iff wheel_reset_def)
qed

section \<open>One stream\<close>

fun estimates :: "(exc + motion_estimate option) list \<Rightarrow> motion_estimate list" where
  "estimates [] = []"
| "estimates (Inr (Some m) # rs) = m # estimates rs"
| "estimates (_ # rs) = estimates rs"

lemma estimates_Cons: "estimates (r # rs) = (case r of Inr (Some m) \<Rightarrow> m # estimates rs | _ \<Rightarrow> estimates rs)"
  by (cases r; cases "projr r") auto

definition follows :: "wheel_observation \<Rightarrow> wheel_odometry \<Rightarrow> bool" where
  "follows v w \<longleftrightarrow> (\<forall>p. w_previous w = Some p \<longrightarrow> wo_epoch v = wo_epoch p \<and> int_of (wo_stamp p) < int_of (wo_stamp v)
     \<and> int_of (wo_sequence p) < int_of (wo_sequence v))"

lemma motion_follows: "wheel_motion w v = Inr x \<Longrightarrow> follows v w"
  by (auto simp: wheel_motion_def follows_def Let_def result_simps split: if_splits)

lemma integrate_previous: "w_previous (snd (wheel_integrate tr t w)) = w_previous w"
  by (auto simp: wheel_integrate_def Let_def split: prod.splits sum.splits)

text \<open>An update keeps the last sample, or replaces it by one that follows it.\<close>

lemma update_previous:
  assumes "wheel_update tr v w = (r, w')"
  shows "(w_previous w' = Some v \<and> follows v w \<and> (\<forall>m. r = Inr (Some m) \<longrightarrow> me_stamp m = wo_stamp v \<and> me_epoch m = wo_epoch v))
    \<or> (w_previous w' = w_previous w \<and> isl r)"
proof (cases "w_blocked w = [] \<and> \<not> isl (wheel_motion w v)")
  case False
  with assms show ?thesis
    by (cases "wheel_motion w v") (auto simp: wheel_update_def wheel_advance_def split: if_splits)
next
  case True
  then obtain travel speeds where m: "wheel_motion w v = Inr (travel, speeds)" by (cases "wheel_motion w v") auto
  let ?i = "case travel of None \<Rightarrow> (Inr (), w) | Some t \<Rightarrow> wheel_integrate tr t w"
  obtain q c where i: "?i = (q, c)" by (cases ?i) auto
  have c: "w_previous c = w_previous w"
    using i integrate_previous [of tr _ w] by (cases travel) (auto, metis snd_conv)
  show ?thesis
  proof (cases q)
    case (Inl e)
    with assms True m i c show ?thesis by (auto simp: wheel_update_def wheel_advance_def split: if_splits)
  next
    case (Inr u)
    show ?thesis
    proof (cases speeds)
      case None
      with assms True m i c Inr motion_follows [OF m] show ?thesis by (auto simp: wheel_update_def wheel_advance_def Let_def)
    next
      case (Some s)
      obtain z where z: "wheel_estimate (c\<lparr>w_previous := Some v\<rparr>) v s = z" by simp
      have "\<forall>n. z = Inr n \<longrightarrow> me_stamp n = wo_stamp v \<and> me_epoch n = wo_epoch v"
        unfolding z [symmetric] by (auto simp: wheel_estimate_def Let_def result_simps split: prod.splits)
      with assms True m i c Inr Some z motion_follows [OF m] show ?thesis
        by (cases z) (auto simp: wheel_update_def wheel_advance_def Let_def split: if_splits)
    qed
  qed
qed

definition ordered_after :: "wheel_odometry \<Rightarrow> motion_estimate list \<Rightarrow> bool" where
  "ordered_after w ms \<longleftrightarrow> sorted_wrt (<) (map (\<lambda>m. int_of (me_stamp m)) ms)
     \<and> (case w_previous w of None \<Rightarrow> \<exists>epoch. set (map me_epoch ms) \<subseteq> {epoch}
        | Some p \<Rightarrow> \<forall>m \<in> set ms. int_of (wo_stamp p) < int_of (me_stamp m) \<and> me_epoch m = wo_epoch p)"

lemma ordered_after_follows:
  assumes "ordered_after c ms" "w_previous c = Some v" "follows v w"
  shows "ordered_after w ms" "me_stamp m = wo_stamp v \<Longrightarrow> me_epoch m = wo_epoch v \<Longrightarrow> ordered_after w (m # ms)"
proof -
  have all: "\<forall>m \<in> set ms. int_of (wo_stamp v) < int_of (me_stamp m) \<and> me_epoch m = wo_epoch v"
    and sorted: "sorted_wrt (<) (map (\<lambda>m. int_of (me_stamp m)) ms)"
    using assms(1,2) by (simp_all add: ordered_after_def)
  show "ordered_after w ms"
  proof (cases "w_previous w")
    case None
    with all sorted show ?thesis by (auto simp: ordered_after_def)
  next
    case (Some p)
    with all sorted assms(3) show ?thesis by (auto simp: ordered_after_def follows_def)
  qed
  show "ordered_after w (m # ms)" if "me_stamp m = wo_stamp v" "me_epoch m = wo_epoch v"
  proof (cases "w_previous w")
    case None
    with all sorted that show ?thesis by (auto simp: ordered_after_def)
  next
    case (Some p)
    with all sorted assms(3) that show ?thesis by (auto simp: ordered_after_def follows_def)
  qed
qed

lemma run_ordered: "ordered_after w (estimates (run_outs (wheel_update tr) vs w))"
proof (induction vs arbitrary: w)
  case Nil
  then show ?case by (simp add: ordered_after_def split: option.splits)
next
  case (Cons v vs)
  obtain r c where u: "wheel_update tr v w = (r, c)" by (cases "wheel_update tr v w")
  note IH = Cons.IH [of c]
  from update_previous [OF u] consider
      m where "r = Inr (Some m)" "me_stamp m = wo_stamp v" "me_epoch m = wo_epoch v" "w_previous c = Some v" "follows v w"
    | "estimates (r # run_outs (wheel_update tr) vs c) = estimates (run_outs (wheel_update tr) vs c)" "w_previous c = Some v" "follows v w"
    | "estimates (r # run_outs (wheel_update tr) vs c) = estimates (run_outs (wheel_update tr) vs c)" "w_previous c = w_previous w"
    by (cases r; cases "projr r") auto
  then show ?case
  proof cases
    case 1
    with u ordered_after_follows(2) [OF IH] show ?thesis by simp
  next
    case 2
    with u ordered_after_follows(1) [OF IH] show ?thesis by simp
  next
    case 3
    with u IH show ?thesis by (simp add: ordered_after_def)
  qed
qed

text \<open>
  The estimates of any sequence of updates have strictly increasing measurement times and one
  acquisition epoch.\<close>

lemma wheel_stream_ordered:
  "sorted_wrt (<) (map (\<lambda>m. int_of (me_stamp m)) (estimates (run_outs (wheel_update tr) vs (wheel_init g))))
    \<and> (\<exists>epoch. set (map me_epoch (estimates (run_outs (wheel_update tr) vs (wheel_init g)))) \<subseteq> {epoch})"
  using run_ordered [of "wheel_init g" tr vs] by (simp add: ordered_after_def wheel_init_def)

section \<open>An instance\<close>

definition demo_geometry :: geometry where
  "demo_geometry = \<lparr>g_left_radius = PInt 1, g_right_radius = PInt 1, g_track = PInt 1, g_left_sign = PInt 1, g_right_sign = PInt 1,
     g_left_turns = PInt 1, g_right_turns = PInt 1, g_counts = PNone, g_max_speed = PInt 1, g_max_gap = PInt 1,
     g_linear_variance = PInt 1, g_angular_variance = PInt 1\<rparr>"

definition demo_arrival :: wheel_observation where
  "demo_arrival = \<lparr>wo_stamp = PInt 1, wo_time_valid = PBool False, wo_time_source = PStr ''arrival'', wo_uncertainty = PNone,
     wo_epoch = PStr ''e'', wo_sequence = PInt 0, wo_left_rpm = PInt 0, wo_right_rpm = PInt 0, wo_left_position = PNone,
     wo_right_position = PNone, wo_bits = None\<rparr>"

theorem wheel_failure_latches_witness:
  "\<forall>tr. run_state (wheel_update tr) [demo_arrival] (snd (wheel_update tr demo_arrival (wheel_init demo_geometry)))
     = snd (wheel_update tr demo_arrival (wheel_init demo_geometry))"
proof
  fix tr
  have "wheel_update tr demo_arrival (wheel_init demo_geometry)
      = (raise FeedbackError ''common measurement time required; arrival-only feedback cannot produce odometry'',
         snd (wheel_update tr demo_arrival (wheel_init demo_geometry)))"
    by (simp add: wheel_update_def wheel_advance_def wheel_motion_def wheel_validate_def demo_arrival_def wheel_init_def integer_def)
  from wheel_failure_latches [OF this, of "[demo_arrival]"] show "run_state (wheel_update tr) [demo_arrival] (snd (wheel_update tr demo_arrival (wheel_init demo_geometry)))
     = snd (wheel_update tr demo_arrival (wheel_init demo_geometry))" by simp
qed

end
