(* ===== verification/Clock_Model.thy ===== *)
theory Clock_Model
  imports Py_Value
begin

text \<open>
  \<open>src/src/wc_sensors/metadata.py\<close>: integer time, the rational clock model, and \<open>SourceFrameBuilder\<close>,
  which numbers the frames of one sensor and opens a new stream epoch when a clock runs backwards.
  The owned copy of the points and the stream of identifiers \<open>uuid4\<close> returns are parameters.
\<close>

section \<open>Integer time\<close>

definition ns_per_second :: int where "ns_per_second = 1000000000"

definition uint64_max :: int where "uint64_max = 2 ^ 64 - 1"

definition meta_integer :: "pyval \<Rightarrow> string \<Rightarrow> int option \<Rightarrow> int option \<Rightarrow> exc + int" where
  "meta_integer v name lower upper = (case v of
       PInt i \<Rightarrow> if (case lower of None \<Rightarrow> False | Some l \<Rightarrow> i < l) then raise ValueError (name @ '' below minimum'')
                 else if (case upper of None \<Rightarrow> False | Some u \<Rightarrow> u < i) then raise ValueError (name @ '' above maximum'')
                 else Inr i
     | _ \<Rightarrow> raise TypeError (name @ '' must be an integer''))"

lemma meta_integer_ok: "meta_integer v name lower upper = Inr i \<longleftrightarrow>
    v = PInt i \<and> (\<forall>l. lower = Some l \<longrightarrow> l \<le> i) \<and> (\<forall>u. upper = Some u \<longrightarrow> i \<le> u)"
  by (auto simp: meta_integer_def split: pyval.splits option.splits)

definition normalize_time_parts :: "pyval \<Rightarrow> pyval \<Rightarrow> exc + (int \<times> int)" where
  "normalize_time_parts seconds nanoseconds =
     bindr (meta_integer seconds ''seconds'' None None) (\<lambda>s. bindr (meta_integer nanoseconds ''nanoseconds'' None None) (\<lambda>n.
     let total = s * ns_per_second + n in
     if total < 0 then raise ValueError ''negative timestamp''
     else if uint64_max < total div ns_per_second then raise ValueError ''seconds exceeds uint64''
     else Inr (total div ns_per_second, total mod ns_per_second)))"

definition timestamp_ns :: "pyval \<Rightarrow> pyval \<Rightarrow> exc + int" where
  "timestamp_ns seconds nanoseconds =
     bindr (meta_integer seconds ''seconds'' (Some 0) (Some uint64_max)) (\<lambda>s.
     bindr (meta_integer nanoseconds ''nanoseconds'' (Some 0) (Some (ns_per_second - 1))) (\<lambda>n. Inr (s * ns_per_second + n)))"

definition meta_token :: "pyval \<Rightarrow> string \<Rightarrow> exc + string" where
  "meta_token v name = (case v of
       PStr s \<Rightarrow> if s = [] \<or> list_ex (\<lambda>c. c \<in> {CHR ''/'', CHR 0x5C, CHR 0x00}) s
                 then raise ValueError (name @ '' must be a nonempty path-safe identifier'') else Inr s
     | _ \<Rightarrow> raise ValueError (name @ '' must be a nonempty path-safe identifier''))"

section \<open>The clock model\<close>

record clock_model =
  cm_id :: string
  cm_unit :: string
  cm_numerator :: int
  cm_denominator :: int
  cm_offset :: int
  cm_uncertainty :: "int option"
  cm_validated :: bool
  cm_raw_min :: int
  cm_raw_max :: "int option"

definition starts_with :: "string \<Rightarrow> string \<Rightarrow> bool" where
  "starts_with p s \<longleftrightarrow> take (length p) s = p"

text \<open>An optional field: \<open>None\<close> is kept, anything else is checked.\<close>

definition optional :: "(pyval \<Rightarrow> exc + 'a) \<Rightarrow> pyval \<Rightarrow> exc + 'a option" where
  "optional f v = (if v = PNone then Inr None else bindr (f v) (\<lambda>x. Inr (Some x)))"

definition clock_model_init :: "pyval \<Rightarrow> string \<Rightarrow> pyval \<Rightarrow> pyval \<Rightarrow> pyval \<Rightarrow> pyval \<Rightarrow> pyval \<Rightarrow> pyval \<Rightarrow> pyval \<Rightarrow> exc + clock_model" where
  "clock_model_init model_id unt numerator denominator offset uncertainty validated raw_min raw_max =
     bindr (meta_token model_id ''model_id'') (\<lambda>mid.
     if unt = [] \<or> starts_with ''UNKNOWN'' unt then raise ValueError ''clock model requires a known source unit''
     else bindr (meta_integer numerator ''scale_numerator'' (Some 1) None) (\<lambda>num.
     bindr (meta_integer denominator ''scale_denominator'' (Some 1) None) (\<lambda>den.
     bindr (meta_integer offset ''offset_ns'' None None) (\<lambda>off.
     bindr (meta_integer raw_min ''valid_raw_min'' (Some 0) None) (\<lambda>lower.
     bindr (optional (\<lambda>v. meta_integer v ''valid_raw_max'' (Some lower) None) raw_max) (\<lambda>upper.
     bindr (optional (\<lambda>v. meta_integer v ''uncertainty_ns'' (Some 0) None) uncertainty) (\<lambda>unc.
     case validated of
       PBool ok \<Rightarrow> Inr \<lparr>cm_id = mid, cm_unit = unt, cm_numerator = num, cm_denominator = den, cm_offset = off,
                        cm_uncertainty = unc, cm_validated = ok, cm_raw_min = lower, cm_raw_max = upper\<rparr>
     | _ \<Rightarrow> raise TypeError ''validated must be bool'')))))))"

definition clock_convert :: "clock_model \<Rightarrow> pyval \<Rightarrow> string \<Rightarrow> exc + int" where
  "clock_convert m raw unt = bindr (meta_integer raw ''raw'' (Some 0) None) (\<lambda>r.
     if unt \<noteq> cm_unit m then raise ValueError ''clock model source unit mismatch''
     else if r < cm_raw_min m \<or> (case cm_raw_max m of None \<Rightarrow> False | Some u \<Rightarrow> u < r)
     then raise ValueError ''clock model outside validity interval''
     else let t = r * cm_numerator m div cm_denominator m + cm_offset m in
     if t < 0 then raise ValueError ''clock model produced negative time'' else Inr t)"

section \<open>Source frames\<close>

record 'p source_frame =
  sf_session :: string
  sf_side :: string
  sf_sensor :: string
  sf_epoch :: string
  sf_sequence :: nat
  sf_points :: 'p
  sf_frame_id :: string
  sf_raw :: "int option"
  sf_unit :: string
  sf_host :: int
  sf_monotonic :: int
  sf_common :: int
  sf_model :: "string option"
  sf_time_valid :: bool
  sf_uncertainty :: "int option"
  sf_time_source :: string
  sf_config :: string
  sf_key :: string
  sf_flags :: "string list"
  sf_epoch_reason :: string

record builder =
  sb_session :: string
  sb_side :: string
  sb_sensor :: string
  sb_frame :: string
  sb_config :: string
  sb_model :: "clock_model option"
  sb_epoch :: string
  sb_sequence :: nat
  sb_raw :: "int option"
  sb_host :: "int option"
  sb_monotonic :: "int option"
  sb_unit :: "string option"
  sb_reason :: string
  sb_drawn :: nat  \<comment> \<open>identifiers taken from \<open>uuid4\<close>\<close>

definition builder_init :: "(nat \<Rightarrow> string) \<Rightarrow> nat \<Rightarrow> pyval \<Rightarrow> string \<Rightarrow> pyval \<Rightarrow> pyval \<Rightarrow> pyval \<Rightarrow> clock_model option \<Rightarrow> exc + builder" where
  "builder_init uuid n session side sensor frame_id config model =
     bindr (meta_token session ''session_id'') (\<lambda>ses.
     if side \<noteq> ''left'' \<and> side \<noteq> ''right'' then raise ValueError ''side must be left or right''
     else bindr (meta_token sensor ''sensor_id'') (\<lambda>sen.
     case frame_id of
       PStr fid \<Rightarrow>
         if fid = [] \<or> starts_with ''/'' fid \<or> list_ex (\<lambda>c. py_space c \<or> c = CHR 0x00) fid
         then raise ValueError ''frame_id must be a nonempty relative TF frame name''
         else (case config of
           PStr c \<Rightarrow> if c = [] then raise ValueError ''source_config_hash must be explicit''
             else Inr \<lparr>sb_session = ses, sb_side = side, sb_sensor = sen, sb_frame = fid, sb_config = c, sb_model = model,
                       sb_epoch = uuid n, sb_sequence = 0, sb_raw = None, sb_host = None, sb_monotonic = None,
                       sb_unit = None, sb_reason = ''stream_start'', sb_drawn = n + 1\<rparr>
         | _ \<Rightarrow> raise ValueError ''source_config_hash must be explicit'')
     | _ \<Rightarrow> raise ValueError ''frame_id must be a nonempty relative TF frame name''))"

definition builder_reset :: "(nat \<Rightarrow> string) \<Rightarrow> string \<Rightarrow> builder \<Rightarrow> builder" where
  "builder_reset uuid reason b = b\<lparr>sb_epoch := uuid (sb_drawn b), sb_drawn := sb_drawn b + 1, sb_sequence := 0, sb_raw := None,
     sb_host := None, sb_monotonic := None, sb_unit := None, sb_reason := reason, sb_model := None\<rparr>"

definition builder_restart :: "(nat \<Rightarrow> string) \<Rightarrow> pyval \<Rightarrow> builder \<Rightarrow> (exc + unit) \<times> builder" where
  "builder_restart uuid reason b = (case reason of
       PStr r \<Rightarrow> if r = [] then (raise ValueError ''restart reason required'', b) else (Inr (), builder_reset uuid r b)
     | _ \<Rightarrow> (raise ValueError ''restart reason required'', b))"

fun below :: "int option \<Rightarrow> int option \<Rightarrow> bool" where
  "below (Some x) (Some y) = (x < y)"
| "below _ _ = False"

definition backward_flags :: "builder \<Rightarrow> int option \<Rightarrow> string \<Rightarrow> int \<Rightarrow> int \<Rightarrow> string list" where
  "backward_flags b raw unt host monotonic =
     (if sb_unit b \<noteq> None \<and> sb_unit b \<noteq> Some unt then [''device_timestamp_unit_changed''] else [])
     @ (if below raw (sb_raw b) then [''device_time_backward_or_wrap''] else [])
     @ (if below (Some host) (sb_host b) then [''host_clock_backward''] else [])
     @ (if below (Some monotonic) (sb_monotonic b) then [''monotonic_clock_backward''] else [])"

text \<open>The common time, its validity, uncertainty, model, source and flags.\<close>

definition common_time :: "clock_model option \<Rightarrow> int option \<Rightarrow> string \<Rightarrow> int
    \<Rightarrow> int \<times> bool \<times> int option \<times> string option \<times> string \<times> string list" where
  "common_time model raw unt host = (case (model, raw) of
       (Some m, Some r) \<Rightarrow>
         (case clock_convert m (PInt r) unt of
            Inr t \<Rightarrow> (case cm_uncertainty m of
                Some u \<Rightarrow> if cm_validated m then (t, True, Some u, Some (cm_id m), ''validated_model'', [])
                    else (host, False, None, Some (cm_id m), ''arrival_only'', [''clock_model_unvalidated_or_uncertainty_unknown''])
              | None \<Rightarrow> (host, False, None, Some (cm_id m), ''arrival_only'', [''clock_model_unvalidated_or_uncertainty_unknown'']))
          | Inl _ \<Rightarrow> (host, False, None, Some (cm_id m), ''arrival_only'', [''clock_model_not_applicable'']))
     | _ \<Rightarrow> (host, False, None, None, ''arrival_only'', []))"

definition build :: "(nat \<Rightarrow> string) \<Rightarrow> ('a \<Rightarrow> exc + 'p) \<Rightarrow> 'a \<Rightarrow> pyval \<Rightarrow> pyval \<Rightarrow> pyval \<Rightarrow> pyval
    \<Rightarrow> builder \<Rightarrow> (exc + 'p source_frame) \<times> builder" where
  "build uuid copy_points points device_raw device_unit host_ns monotonic_ns b =
     (case bindr (meta_integer host_ns ''host_receive_ns'' (Some 0) None) (\<lambda>host.
        bindr (meta_integer monotonic_ns ''host_monotonic_ns'' (Some 0) None) (\<lambda>monotonic.
        bindr (optional (\<lambda>v. meta_integer v ''device_timestamp_raw'' (Some 0) None) device_raw) (\<lambda>raw.
        bindr (case device_unit of PStr u \<Rightarrow> if u = [] then raise ValueError ''device_timestamp_unit required, UNKNOWN is allowed'' else Inr u
             | _ \<Rightarrow> raise ValueError ''device_timestamp_unit required, UNKNOWN is allowed'') (\<lambda>unt.
        bindr (copy_points points) (\<lambda>owned. Inr (host, monotonic, raw, unt, owned)))))) of
       Inl e \<Rightarrow> (Inl e, b)
     | Inr (host, monotonic, raw, unt, owned) \<Rightarrow>
         let flags = backward_flags b raw unt host monotonic;
             repeated = (flags = [] \<and> raw \<noteq> None \<and> raw = sb_raw b);
             b = (if flags \<noteq> [] then builder_reset uuid (join_with '';'' flags) b else b);
             (common, valid, uncertainty, model_id, source, clock_flags) = common_time (sb_model b) raw unt host
         in (Inr \<lparr>sf_session = sb_session b, sf_side = sb_side b, sf_sensor = sb_sensor b, sf_epoch = sb_epoch b,
                  sf_sequence = sb_sequence b, sf_points = owned, sf_frame_id = sb_frame b, sf_raw = raw, sf_unit = unt,
                  sf_host = host, sf_monotonic = monotonic, sf_common = common, sf_model = model_id, sf_time_valid = valid,
                  sf_uncertainty = uncertainty, sf_time_source = source, sf_config = sb_config b,
                  sf_key = sb_sensor b @ ''/'' @ sb_epoch b @ ''/'' @ show_int (int (sb_sequence b)),
                  sf_flags = flags @ (if repeated then [''duplicate_device_timestamp''] else []) @ clock_flags,
                  sf_epoch_reason = sb_reason b\<rparr>,
             b\<lparr>sb_sequence := sb_sequence b + 1, sb_raw := raw, sb_host := Some host, sb_monotonic := Some monotonic, sb_unit := Some unt\<rparr>))"

section \<open>What the model of a clock guarantees\<close>

lemma normalize_exact:
  assumes "normalize_time_parts (PInt s) (PInt n) = Inr (s', n')"
  shows "timestamp_ns (PInt s') (PInt n') = Inr (s * ns_per_second + n)"
  using assms by (auto simp: normalize_time_parts_def timestamp_ns_def meta_integer_def ns_per_second_def Let_def split: if_splits)

lemma init_positive:
  assumes "clock_model_init i u n d off unc v lo hi = Inr m"
  shows "0 < cm_numerator m" "0 < cm_denominator m" "0 \<le> cm_raw_min m"
  using assms by (cases v; auto simp: clock_model_init_def meta_integer_ok result_simps split: if_splits)+

lemma floor_bounds:
  fixes a d :: int
  assumes "0 < d"
  shows "a div d * d \<le> a" "a < (a div d + 1) * d"
proof -
  have "a = a div d * d + a mod d" by simp
  then show "a div d * d \<le> a" "a < (a div d + 1) * d"
    using pos_mod_sign [OF assms, of a] pos_mod_bound [OF assms, of a] by (simp_all only: distrib_right mult_1)
qed

text \<open>
  A constructed clock model converts a raw device time to the largest integer not above the exact
  rational time, within its validity interval, never negative; later raw times never convert to earlier ones.\<close>

lemma clock_convert_exact:
  assumes "clock_model_init i u n d off unc v lo hi = Inr m"
    and "clock_convert m (PInt r) u = Inr t" and "clock_convert m (PInt r') u = Inr t'"
  shows "cm_raw_min m \<le> r \<and> 0 \<le> t \<and> (t - cm_offset m) * cm_denominator m \<le> r * cm_numerator m
    \<and> r * cm_numerator m < (t - cm_offset m + 1) * cm_denominator m \<and> (t < t' \<longrightarrow> r < r')"
proof -
  note pos = init_positive [OF assms(1)]
  have shape: "t = r * cm_numerator m div cm_denominator m + cm_offset m" "t' = r' * cm_numerator m div cm_denominator m + cm_offset m"
    "cm_raw_min m \<le> r" "0 \<le> t"
    using assms(2,3) by (auto simp: clock_convert_def meta_integer_def Let_def split: if_splits)
  have "r < r'" if "t < t'"
  proof (rule ccontr)
    assume "\<not> r < r'"
    then have "r' * cm_numerator m div cm_denominator m \<le> r * cm_numerator m div cm_denominator m"
      using pos by (intro zdiv_mono1 mult_right_mono) auto
    with that show False by (simp add: shape)
  qed
  moreover note floor_bounds [OF pos(2), of "r * cm_numerator m"]
  ultimately show ?thesis using shape by auto
qed

section \<open>Epochs and sequence numbers\<close>

text \<open>What \<open>build\<close> does: it raises and changes nothing, or returns the next frame of the epoch, or opens a
  new epoch, which no clock model covers.\<close>

definition next_frame :: "(nat \<Rightarrow> string) \<Rightarrow> builder \<Rightarrow> 'p source_frame \<Rightarrow> builder \<Rightarrow> bool" where
  "next_frame uuid b f b' \<longleftrightarrow>
     sf_epoch f = sb_epoch b' \<and> sb_sequence b' = sf_sequence f + 1 \<and> sb_host b' = Some (sf_host f) \<and> sb_monotonic b' = Some (sf_monotonic f)
     \<and> (if sb_epoch b' = sb_epoch b \<and> sb_drawn b' = sb_drawn b
        then sf_sequence f = sb_sequence b \<and> \<not> below (Some (sf_host f)) (sb_host b) \<and> \<not> below (Some (sf_monotonic f)) (sb_monotonic b)
          \<and> sb_model b' = sb_model b \<and> (sf_time_valid f \<longrightarrow> sb_model b \<noteq> None)
        else sb_epoch b' = uuid (sb_drawn b) \<and> sb_drawn b' = sb_drawn b + 1 \<and> sf_sequence f = 0 \<and> sb_model b' = None \<and> \<not> sf_time_valid f)"

lemma common_time_valid: "common_time model raw unt host = (c, True, rest) \<Longrightarrow> model \<noteq> None"
  by (auto simp: common_time_def split: option.splits)

lemma build_cases:
  obtains (raised) e where "build uuid cp pts raw unt host mon b = (Inl e, b)"
  | (frame) f b' where "build uuid cp pts raw unt host mon b = (Inr f, b')" "next_frame uuid b f b'"
proof -
  obtain out b' where s: "build uuid cp pts raw unt host mon b = (out, b')" by (cases "build uuid cp pts raw unt host mon b")
  show ?thesis
  proof (cases out)
    case (Inl e)
    with s have "b' = b" by (auto simp: build_def Let_def split: sum.splits prod.splits)
    with s Inl show ?thesis by (auto intro: raised)
  next
    case (Inr f)
    let ?read = "bindr (meta_integer host ''host_receive_ns'' (Some 0) None) (\<lambda>host.
        bindr (meta_integer mon ''host_monotonic_ns'' (Some 0) None) (\<lambda>monotonic.
        bindr (optional (\<lambda>v. meta_integer v ''device_timestamp_raw'' (Some 0) None) raw) (\<lambda>raw.
        bindr (case unt of PStr u \<Rightarrow> if u = [] then raise ValueError ''device_timestamp_unit required, UNKNOWN is allowed'' else Inr u
             | _ \<Rightarrow> raise ValueError ''device_timestamp_unit required, UNKNOWN is allowed'') (\<lambda>unt.
        bindr (cp pts) (\<lambda>owned. Inr (host, monotonic, raw, unt, owned))))))"
    from s Inr obtain x where r: "?read = Inr x" by (cases ?read) (simp_all add: build_def)
    obtain h m rw u owned where x: "x = (h, m, rw, u, owned)" by (cases x) auto
    define flags where "flags = backward_flags b rw u h m"
    define c where "c = (if flags \<noteq> [] then builder_reset uuid (join_with '';'' flags) b else b)"
    obtain common valid uncertainty model_id source cf where t: "common_time (sb_model c) rw u h = (common, valid, uncertainty, model_id, source, cf)"
      by (cases "common_time (sb_model c) rw u h") auto
    have f: "sf_epoch f = sb_epoch c" "sf_sequence f = sb_sequence c" "sf_host f = h" "sf_monotonic f = m" "sf_time_valid f = valid"
      "b' = c\<lparr>sb_sequence := sb_sequence c + 1, sb_raw := rw, sb_host := Some h, sb_monotonic := Some m, sb_unit := Some u\<rparr>"
      using s [unfolded build_def r x sum.case prod.case Let_def, folded flags_def, folded c_def, unfolded t prod.case] Inr by auto
    have "next_frame uuid b f b'"
    proof (cases "flags = []")
      case True
      then have "c = b" "\<not> below (Some h) (sb_host b)" "\<not> below (Some m) (sb_monotonic b)"
        by (auto simp: c_def flags_def backward_flags_def split: if_splits)
      with f t show ?thesis by (auto simp: next_frame_def dest: common_time_valid)
    next
      case False
      then have c: "sb_epoch c = uuid (sb_drawn b)" "sb_drawn c = sb_drawn b + 1" "sb_sequence c = 0" "sb_model c = None"
        by (simp_all add: c_def builder_reset_def)
      with f t show ?thesis by (auto simp: next_frame_def dest: common_time_valid)
    qed
    with s Inr show ?thesis by (auto intro: frame)
  qed
qed

datatype 'a builder_op = Build 'a pyval pyval pyval pyval | Restart pyval

fun builder_step :: "(nat \<Rightarrow> string) \<Rightarrow> ('a \<Rightarrow> exc + 'p) \<Rightarrow> 'a builder_op \<Rightarrow> builder \<Rightarrow> (exc + 'p source_frame option) \<times> builder" where
  "builder_step uuid cp (Build pts raw unt host mon) b =
     (case build uuid cp pts raw unt host mon b of (r, b) \<Rightarrow> (bindr r (\<lambda>f. Inr (Some f)), b))"
| "builder_step uuid cp (Restart reason) b = (case builder_restart uuid reason b of (r, b) \<Rightarrow> (bindr r (\<lambda>_. Inr None), b))"

fun built :: "(exc + 'p source_frame option) list \<Rightarrow> 'p source_frame list" where
  "built [] = []"
| "built (Inr (Some f) # rs) = f # built rs"
| "built (_ # rs) = built rs"

text \<open>The frames still to come from a builder, and the order of the frames of one epoch.\<close>

definition to_come :: "(nat \<Rightarrow> string) \<Rightarrow> builder \<Rightarrow> 'p source_frame \<Rightarrow> bool" where
  "to_come uuid b f \<longleftrightarrow>
     (sf_epoch f = sb_epoch b \<and> sb_sequence b \<le> sf_sequence f \<and> \<not> below (Some (sf_host f)) (sb_host b)
       \<and> \<not> below (Some (sf_monotonic f)) (sb_monotonic b) \<and> (sf_time_valid f \<longrightarrow> sb_model b \<noteq> None))
     \<or> ((\<exists>k \<ge> sb_drawn b. sf_epoch f = uuid k) \<and> \<not> sf_time_valid f)"

definition later_frame :: "'p source_frame \<Rightarrow> 'p source_frame \<Rightarrow> bool" where
  "later_frame f g \<longleftrightarrow> (sf_epoch f = sf_epoch g \<longrightarrow>
     sf_sequence f < sf_sequence g \<and> sf_host f \<le> sf_host g \<and> sf_monotonic f \<le> sf_monotonic g)"

definition drawn_ok :: "(nat \<Rightarrow> string) \<Rightarrow> builder \<Rightarrow> bool" where
  "drawn_ok uuid b \<longleftrightarrow> (\<exists>k < sb_drawn b. sb_epoch b = uuid k)"

lemma fresh_epoch: "inj uuid \<Longrightarrow> drawn_ok uuid b \<Longrightarrow> sb_drawn b \<le> k \<Longrightarrow> uuid k \<noteq> sb_epoch b"
proof
  assume "inj uuid" "drawn_ok uuid b" "sb_drawn b \<le> k" "uuid k = sb_epoch b"
  then obtain i where "i < sb_drawn b" "uuid k = uuid i" by (auto simp: drawn_ok_def)
  with \<open>inj uuid\<close> \<open>sb_drawn b \<le> k\<close> show False by (simp add: inj_eq)
qed

lemma next_frame_steps:
  assumes inj: "inj uuid" and ok: "drawn_ok uuid b" and n: "next_frame uuid b f b'"
  shows "drawn_ok uuid b'" "to_come uuid b f"
    "to_come uuid b' g \<Longrightarrow> to_come uuid b g \<and> later_frame f g"
proof -
  show "drawn_ok uuid b'"
    using ok n by (auto simp: next_frame_def drawn_ok_def less_Suc_eq split: if_splits)
  show "to_come uuid b f"
    using n by (auto simp: next_frame_def to_come_def split: if_splits)
  assume g: "to_come uuid b' g"
  have new: "uuid k \<noteq> sb_epoch b" if "sb_drawn b \<le> k" for k by (rule fresh_epoch [OF inj ok that])
  show "to_come uuid b g \<and> later_frame f g"
  proof (cases "sb_epoch b' = sb_epoch b \<and> sb_drawn b' = sb_drawn b")
    case True
    with n have n: "sf_epoch f = sb_epoch b" "sf_sequence f = sb_sequence b" "sb_sequence b' = Suc (sb_sequence b)" "sb_host b' = Some (sf_host f)"
        "sb_monotonic b' = Some (sf_monotonic f)" "\<not> below (Some (sf_host f)) (sb_host b)" "\<not> below (Some (sf_monotonic f)) (sb_monotonic b)"
        "sb_model b' = sb_model b"
      by (auto simp: next_frame_def)
    from g [unfolded to_come_def] show ?thesis
    proof (elim disjE)
      assume "sf_epoch g = sb_epoch b' \<and> sb_sequence b' \<le> sf_sequence g \<and> \<not> below (Some (sf_host g)) (sb_host b')
       \<and> \<not> below (Some (sf_monotonic g)) (sb_monotonic b') \<and> (sf_time_valid g \<longrightarrow> sb_model b' \<noteq> None)"
      with n True show ?thesis
        by (cases "sb_host b"; cases "sb_monotonic b") (auto simp: to_come_def later_frame_def)
    next
      assume a: "(\<exists>k \<ge> sb_drawn b'. sf_epoch g = uuid k) \<and> \<not> sf_time_valid g"
      then have "sf_epoch g \<noteq> sb_epoch b" using True new by metis
      with a True n(1) show ?thesis by (auto simp: to_come_def later_frame_def)
    qed
  next
    case False
    with n have n: "sf_epoch f = uuid (sb_drawn b)" "sb_epoch b' = uuid (sb_drawn b)" "sb_drawn b' = Suc (sb_drawn b)" "sf_sequence f = 0"
        "sb_sequence b' = 1" "sb_host b' = Some (sf_host f)" "sb_monotonic b' = Some (sf_monotonic f)" "sb_model b' = None"
      by (auto simp: next_frame_def split: if_splits)
    from g [unfolded to_come_def] show ?thesis
    proof (elim disjE)
      assume "sf_epoch g = sb_epoch b' \<and> sb_sequence b' \<le> sf_sequence g \<and> \<not> below (Some (sf_host g)) (sb_host b')
       \<and> \<not> below (Some (sf_monotonic g)) (sb_monotonic b') \<and> (sf_time_valid g \<longrightarrow> sb_model b' \<noteq> None)"
      with n show ?thesis by (auto simp: to_come_def later_frame_def)
    next
      assume a: "(\<exists>k \<ge> sb_drawn b'. sf_epoch g = uuid k) \<and> \<not> sf_time_valid g"
      then obtain k where k: "sb_drawn b' \<le> k" "sf_epoch g = uuid k" by blast
      then have "sb_drawn b < k" using n by simp
      with a k n inj show ?thesis by (auto simp: to_come_def later_frame_def inj_eq)
    qed
  qed
qed

lemma reset_steps:
  assumes "inj uuid" "drawn_ok uuid b"
  shows "drawn_ok uuid (builder_reset uuid r b)" "to_come uuid (builder_reset uuid r b) g \<Longrightarrow> to_come uuid b g"
  using assms by (auto simp: builder_reset_def drawn_ok_def to_come_def intro: exI [of _ "sb_drawn b"] dest: Suc_leD)

lemma run_frames:
  assumes "inj uuid"
  shows "drawn_ok uuid b \<Longrightarrow> sorted_wrt later_frame (built (run_outs (builder_step uuid cp) ops b))
    \<and> (\<forall>f \<in> set (built (run_outs (builder_step uuid cp) ops b)). to_come uuid b f)"
proof (induction ops arbitrary: b)
  case Nil
  then show ?case by simp
next
  case (Cons e es)
  show ?case
  proof (cases e)
    case (Build pts raw unt host mon)
    show ?thesis
    proof (cases rule: build_cases [of uuid cp pts raw unt host mon b])
      case (raised x)
      with Build Cons show ?thesis by simp
    next
      case (frame f b')
      note s = next_frame_steps [OF assms Cons.prems frame(2)]
      from Cons.IH [OF s(1)] Build frame(1) s(2,3) show ?thesis by auto
    qed
  next
    case (Restart reason)
    consider x where "builder_step uuid cp e b = (Inl x, b)"
      | r where "builder_step uuid cp e b = (Inr None, builder_reset uuid r b)"
    proof (cases "\<exists>r. reason = PStr r \<and> r \<noteq> []")
      case True
      with Restart that(2) show ?thesis by (auto simp: builder_restart_def)
    next
      case False
      with Restart that(1) show ?thesis by (cases reason) (auto simp: builder_restart_def)
    qed
    then show ?thesis
    proof cases
      case 1
      with Cons show ?thesis by simp
    next
      case 2
      with Cons.IH [OF reset_steps(1) [OF assms Cons.prems]] reset_steps(2) [OF assms Cons.prems] show ?thesis by auto
    qed
  qed
qed

text \<open>
  C38. The frames of one builder, whatever the clocks and restarts: within an epoch sequence numbers
  strictly increase and host and monotonic times never run backwards, no epoch and sequence pair repeats,
  and only frames of the first epoch can carry a validated common time.\<close>

theorem builder_epochs_sound:
  assumes "inj uuid" and "builder_init uuid n session side sensor frame_id config model = Inr b"
  shows "sorted_wrt later_frame (built (run_outs (builder_step uuid cp) ops b))
    \<and> distinct (map (\<lambda>f. (sf_epoch f, sf_sequence f)) (built (run_outs (builder_step uuid cp) ops b)))
    \<and> (\<forall>f \<in> set (built (run_outs (builder_step uuid cp) ops b)). sf_time_valid f \<longrightarrow> sf_epoch f = uuid n \<and> model \<noteq> None)"
proof -
  have b: "drawn_ok uuid b \<and> sb_epoch b = uuid n \<and> sb_model b = model"
    using assms(2) by (cases frame_id; cases config; auto simp: builder_init_def result_simps drawn_ok_def split: if_splits)+
  note r = run_frames [OF assms(1), of b cp ops]
  have dist: "distinct (map (\<lambda>f. (sf_epoch f, sf_sequence f)) fs)" if "sorted_wrt later_frame fs" for fs :: "'a source_frame list"
    using that by (induction fs) (auto simp: later_frame_def)
  from r b dist show ?thesis by (auto simp: to_come_def)
qed

text \<open>One source, restarted once.\<close>

definition demo_uuid :: "nat \<Rightarrow> string" where "demo_uuid n = replicate n CHR ''a''"

definition demo_builder :: builder where
  "demo_builder = \<lparr>sb_session = ''s'', sb_side = ''left'', sb_sensor = ''A'', sb_frame = ''f'', sb_config = ''c'', sb_model = None,
     sb_epoch = demo_uuid 0, sb_sequence = 0, sb_raw = None, sb_host = None, sb_monotonic = None, sb_unit = None,
     sb_reason = ''stream_start'', sb_drawn = 1\<rparr>"

theorem builder_epochs_sound_witness:
  "distinct (map (\<lambda>f. (sf_epoch f, sf_sequence f)) (built (run_outs (builder_step demo_uuid (\<lambda>_. Inr ()))
     [Build () PNone (PStr ''ns'') (PInt 5) (PInt 5), Restart (PStr ''x''), Build () PNone (PStr ''ns'') (PInt 4) (PInt 4)] demo_builder)))"
proof -
  have inj: "inj demo_uuid" by (rule injI) (auto simp: demo_uuid_def dest: arg_cong [of _ _ length])
  have i: "builder_init demo_uuid 0 (PStr ''s'') ''left'' (PStr ''A'') (PStr ''f'') (PStr ''c'') None = Inr demo_builder" by code_simp
  show ?thesis by (rule builder_epochs_sound [OF inj i, THEN conjunct2, THEN conjunct1])
qed

end
