(* ===== verification/Clock_Adapter.thy ===== *)
theory Clock_Adapter
  imports Clock_Model
begin

text \<open>
  \<open>src/src/wc_sensors/clock_adapter.py\<close>: a validated clock model is applied to a source frame. The frame
  and the model are dictionaries. A dictionary's \<open>deepcopy\<close> is the value itself, so the argument is not
  changed by construction.
\<close>

definition int64_max :: int where "int64_max = 2 ^ 63 - 1"

definition basis :: "string list" where
  "basis = [''independent_measurement'', ''hardware_synchronization'']"

definition changed_fields :: "string list" where
  "changed_fields = [''common_time_valid'', ''common_time_ns'', ''clock_model_id'', ''uncertainty_valid'', ''uncertainty_ns'', ''time_source'']"

definition ca_value :: "pydict \<Rightarrow> string \<Rightarrow> exc + pyval" where
  "ca_value d name = (case map_of d name of None \<Rightarrow> raise ClockAdapterError (''missing required field: '' @ name) | Some v \<Rightarrow> Inr v)"

text \<open>\<open>str.upper()\<close> on letters, which is all that the ASCII prefixes compared with can see.\<close>

definition upcase :: "string \<Rightarrow> string" where
  "upcase s = map (\<lambda>c. let n = (of_char c :: nat) in if 97 \<le> n \<and> n \<le> 122 then char_of (n - 32) else c) s"

definition unresolved :: "string \<Rightarrow> bool" where
  "unresolved s \<longleftrightarrow> list_ex (\<lambda>p. starts_with p (upcase s)) [''UNKNOWN'', ''UNVERIFIED'', ''TBD'', ''TODO'']"

definition ca_text :: "pyval \<Rightarrow> string \<Rightarrow> bool \<Rightarrow> exc + string" where
  "ca_text v name identifier = (case v of
       PStr s \<Rightarrow>
         if strip s = [] \<or> s \<noteq> strip s \<or> CHR 0x00 \<in> set s then raise ClockAdapterError (name @ '' must be an explicit nonempty string'')
         else if unresolved s then raise ClockAdapterError (name @ '' is unresolved'')
         else if identifier \<and> list_ex (\<lambda>c. py_space c \<or> c = CHR ''/'' \<or> c = CHR 0x5C) s
         then raise ClockAdapterError (name @ '' must be an unambiguous identifier'')
         else Inr s
     | _ \<Rightarrow> raise ClockAdapterError (name @ '' must be an explicit nonempty string''))"

definition ca_integer :: "pyval \<Rightarrow> string \<Rightarrow> int option \<Rightarrow> int option \<Rightarrow> exc + int" where
  "ca_integer v name lower upper = (case v of
       PInt i \<Rightarrow> if (case lower of None \<Rightarrow> False | Some l \<Rightarrow> i < l) \<or> (case upper of None \<Rightarrow> False | Some u \<Rightarrow> u < i)
                 then raise ClockAdapterError (name @ '' outside valid range'') else Inr i
     | _ \<Rightarrow> raise ClockAdapterError (name @ '' must be an integer, not float/bool''))"

lemma ca_integer_ok: "ca_integer v name lower upper = Inr i \<Longrightarrow>
    v = PInt i \<and> (\<forall>l. lower = Some l \<longrightarrow> l \<le> i) \<and> (\<forall>u. upper = Some u \<longrightarrow> i \<le> u)"
  by (cases v) (auto simp: ca_integer_def split: if_splits option.splits)

definition ca_true :: "pyval \<Rightarrow> string \<Rightarrow> exc + unit" where
  "ca_true v name = guard (v \<noteq> PBool True) ClockAdapterError (name @ '' must explicitly be true'')"

definition ca_evidence :: "pyval \<Rightarrow> string \<Rightarrow> exc + unit" where
  "ca_evidence v name = (case v of
       PList xs \<Rightarrow> if xs = [] then raise ClockAdapterError (name @ '' must contain nonempty evidence references'')
         else all_pass (map (\<lambda>x. bindr (ca_text x name False) (\<lambda>_. Inr ())) xs)
     | _ \<Rightarrow> raise ClockAdapterError (name @ '' must contain nonempty evidence references''))"

definition need :: "pydict \<Rightarrow> string \<Rightarrow> (pyval \<Rightarrow> string \<Rightarrow> exc + 'a) \<Rightarrow> exc + 'a" where
  "need d name check = bindr (ca_value d name) (\<lambda>v. check v name)"

definition is_hex64 :: "string \<Rightarrow> bool" where
  "is_hex64 s \<longleftrightarrow> length s = 64 \<and> list_all (\<lambda>c. hex_value c \<noteq> None) s"

text \<open>The declarations of the model, in the source's order.\<close>

definition model_declared :: "pydict \<Rightarrow> exc + unit" where
  "model_declared model =
     bindr (need model ''schema_version'' (\<lambda>v n. ca_integer v n (Some 0) None)) (\<lambda>schema.
     if schema \<noteq> 1 then raise ClockAdapterError ''unsupported clock model schema''
     else bindr (ca_value model ''source_mode'') (\<lambda>mode.
     bindr (if mode \<noteq> PStr ''real'' then Inr True else bindr (ca_value model ''status'') (\<lambda>s. Inr (s \<noteq> PStr ''VALIDATED''))) (\<lambda>bad.
     if bad then raise ClockAdapterError ''only externally VALIDATED real clock models are accepted''
     else bindr (need model ''validated'' ca_true) (\<lambda>_.
     bindr (all_pass (map (\<lambda>n. need model n ca_evidence) [''evidence_refs'', ''unit_evidence_refs'', ''measurement_evidence_refs''])) (\<lambda>_.
     bindr (all_pass (map (\<lambda>n. need model n ca_true) [''unit_verified'', ''measurement_semantics_verified''])) (\<lambda>_.
     bindr (need model ''measurement_semantics'' (\<lambda>v n. ca_text v n False)) (\<lambda>_.
     bindr (need model ''validation_basis'' (\<lambda>v n. ca_text v n False)) (\<lambda>b.
     guard (b \<notin> set basis) ClockAdapterError ''arrival fits or unspecified validation basis cannot establish measurement time''))))))))"

text \<open>The identities of the model and the frame, and the frame's state: native, arrival only.\<close>

definition identities_match :: "pydict \<Rightarrow> pydict \<Rightarrow> string \<Rightarrow> string \<Rightarrow> exc + unit" where
  "identities_match frame model sensor_id model_id =
     bindr (need model ''model_id'' (\<lambda>v n. ca_text v n True)) (\<lambda>m.
     if m \<noteq> model_id then raise ClockAdapterError ''clock model ID mismatch''
     else bindr (need model ''sensor_id'' (\<lambda>v n. ca_text v n True)) (\<lambda>s.
     if s \<noteq> sensor_id then raise ClockAdapterError ''model sensor identity mismatch''
     else bindr (ca_value frame ''sensor_id'') (\<lambda>fs.
     if fs \<noteq> PStr sensor_id then raise ClockAdapterError ''frame sensor identity mismatch''
     else bindr (need model ''stream_epoch'' (\<lambda>v n. ca_text v n True)) (\<lambda>epoch.
     bindr (ca_value frame ''stream_epoch'') (\<lambda>fe.
     if fe \<noteq> PStr epoch then raise ClockAdapterError ''stream epoch mismatch; reconnect/reset requires new validation''
     else bindr (need model ''source_config_hash'' (\<lambda>v n. ca_text v n False)) (\<lambda>config.
     if \<not> is_hex64 config then raise ClockAdapterError ''source_config_hash must be the native driver SHA256 hex value''
     else bindr (ca_value frame ''source_config_hash'') (\<lambda>fc.
     if fc \<noteq> PStr config then raise ClockAdapterError ''source configuration hash mismatch''
     else bindr (ca_value frame ''time_source'') (\<lambda>ts.
     if ts \<noteq> PStr ''arrival_only'' then raise ClockAdapterError ''only original arrival_only native frames may be adapted''
     else bindr (ca_value frame ''common_time_valid'') (\<lambda>cv.
     bindr (if cv \<noteq> PBool False then Inr True else bindr (ca_value frame ''uncertainty_valid'') (\<lambda>uv. Inr (uv \<noteq> PBool False))) (\<lambda>bad.
     if bad then raise ClockAdapterError ''arrival_only frame must have unknown common time and uncertainty''
     else bindr (ca_value frame ''clock_model_id'') (\<lambda>cid.
     if cid \<noteq> PStr [] then raise ClockAdapterError ''native arrival_only frame must not already name a clock model''
     else let mode = dget frame ''source_mode'' in
     guard (mode \<noteq> PNone \<and> mode \<noteq> PStr ''real'') ClockAdapterError ''synthetic/unknown frame provenance cannot use a real clock model'')))))))))))"

text \<open>The raw device time the model selects, and its unit.\<close>

definition raw_time :: "pydict \<Rightarrow> pydict \<Rightarrow> exc + (int \<times> string)" where
  "raw_time frame model =
     bindr (ca_value model ''input_timestamp'') (\<lambda>input.
     bindr (need model ''device_timestamp_unit'' (\<lambda>v n. ca_text v n False)) (\<lambda>unt.
     if input = PStr ''device_scalar'' then
       bindr (need frame ''device_timestamp_valid'' ca_true) (\<lambda>_.
       bindr (ca_value frame ''device_timestamp_unit'') (\<lambda>fu.
       if fu \<noteq> PStr unt then raise ClockAdapterError ''scalar timestamp unit mismatch''
       else bindr (need frame ''device_timestamp_raw'' (\<lambda>v n. ca_integer v n (Some 0) (Some uint64_max))) (\<lambda>raw. Inr (raw, unt))))
     else if input = PStr ''device_components_ns'' then
       bindr (need frame ''device_time_components_valid'' ca_true) (\<lambda>_.
       if unt \<noteq> ''ns'' then raise ClockAdapterError ''components model unit must be ns with explicit unit evidence''
       else bindr (need frame ''device_timestamp_seconds'' (\<lambda>v n. ca_integer v n (Some 0) (Some uint64_max))) (\<lambda>seconds.
       bindr (need frame ''device_timestamp_nanoseconds'' (\<lambda>v n. ca_integer v n (Some 0) (Some 999999999))) (\<lambda>nanos.
       bindr (timestamp_ns (PInt seconds) (PInt nanos)) (\<lambda>raw. Inr (raw, unt)))))
     else raise ClockAdapterError ''input_timestamp must explicitly select a device time representation''))"

text \<open>\<open>except (TypeError, ValueError)\<close> around the construction and the conversion.\<close>

definition as_adapter_error :: "exc + 'a \<Rightarrow> exc + 'a" where
  "as_adapter_error r = (case r of
       Inl e \<Rightarrow> Inl (if caught_by (exn_of e) TypeError \<or> caught_by (exn_of e) ValueError then Exc ClockAdapterError (msg_of e) else e)
     | Inr x \<Rightarrow> Inr x)"

definition apply_clock_model :: "pydict \<Rightarrow> pyval \<Rightarrow> pyval \<Rightarrow> pyval \<Rightarrow> exc + pydict" where
  "apply_clock_model frame model_dict expected_sensor_id expected_model_id = (case model_dict of
       PDict model \<Rightarrow>
         bindr (ca_text expected_sensor_id ''expected_sensor_id'' True) (\<lambda>sensor_id.
         bindr (ca_text expected_model_id ''expected_model_id'' True) (\<lambda>model_id.
         bindr (model_declared model) (\<lambda>_. bindr (identities_match frame model sensor_id model_id) (\<lambda>_.
         bindr (raw_time frame model) (\<lambda>(raw, unt).
         bindr (need model ''valid_raw_min'' (\<lambda>v n. ca_integer v n (Some 0) None)) (\<lambda>lower.
         bindr (need model ''valid_raw_max'' (\<lambda>v n. ca_integer v n (Some lower) None)) (\<lambda>upper.
         bindr (need model ''uncertainty_ns'' (\<lambda>v n. ca_integer v n (Some 0) (Some uint64_max))) (\<lambda>uncertainty.
         bindr (as_adapter_error (
            bindr (need model ''scale_numerator'' (\<lambda>v n. ca_integer v n (Some 1) None)) (\<lambda>num.
            bindr (need model ''scale_denominator'' (\<lambda>v n. ca_integer v n (Some 1) None)) (\<lambda>den.
            bindr (need model ''offset_ns'' (\<lambda>v n. ca_integer v n None None)) (\<lambda>off.
            bindr (clock_model_init (PStr model_id) unt (PInt num) (PInt den) (PInt off) (PInt uncertainty) (PBool True) (PInt lower) (PInt upper)) (\<lambda>m.
            clock_convert m (PInt raw) unt)))))) (\<lambda>common.
         if common < 0 \<or> int64_max < common then raise ClockAdapterError ''common_time_ns exceeds nonnegative ROS int64 range''
         else Inr (dupdate (zip changed_fields [PBool True, PInt common, PStr model_id, PBool True, PInt uncertainty, PStr ''validated_model'']) frame))))))))))
     | _ \<Rightarrow> raise ClockAdapterError ''model_dict must be a dictionary; no model loading is performed'')"

section \<open>What an adapted frame is\<close>

lemma ca_value_ok: "ca_value d n = Inr v \<Longrightarrow> dget d n = v"
  by (auto simp: ca_value_def dget_def split: option.splits)

lemma ca_text_ok: "ca_text v n b = Inr x \<Longrightarrow> v = PStr x"
  by (cases v) (auto simp: ca_text_def split: if_splits)

lemma need_text_ok: "need d n (\<lambda>v n. ca_text v n b) = Inr x \<Longrightarrow> dget d n = PStr x"
  by (auto simp: need_def result_simps dest!: ca_value_ok ca_text_ok)

lemma identities_native:
  assumes "identities_match frame model sensor_id model_id = Inr ()"
  shows "dget frame ''time_source'' = PStr ''arrival_only''" "dget frame ''sensor_id'' = PStr sensor_id"
    "dget frame ''stream_epoch'' = dget model ''stream_epoch''" "dget frame ''source_config_hash'' = dget model ''source_config_hash''"
  using assms by (auto simp: identities_match_def result_simps if_raise Let_def dest!: ca_value_ok need_text_ok)

lemma apply_ok:
  assumes "apply_clock_model frame md s i = Inr r"
  obtains model sensor_id model_id c u where "md = PDict model" "s = PStr sensor_id" "i = PStr model_id"
    "model_declared model = Inr ()" "identities_match frame model sensor_id model_id = Inr ()" "0 \<le> c" "c \<le> int64_max" "0 \<le> u"
    "r = dupdate (zip changed_fields [PBool True, PInt c, PStr model_id, PBool True, PInt u, PStr ''validated_model'']) frame"
proof -
  from assms obtain model where md: "md = PDict model" by (cases md) (auto simp: apply_clock_model_def)
  have int: "need d n (\<lambda>v n. ca_integer v n (Some 0) h) = Inr x \<Longrightarrow> 0 \<le> x" for d n h x
    by (auto simp: need_def result_simps dest: ca_integer_ok)
  from assms obtain sensor_id model_id c u where
    "s = PStr sensor_id" "i = PStr model_id" "model_declared model = Inr ()" "identities_match frame model sensor_id model_id = Inr ()"
    "\<not> (c < 0 \<or> int64_max < c)" "0 \<le> u"
    "r = dupdate (zip changed_fields [PBool True, PInt c, PStr model_id, PBool True, PInt u, PStr ''validated_model'']) frame"
    unfolding md apply_clock_model_def pyval.case
    by (auto simp: result_simps if_raise dest!: ca_text_ok int split: prod.splits)
  then show ?thesis by (intro that [OF md]) auto
qed

text \<open>
  An adapted frame is the native frame with exactly the six common-time fields replaced: the common
  time is a nonnegative 64-bit integer and names the expected model, the frame was an arrival-only
  frame of the expected sensor, and no frame can be adapted twice.\<close>

lemma clock_adapter_changes_time_only:
  assumes "apply_clock_model frame md s i = Inr r"
  shows "(\<forall>k. k \<in> set changed_fields \<or> map_of r k = map_of frame k)
    \<and> dget frame ''sensor_id'' = s \<and> dget frame ''time_source'' = PStr ''arrival_only''
    \<and> dget r ''clock_model_id'' = i \<and> dget r ''time_source'' = PStr ''validated_model'' \<and> dget r ''common_time_valid'' = PBool True
    \<and> (\<exists>c. dget r ''common_time_ns'' = PInt c \<and> 0 \<le> c \<and> c \<le> int64_max)
    \<and> isl (apply_clock_model r md' s' i')"
proof -
  obtain model sensor_id model_id c u where a: "md = PDict model" "s = PStr sensor_id" "i = PStr model_id"
    "identities_match frame model sensor_id model_id = Inr ()" "0 \<le> c" "c \<le> int64_max"
    "r = dupdate (zip changed_fields [PBool True, PInt c, PStr model_id, PBool True, PInt u, PStr ''validated_model'']) frame"
    by (rule apply_ok [OF assms])
  have r: "map_of r k = (if k \<in> set changed_fields then map_of r k else map_of frame k)" for k
    unfolding a(7) by (auto simp: changed_fields_def)
  have ts: "dget r ''time_source'' = PStr ''validated_model''" "dget r ''clock_model_id'' = PStr model_id"
    "dget r ''common_time_valid'' = PBool True" "dget r ''common_time_ns'' = PInt c"
    unfolding a(7) by (simp_all add: changed_fields_def dget_def)
  have "isl (apply_clock_model r md' s' i')"
  proof (rule ccontr)
    assume "\<not> isl (apply_clock_model r md' s' i')"
    then obtain q where "apply_clock_model r md' s' i' = Inr q" by (cases "apply_clock_model r md' s' i'") auto
    then show False by (rule apply_ok) (use ts identities_native(1) [of r] in auto)
  qed
  with a ts identities_native(1,2) [OF a(4)] r show ?thesis by metis
qed

definition demo_hash :: string where "demo_hash = replicate 64 CHR ''a''"

definition demo_model :: pydict where
  "demo_model = [(''schema_version'', PInt 1), (''source_mode'', PStr ''real''), (''status'', PStr ''VALIDATED''), (''validated'', PBool True),
     (''evidence_refs'', PList [PStr ''r'']), (''unit_evidence_refs'', PList [PStr ''r'']), (''measurement_evidence_refs'', PList [PStr ''r'']),
     (''unit_verified'', PBool True), (''measurement_semantics_verified'', PBool True), (''measurement_semantics'', PStr ''m''),
     (''validation_basis'', PStr ''hardware_synchronization''), (''model_id'', PStr ''m''), (''sensor_id'', PStr ''A''), (''stream_epoch'', PStr ''e''),
     (''source_config_hash'', PStr demo_hash), (''input_timestamp'', PStr ''device_scalar''), (''device_timestamp_unit'', PStr ''us''),
     (''valid_raw_min'', PInt 0), (''valid_raw_max'', PInt 100), (''uncertainty_ns'', PInt 5), (''scale_numerator'', PInt 1000),
     (''scale_denominator'', PInt 1), (''offset_ns'', PInt 7)]"

definition demo_native :: pydict where
  "demo_native = [(''sensor_id'', PStr ''A''), (''stream_epoch'', PStr ''e''), (''source_config_hash'', PStr demo_hash),
     (''time_source'', PStr ''arrival_only''), (''common_time_valid'', PBool False), (''uncertainty_valid'', PBool False),
     (''clock_model_id'', PStr []), (''device_timestamp_valid'', PBool True), (''device_timestamp_unit'', PStr ''us''),
     (''device_timestamp_raw'', PInt 10), (''host'', PInt 3)]"

definition demo_adapted :: "exc + pydict" where
  "demo_adapted = apply_clock_model demo_native (PDict demo_model) (PStr ''A'') (PStr ''m'')"

end
