(* ===== verification/Process_Tree.thy ===== *)
theory Process_Tree
  imports Py_Value
begin

text \<open>
  \<open>src/src/wc_runtime/component.py\<close>: a component wrapper owns the tree of processes below it. What
  \<open>/proc\<close> shows is a parameter \<open>stat\<close>: the text of \<open>/proc/<pid>/stat\<close> at the \<open>t\<close>-th read, or the exception
  of that read; it may change between any two reads. The climb to the owner may follow parents for ever
  in such a world, so it is an \<open>option\<close>; with bounded process numbers it is shown to end.
\<close>

section \<open>Process records\<close>

record proc =
  p_pid :: int
  p_parent :: int
  p_start :: string
  p_state :: string

text \<open>\<open>str.split()\<close>: the words between runs of white space.\<close>

function py_words :: "string \<Rightarrow> string list" where
  "py_words [] = []"
| "py_words (c # cs) = (if py_space c then py_words cs
     else (c # takeWhile (\<lambda>x. \<not> py_space x) cs) # py_words (dropWhile (\<lambda>x. \<not> py_space x) cs))"
  by pat_completeness auto
termination
  by (relation "measure length") (auto simp: le_imp_less_Suc length_dropWhile_le)

fun digits_value :: "nat \<Rightarrow> string \<Rightarrow> nat option" where
  "digits_value n [] = Some n"
| "digits_value n (c # cs) = (let k = (of_char c :: nat) in
     if 48 \<le> k \<and> k \<le> 57 then digits_value (10 * n + (k - 48)) cs else None)"

text \<open>\<open>int(text)\<close> of decimal digits with an optional sign, all the kernel writes.\<close>

definition parse_int :: "string \<Rightarrow> exc + int" where
  "parse_int s = (case (case s of CHR ''-'' # cs \<Rightarrow> if cs = [] then None else map_option (\<lambda>n. - int n) (digits_value 0 cs)
       | [] \<Rightarrow> None | _ \<Rightarrow> map_option int (digits_value 0 s)) of
     None \<Rightarrow> raise ValueError ''invalid literal for int()'' | Some i \<Rightarrow> Inr i)"

text \<open>\<open>value[value.rindex(')')+2:].split()\<close>.\<close>

definition stat_words :: "string \<Rightarrow> exc + string list" where
  "stat_words s = (if CHR '')'' \<notin> set s then raise ValueError ''substring not found''
     else Inr (py_words (drop 1 (rev (takeWhile (\<lambda>c. c \<noteq> CHR '')'') (rev s))))))"

definition word_at :: "string list \<Rightarrow> nat \<Rightarrow> exc + string" where
  "word_at ws n = (if n < length ws then Inr (ws ! n) else raise IndexError ''list index out of range'')"

definition parse_stat :: "int \<Rightarrow> string \<Rightarrow> exc + proc" where
  "parse_stat pid s = bindr (stat_words s) (\<lambda>ws. bindr (word_at ws 1) (\<lambda>w. bindr (parse_int w) (\<lambda>parent.
     bindr (word_at ws 19) (\<lambda>start. bindr (word_at ws 0) (\<lambda>state.
     Inr \<lparr>p_pid = pid, p_parent = parent, p_start = start, p_state = state\<rparr>)))))"

type_synonym proc_fs = "nat \<Rightarrow> int \<Rightarrow> exc + string"

definition process :: "proc_fs \<Rightarrow> nat \<Rightarrow> int \<Rightarrow> exc + proc option" where
  "process stat t pid = (case bindr (stat t pid) (parse_stat pid) of
       Inl e \<Rightarrow> if exn_of e \<in> {FileNotFoundError, ProcessLookupError} then Inr None else Inl e
     | Inr p \<Rightarrow> Inr (Some p))"

lemma process_pid: "process stat t pid = Inr (Some p) \<Longrightarrow> p_pid p = pid"
  by (auto simp: process_def parse_stat_def result_simps split: sum.splits if_splits)

section \<open>Descendants\<close>

text \<open>The snapshot is a dictionary by process number, in insertion order.\<close>

fun snapshot :: "proc_fs \<Rightarrow> nat \<Rightarrow> int list \<Rightarrow> (int \<times> proc) list \<Rightarrow> exc + (int \<times> proc) list" where
  "snapshot stat t [] acc = Inr acc"
| "snapshot stat t (pid # pids) acc = (case process stat t pid of
       Inl e \<Rightarrow> if exn_of e = PermissionError then snapshot stat (t + 1) pids acc else Inl e
     | Inr None \<Rightarrow> snapshot stat (t + 1) pids acc
     | Inr (Some p) \<Rightarrow> snapshot stat (t + 1) pids (dput (p_pid p) p acc))"

fun adopt :: "proc list \<Rightarrow> int set \<times> int list \<times> proc list \<Rightarrow> int set \<times> int list \<times> proc list" where
  "adopt [] s = s"
| "adopt (r # rs) (owned, pending, result) =
     adopt rs (if p_pid r \<in> owned then (owned, pending, result)
               else (insert (p_pid r) owned, pending @ [p_pid r], result @ [r]))"

definition children_of :: "proc list \<Rightarrow> int \<Rightarrow> proc list" where
  "children_of snap pid = filter (\<lambda>r. p_parent r = pid) snap"

definition unowned :: "proc list \<Rightarrow> int set \<Rightarrow> int set" where
  "unowned snap owned = p_pid ` set snap - owned"

lemma adopt_measure:
  "set rs \<subseteq> set snap \<Longrightarrow> adopt rs (owned, pending, result) = (owned', pending', result')
    \<Longrightarrow> length pending' + card (unowned snap owned') = length pending + card (unowned snap owned)"
proof (induction rs arbitrary: owned pending result)
  case Nil
  then show ?case by simp
next
  case (Cons r rs)
  show ?case
  proof (cases "p_pid r \<in> owned")
    case True
    with Cons show ?thesis by simp
  next
    case False
    then have "unowned snap owned = insert (p_pid r) (unowned snap (insert (p_pid r) owned))"
      using Cons.prems(1) by (auto simp: unowned_def)
    moreover have "p_pid r \<notin> unowned snap (insert (p_pid r) owned)" "finite (unowned snap (insert (p_pid r) owned))"
      by (simp_all add: unowned_def)
    ultimately have "card (unowned snap owned) = Suc (card (unowned snap (insert (p_pid r) owned)))" by simp
    with False Cons.prems Cons.IH [of "insert (p_pid r) owned" "pending @ [p_pid r]" "result @ [r]"] show ?thesis by simp
  qed
qed

lemma descend_smaller:
  assumes "adopt (children_of snap (last pending)) (owned, butlast pending, result) = (owned', pending', result')" "pending \<noteq> []"
  shows "length pending' + card (unowned snap owned') < length pending + card (unowned snap owned)"
  using adopt_measure [OF _ assms(1), of snap] assms(2) by (auto simp: children_of_def)

text \<open>\<open>while pending\<close>: every turn takes one process off the stack, and each is put there once.\<close>

function descend :: "proc list \<Rightarrow> int set \<Rightarrow> int list \<Rightarrow> proc list \<Rightarrow> proc list" where
  "descend snap owned pending result = (if pending = [] then result
     else case adopt (children_of snap (last pending)) (owned, butlast pending, result) of
       (owned, pending, result) \<Rightarrow> descend snap owned pending result)"
  by pat_completeness auto
termination
proof (relation "measure (\<lambda>(snap, owned, pending, _). length pending + card (unowned snap owned))")
  fix snap :: "proc list" and owned :: "int set" and pending :: "int list" and result :: "proc list" and owned' q pending' result'
  assume "pending \<noteq> []" "(owned', q) = adopt (children_of snap (last pending)) (owned, butlast pending, result)"
    "(pending', result') = q"
  then have a: "adopt (children_of snap (last pending)) (owned, butlast pending, result) = (owned', pending', result')" by metis
  show "((snap, owned', pending', result'), snap, owned, pending, result)
      \<in> measure (\<lambda>(snap, owned, pending, _). length pending + card (unowned snap owned))"
    using descend_smaller [OF a \<open>pending \<noteq> []\<close>] by simp
qed simp

declare descend.simps [simp del]

definition descendants :: "proc_fs \<Rightarrow> nat \<Rightarrow> int list \<Rightarrow> proc \<Rightarrow> exc + proc list" where
  "descendants stat t pids owner = bindr (snapshot stat t pids []) (\<lambda>snap.
     Inr (descend (map snd snap) {p_pid owner} [p_pid owner] []))"

section \<open>Belonging\<close>

partial_function (option) climb :: "proc_fs \<Rightarrow> proc \<Rightarrow> nat \<Rightarrow> proc \<Rightarrow> int set \<Rightarrow> proc list
    \<Rightarrow> ((exc + (proc \<times> proc list) option) \<times> nat) option" where
  "climb stat owner t current seen chain =
     (if p_pid current = p_pid owner then Some (Inr (Some (current, chain)), t)
      else if p_pid current \<in> seen \<or> p_parent current \<le> 1 then Some (Inr None, t)
      else case process stat t (p_parent current) of
          Inl e \<Rightarrow> Some (Inl e, t + 1)
        | Inr None \<Rightarrow> Some (Inr None, t + 1)
        | Inr (Some c) \<Rightarrow> climb stat owner (t + 1) c (insert (p_pid current) seen) (chain @ [current]))"

fun recheck :: "proc_fs \<Rightarrow> nat \<Rightarrow> proc list \<Rightarrow> (exc + bool) \<times> nat" where
  "recheck stat t [] = (Inr True, t)"
| "recheck stat t (p # ps) = (case process stat t (p_pid p) of
       Inl e \<Rightarrow> (Inl e, t + 1)
     | Inr None \<Rightarrow> (Inr False, t + 1)
     | Inr (Some q) \<Rightarrow> if p_start q \<noteq> p_start p \<or> p_parent q \<noteq> p_parent p then (Inr False, t + 1) else recheck stat (t + 1) ps)"

definition belongs_to :: "proc_fs \<Rightarrow> nat \<Rightarrow> proc \<Rightarrow> proc \<Rightarrow> ((exc + bool) \<times> nat) option" where
  "belongs_to stat t r owner = (case process stat t (p_pid r) of
       Inl e \<Rightarrow> Some (Inl e, t + 1)
     | Inr None \<Rightarrow> Some (Inr False, t + 1)
     | Inr (Some c) \<Rightarrow>
         if p_start c \<noteq> p_start r then Some (Inr False, t + 1)
         else (case climb stat owner (t + 1) c {} [] of
           None \<Rightarrow> None
         | Some (Inl e, t) \<Rightarrow> Some (Inl e, t)
         | Some (Inr None, t) \<Rightarrow> Some (Inr False, t)
         | Some (Inr (Some (apex, chain)), t) \<Rightarrow>
             if p_start apex \<noteq> p_start owner then Some (Inr False, t) else Some (recheck stat t (rev chain))))"

section \<open>Signals and cleanup\<close>

datatype signum = SIGINT | SIGTERM | SIGKILL | SIGCONT

text \<open>\<open>signal_descendant\<close>: \<open>send\<close> is \<open>pidfd_send_signal\<close>, \<open>opened\<close> the result of \<open>pidfd_open\<close>. The signals sent
  are returned beside the result; a vanished process is no error.\<close>

definition gone :: "exn_class \<Rightarrow> bool" where
  "gone c \<longleftrightarrow> c \<in> {FileNotFoundError, ProcessLookupError}"

definition signal_descendant :: "exc + unit \<Rightarrow> (signum \<Rightarrow> exc + unit) \<Rightarrow> (exc + bool) \<Rightarrow> proc \<Rightarrow> signum \<Rightarrow> (exc + bool) \<times> signum list" where
  "signal_descendant opened send belongs r s = (case opened of
       Inl e \<Rightarrow> (if gone (exn_of e) then Inr False else Inl e, [])
     | Inr _ \<Rightarrow> (case belongs of
         Inl e \<Rightarrow> (if gone (exn_of e) then Inr False else Inl e, [])
       | Inr False \<Rightarrow> (Inr False, [])
       | Inr True \<Rightarrow> (case send s of
           Inl e \<Rightarrow> (if gone (exn_of e) then Inr False else Inl e, [])
         | Inr _ \<Rightarrow>
             if p_state r \<in> {''T'', ''t''} \<and> s \<noteq> SIGKILL
             then (case send SIGCONT of Inl e \<Rightarrow> (if gone (exn_of e) then Inr False else Inl e, [s]) | Inr _ \<Rightarrow> (Inr True, [s, SIGCONT]))
             else (Inr True, [s]))))"

text \<open>One scan of \<open>cleanup\<close> over the remaining processes in a phase: the keys notified in this phase, the
  error messages printed, and the records given to \<open>signal_descendant\<close>.\<close>

type_synonym sig_key = "int \<times> string"

definition key_of :: "proc \<Rightarrow> sig_key" where
  "key_of r = (p_pid r, p_start r)"

definition spared :: "signum \<Rightarrow> int option \<Rightarrow> sig_key set \<Rightarrow> proc \<Rightarrow> bool" where
  "spared s child sent r \<longleftrightarrow> p_state r \<in> {''Z'', ''X''} \<or> key_of r \<in> sent \<or> (s = SIGINT \<and> child \<noteq> Some (p_pid r))"

fun cleanup_scan :: "signum \<Rightarrow> int option \<Rightarrow> (proc \<Rightarrow> exc + bool) \<Rightarrow> proc list \<Rightarrow> sig_key set \<times> string list \<times> proc list
    \<Rightarrow> exc + (sig_key set \<times> string list \<times> proc list)" where
  "cleanup_scan s child signal [] st = Inr st"
| "cleanup_scan s child signal (r # rs) (sent, errors, tried) =
     (if spared s child sent r then cleanup_scan s child signal rs (sent, errors, tried)
      else case signal r of
          Inr ok \<Rightarrow> cleanup_scan s child signal rs (if ok then insert (key_of r) sent else sent, errors, tried @ [r])
        | Inl e \<Rightarrow>
            if caught_by (exn_of e) OSError
            then let message = ''component cleanup pid='' @ show_int (p_pid r) @ '': '' @ msg_of e
                 in cleanup_scan s child signal rs (sent, if message \<in> set errors then errors else errors @ [message], tried @ [r])
            else Inl e)"

text \<open>\<open>reap\<close>: the results of \<open>waitpid(-1, WNOHANG)\<close> until it has none; the child's exit status is kept.\<close>

fun reap :: "int option \<Rightarrow> (int \<times> int) list \<Rightarrow> int option \<Rightarrow> int option" where
  "reap child [] rc = rc"
| "reap child ((pid, status) # ws) rc =
     (if pid = 0 then rc else reap child ws (if child = Some pid then Some status else rc))"

text \<open>The wrapper's exit status: failure unless the tree is gone, else the command's.\<close>

definition component_exit :: "bool \<Rightarrow> int option \<Rightarrow> int option \<Rightarrow> int" where
  "component_exit clean rc child_rc =
     (if \<not> clean then 1 else case (case rc of None \<Rightarrow> child_rc | Some x \<Rightarrow> Some x) of None \<Rightarrow> 0 | Some x \<Rightarrow> x)"

section \<open>The descendants are the processes below the owner\<close>

inductive below_owner :: "proc list \<Rightarrow> int \<Rightarrow> int \<Rightarrow> bool" for snap owner where
  self: "below_owner snap owner owner"
| child: "r \<in> set snap \<Longrightarrow> below_owner snap owner (p_parent r) \<Longrightarrow> below_owner snap owner (p_pid r)"

definition walk_inv :: "proc list \<Rightarrow> int \<Rightarrow> int set \<Rightarrow> int list \<Rightarrow> proc list \<Rightarrow> bool" where
  "walk_inv snap owner owned pending result \<longleftrightarrow>
     owned = insert owner (p_pid ` set result) \<and> owner \<notin> p_pid ` set result \<and> distinct (map p_pid result)
     \<and> set pending \<subseteq> owned \<and> set result \<subseteq> set snap \<and> (\<forall>r \<in> set result. below_owner snap owner (p_parent r))"

definition closed_except :: "proc list \<Rightarrow> int set \<Rightarrow> int set \<Rightarrow> bool" where
  "closed_except snap owned open_pids \<longleftrightarrow> (\<forall>r \<in> set snap. p_parent r \<in> owned - open_pids \<longrightarrow> p_pid r \<in> owned)"

lemma walk_below: "walk_inv snap owner owned pending result \<Longrightarrow> x \<in> owned \<Longrightarrow> below_owner snap owner x"
  by (auto simp: walk_inv_def intro: below_owner.intros)

lemma adopt_inv:
  assumes "adopt rs (owned, pending, result) = (owned', pending', result')" "walk_inv snap owner owned pending result"
    and "set rs \<subseteq> set snap" "\<forall>r \<in> set rs. below_owner snap owner (p_parent r)"
  shows "walk_inv snap owner owned' pending' result' \<and> owned \<subseteq> owned' \<and> set pending \<subseteq> set pending'
    \<and> owned' - owned \<subseteq> set pending' \<and> p_pid ` set rs \<subseteq> owned'"
  using assms
proof (induction rs arbitrary: owned pending result)
  case Nil
  then show ?case by simp
next
  case (Cons r rs)
  show ?case
  proof (cases "p_pid r \<in> owned")
    case True
    with Cons.prems Cons.IH [of owned pending result] show ?thesis by auto
  next
    case False
    then have "walk_inv snap owner (insert (p_pid r) owned) (pending @ [p_pid r]) (result @ [r])"
      using Cons.prems(2-4) by (auto simp: walk_inv_def)
    with False Cons.prems Cons.IH [of "insert (p_pid r) owned" "pending @ [p_pid r]" "result @ [r]"] show ?thesis by auto
  qed
qed

lemma descend_inv:
  "walk_inv snap owner owned pending result \<Longrightarrow> closed_except snap owned (set pending)
    \<Longrightarrow> \<exists>owned'. walk_inv snap owner owned' [] (descend snap owned pending result) \<and> closed_except snap owned' {}"
proof (induction snap owned pending result rule: descend.induct)
  case (1 snap owned pending result)
  show ?case
  proof (cases "pending = []")
    case True
    with "1.prems" show ?thesis by (subst descend.simps) auto
  next
    case False
    obtain o' p' r' where a: "adopt (children_of snap (last pending)) (owned, butlast pending, result) = (o', p', r')"
      by (cases "adopt (children_of snap (last pending)) (owned, butlast pending, result)") auto
    have inv: "walk_inv snap owner owned (butlast pending) result"
      using "1.prems"(1) by (auto simp: walk_inv_def dest: in_set_butlastD)
    have "last pending \<in> owned" using "1.prems"(1) last_in_set [OF False] by (auto simp: walk_inv_def)
    then have "below_owner snap owner (last pending)" using walk_below [OF inv] by simp
    then have "\<forall>r \<in> set (children_of snap (last pending)). below_owner snap owner (p_parent r)"
      by (auto simp: children_of_def)
    from adopt_inv [OF a inv _ this] have n: "walk_inv snap owner o' p' r'" "owned \<subseteq> o'" "set (butlast pending) \<subseteq> set p'"
        "o' - owned \<subseteq> set p'" "p_pid ` set (children_of snap (last pending)) \<subseteq> o'"
      by (auto simp: children_of_def)
    have "closed_except snap o' (set p')"
      unfolding closed_except_def
    proof (intro ballI impI)
      fix r assume r: "r \<in> set snap" "p_parent r \<in> o' - set p'"
      then have "p_parent r \<in> owned" "p_parent r \<notin> set (butlast pending)" using n(3,4) by auto
      moreover have "set pending = insert (last pending) (set (butlast pending))"
        using False by (metis append_butlast_last_id list.simps(15) rotate1.simps(2) set_rotate1)
      ultimately show "p_pid r \<in> o'"
      proof (cases "p_parent r = last pending")
        case True
        then have "r \<in> set (children_of snap (last pending))" using r(1) by (simp add: children_of_def)
        with n(5) show ?thesis by blast
      next
        case False
        with \<open>p_parent r \<in> owned\<close> \<open>p_parent r \<notin> set (butlast pending)\<close> r(1) "1.prems"(2)
          \<open>set pending = insert (last pending) (set (butlast pending))\<close> have "p_pid r \<in> owned"
          unfolding closed_except_def by blast
        with n(2) show ?thesis by blast
      qed
    qed
    from "1.IH" [OF False a [symmetric] refl n(1) this] a False show ?thesis
      by (subst descend.simps) simp
  qed
qed

lemma set_dput: "x \<in> set (dput k v d) \<Longrightarrow> x = (k, v) \<or> x \<in> set d"
  by (induction d) (auto split: if_splits)

lemma snapshot_keys:
  "snapshot stat t pids acc = Inr snap \<Longrightarrow> distinct (map fst acc) \<Longrightarrow> \<forall>k p. (k, p) \<in> set acc \<longrightarrow> p_pid p = k
    \<Longrightarrow> distinct (map fst snap) \<and> (\<forall>k p. (k, p) \<in> set snap \<longrightarrow> p_pid p = k)"
proof (induction pids arbitrary: t acc)
  case Nil
  then show ?case by simp
next
  case (Cons pid pids)
  show ?case
  proof (cases "process stat t pid")
    case (Inl e)
    with Cons.prems(1) have "snapshot stat (t + 1) pids acc = Inr snap" by (simp split: if_splits)
    from Cons.IH [OF this Cons.prems(2,3)] show ?thesis .
  next
    case (Inr q)
    show ?thesis
    proof (cases q)
      case None
      with Cons.prems(1) Inr have "snapshot stat (t + 1) pids acc = Inr snap" by simp
      from Cons.IH [OF this Cons.prems(2,3)] show ?thesis .
    next
      case (Some p)
      have keys: "\<forall>k r. (k, r) \<in> set (dput (p_pid p) p acc) \<longrightarrow> p_pid r = k"
        using Cons.prems(3) by (blast dest: set_dput)
      have "snapshot stat (t + 1) pids (dput (p_pid p) p acc) = Inr snap" using Cons.prems(1) Inr Some by simp
      from Cons.IH [OF this _ keys] Cons.prems(2) show ?thesis by (simp add: distinct_update)
    qed
  qed
qed

text \<open>A walk that has come to its end holds exactly the processes below the owner.\<close>

lemma walk_owns_all:
  assumes "walk_inv snap owner owned [] found" "closed_except snap owned {}" "below_owner snap owner x"
  shows "x \<in> owned"
  using assms(3)
proof induction
  case self
  with assms(1) show ?case by (simp add: walk_inv_def)
next
  case (child r)
  with assms(2) show ?case by (auto simp: closed_except_def)
qed

lemma walk_finds_exactly:
  assumes "walk_inv snap owner owned [] found" "closed_except snap owned {}"
    "\<And>r q. r \<in> set snap \<Longrightarrow> q \<in> set snap \<Longrightarrow> p_pid r = p_pid q \<Longrightarrow> r = q"
  shows "set found = {r \<in> set snap. p_pid r \<noteq> owner \<and> below_owner snap owner (p_pid r)}"
proof (intro set_eqI iffI)
  fix r assume "r \<in> set found"
  then have "r \<in> set snap" "p_pid r \<in> p_pid ` set found" "below_owner snap owner (p_parent r)"
    using assms(1) unfolding walk_inv_def by blast+
  moreover then have "p_pid r \<noteq> owner" using assms(1) unfolding walk_inv_def by metis
  ultimately show "r \<in> {r \<in> set snap. p_pid r \<noteq> owner \<and> below_owner snap owner (p_pid r)}"
    using below_owner.child by blast
next
  fix r assume "r \<in> {r \<in> set snap. p_pid r \<noteq> owner \<and> below_owner snap owner (p_pid r)}"
  then have r: "p_pid r \<in> owned" "p_pid r \<noteq> owner" "r \<in> set snap" using walk_owns_all [OF assms(1,2)] by auto
  then have "p_pid r \<in> p_pid ` set found" using assms(1) unfolding walk_inv_def by blast
  then obtain q where q: "q \<in> set found" "p_pid q = p_pid r" by (metis imageE)
  then have "q \<in> set snap" using assms(1) unfolding walk_inv_def by blast
  with assms(3) q(2) r(3) have "q = r" by blast
  with q(1) show "r \<in> set found" by simp
qed

text \<open>
  C24. One scan finds exactly the processes of the snapshot below the owner in the parent relation, each
  once, and not the owner.\<close>

theorem descendants_exact:
  assumes "descendants stat t pids owner = Inr found" and "snapshot stat t pids [] = Inr snap"
  shows "set found = {r \<in> set (map snd snap). p_pid r \<noteq> p_pid owner \<and> below_owner (map snd snap) (p_pid owner) (p_pid r)}
    \<and> distinct (map p_pid found)"
proof -
  let ?snap = "map snd snap" and ?o = "p_pid owner"
  have keys: "distinct (map fst snap)" "\<forall>k p. (k, p) \<in> set snap \<longrightarrow> p_pid p = k"
    using snapshot_keys [OF assms(2)] by auto
  have inv: "walk_inv ?snap ?o {?o} [?o] []" by (simp add: walk_inv_def)
  have "closed_except ?snap {?o} (set [?o])" by (simp add: closed_except_def)
  from descend_inv [OF inv this] obtain owned where w: "walk_inv ?snap ?o owned [] found" "closed_except ?snap owned {}"
    using assms by (auto simp: descendants_def)
  have "r = q" if "r \<in> set ?snap" "q \<in> set ?snap" "p_pid r = p_pid q" for r q
  proof -
    from that(1,2) obtain i j where "(i, r) \<in> set snap" "(j, q) \<in> set snap" by auto
    with keys that(3) show ?thesis by (metis eq_key_imp_eq_value)
  qed
  from walk_finds_exactly [OF w this] have "set found = {r \<in> set ?snap. p_pid r \<noteq> ?o \<and> below_owner ?snap ?o (p_pid r)}" .
  moreover have "distinct (map p_pid found)" using w(1) by (simp add: walk_inv_def)
  ultimately show ?thesis ..
qed

section \<open>The climb to the owner\<close>

text \<open>With process numbers bounded, as the kernel bounds them, the climb visits each at most once.\<close>

lemma climb_ends:
  assumes pids: "finite pids" "\<And>t p q. 1 < p \<Longrightarrow> process stat t p = Inr (Some q) \<Longrightarrow> p \<in> pids"
    and "p_pid current \<in> pids"
  shows "\<exists>r. climb stat owner t current seen chain = Some r"
  using assms(3)
proof (induction "card (pids - seen)" arbitrary: t current seen chain rule: less_induct)
  case less
  show ?case
  proof (cases "p_pid current = p_pid owner \<or> p_pid current \<in> seen \<or> p_parent current \<le> 1")
    case True
    then show ?thesis by (subst climb.simps) auto
  next
    case False
    show ?thesis
    proof (cases "\<exists>c. process stat t (p_parent current) = Inr (Some c)")
      case True
      then obtain c where c: "process stat t (p_parent current) = Inr (Some c)" by blast
      have "p_pid c \<in> pids" using pids(2) [OF _ c] process_pid [OF c] False by simp
      moreover have "card (pids - insert (p_pid current) seen) < card (pids - seen)"
        using pids(1) less.prems False by (intro psubset_card_mono) auto
      ultimately obtain r where "climb stat owner (t + 1) c (insert (p_pid current) seen) (chain @ [current]) = Some r"
        using less.hyps by blast
      with False c show ?thesis by (subst climb.simps) simp
    next
      case none: False
      with False show ?thesis
        by (subst climb.simps) (auto split: sum.splits option.splits)
    qed
  qed
qed

text \<open>
  C39. Whatever \<open>/proc\<close> shows and however it changes between reads, \<open>belongs_to\<close> returns, provided process
  numbers come from a finite set: the loop over the parents cannot run for ever.\<close>

theorem belongs_to_returns:
  assumes "finite pids" and "\<And>t p q. 1 < p \<Longrightarrow> process stat t p = Inr (Some q) \<Longrightarrow> p \<in> pids"
  shows "\<exists>out t'. belongs_to stat t r owner = Some (out, t')"
proof (cases "process stat t (p_pid r)")
  case (Inl e)
  then show ?thesis by (simp add: belongs_to_def)
next
  case (Inr q)
  show ?thesis
  proof (cases q)
    case None
    with Inr show ?thesis by (simp add: belongs_to_def)
  next
    case (Some c)
    have "finite (insert (p_pid c) pids)" "\<And>t p q. 1 < p \<Longrightarrow> process stat t p = Inr (Some q) \<Longrightarrow> p \<in> insert (p_pid c) pids"
      using assms by blast+
    then obtain out t' where k: "climb stat owner (t + 1) c {} [] = Some (out, t')"
      using climb_ends [of "insert (p_pid c) pids" stat c owner "t + 1" "{}" "[]"] by auto
    show ?thesis
    proof (cases out)
      case (Inl e)
      with Inr Some k show ?thesis by (simp add: belongs_to_def)
    next
      case ok: (Inr w)
      show ?thesis
      proof (cases w)
        case None
        with Inr Some k ok show ?thesis by (simp add: belongs_to_def)
      next
        case top: (Some z)
        obtain apex chain where z: "z = (apex, chain)" by (cases z)
        obtain b u where "recheck stat t' (rev chain) = (b, u)" by (cases "recheck stat t' (rev chain)")
        with Inr Some k ok top z show ?thesis by (simp add: belongs_to_def)
      qed
    qed
  qed
qed

text \<open>A line of ancestors: each names the next as its parent.\<close>

fun lineage :: "proc list \<Rightarrow> proc \<Rightarrow> bool" where
  "lineage [] apex = True"
| "lineage (p # ps) apex = (p_parent p = p_pid (hd (ps @ [apex])) \<and> lineage ps apex)"

lemma lineage_snoc: "lineage (ps @ [p]) apex \<longleftrightarrow> lineage ps p \<and> p_parent p = p_pid apex"
  by (induction ps) (auto simp: hd_append)

lemma climb_lineage:
  assumes "climb stat owner t current seen chain = Some (Inr (Some (apex, chain')), t')"
    and "lineage chain current"
  shows "lineage chain' apex \<and> p_pid apex = p_pid owner \<and> (\<exists>rest. chain' @ [apex] = chain @ current # rest)"
proof -
  have "\<forall>apex chain' t'. r = (Inr (Some (apex, chain')), t') \<longrightarrow> lineage chain current \<longrightarrow>
      lineage chain' apex \<and> p_pid apex = p_pid owner \<and> (\<exists>rest. chain' @ [apex] = chain @ current # rest)"
    if "climb stat owner t current seen chain = Some r" for r
    using that
  proof (induction rule: climb.raw_induct [rotated, consumes 1, case_names step])
    case (step climb stat owner t current seen chain r)
    show ?case
    proof (cases "p_pid current = p_pid owner")
      case True
      with step(2) show ?thesis by auto
    next
      case no: False
      show ?thesis
      proof (cases "\<exists>c. process stat t (p_parent current) = Inr (Some c) \<and> \<not> (p_pid current \<in> seen \<or> p_parent current \<le> 1)")
        case True
        then obtain c where c: "process stat t (p_parent current) = Inr (Some c)" by blast
        with True no step(2) have "climb stat owner (t + 1) c (insert (p_pid current) seen) (chain @ [current]) = Some r" by auto
        note IH = step(1) [OF this]
        have "lineage (chain @ [current]) c" if "lineage chain current"
          using that process_pid [OF c] by (simp add: lineage_snoc)
        with IH show ?thesis by fastforce
      next
        case False
        with no step(2) show ?thesis by (auto split: sum.splits option.splits if_splits)
      qed
    qed
  qed
  with assms show ?thesis by blast
qed

lemma recheck_all: "recheck stat t ps = (Inr True, t') \<Longrightarrow>
    \<forall>p \<in> set ps. \<exists>u q. process stat u (p_pid p) = Inr (Some q) \<and> p_start q = p_start p \<and> p_parent q = p_parent p"
  by (induction stat t ps rule: recheck.induct) (fastforce split: sum.splits option.splits if_splits)+

text \<open>
  When \<open>belongs_to\<close> says yes, an unbroken line of parents was seen from the very process of the record
  (same number, same start) to the owner (same number, same start), and each process on it was seen a
  second time with the same start and parent.\<close>

lemma belongs_to_sound:
  assumes "belongs_to stat t r owner = Some (Inr True, t')"
  shows "\<exists>chain apex. lineage chain apex \<and> p_pid (hd (chain @ [apex])) = p_pid r \<and> p_start (hd (chain @ [apex])) = p_start r
    \<and> p_pid apex = p_pid owner \<and> p_start apex = p_start owner
    \<and> (\<forall>p \<in> set chain. \<exists>u q. process stat u (p_pid p) = Inr (Some q) \<and> p_start q = p_start p \<and> p_parent q = p_parent p)"
proof -
  from assms obtain c apex chain u where b: "process stat t (p_pid r) = Inr (Some c)" "p_start c = p_start r"
    "climb stat owner (t + 1) c {} [] = Some (Inr (Some (apex, chain)), u)" "p_start apex = p_start owner"
    "recheck stat u (rev chain) = (Inr True, t')"
    by (auto simp: belongs_to_def split: sum.splits option.splits if_splits)
  have l: "lineage chain apex" "p_pid apex = p_pid owner" "hd (chain @ [apex]) = c"
    using climb_lineage [OF b(3)] by auto
  with b process_pid [OF b(1)] recheck_all [OF b(5)] show ?thesis
    by (intro exI [of _ chain] exI [of _ apex]) auto
qed

section \<open>A system of three processes\<close>

definition demo_stat :: proc_fs where
  "demo_stat t pid =
     (if pid = 5 then Inr ''5 (wrapper) S 1 0 0 0 0 0 0 0 0 0 0 0 0 0 0 0 0 0 100''
      else if pid = 6 then Inr ''6 (a b) S 5 0 0 0 0 0 0 0 0 0 0 0 0 0 0 0 0 0 101''
      else if pid = 7 then Inr ''7 (c)) S 6 0 0 0 0 0 0 0 0 0 0 0 0 0 0 0 0 0 102''
      else raise FileNotFoundError ''no process'')"

definition demo_proc :: "int \<Rightarrow> proc" where
  "demo_proc pid = (case process demo_stat 0 pid of Inr (Some p) \<Rightarrow> p | _ \<Rightarrow> \<lparr>p_pid = 0, p_parent = 0, p_start = [], p_state = []\<rparr>)"

lemma demo_procs:
  "process demo_stat t 5 = Inr (Some \<lparr>p_pid = 5, p_parent = 1, p_start = ''100'', p_state = ''S''\<rparr>)"
  "process demo_stat t 6 = Inr (Some \<lparr>p_pid = 6, p_parent = 5, p_start = ''101'', p_state = ''S''\<rparr>)"
  "process demo_stat t 7 = Inr (Some \<lparr>p_pid = 7, p_parent = 6, p_start = ''102'', p_state = ''S''\<rparr>)"
  by code_simp+

definition demo_owner :: proc where "demo_owner = \<lparr>p_pid = 5, p_parent = 1, p_start = ''100'', p_state = ''S''\<rparr>"

definition demo_leaf :: proc where "demo_leaf = \<lparr>p_pid = 7, p_parent = 6, p_start = ''102'', p_state = ''S''\<rparr>"

definition demo_middle :: proc where "demo_middle = \<lparr>p_pid = 6, p_parent = 5, p_start = ''101'', p_state = ''S''\<rparr>"

lemmas demo_defs = demo_owner_def demo_leaf_def demo_middle_def

lemma demo_snapshot: "snapshot demo_stat 0 [7, 5, 6, 9] [] = Inr [(7, demo_leaf), (5, demo_owner), (6, demo_middle)]"
  by code_simp

lemma demo_descendants: "descendants demo_stat 0 [7, 5, 6, 9] demo_owner = Inr [demo_middle, demo_leaf]"
  unfolding descendants_def demo_snapshot
  by (simp add: demo_defs descend.simps children_of_def)

theorem descendants_exact_witness:
  "set [demo_middle, demo_leaf] = {r \<in> set [demo_leaf, demo_owner, demo_middle]. p_pid r \<noteq> 5
      \<and> below_owner [demo_leaf, demo_owner, demo_middle] 5 (p_pid r)}"
  using descendants_exact [OF demo_descendants demo_snapshot] by (simp add: demo_owner_def)

lemma demo_belongs: "belongs_to demo_stat 0 demo_leaf demo_owner = Some (Inr True, 5)"
proof -
  have "climb demo_stat demo_owner 1 demo_leaf {} [] = Some (Inr (Some (demo_owner, [demo_leaf, demo_middle])), 3)"
    by (simp add: climb.simps demo_defs demo_procs)
  then show ?thesis by (simp add: belongs_to_def demo_defs demo_procs)
qed

theorem belongs_to_returns_witness: "\<exists>out t'. belongs_to demo_stat 0 demo_leaf demo_owner = Some (out, t')"
proof (rule belongs_to_returns [of "{5, 6, 7}"])
  show "p \<in> {5, 6, 7}" if "process demo_stat t p = Inr (Some q)" for t p q
    using that by (auto simp: process_def demo_stat_def split: if_splits)
qed simp

section \<open>Who is signalled\<close>

lemma cleanup_scan_tried:
  assumes "cleanup_scan s child signal rs (sent, errors, tried) = Inr (sent', errors', tried')"
  shows "sent \<subseteq> sent' \<and> (\<exists>new. tried' = tried @ new \<and> set new \<subseteq> set rs
    \<and> (\<forall>r \<in> set new. p_state r \<notin> {''Z'', ''X''} \<and> key_of r \<notin> sent \<and> (s = SIGINT \<longrightarrow> child = Some (p_pid r)))
    \<and> sent' - sent \<subseteq> key_of ` {r \<in> set new. signal r = Inr True})"
  using assms
proof (induction rs arbitrary: sent errors tried)
  case Nil
  then show ?case by simp
next
  case (Cons r rs)
  show ?case
  proof (cases "spared s child sent r")
    case True
    with Cons.prems Cons.IH [of sent errors tried] show ?thesis by fastforce
  next
    case False
    obtain sent1 errors1 where step: "cleanup_scan s child signal rs (sent1, errors1, tried @ [r]) = Inr (sent', errors', tried')"
      "sent \<subseteq> sent1" "sent1 - sent \<subseteq> key_of ` {q \<in> {r}. signal q = Inr True}"
      using False Cons.prems by (cases "signal r") (auto simp: Let_def split: bool.splits if_splits)
    from Cons.IH [OF step(1)] obtain new where new: "sent1 \<subseteq> sent'" "tried' = (tried @ [r]) @ new" "set new \<subseteq> set rs"
      "\<forall>q \<in> set new. p_state q \<notin> {''Z'', ''X''} \<and> key_of q \<notin> sent1 \<and> (s = SIGINT \<longrightarrow> child = Some (p_pid q))"
      "sent' - sent1 \<subseteq> key_of ` {q \<in> set new. signal q = Inr True}" by blast
    show ?thesis
    proof (intro conjI exI [of _ "r # new"])
      show "\<forall>q \<in> set (r # new). p_state q \<notin> {''Z'', ''X''} \<and> key_of q \<notin> sent \<and> (s = SIGINT \<longrightarrow> child = Some (p_pid q))"
        using new(4) step(2) False by (auto simp: spared_def)
      show "sent' - sent \<subseteq> key_of ` {q \<in> set (r # new). signal q = Inr True}"
        using new(5) step(3) by auto
    qed (use new(1-3) step(2) in auto)
  qed
qed

text \<open>
  A cleanup scan signals only listed processes that are alive and were not yet signalled in this phase; under
  SIGINT only the direct child. What it adds to the notified keys was signalled successfully.\<close>

lemma cleanup_scan_selective:
  assumes "cleanup_scan s child signal rs (sent, errors, []) = Inr (sent', errors', tried)"
  shows "set tried \<subseteq> set rs
    \<and> list_all (\<lambda>r. p_state r \<notin> {''Z'', ''X''} \<and> key_of r \<notin> sent \<and> (s \<noteq> SIGINT \<or> child = Some (p_pid r))) tried
    \<and> sent \<subseteq> sent' \<and> sent' - sent \<subseteq> key_of ` {r \<in> set tried. signal r = Inr True}"
  using cleanup_scan_tried [OF assms] by (auto simp: list_all_iff)

lemma cleanup_scan_selective_witness:
  "set [demo_middle] \<subseteq> set [demo_leaf, demo_middle]"
proof -
  have "cleanup_scan SIGINT (Some 6) (\<lambda>_. Inr True) [demo_leaf, demo_middle] ({}, [], []) = Inr ({(6, ''101'')}, [], [demo_middle])"
    by (simp add: spared_def demo_defs key_of_def)
  from cleanup_scan_selective [OF this] show ?thesis by blast
qed

end
