(* ===== verification/Supervisor.thy ===== *)
theory Supervisor
  imports Process_Tree
begin

text \<open>
  \<open>src/src/wc_runtime/supervisor.py\<close>: the parent of a session. The shutdown deadlines, the escalation from
  interrupt to kill over the children, the owner guard, and the outcome of a session. What a wait on
  a child returns is a parameter: its exit code, or nothing when the deadline passed first.
\<close>

section \<open>Deadlines\<close>

definition max_sigint_grace :: pyfloat where "max_sigint_grace = Fin 120"

definition term_grace :: pyfloat where "term_grace = Fin 3"

definition kill_grace :: pyfloat where "kill_grace = Fin 2"

text \<open>\<open>component.validate_sigint_grace\<close>.\<close>

definition validate_sigint_grace :: "pyval \<Rightarrow> exc + pyfloat" where
  "validate_sigint_grace v = (let bad = raise ValueError ''SIGINT grace must be finite and between 0 and 120 seconds'' in
     case v of
       PInt i \<Rightarrow> bindr (py_isfinite v) (\<lambda>_. if 0 \<le> i \<and> i \<le> 120 then Inr (to_float v) else bad)
     | PFloat f \<Rightarrow> if f_finite f \<and> Fin 0 \<le> f \<and> f \<le> max_sigint_grace then Inr f else bad
     | _ \<Rightarrow> bad)"

record shutdown =
  sd_grace :: pyfloat
  sd_component_wait :: pyfloat
  sd_supervisor_term :: pyfloat
  sd_supervisor_kill :: pyfloat
  sd_manifest_wait :: pyfloat
  sd_cli_wait :: pyfloat

definition shutdown_policy :: "pydict \<Rightarrow> exc + shutdown" where
  "shutdown_policy plan = bindr (validate_sigint_grace (dget_or plan ''sigint_grace_s''
       (PFloat (if dget plan ''role'' \<in> {PStr ''record'', PStr ''drivers''} then Fin 30 else Fin 5)))) (\<lambda>grace.
     let component_wait = f_add (f_add (f_add grace term_grace) kill_grace) (Fin 5);
         manifest_wait = (if dget plan ''role'' = PStr ''mapping_app'' then Fin 30 else Fin 1)
     in Inr \<lparr>sd_grace = grace, sd_component_wait = component_wait, sd_supervisor_term = Fin 3, sd_supervisor_kill = Fin 3,
             sd_manifest_wait = manifest_wait, sd_cli_wait = f_add (f_add (f_add component_wait (Fin 3)) (Fin 3)) manifest_wait\<rparr>)"

section \<open>Stopping the children\<close>

text \<open>The three waits of \<open>finish_children\<close>: how long, and the signal after it.\<close>

definition stop_phases :: "shutdown \<Rightarrow> (pyfloat \<times> signum option) list" where
  "stop_phases k = [(sd_component_wait k, Some SIGTERM), (sd_supervisor_term k, Some SIGKILL), (sd_supervisor_kill k, None)]"

text \<open>\<open>waited n pid\<close> is the result of the wait in phase \<open>n\<close>; \<open>show_wait\<close> prints its deadline.\<close>

type_synonym waits = "nat \<Rightarrow> int \<Rightarrow> int option"

record stopping =
  st_failure :: int
  st_reasons :: "string list"
  st_signals :: "(int \<times> signum) list"
  st_survivors :: "int list"

fun stop_phase :: "(pyfloat \<Rightarrow> string) \<Rightarrow> waits \<Rightarrow> nat \<Rightarrow> pyfloat \<Rightarrow> signum option \<Rightarrow> int list \<Rightarrow> stopping \<Rightarrow> stopping" where
  "stop_phase show_wait waited n wait_s escalation [] s = s"
| "stop_phase show_wait waited n wait_s escalation (pid # pids) s =
     stop_phase show_wait waited n wait_s escalation pids (case waited n pid of
        Some rc \<Rightarrow> if rc = 0 then s
          else s\<lparr>st_failure := (if st_failure s = 0 then rc else st_failure s),
                 st_reasons := st_reasons s @ [''component_cleanup_failure:'' @ show_int pid @ '':'' @ show_int rc]\<rparr>
      | None \<Rightarrow> s\<lparr>st_failure := (if st_failure s = 0 then 1 else st_failure s),
                  st_reasons := st_reasons s @ [''component_cleanup_timeout:'' @ show_int pid @ '':'' @ show_wait wait_s],
                  st_signals := st_signals s @ (case escalation of None \<Rightarrow> [] | Some sg \<Rightarrow> [(pid, sg)]),
                  st_survivors := st_survivors s @ [pid]\<rparr>)"

fun stop_all :: "(pyfloat \<Rightarrow> string) \<Rightarrow> waits \<Rightarrow> nat \<Rightarrow> (pyfloat \<times> signum option) list \<Rightarrow> int list \<Rightarrow> stopping \<Rightarrow> stopping" where
  "stop_all show_wait waited n [] pending s = s\<lparr>st_survivors := pending\<rparr>"
| "stop_all show_wait waited n ((wait_s, escalation) # phases) pending s =
     (let s = stop_phase show_wait waited n wait_s escalation pending (s\<lparr>st_survivors := []\<rparr>)
      in if st_survivors s = [] then s
         else stop_all show_wait waited (n + 1) phases (st_survivors s) s)"

text \<open>\<open>alive\<close>: what \<open>poll\<close> sees before the interrupt.\<close>

definition finish_children :: "(pyfloat \<Rightarrow> string) \<Rightarrow> (int \<Rightarrow> bool) \<Rightarrow> waits \<Rightarrow> shutdown \<Rightarrow> int list \<Rightarrow> stopping" where
  "finish_children show_wait alive waited k children =
     (let s = stop_all show_wait waited 0 (stop_phases k) (rev children)
           \<lparr>st_failure = 0, st_reasons = [], st_signals = map (\<lambda>pid. (pid, SIGINT)) (filter alive (rev children)), st_survivors = []\<rparr>
      in s\<lparr>st_reasons := st_reasons s @ map (\<lambda>pid. ''component_cleanup_incomplete:'' @ show_int pid) (st_survivors s)\<rparr>)"

section \<open>The owner of a mapping session\<close>

definition mapping_owner :: "pydict \<Rightarrow> exc + (int \<times> string) option" where
  "mapping_owner plan =
     (if dget plan ''role'' \<noteq> PStr ''mapping_app'' \<or> \<not> (has_key plan ''owner_pid'' \<or> has_key plan ''owner_start_ticks'') then Inr None
      else case (dget plan ''owner_pid'', dget plan ''owner_start_ticks'') of
        (PInt pid, PStr started) \<Rightarrow>
          if pid \<le> 0 \<or> started = [] \<or> \<not> list_all (\<lambda>c. c \<in> set ''0123456789'') started
          then raise ValueError ''mapping_app owner requires a positive integer PID and decimal start ticks''
          else Inr (Some (pid, started))
      | _ \<Rightarrow> raise ValueError ''mapping_app owner requires a positive integer PID and decimal start ticks'')"

definition show_class :: "exn_class \<Rightarrow> string" where
  "show_class c = (case c of ValueError \<Rightarrow> ''ValueError'' | IndexError \<Rightarrow> ''IndexError'' | PermissionError \<Rightarrow> ''PermissionError''
     | _ \<Rightarrow> ''OSError'')"

text \<open>The reason to stop, or an exception the handler does not name.\<close>

definition owner_stop_reason :: "proc_fs \<Rightarrow> nat \<Rightarrow> int \<times> string \<Rightarrow> exc + string option" where
  "owner_stop_reason stat t owner = (case process stat t (fst owner) of
       Inl e \<Rightarrow> if caught_by (exn_of e) OSError \<or> exn_of e \<in> {ValueError, IndexError}
                then Inr (Some (''owner_identity_unavailable:'' @ show_class (exn_of e))) else Inl e
     | Inr None \<Rightarrow> Inr (Some ''owner_process_missing'')
     | Inr (Some p) \<Rightarrow>
         if p_start p \<noteq> snd owner then Inr (Some ''owner_pid_reused'')
         else if p_state p \<in> {''Z'', ''X''} then Inr (Some (''owner_process_dead:'' @ p_state p))
         else Inr None)"

section \<open>Signalling a registered session\<close>

text \<open>\<open>stop_registered\<close>: the manifest's process is signalled only if its start time and command line are
  those of the session; \<open>pidfd\<close>, \<open>cmdline\<close> and \<open>sent\<close> are what the system calls return.\<close>

definition stop_registered :: "proc_fs \<Rightarrow> nat \<Rightarrow> pydict \<Rightarrow> exc + unit \<Rightarrow> exc + string list \<Rightarrow> string list \<Rightarrow> exc + unit
    \<Rightarrow> exc + bool" where
  "stop_registered stat t manifest pidfd cmdline expected sent =
     (if dget manifest ''state'' \<noteq> PStr ''RUNNING'' then Inr False
      else bindr (dsub manifest ''supervisor_pid'') (\<lambda>pid.
        case bindr pidfd (\<lambda>_. case pid of
            PInt n \<Rightarrow> bindr (bindr (stat t n) (\<lambda>s. bindr (stat_words s) (\<lambda>ws. word_at ws 19))) (\<lambda>ticks.
              bindr (dsub manifest ''supervisor_start_ticks'') (\<lambda>recorded.
              if PStr ticks \<noteq> recorded then raise RuntimeError ''PID reused: refusing to signal another process''
              else bindr cmdline (\<lambda>command.
              if command \<noteq> expected then raise RuntimeError ''process command does not match session owner''
              else bindr sent (\<lambda>_. Inr True))))
          | _ \<Rightarrow> raise TypeError ''an integer is required'') of
          Inl e \<Rightarrow> if gone (exn_of e) then Inr False else Inl e
        | Inr b \<Rightarrow> Inr b))"

section \<open>A session\<close>

text \<open>The checks of a plan in \<open>main\<close>.\<close>

definition check_duration :: "pydict \<Rightarrow> exc + unit" where
  "check_duration plan = (let d = dget_or plan ''duration_s'' (PInt 0) in case d of
       PInt _ \<Rightarrow> bindr (py_isfinite d) (\<lambda>fin. guard (\<not> fin \<or> py_lt d (PInt 0)) ValueError ''duration must be finite and nonnegative'')
     | PFloat _ \<Rightarrow> bindr (py_isfinite d) (\<lambda>fin. guard (\<not> fin \<or> py_lt d (PInt 0)) ValueError ''duration must be finite and nonnegative'')
     | _ \<Rightarrow> raise ValueError ''duration must be finite and nonnegative'')"

definition argv_ok :: "pyval \<Rightarrow> bool" where
  "argv_ok c = (case c of PList vs \<Rightarrow> vs \<noteq> [] \<and> list_all is_str vs | _ \<Rightarrow> False)"

definition check_commands :: "pydict \<Rightarrow> exc + unit" where
  "check_commands plan = (case dget plan ''commands'' of
       PList cs \<Rightarrow> guard (cs = [] \<or> \<not> list_all argv_ok cs) ValueError ''plan requires nonempty argv command lists''
     | v \<Rightarrow> if \<not> py_true v then raise ValueError ''plan requires nonempty argv command lists''
            else if is_str v \<or> is_dict v then raise ValueError ''plan requires nonempty argv command lists''
            else case v of PBytes _ \<Rightarrow> raise ValueError ''plan requires nonempty argv command lists''
            | _ \<Rightarrow> raise TypeError ''object is not iterable'')"

record monitor =
  mo_result :: int
  mo_reason :: "string option"
  mo_stopping :: bool

text \<open>One turn of the monitoring loop: an owner that is lost, children that have exited, the duration.\<close>

fun poll_children :: "bool \<Rightarrow> (int \<Rightarrow> int option) \<Rightarrow> int list \<Rightarrow> monitor \<Rightarrow> monitor" where
  "poll_children allow_exit polled [] m = m"
| "poll_children allow_exit polled (pid # pids) m = poll_children allow_exit polled pids (case polled pid of
       None \<Rightarrow> m
     | Some rc \<Rightarrow>
         let failure = (if rc \<noteq> 0 then rc else if allow_exit then 0 else 1)
         in \<lparr>mo_result = (if failure \<noteq> 0 \<and> mo_result m = 0 then failure else mo_result m),
             mo_reason = Some (''component_exit:'' @ show_int pid @ '':'' @ show_int rc), mo_stopping = True\<rparr>)"

definition monitor_turn :: "string option \<Rightarrow> bool \<Rightarrow> (int \<Rightarrow> int option) \<Rightarrow> int list \<Rightarrow> bool \<Rightarrow> monitor \<Rightarrow> monitor" where
  "monitor_turn owner allow_exit polled children expired m =
     (if mo_stopping m then m
      else case owner of
        Some reason \<Rightarrow> m\<lparr>mo_reason := Some reason, mo_stopping := True\<rparr>
      | None \<Rightarrow> (let m = poll_children allow_exit polled children m
           in if expired then m\<lparr>mo_reason := Some ''duration_reached'', mo_stopping := True\<rparr> else m))"

text \<open>The \<open>finally\<close> clause: exit code, state and reason of the session.\<close>

definition session_end :: "monitor \<Rightarrow> stopping \<Rightarrow> int \<times> string \<times> string option \<times> string list" where
  "session_end m s = (let result = (if st_failure s \<noteq> 0 \<and> mo_result m = 0 then st_failure s else mo_result m);
       reason = (if st_failure s \<noteq> 0 \<and> mo_result m = 0 then Some (hd (st_reasons s)) else mo_reason m)
     in (result, (if result = 0 then ''STOPPED'' else ''FAILED''), reason, st_reasons s))"

section \<open>Escalation\<close>

lemma stop_phase_effect:
  assumes "s' = stop_phase show_wait waited n w escalation pids s"
  shows "st_survivors s' = st_survivors s @ filter (\<lambda>pid. waited n pid = None) pids"
    "st_signals s' = st_signals s @ (case escalation of None \<Rightarrow> [] | Some sg \<Rightarrow> map (\<lambda>pid. (pid, sg)) (filter (\<lambda>pid. waited n pid = None) pids))"
    "st_failure s' = 0 \<longleftrightarrow> st_failure s = 0 \<and> list_all (\<lambda>pid. waited n pid = Some 0) pids"
  unfolding assms
  by (induction pids arbitrary: s) (auto split: option.splits)

lemma stop_phase_reasons:
  "(st_failure s \<noteq> 0 \<longrightarrow> st_reasons s \<noteq> []) \<Longrightarrow>
   st_failure (stop_phase show_wait waited n w escalation pids s) \<noteq> 0 \<longrightarrow> st_reasons (stop_phase show_wait waited n w escalation pids s) \<noteq> []"
proof (induction pids arbitrary: s)
  case (Cons pid pids)
  then show ?case by (cases "waited n pid") (auto split: if_splits)
qed simp

lemma stop_all_reasons:
  "(st_failure s \<noteq> 0 \<longrightarrow> st_reasons s \<noteq> []) \<Longrightarrow>
   st_failure (stop_all show_wait waited n phases pending s) \<noteq> 0 \<longrightarrow> st_reasons (stop_all show_wait waited n phases pending s) \<noteq> []"
proof (induction phases arbitrary: n pending s)
  case (Cons ph phases)
  obtain w e where ph: "ph = (w, e)" by (cases ph)
  let ?s = "stop_phase show_wait waited n w e pending (s\<lparr>st_survivors := []\<rparr>)"
  have r: "st_failure ?s \<noteq> 0 \<longrightarrow> st_reasons ?s \<noteq> []" by (rule stop_phase_reasons) (use Cons.prems in simp)
  show ?case
  proof (cases "st_survivors ?s = []")
    case True
    with r ph show ?thesis by (simp add: Let_def)
  next
    case False
    with Cons.IH [OF r] ph show ?thesis by (simp add: Let_def)
  qed
qed simp

text \<open>
  C32. Stopping a session escalates per child: the interrupt goes to the children still alive, the
  termination signal exactly to those that missed the first deadline, the kill exactly to those that missed the
  second; the result is success exactly when every child ended with status 0 in the first wait, and
  a failure always has a reason.\<close>

theorem shutdown_escalates:
  "(let s = finish_children show_wait alive waited k children in
     {pid. (pid, SIGINT) \<in> set (st_signals s)} = {pid \<in> set children. alive pid}
     \<and> {pid. (pid, SIGTERM) \<in> set (st_signals s)} = {pid \<in> set children. waited 0 pid = None}
     \<and> {pid. (pid, SIGKILL) \<in> set (st_signals s)} = {pid \<in> set children. waited 0 pid = None \<and> waited 1 pid = None}
     \<and> set (st_survivors s) = {pid \<in> set children. waited 0 pid = None \<and> waited 1 pid = None \<and> waited 2 pid = None}
     \<and> (st_failure s = 0 \<longleftrightarrow> list_all (\<lambda>pid. waited 0 pid = Some 0) children)
     \<and> (st_failure s = 0 \<or> st_reasons s \<noteq> []))"
proof -
  let ?s0 = "\<lparr>st_failure = 0, st_reasons = [], st_signals = map (\<lambda>pid. (pid, SIGINT)) (filter alive (rev children)), st_survivors = []\<rparr>"
  define s1 where "s1 = stop_phase show_wait waited 0 (sd_component_wait k) (Some SIGTERM) (rev children) (?s0\<lparr>st_survivors := []\<rparr>)"
  define s2 where "s2 = stop_phase show_wait waited 1 (sd_supervisor_term k) (Some SIGKILL) (st_survivors s1) (s1\<lparr>st_survivors := []\<rparr>)"
  define s3 where "s3 = stop_phase show_wait waited 2 (sd_supervisor_kill k) None (st_survivors s2) (s2\<lparr>st_survivors := []\<rparr>)"
  note e1 = stop_phase_effect [OF s1_def] and e2 = stop_phase_effect [OF s2_def] and e3 = stop_phase_effect [OF s3_def]
  let ?s = "stop_all show_wait waited 0 (stop_phases k) (rev children) ?s0"
  have all: "?s = (if st_survivors s1 = [] then s1 else if st_survivors s2 = [] then s2 else s3)"
    by (simp add: stop_phases_def Let_def s1_def s2_def s3_def numeral_2_eq_2)
  have reasons: "st_failure ?s \<noteq> 0 \<longrightarrow> st_reasons ?s \<noteq> []" by (rule stop_all_reasons) simp
  have fin: "finish_children show_wait alive waited k children
      = ?s\<lparr>st_reasons := st_reasons ?s @ map (\<lambda>pid. ''component_cleanup_incomplete:'' @ show_int pid) (st_survivors ?s)\<rparr>"
    by (simp only: finish_children_def Let_def)
  have f1: "st_failure s1 = 0 \<longleftrightarrow> list_all (\<lambda>pid. waited 0 pid = Some 0) children" using e1(3) by (simp add: list_all_iff)
  have none: "st_survivors s1 \<noteq> [] \<Longrightarrow> \<not> list_all (\<lambda>pid. waited 0 pid = Some 0) children"
    using e1(1) by (force simp: list_all_iff filter_empty_conv)
  have f: "st_failure ?s = 0 \<longleftrightarrow> list_all (\<lambda>pid. waited 0 pid = Some 0) children"
    using f1 none e2(3) e3(3) unfolding all by auto
  have nil2: "st_survivors s2 = []" if "st_survivors s1 = []" using e2(1) that by simp
  have nil3: "st_survivors s3 = []" if "st_survivors s2 = []" using e3(1) that by simp
  have s32: "st_signals s3 = st_signals s2" using e3(2) by simp
  have s21: "st_signals s2 = st_signals s1" if "st_survivors s2 = []"
    using e2(1,2) that by simp
  have sets: "set (st_signals ?s) = set (st_signals s3)" "st_survivors ?s = st_survivors s3"
    using nil2 nil3 s32 s21 unfolding all by simp_all
  have sig: "set (st_signals s3) = (\<lambda>pid. (pid, SIGINT)) ` {pid \<in> set children. alive pid} \<union> (\<lambda>pid. (pid, SIGTERM)) ` {pid \<in> set children. waited 0 pid = None}
      \<union> (\<lambda>pid. (pid, SIGKILL)) ` {pid \<in> set children. waited 0 pid = None \<and> waited 1 pid = None}"
    using e1(1,2) e2(1,2) e3(2) by auto
  have surv: "set (st_survivors s3) = {pid \<in> set children. waited 0 pid = None \<and> waited 1 pid = None \<and> waited 2 pid = None}"
    using e1(1) e2(1) e3(1) by auto
  show ?thesis
    unfolding Let_def fin using f reasons sets sig surv by auto
qed

lemma stop_registered_checked:
  assumes "stop_registered stat t manifest pidfd cmdline expected sent = Inr True"
  shows "dget manifest ''state'' = PStr ''RUNNING'' \<and> cmdline = Inr expected
    \<and> (\<exists>n s ws ticks. dget manifest ''supervisor_pid'' = PInt n \<and> stat t n = Inr s \<and> stat_words s = Inr ws
        \<and> word_at ws 19 = Inr ticks \<and> dget manifest ''supervisor_start_ticks'' = PStr ticks)"
proof -
  have sub: "dsub d k = Inr v \<Longrightarrow> dget d k = v" for d k v by (auto simp: dsub_def dget_def split: option.splits)
  from assms obtain pid where r: "dget manifest ''state'' = PStr ''RUNNING''" "dsub manifest ''supervisor_pid'' = Inr pid"
    by (auto simp: stop_registered_def result_simps split: if_splits)
  let ?read = "\<lambda>n. bindr (bindr (stat t n) (\<lambda>s. bindr (stat_words s) (\<lambda>ws. word_at ws 19))) (\<lambda>ticks.
              bindr (dsub manifest ''supervisor_start_ticks'') (\<lambda>recorded.
              if PStr ticks \<noteq> recorded then raise RuntimeError ''PID reused: refusing to signal another process''
              else bindr cmdline (\<lambda>command.
              if command \<noteq> expected then raise RuntimeError ''process command does not match session owner''
              else bindr sent (\<lambda>_. Inr True))))"
  have "\<exists>n. pid = PInt n \<and> ?read n = Inr True"
  proof (cases pid)
    case (PInt n)
    with assms r show ?thesis by (cases pidfd; cases "?read n") (auto simp: stop_registered_def split: if_splits)
  qed (use assms r in \<open>cases pidfd; auto simp: stop_registered_def split: if_splits\<close>)+
  then obtain n where n: "pid = PInt n" "?read n = Inr True" by blast
  then show ?thesis using r sub [OF r(2)] by (auto simp: result_simps if_raise dest!: sub)
qed

theorem shutdown_escalates_witness:
  "(let s = finish_children (\<lambda>_. []) (\<lambda>_. True) (\<lambda>n pid. if n = 1 then Some 0 else None)
      \<lparr>sd_grace = Fin 1, sd_component_wait = Fin 1, sd_supervisor_term = Fin 3, sd_supervisor_kill = Fin 3, sd_manifest_wait = Fin 1, sd_cli_wait = Fin 1\<rparr> [7]
    in {pid. (pid, SIGTERM) \<in> set (st_signals s)} = {7} \<and> {pid. (pid, SIGKILL) \<in> set (st_signals s)} = {})"
  using shutdown_escalates [of "\<lambda>_. []" "\<lambda>_. True" "\<lambda>n pid. if n = 1 then Some 0 else None"
      "\<lparr>sd_grace = Fin 1, sd_component_wait = Fin 1, sd_supervisor_term = Fin 3, sd_supervisor_kill = Fin 3, sd_manifest_wait = Fin 1, sd_cli_wait = Fin 1\<rparr>" "[7]"]
  by (auto simp: Let_def)

end
