(* ===== verification/Manual_Teleop.thy ===== *)
theory Manual_Teleop
  imports Serial_Feedback
begin

text \<open>
  \<open>src/src/wc_motion/manual_teleop.py\<close>: the operator's keyboard session against a simulated backend. The
  observer that journals each record is a parameter: \<open>obs n\<close> is what its \<open>n\<close>-th call does, \<open>None\<close> for a
  return and the message of the exception otherwise; the controller keeps the records that were
  accepted. Terminal handling and the output file of \<open>main\<close> are not modelled, its loop is.
\<close>

section \<open>State\<close>

datatype mode = Disarmed | Armed | Fault

datatype intent_reason = Key_event | Stopping string

datatype manual_record =
    Status_record mode string "char list" "pyval \<times> pyval" "bool option" "string option"
  | Intent_record "pyval \<times> pyval" intent_reason

record manual =
  mt_linear :: pyval
  mt_angular :: pyval
  mt_key_timeout :: pyval
  mt_link_timeout :: pyval
  mt_available :: bool
  mt_commands :: "(pyval \<times> pyval) list"
  mt_state :: mode
  mt_keys :: "char list"
  mt_last_now :: "pyval option"
  mt_last_key :: "pyval option"
  mt_last_link :: "pyval option"
  mt_target :: "pyval \<times> pyval"
  mt_reason :: string
  mt_last_stop :: "bool option"
  mt_journal_error :: "string option"
  mt_closed :: bool
  mt_calls :: nat
  mt_journal :: "manual_record list"

type_synonym observer = "nat \<Rightarrow> string option"

definition float_zero :: "pyval \<times> pyval" where
  "float_zero = (PFloat (Fin 0), PFloat (Fin 0))"

definition same_pair :: "pyval \<times> pyval \<Rightarrow> pyval \<times> pyval \<Rightarrow> bool" where
  "same_pair a b \<longleftrightarrow> py_eq (fst a) (fst b) \<and> py_eq (snd a) (snd b)"

definition real_block_reason :: string where
  "real_block_reason = ''REAL_WASD_DISABLED_UNVERIFIED_CONTROLLER_DISCONNECT_STOP_AND_BRAKE_SEMANTICS''"

definition manual_init :: "pydict \<Rightarrow> string \<Rightarrow> exc + manual" where
  "manual_init config run_mode =
     (if run_mode \<noteq> ''dry-run'' then raise FeedbackError real_block_reason
      else if dget config ''schema'' \<noteq> PStr ''wc_manual_dry_run_v1'' \<or> dget config ''hardware_enabled'' \<noteq> PBool False
      then raise FeedbackError ''manual configuration must explicitly disable hardware''
      else bindr (bounded (dget config ''linear_speed_m_s'') ''manual linear speed'' (int_bound 0 ''0'') (rat_bound (15 / 100) ''0.15'')) (\<lambda>linear.
           bindr (bounded (dget config ''angular_speed_rad_s'') ''manual angular speed'' (int_bound 0 ''0'') (rat_bound (3 / 10) ''0.3'')) (\<lambda>angular.
           bindr (bounded (dget config ''key_timeout_s'') ''key timeout'' (rat_bound (5 / 100) ''0.05'') (rat_bound (1 / 2) ''0.5'')) (\<lambda>key.
           bindr (bounded (dget config ''link_timeout_s'') ''link timeout'' (rat_bound (5 / 100) ''0.05'') (rat_bound (1 / 2) ''0.5'')) (\<lambda>link.
           Inr \<lparr>mt_linear = linear, mt_angular = angular, mt_key_timeout = key, mt_link_timeout = link, mt_available = True,
                mt_commands = [], mt_state = Disarmed, mt_keys = [], mt_last_now = None, mt_last_key = None, mt_last_link = None,
                mt_target = float_zero, mt_reason = ''STARTUP_DISABLED'', mt_last_stop = None, mt_journal_error = None,
                mt_closed = False, mt_calls = 0, mt_journal = []\<rparr>)))))"

section \<open>Journal, backend, stop\<close>

definition manual_status :: "manual \<Rightarrow> manual_record" where
  "manual_status m = Status_record (mt_state m) (mt_reason m) (sort (mt_keys m)) (mt_target m) (mt_last_stop m) (mt_journal_error m)"

definition observe :: "observer \<Rightarrow> manual_record \<Rightarrow> manual \<Rightarrow> bool \<times> manual" where
  "observe obs r m = (case obs (mt_calls m) of
       None \<Rightarrow> (True, m\<lparr>mt_calls := mt_calls m + 1, mt_journal := mt_journal m @ [r]\<rparr>)
     | Some e \<Rightarrow> (False, m\<lparr>mt_calls := mt_calls m + 1, mt_journal_error := Some e\<rparr>))"

text \<open>\<open>DryRunBackend.intent\<close>.\<close>

definition intent :: "pyval \<times> pyval \<Rightarrow> manual \<Rightarrow> (exc + unit) \<times> manual" where
  "intent t m = (if mt_available m then (Inr (), m\<lparr>mt_commands := mt_commands m @ [t]\<rparr>)
     else (raise FeedbackError ''simulated command link unavailable'', m))"

text \<open>The zero intent of a stop while something moves.\<close>

definition stop_motion :: "observer \<Rightarrow> string \<Rightarrow> manual \<Rightarrow> manual" where
  "stop_motion obs reason m =
     (let (ok, m) = observe obs (Intent_record float_zero (Stopping reason)) m;
          m = (if ok then m else m\<lparr>mt_state := Fault\<rparr>);
          m = (case intent float_zero m of
                 (Inr _, m) \<Rightarrow> m\<lparr>mt_last_stop := Some True\<rparr>
               | (Inl _, m) \<Rightarrow> m\<lparr>mt_last_stop := Some False, mt_state := Fault\<rparr>)
      in m\<lparr>mt_target := float_zero\<rparr>)"

definition manual_stop :: "observer \<Rightarrow> string \<Rightarrow> bool \<Rightarrow> bool \<Rightarrow> manual \<Rightarrow> manual" where
  "manual_stop obs reason fault force_attempt m =
     (let moving = (\<not> same_pair (mt_target m) float_zero \<or> force_attempt);
          m = m\<lparr>mt_keys := [], mt_state := (if fault \<or> mt_state m = Fault then Fault else Disarmed), mt_reason := reason\<rparr>;
          m = (if moving then stop_motion obs reason m else m);
          (ok, m) = observe obs (manual_status m) m
      in if ok then m else m\<lparr>mt_state := Fault\<rparr>)"

section \<open>Operations\<close>

definition manual_now :: "observer \<Rightarrow> pyval \<Rightarrow> manual \<Rightarrow> (exc + unit) \<times> manual" where
  "manual_now obs now m = (case bounded now ''manual monotonic timestamp'' (int_bound 0 ''0'') (PFloat (Fin 1000000000000000), ''1000000000000000.0'') of
       Inl e \<Rightarrow> (Inl e, if caught_by (exn_of e) FeedbackError then manual_stop obs ''INVALID_MONOTONIC_TIME'' True False m else m)
     | Inr _ \<Rightarrow>
         if (case mt_last_now m of None \<Rightarrow> False | Some t \<Rightarrow> py_lt now t)
         then (raise FeedbackError ''manual monotonic time moved backwards'', manual_stop obs ''MONOTONIC_TIME_REVERSED'' True False m)
         else (Inr (), m\<lparr>mt_last_now := Some now\<rparr>))"

definition heartbeat :: "observer \<Rightarrow> pyval \<Rightarrow> bool \<Rightarrow> manual \<Rightarrow> (exc + unit) \<times> manual" where
  "heartbeat obs now link_up m = andthen (manual_now obs now m) (\<lambda>m.
     if mt_closed m then (raise FeedbackError ''manual session is closed'', m)
     else let m = m\<lparr>mt_available := link_up\<rparr> in
     if \<not> link_up then (Inr (), manual_stop obs ''COMMAND_LINK_DISCONNECTED'' True False m)
     else (Inr (), m\<lparr>mt_last_link := Some now\<rparr>))"

definition elapsed :: "pyval \<Rightarrow> pyval option \<Rightarrow> pyval \<Rightarrow> bool" where
  "elapsed now since limit \<longleftrightarrow> (case since of None \<Rightarrow> True | Some t \<Rightarrow> py_lt limit (py_sub now t))"

definition arm :: "observer \<Rightarrow> pyval \<Rightarrow> bool \<Rightarrow> manual \<Rightarrow> (exc + unit) \<times> manual" where
  "arm obs now operator_confirmed m = andthen (manual_now obs now m) (\<lambda>m.
     if \<not> operator_confirmed then (raise FeedbackError ''manual operator arming event is required'', m)
     else if mt_closed m \<or> mt_state m = Fault then (raise FeedbackError ''fault/closed session cannot rearm; start a new session'', m)
     else if mt_state m = Armed then (raise FeedbackError ''already armed; stop before requesting a new arm'', m)
     else if elapsed now (mt_last_link m) (mt_link_timeout m) \<or> \<not> mt_available m
     then (raise FeedbackError ''fresh command-link health required before arm'', m)
     else let m = m\<lparr>mt_keys := [], mt_last_key := Some now, mt_state := Armed, mt_reason := ''EXPLICIT_OPERATOR_ARM_DRY_RUN''\<rparr>;
              (ok, m) = observe obs (manual_status m) m
          in if ok then (Inr (), m)
             else (raise FeedbackError ''manual journal write failed'', manual_stop obs ''JOURNAL_WRITE_FAILED'' True False m))"

definition send :: "observer \<Rightarrow> pyval \<times> pyval \<Rightarrow> manual \<Rightarrow> (exc + unit) \<times> manual" where
  "send obs target m =
     (if same_pair target (mt_target m) then (Inr (), m)
      else let (ok, m) = observe obs (Intent_record target Key_event) m in
      if \<not> ok then (raise FeedbackError ''manual journal write failed'', manual_stop obs ''JOURNAL_WRITE_FAILED'' True False m)
      else case intent target m of
          (Inr _, m) \<Rightarrow> (Inr (), m\<lparr>mt_target := target\<rparr>)
        | (Inl e, m) \<Rightarrow> (Inl e, manual_stop obs ''SIMULATED_COMMAND_WRITE_FAILED'' True True m))"

definition tick :: "observer \<Rightarrow> pyval \<Rightarrow> manual \<Rightarrow> (exc + unit) \<times> manual" where
  "tick obs now m = andthen (manual_now obs now m) (\<lambda>m.
     if mt_state m \<noteq> Armed then (Inr (), m)
     else if \<not> mt_available m \<or> elapsed now (mt_last_link m) (mt_link_timeout m)
     then (Inr (), manual_stop obs ''COMMAND_LINK_STALE'' True False m)
     else if elapsed now (mt_last_key m) (mt_key_timeout m) then (Inr (), manual_stop obs ''KEY_TIMEOUT'' False False m)
     else (Inr (), m))"

definition axis :: "char \<Rightarrow> char \<Rightarrow> pyval \<Rightarrow> char list \<Rightarrow> pyval" where
  "axis up down speed keys = py_mul (PInt ((if up \<in> set keys then 1 else 0) - (if down \<in> set keys then 1 else 0))) speed"

definition key_event :: "observer \<Rightarrow> string \<Rightarrow> pyval \<Rightarrow> pyval \<Rightarrow> manual \<Rightarrow> (exc + unit) \<times> manual" where
  "key_event obs key pressed now m = andthen (manual_now obs now m) (\<lambda>m.
     if mt_closed m then (raise FeedbackError ''manual session is closed'', m)
     else if key = '' '' then (Inr (), manual_stop obs ''OPERATOR_STOP'' False False m)
     else if key \<notin> {''w'', ''a'', ''s'', ''d''} \<or> \<not> is_bool pressed
     then (raise FeedbackError ''explicit WASD key event required'', manual_stop obs ''INVALID_KEY_EVENT'' True False m)
     else andthen (tick obs now m) (\<lambda>m.
     if mt_state m \<noteq> Armed then (Inr (), m)
     else let c = hd key;
              m = m\<lparr>mt_keys := (if pressed = PBool True then List.insert c (mt_keys m) else removeAll c (mt_keys m)), mt_last_key := Some now\<rparr>
          in send obs (axis CHR ''w'' CHR ''s'' (mt_linear m) (mt_keys m), axis CHR ''a'' CHR ''d'' (mt_angular m) (mt_keys m)) m))"

definition close :: "observer \<Rightarrow> pyval \<Rightarrow> manual \<Rightarrow> (exc + unit) \<times> manual" where
  "close obs now m = andthen (manual_now obs now m) (\<lambda>m.
     (Inr (), (manual_stop obs ''OPERATOR_EXIT'' (mt_state m = Fault) False m)\<lparr>mt_closed := True\<rparr>))"

section \<open>The loop of \<open>main\<close>\<close>

text \<open>One turn: the times it reads and the key, \<open>None\<close> when there is no input; an empty key is the end of
  the input. The result says whether the loop goes on.\<close>

record turn =
  tn_start :: pyval
  tn_key :: "string option"
  tn_after :: pyval

definition lower_char :: "char \<Rightarrow> char" where
  "lower_char c = (let n = (of_char c :: nat) in if 65 \<le> n \<and> n \<le> 90 then char_of (n + 32) else c)"

definition manual_turn :: "observer \<Rightarrow> turn \<Rightarrow> manual \<Rightarrow> (exc + bool) \<times> manual" where
  "manual_turn obs t m = andthen (heartbeat obs (tn_start t) True m) (\<lambda>m.
     case tn_key t of
       None \<Rightarrow> andthen (tick obs (tn_after t) m) (\<lambda>m. (Inr True, m))
     | Some key \<Rightarrow>
         if key = [] then andthen (heartbeat obs (tn_after t) False m) (\<lambda>m. (Inr False, m))
         else let key = map lower_char key in
         if key = ''q'' \<or> key = [CHR 0x03] then (Inr False, m)
         else andthen (if key = ''e'' then arm obs (tn_after t) True m
                        else if key \<in> {''w'', ''a'', ''s'', ''d'', '' ''} then key_event obs key (PBool True) (tn_after t) m
                        else (Inr (), m)) (\<lambda>m.
              andthen (tick obs (tn_after t) m) (\<lambda>m. (Inr True, m))))"

fun manual_loop :: "observer \<Rightarrow> turn list \<Rightarrow> manual \<Rightarrow> (exc + unit) \<times> manual" where
  "manual_loop obs [] m = (Inr (), m)"
| "manual_loop obs (t # ts) m = (case manual_turn obs t m of
       (Inl e, m) \<Rightarrow> (Inl e, m)
     | (Inr False, m) \<Rightarrow> (Inr (), m)
     | (Inr True, m) \<Rightarrow> manual_loop obs ts m)"

text \<open>\<open>finally: controller.close(...)\<close>, and the exit status; an exception of \<open>close\<close> wins.\<close>

definition manual_session :: "observer \<Rightarrow> turn list \<Rightarrow> pyval \<Rightarrow> manual \<Rightarrow> (exc + int) \<times> manual" where
  "manual_session obs ts ended m = (case manual_loop obs ts m of (r, m) \<Rightarrow>
     (case close obs ended m of (c, m) \<Rightarrow>
        (bindr c (\<lambda>_. bindr r (\<lambda>_. Inr (if mt_state m = Fault then 1 else 0))), m)))"

section \<open>Operations as a whole\<close>

datatype manual_op = Heartbeat pyval bool | Arm pyval bool | Key string pyval pyval | Tick pyval | Close pyval

fun manual_step :: "observer \<Rightarrow> manual_op \<Rightarrow> manual \<Rightarrow> (exc + unit) \<times> manual" where
  "manual_step obs (Heartbeat now link_up) m = heartbeat obs now link_up m"
| "manual_step obs (Arm now confirmed) m = arm obs now confirmed m"
| "manual_step obs (Key key pressed now) m = key_event obs key pressed now m"
| "manual_step obs (Tick now) m = tick obs now m"
| "manual_step obs (Close now) m = close obs now m"

section \<open>Lemmas\<close>

subsection \<open>What a stop does\<close>

abbreviation moving :: "manual \<Rightarrow> bool" where
  "moving m \<equiv> \<not> same_pair (mt_target m) float_zero"

lemma same_zero [simp]: "same_pair float_zero float_zero"
  by (simp add: same_pair_def float_zero_def)

text \<open>The parts of the state that only \<open>__init__\<close> writes, and the two histories, which only grow.\<close>

definition grows :: "manual \<Rightarrow> manual \<Rightarrow> bool" where
  "grows m m' \<longleftrightarrow> mt_linear m' = mt_linear m \<and> mt_angular m' = mt_angular m \<and> mt_key_timeout m' = mt_key_timeout m
     \<and> mt_link_timeout m' = mt_link_timeout m \<and> set (mt_journal m) \<subseteq> set (mt_journal m')"

text \<open>The speeds one axis can be told: the configured one, its opposite, or none.\<close>

definition axis_speeds :: "pyval \<Rightarrow> pyval set" where
  "axis_speeds speed = {py_mul (PInt (- 1)) speed, py_mul (PInt 0) speed, py_mul (PInt 1) speed}"

definition audited :: "manual \<Rightarrow> bool" where
  "audited m \<longleftrightarrow> (\<forall>t \<in> set (mt_commands m). t = float_zero \<or>
     (Intent_record t Key_event \<in> set (mt_journal m) \<and> fst t \<in> axis_speeds (mt_linear m) \<and> snd t \<in> axis_speeds (mt_angular m)))"

definition manual_ok :: "manual \<Rightarrow> bool" where
  "manual_ok m \<longleftrightarrow> audited m \<and> (moving m \<longrightarrow> mt_state m = Armed) \<and> (mt_closed m \<longrightarrow> mt_state m \<noteq> Armed)"

lemma observe_effect:
  assumes "observe obs r m = (b, m')"
  shows "mt_target m' = mt_target m" "mt_state m' = mt_state m" "mt_closed m' = mt_closed m" "mt_commands m' = mt_commands m"
    "mt_last_now m' = mt_last_now m" "mt_last_key m' = mt_last_key m" "mt_last_link m' = mt_last_link m" "mt_available m' = mt_available m"
    "grows m m'" "b \<Longrightarrow> r \<in> set (mt_journal m')"
  using assms by (auto simp: observe_def grows_def split: option.splits)

lemma intent_effect:
  assumes "intent t m = (r, m')"
  shows "mt_target m' = mt_target m" "mt_state m' = mt_state m" "mt_closed m' = mt_closed m" "mt_journal m' = mt_journal m"
    "grows m m'" "mt_commands m' = mt_commands m \<or> mt_commands m' = mt_commands m @ [t]"
  using assms by (auto simp: intent_def grows_def split: if_splits)

lemma audited_grows:
  assumes "audited m" "grows m m'" "set (mt_commands m') \<subseteq> insert float_zero (set (mt_commands m))"
  shows "audited m'"
  using assms unfolding audited_def grows_def by fastforce

lemma grows_refl [simp]: "grows m m" and grows_trans: "grows m m' \<Longrightarrow> grows m' m'' \<Longrightarrow> grows m m''"
  by (auto simp: grows_def)

lemma stop_motion_effect:
  assumes "m' = stop_motion obs reason m"
  shows "mt_target m' = float_zero" "mt_state m' = mt_state m \<or> mt_state m' = Fault" "mt_closed m' = mt_closed m" "grows m m'"
    "set (mt_commands m') \<subseteq> insert float_zero (set (mt_commands m))"
proof -
  obtain ok m1 where o: "observe obs (Intent_record float_zero (Stopping reason)) m = (ok, m1)" by fastforce
  define m2 where "m2 = (if ok then m1 else m1\<lparr>mt_state := Fault\<rparr>)"
  obtain r m3 where i: "intent float_zero m2 = (r, m3)" by fastforce
  have s: "m' = (case r of Inr _ \<Rightarrow> m3\<lparr>mt_last_stop := Some True\<rparr> | Inl _ \<Rightarrow> m3\<lparr>mt_last_stop := Some False, mt_state := Fault\<rparr>)\<lparr>mt_target := float_zero\<rparr>"
    unfolding assms stop_motion_def o Let_def split m2_def [symmetric] i by (cases r) simp_all
  note oe = observe_effect [OF o] and ie = intent_effect [OF i]
  have m2: "mt_closed m2 = mt_closed m" "grows m m2" "mt_commands m2 = mt_commands m" "mt_state m2 = mt_state m \<or> mt_state m2 = Fault"
    using oe by (auto simp: m2_def grows_def)
  show "mt_target m' = float_zero" unfolding s by simp
  show "mt_state m' = mt_state m \<or> mt_state m' = Fault" using m2 ie unfolding s by (cases r) auto
  show "mt_closed m' = mt_closed m" using m2 ie unfolding s by (cases r) auto
  show "grows m m'" using m2 ie(5) unfolding s by (cases r) (auto simp: grows_def)
  show "set (mt_commands m') \<subseteq> insert float_zero (set (mt_commands m))" using m2 ie(6) unfolding s by (cases r) auto
qed

lemma manual_stop_effect:
  assumes "m' = manual_stop obs reason fault force m"
  shows "\<not> moving m'" "mt_state m' \<noteq> Armed" "fault \<or> mt_state m = Fault \<Longrightarrow> mt_state m' = Fault" "mt_closed m' = mt_closed m" "grows m m'"
    "set (mt_commands m') \<subseteq> insert float_zero (set (mt_commands m))"
proof -
  define m1 where "m1 = m\<lparr>mt_keys := [], mt_state := (if fault \<or> mt_state m = Fault then Fault else Disarmed), mt_reason := reason\<rparr>"
  define m2 where "m2 = (if moving m \<or> force then stop_motion obs reason m1 else m1)"
  obtain ok m3 where o: "observe obs (manual_status m2) m2 = (ok, m3)" by fastforce
  have s: "m' = (if ok then m3 else m3\<lparr>mt_state := Fault\<rparr>)"
    unfolding assms manual_stop_def Let_def m1_def [symmetric] m2_def [symmetric] o by simp
  note se = stop_motion_effect [of "stop_motion obs reason m1" obs reason m1, OF refl] and oe = observe_effect [OF o]
  have m1: "mt_target m1 = mt_target m" "mt_state m1 \<noteq> Armed" "fault \<or> mt_state m = Fault \<Longrightarrow> mt_state m1 = Fault" "mt_closed m1 = mt_closed m"
      "grows m m1" "mt_commands m1 = mt_commands m"
    by (auto simp: m1_def grows_def)
  have m2: "\<not> moving m2" "mt_state m2 \<noteq> Armed" "fault \<or> mt_state m = Fault \<Longrightarrow> mt_state m2 = Fault" "mt_closed m2 = mt_closed m"
      "grows m m2" "set (mt_commands m2) \<subseteq> insert float_zero (set (mt_commands m))"
    using se m1 by (auto simp: m2_def intro: grows_trans)
  show "\<not> moving m'" "mt_state m' \<noteq> Armed" "mt_closed m' = mt_closed m" using m2 oe by (auto simp: s)
  show "fault \<or> mt_state m = Fault \<Longrightarrow> mt_state m' = Fault" using m2(3) oe by (auto simp: s)
  show "grows m m'" using m2(5) oe(9) by (auto simp: s grows_def)
  show "set (mt_commands m') \<subseteq> insert float_zero (set (mt_commands m))" using m2(6) oe by (auto simp: s)
qed

lemmas stop_effect = manual_stop_effect [OF refl]

lemma stop_still [simp]: "same_pair (mt_target (manual_stop obs reason fault force m)) float_zero"
  using stop_effect(1) by blast

lemma stop_ok: "audited m \<Longrightarrow> manual_ok (manual_stop obs reason fault force m)"
  unfolding manual_ok_def using audited_grows [OF _ stop_effect(5) stop_effect(6)] stop_effect(1) stop_effect(2) by simp

subsection \<open>What every operation keeps\<close>

definition kept :: "manual \<Rightarrow> manual \<Rightarrow> bool" where
  "kept m m' \<longleftrightarrow> manual_ok m' \<and> grows m m' \<and> (mt_closed m \<longrightarrow> mt_closed m')
     \<and> (mt_state m = Fault \<longrightarrow> mt_state m' = Fault \<and> set (mt_commands m') \<subseteq> insert float_zero (set (mt_commands m)))"

lemma keptD: "kept m m' \<Longrightarrow> manual_ok m'"
  by (simp add: kept_def)

lemma kept_trans: "kept m m' \<Longrightarrow> kept m' m'' \<Longrightarrow> kept m m''"
  by (auto simp: kept_def intro: grows_trans)

lemma kept_stop:
  assumes "manual_ok m" shows "kept m (manual_stop obs reason fault force m)"
proof -
  have "audited m" using assms by (simp add: manual_ok_def)
  then show ?thesis
    using stop_ok stop_effect(3-6) unfolding kept_def by simp
qed

text \<open>Assignments that touch neither the mode nor the histories.\<close>

lemma kept_same:
  assumes "manual_ok m" "mt_target m' = mt_target m" "mt_state m' = mt_state m" "mt_closed m' = mt_closed m" "mt_commands m' = mt_commands m" "grows m m'"
  shows "kept m m'"
proof -
  have "audited m'" using assms(1,5,6) by (auto simp: manual_ok_def intro: audited_grows)
  then show ?thesis using assms by (auto simp: kept_def manual_ok_def)
qed

lemma kept_update:
  assumes "manual_ok m"
  shows "kept m m" "kept m (m\<lparr>mt_last_now := v\<rparr>)" "kept m (m\<lparr>mt_available := b\<rparr>)" "kept m (m\<lparr>mt_available := b, mt_last_link := v\<rparr>)"
    "kept m (m\<lparr>mt_keys := ks, mt_last_key := v\<rparr>)"
  by (rule kept_same [OF assms]; simp add: grows_def)+

lemma kept_observe: "manual_ok m \<Longrightarrow> observe obs r m = (b, m') \<Longrightarrow> kept m m'"
  by (rule kept_same) (simp_all add: observe_effect)

lemma manual_now_cases:
  obtains (silent) e where "manual_now obs now m = (Inl e, m)"
  | (halted) e reason where "manual_now obs now m = (Inl e, manual_stop obs reason True False m)"
  | (passed) "manual_now obs now m = (Inr (), m\<lparr>mt_last_now := Some now\<rparr>)"
proof -
  let ?b = "bounded now ''manual monotonic timestamp'' (int_bound 0 ''0'') (PFloat (Fin 1000000000000000), ''1000000000000000.0'')"
  show thesis
  proof (cases ?b)
    case (Inl e)
    show thesis
    proof (cases "caught_by (exn_of e) FeedbackError")
      case True
      with Inl show thesis using halted by (simp add: manual_now_def)
    next
      case False
      with Inl show thesis using silent by (simp add: manual_now_def)
    qed
  next
    case (Inr v)
    show thesis
    proof (cases "case mt_last_now m of None \<Rightarrow> False | Some t \<Rightarrow> py_lt now t")
      case True
      with Inr show thesis using halted by (simp add: manual_now_def)
    next
      case False
      with Inr show thesis using passed by (simp add: manual_now_def)
    qed
  qed
qed

text \<open>An operation that reads the time first keeps what its body keeps.\<close>

lemma kept_timed:
  assumes "manual_ok m" and "manual_ok (m\<lparr>mt_last_now := Some now\<rparr>) \<Longrightarrow> kept (m\<lparr>mt_last_now := Some now\<rparr>) (snd (f (m\<lparr>mt_last_now := Some now\<rparr>)))"
  shows "kept m (snd (andthen (manual_now obs now m) f))"
proof (cases rule: manual_now_cases [of obs now m])
  case passed
  have "kept m (m\<lparr>mt_last_now := Some now\<rparr>)" using assms(1) by (rule kept_update)
  with assms(2) passed show ?thesis by (auto dest: keptD intro: kept_trans)
qed (use assms(1) in \<open>auto intro: kept_update kept_stop\<close>)

lemma kept_then_stop: "kept m m' \<Longrightarrow> kept m (manual_stop obs reason fault force m')"
  by (rule kept_trans [OF _ kept_stop [OF keptD]])

lemma kept_heartbeat: assumes "manual_ok m" shows "kept m (snd (heartbeat obs now link_up m))"
  unfolding heartbeat_def
  by (rule kept_timed [OF assms]) (auto simp: Let_def intro: kept_then_stop kept_update)

lemma kept_tick: assumes "manual_ok m" shows "kept m (snd (tick obs now m))"
  unfolding tick_def
  by (rule kept_timed [OF assms]) (auto intro: kept_stop kept_update)

lemma kept_close: assumes "manual_ok m" shows "kept m (snd (close obs now m))"
  unfolding close_def
proof (rule kept_timed [OF assms])
  define m1 where "m1 = m\<lparr>mt_last_now := Some now\<rparr>"
  define m2 where "m2 = manual_stop obs ''OPERATOR_EXIT'' (mt_state m1 = Fault) False m1"
  assume "manual_ok (m\<lparr>mt_last_now := Some now\<rparr>)"
  then have k: "kept m1 m2" unfolding m1_def [symmetric] m2_def by (rule kept_stop)
  have "mt_state m2 \<noteq> Armed" by (simp add: m2_def stop_effect)
  with k have "kept m1 (m2\<lparr>mt_closed := True\<rparr>)"
    by (auto simp: kept_def manual_ok_def grows_def audited_def)
  then show "kept (m\<lparr>mt_last_now := Some now\<rparr>) (snd ((\<lambda>m. (Inr (), (manual_stop obs ''OPERATOR_EXIT'' (mt_state m = Fault) False m)\<lparr>mt_closed := True\<rparr>)) (m\<lparr>mt_last_now := Some now\<rparr>)))"
    by (simp add: m1_def m2_def)
qed

lemma kept_arm: assumes "manual_ok m" shows "kept m (snd (arm obs now confirmed m))"
  unfolding arm_def
proof (rule kept_timed [OF assms])
  define m1 where "m1 = m\<lparr>mt_last_now := Some now\<rparr>"
  define m2 where "m2 = m1\<lparr>mt_keys := [], mt_last_key := Some now, mt_state := Armed, mt_reason := ''EXPLICIT_OPERATOR_ARM_DRY_RUN''\<rparr>"
  obtain ok m3 where o: "observe obs (manual_status m2) m2 = (ok, m3)" by fastforce
  assume ok: "manual_ok (m\<lparr>mt_last_now := Some now\<rparr>)"
  have "kept m1 m2" if "\<not> mt_closed m1" "mt_state m1 \<noteq> Fault"
    using ok that unfolding m1_def [symmetric] m2_def by (auto simp: kept_def manual_ok_def grows_def audited_def)
  then have k: "kept m1 m3" if "\<not> mt_closed m1" "mt_state m1 \<noteq> Fault"
    using that kept_observe [OF _ o] keptD kept_trans by blast
  show "kept (m\<lparr>mt_last_now := Some now\<rparr>) (snd ((\<lambda>m. if \<not> confirmed then (raise FeedbackError ''manual operator arming event is required'', m)
     else if mt_closed m \<or> mt_state m = Fault then (raise FeedbackError ''fault/closed session cannot rearm; start a new session'', m)
     else if mt_state m = Armed then (raise FeedbackError ''already armed; stop before requesting a new arm'', m)
     else if elapsed now (mt_last_link m) (mt_link_timeout m) \<or> \<not> mt_available m
     then (raise FeedbackError ''fresh command-link health required before arm'', m)
     else let m = m\<lparr>mt_keys := [], mt_last_key := Some now, mt_state := Armed, mt_reason := ''EXPLICIT_OPERATOR_ARM_DRY_RUN''\<rparr>;
              (ok, m) = observe obs (manual_status m) m
          in if ok then (Inr (), m)
             else (raise FeedbackError ''manual journal write failed'', manual_stop obs ''JOURNAL_WRITE_FAILED'' True False m)) (m\<lparr>mt_last_now := Some now\<rparr>)))"
    unfolding m1_def [symmetric] Let_def m2_def [symmetric] o
    using kept_update(1) [OF ok [folded m1_def]] k by (auto intro: kept_then_stop)
qed

text \<open>What \<open>_send\<close> does to a target: it is set only after it was journaled and accepted.\<close>

lemma kept_send:
  assumes ok: "manual_ok m" and armed: "mt_state m = Armed"
    and speeds: "fst t \<in> axis_speeds (mt_linear m)" "snd t \<in> axis_speeds (mt_angular m)"
  shows "kept m (snd (send obs t m))"
proof (cases "same_pair t (mt_target m)")
  case True
  then show ?thesis using ok by (simp add: send_def kept_update)
next
  case False
  obtain b m1 where o: "observe obs (Intent_record t Key_event) m = (b, m1)" by fastforce
  obtain r m2 where i: "intent t m1 = (r, m2)" by fastforce
  have k: "kept m m1" using ok o by (rule kept_observe)
  have m2: "kept m (m2\<lparr>mt_target := t\<rparr>)" if b
  proof -
    have j: "Intent_record t Key_event \<in> set (mt_journal m1)" using observe_effect(10) [OF o] that .
    have "grows m m2" using observe_effect(9) [OF o] intent_effect(5) [OF i] by (rule grows_trans)
    moreover have "set (mt_commands m2) \<subseteq> insert t (set (mt_commands m))"
      using intent_effect(6) [OF i] observe_effect(4) [OF o] by auto
    moreover have "audited m" "\<not> mt_closed m" using ok armed by (auto simp: manual_ok_def)
    moreover have "mt_state m2 = Armed" "mt_closed m2 = mt_closed m" "mt_journal m2 = mt_journal m1"
      using intent_effect [OF i] observe_effect [OF o] armed by simp_all
    ultimately show ?thesis
      using j speeds armed by (auto simp: kept_def manual_ok_def audited_def grows_def)
  qed
  have "send obs t m = (if \<not> b then (raise FeedbackError ''manual journal write failed'', manual_stop obs ''JOURNAL_WRITE_FAILED'' True False m1)
      else case r of Inr _ \<Rightarrow> (Inr (), m2\<lparr>mt_target := t\<rparr>) | Inl e \<Rightarrow> (Inl e, manual_stop obs ''SIMULATED_COMMAND_WRITE_FAILED'' True True m2))"
    unfolding send_def o Let_def split i using False by (cases r) simp_all
  moreover have "m2 = m1" if "isl r" using i that by (auto simp: intent_def split: if_splits)
  ultimately show ?thesis using k m2 by (cases r) (auto intro: kept_then_stop)
qed

lemma axis_in_speeds: "axis up down speed keys \<in> axis_speeds speed"
  by (auto simp: axis_def axis_speeds_def)

lemma kept_key_event: assumes "manual_ok m" shows "kept m (snd (key_event obs key pressed now m))"
  unfolding key_event_def
proof (rule kept_timed [OF assms])
  define m1 where "m1 = m\<lparr>mt_last_now := Some now\<rparr>"
  define body where "body = (\<lambda>m. if mt_state m \<noteq> Armed then (Inr (), m)
     else let c = hd key;
              m = m\<lparr>mt_keys := (if pressed = PBool True then List.insert c (mt_keys m) else removeAll c (mt_keys m)), mt_last_key := Some now\<rparr>
          in send obs (axis CHR ''w'' CHR ''s'' (mt_linear m) (mt_keys m), axis CHR ''a'' CHR ''d'' (mt_angular m) (mt_keys m)) m)"
  assume ok: "manual_ok (m\<lparr>mt_last_now := Some now\<rparr>)"
  have body: "kept m2 (snd (body m2))" if "manual_ok m2" for m2
  proof (cases "mt_state m2 = Armed")
    case True
    define m3 where "m3 = m2\<lparr>mt_keys := (if pressed = PBool True then List.insert (hd key) (mt_keys m2) else removeAll (hd key) (mt_keys m2)), mt_last_key := Some now\<rparr>"
    have "kept m2 m3" unfolding m3_def using that by (rule kept_update)
    moreover from this have "kept m3 (snd (send obs (axis CHR ''w'' CHR ''s'' (mt_linear m3) (mt_keys m3), axis CHR ''a'' CHR ''d'' (mt_angular m3) (mt_keys m3)) m3))"
      by (intro kept_send) (auto simp: axis_in_speeds m3_def True dest: keptD)
    ultimately show ?thesis
      unfolding body_def Let_def m3_def [symmetric] using True by (auto intro: kept_trans)
  qed (use that in \<open>simp add: body_def kept_update\<close>)
  have "kept m1 (snd (andthen (tick obs now m1) body))"
  proof -
    have t: "kept m1 (snd (tick obs now m1))" using ok [folded m1_def] by (rule kept_tick)
    obtain r m2 where "tick obs now m1 = (r, m2)" by fastforce
    with t body show ?thesis by (cases r) (auto dest: keptD intro: kept_trans)
  qed
  with ok show "kept (m\<lparr>mt_last_now := Some now\<rparr>) (snd ((\<lambda>m. if mt_closed m then (raise FeedbackError ''manual session is closed'', m)
     else if key = '' '' then (Inr (), manual_stop obs ''OPERATOR_STOP'' False False m)
     else if key \<notin> {''w'', ''a'', ''s'', ''d''} \<or> \<not> is_bool pressed
     then (raise FeedbackError ''explicit WASD key event required'', manual_stop obs ''INVALID_KEY_EVENT'' True False m)
     else andthen (tick obs now m) body) (m\<lparr>mt_last_now := Some now\<rparr>)))"
    unfolding m1_def [symmetric] by (auto intro: kept_stop kept_update)
qed

lemma kept_step: "manual_ok m \<Longrightarrow> kept m (snd (manual_step obs op m))"
  by (cases op) (simp_all add: kept_heartbeat kept_arm kept_key_event kept_tick kept_close)

interpretation teleop: preserves "manual_step obs" "\<lambda>m. kept m0 m" for obs m0
  by unfold_locales (auto dest: keptD intro: kept_trans kept_step)

section \<open>Properties\<close>

lemma init_ok: assumes "manual_init config run_mode = Inr m"
  shows "manual_ok m" "mt_commands m = []" "mt_state m = Disarmed"
  using assms by (auto simp: manual_init_def result_simps manual_ok_def audited_def split: if_splits)

lemma run_kept: "manual_ok m \<Longrightarrow> kept m (run_state (manual_step obs) ops m)"
  using teleop.run_keeps kept_update(1) by blast

text \<open>A configuration that is accepted, and a controller it makes.\<close>

definition demo_manual_config :: pydict where
  "demo_manual_config = [(''schema'', PStr ''wc_manual_dry_run_v1''), (''hardware_enabled'', PBool False),
     (''linear_speed_m_s'', PFloat (Fin (1 / 8))), (''angular_speed_rad_s'', PFloat (Fin (1 / 4))),
     (''key_timeout_s'', PFloat (Fin (1 / 4))), (''link_timeout_s'', PFloat (Fin (1 / 2)))]"

definition demo_manual :: manual where
  "demo_manual = \<lparr>mt_linear = PFloat (Fin (1 / 8)), mt_angular = PFloat (Fin (1 / 4)), mt_key_timeout = PFloat (Fin (1 / 4)),
     mt_link_timeout = PFloat (Fin (1 / 2)), mt_available = True,
     mt_commands = [], mt_state = Disarmed, mt_keys = [], mt_last_now = None, mt_last_key = None, mt_last_link = None,
     mt_target = float_zero, mt_reason = ''STARTUP_DISABLED'', mt_last_stop = None, mt_journal_error = None,
     mt_closed = False, mt_calls = 0, mt_journal = []\<rparr>"

lemma demo_manual_init: "manual_init demo_manual_config ''dry-run'' = Inr demo_manual"
  by (simp add: manual_init_def demo_manual_config_def demo_manual_def bounded_def int_bound_def rat_bound_def py_le_def
      round64_half round64_twentieth round64_tenths)

text \<open>
  C13. In any run of the operations of a new controller, whatever the observer does: a motion target
  is requested only while the controller is armed and open, and every command the backend received is
  a stop or was journaled as a key event before and asks each axis for its configured speed, the opposite or none.\<close>

theorem motion_needs_arm:
  assumes "manual_init config run_mode = Inr m0" "m = run_state (manual_step obs) ops m0"
  shows "(\<not> same_pair (mt_target m) float_zero \<longrightarrow> mt_state m = Armed \<and> \<not> mt_closed m)
    \<and> (\<forall>t \<in> set (mt_commands m). t = float_zero \<or> (Intent_record t Key_event \<in> set (mt_journal m)
         \<and> fst t \<in> axis_speeds (mt_linear m0) \<and> snd t \<in> axis_speeds (mt_angular m0)))"
  using run_kept [OF init_ok(1) [OF assms(1)], of obs ops]
  unfolding assms(2) kept_def manual_ok_def audited_def grows_def by auto

theorem motion_needs_arm_witness:
  "(let m = run_state (manual_step (\<lambda>_. None)) [Heartbeat (PInt 1) True, Arm (PInt 1) True, Key ''w'' (PBool True) (PInt 1)] demo_manual
    in mt_state m = Armed \<and> length (mt_commands m) = 1 \<and> list_all (\<lambda>t. t = float_zero \<or> fst t \<in> axis_speeds (PFloat (Fin (1 / 8)))) (mt_commands m))"
proof -
  let ?m = "run_state (manual_step (\<lambda>_. None)) [Heartbeat (PInt 1) True, Arm (PInt 1) True, Key ''w'' (PBool True) (PInt 1)] demo_manual"
  have t: "bounded (PInt 1) s (int_bound 0 ''0'') (PFloat (Fin 1000000000000000), ''1000000000000000.0'') = Inr (PInt 1)" for s
    by (simp add: bounded_def int_bound_def py_le_def int_overflows_def)
  have e: "exponent 1 = 0" "exponent (1 / 8) = - 3"
    using exponent_below_1 [of "1 / 8" 8 3] by (simp_all add: exponent_def bitlen_def compute_floorlog)
  have f: "round64 1 = Fin 1" "round64 (1 / 8) = Fin (1 / 8)"
    by (subst round64_eq [where e = 0 and n = "2 ^ 52"], simp_all add: e pow2_def)
      (subst round64_eq [where e = "- 3" and n = "2 ^ 52"], simp_all add: e pow2_def)
  have "mt_state ?m = Armed \<and> length (mt_commands ?m) = 1"
    by (simp add: demo_manual_def heartbeat_def arm_def key_event_def tick_def manual_now_def t Let_def observe_def send_def elapsed_def py_lt_def
        same_pair_def float_zero_def axis_def intent_def to_float_def f)
  moreover have l: "mt_linear demo_manual = PFloat (Fin (1 / 8))" by (simp add: demo_manual_def)
  ultimately show ?thesis
    using motion_needs_arm [OF demo_manual_init refl, of "\<lambda>_. None" "[Heartbeat (PInt 1) True, Arm (PInt 1) True, Key ''w'' (PBool True) (PInt 1)]"]
    by (auto simp: Let_def list_all_iff l)
qed

lemma bounded_raises: "bounded v s low high = Inl e \<Longrightarrow> exn_of e = FeedbackError \<or> exn_of e = OverflowError"
  by (cases v) (auto simp: bounded_def result_simps Let_def split: if_splits)

lemma manual_now_raised:
  assumes "manual_now obs now m = (Inl e, m')"
  shows "exn_of e = OverflowError \<or> \<not> moving m' \<and> mt_state m' \<noteq> Armed"
proof (cases "bounded now ''manual monotonic timestamp'' (int_bound 0 ''0'') (PFloat (Fin 1000000000000000), ''1000000000000000.0'')")
  case (Inl e')
  with assms bounded_raises [OF Inl] show ?thesis
    by (auto simp: manual_now_def caught_by_def stop_effect split: if_splits)
next
  case (Inr v)
  with assms show ?thesis by (auto simp: manual_now_def stop_effect split: if_splits)
qed

lemma tick_fresh:
  assumes "manual_ok m" "tick obs now m = (r, m')" "moving m'"
  shows "(case r of Inl e \<Rightarrow> exn_of e = OverflowError | Inr _ \<Rightarrow> False)
    \<or> (mt_available m' \<and> \<not> elapsed now (mt_last_link m') (mt_link_timeout m') \<and> \<not> elapsed now (mt_last_key m') (mt_key_timeout m'))"
proof (cases "manual_now obs now m")
  case (Pair q m1)
  show ?thesis
  proof (cases q)
    case (Inl e)
    with assms Pair manual_now_raised [of obs now m e m1] show ?thesis by (auto simp: tick_def)
  next
    case (Inr u)
    with Pair have m1: "m1 = m\<lparr>mt_last_now := Some now\<rparr>" by (cases rule: manual_now_cases [of obs now m]) auto
    show ?thesis
      using assms Pair Inr by (auto simp: tick_def m1 stop_effect manual_ok_def split: if_splits)
  qed
qed

text \<open>
  C17. The deadman: in any run of a new controller, after a tick at \<open>now\<close> a motion target is left only
  if the link is up, the last heartbeat is no older than the link timeout and the last key no older than the key
  timeout. The exception is a timestamp that is an integer too large for a float, where the tick raises
  \<open>OverflowError\<close> and stops nothing.\<close>

theorem manual_deadman:
  assumes "manual_init config run_mode = Inr m0" "m = run_state (manual_step obs) ops m0" "tick obs now m = (r, m')"
  shows "same_pair (mt_target m') float_zero
    \<or> (mt_available m' \<and> \<not> elapsed now (mt_last_link m') (mt_link_timeout m0) \<and> \<not> elapsed now (mt_last_key m') (mt_key_timeout m0))
    \<or> (case r of Inl e \<Rightarrow> exn_of e = OverflowError | Inr _ \<Rightarrow> False)"
proof -
  have k: "kept m0 m" unfolding assms(2) by (rule run_kept [OF init_ok(1) [OF assms(1)]])
  then have "kept m m'" using kept_tick [OF keptD, of m0 m obs now] assms(3) by simp
  with k have "mt_link_timeout m' = mt_link_timeout m0" "mt_key_timeout m' = mt_key_timeout m0" by (auto simp: kept_def grows_def)
  then show ?thesis using tick_fresh [OF keptD [OF k] assms(3)] by auto
qed

theorem manual_deadman_witness:
  "(let m = run_state (manual_step (\<lambda>_. None)) [Heartbeat (PInt 1) True, Arm (PInt 1) True] demo_manual
    in mt_state m = Armed \<and> same_pair (mt_target (snd (tick (\<lambda>_. None) (PInt 2) m))) float_zero)"
proof -
  let ?m = "run_state (manual_step (\<lambda>_. None)) [Heartbeat (PInt 1) True, Arm (PInt 1) True] demo_manual"
  have t: "i = 1 \<or> i = 2 \<Longrightarrow> bounded (PInt i) s (int_bound 0 ''0'') (PFloat (Fin 1000000000000000), ''1000000000000000.0'') = Inr (PInt i)" for s i
    by (auto simp: bounded_def int_bound_def py_le_def int_overflows_def)
  have m: "mt_state ?m = Armed \<and> tick (\<lambda>_. None) (PInt 2) ?m = (Inr (), snd (tick (\<lambda>_. None) (PInt 2) ?m))
      \<and> mt_last_link (snd (tick (\<lambda>_. None) (PInt 2) ?m)) = Some (PInt 1)"
    by (simp add: demo_manual_def heartbeat_def arm_def tick_def manual_now_def t Let_def observe_def elapsed_def py_lt_def
        same_pair_def float_zero_def manual_stop_def)
  have "elapsed (PInt 2) (Some (PInt 1)) (mt_link_timeout demo_manual)"
    by (simp add: elapsed_def py_lt_def demo_manual_def)
  with m manual_deadman [OF demo_manual_init refl, of "\<lambda>_. None" "PInt 2" "[Heartbeat (PInt 1) True, Arm (PInt 1) True]"]
  show ?thesis by (fastforce simp: Let_def)
qed

lemma fault_is_final:
  assumes "manual_ok m" "mt_state m = Fault" "m' = run_state (manual_step obs) ops m"
  shows "mt_state m' = Fault \<and> \<not> moving m' \<and> set (mt_commands m') \<subseteq> insert float_zero (set (mt_commands m))"
  using run_kept [OF assms(1), of obs ops] assms(2) unfolding assms(3) kept_def manual_ok_def by auto

lemma kept_andthen:
  assumes "kept m (snd r)" "\<And>m'. kept m m' \<Longrightarrow> r = (Inr (), m') \<Longrightarrow> kept m (snd (f m'))"
  shows "kept m (snd (andthen r f))"
  using assms by (cases r; cases "fst r") auto

lemma kept_turn:
  assumes "manual_ok m" shows "kept m (snd (manual_turn obs t m))"
proof -
  have step: "kept m m' \<Longrightarrow> kept m (snd (manual_step obs op m'))" for m' op
    by (rule kept_trans [OF _ kept_step [OF keptD]])
  note steps = step [of _ "Heartbeat _ _", simplified] step [of _ "Tick _", simplified] step [of _ "Arm _ _", simplified] step [of _ "Key _ _ _", simplified]
  have ticked: "kept m m' \<Longrightarrow> kept m (snd (andthen (tick obs n m') (\<lambda>m. (Inr True, m))))" for m' n
    by (rule kept_andthen [OF steps(2)]) simp_all
  show ?thesis
    unfolding manual_turn_def
  proof (rule kept_andthen)
    fix m' assume k: "kept m m'"
    show "kept m (snd (case tn_key t of
       None \<Rightarrow> andthen (tick obs (tn_after t) m') (\<lambda>m. (Inr True, m))
     | Some key \<Rightarrow>
         if key = [] then andthen (heartbeat obs (tn_after t) False m') (\<lambda>m. (Inr False, m))
         else let key = map lower_char key in
         if key = ''q'' \<or> key = [CHR 0x03] then (Inr False, m')
         else andthen (if key = ''e'' then arm obs (tn_after t) True m'
                        else if key \<in> {''w'', ''a'', ''s'', ''d'', '' ''} then key_event obs key (PBool True) (tn_after t) m'
                        else (Inr (), m')) (\<lambda>m.
              andthen (tick obs (tn_after t) m) (\<lambda>m. (Inr True, m)))))"
    proof (cases "tn_key t")
      case (Some key)
      define low where "low = map lower_char key"
      have a: "kept m (snd (if low = ''e'' then arm obs (tn_after t) True m'
                        else if low \<in> {''w'', ''a'', ''s'', ''d'', '' ''} then key_event obs low (PBool True) (tn_after t) m' else (Inr (), m')))"
        using k by (simp add: steps)
      have b: "kept m (snd (andthen (heartbeat obs (tn_after t) False m') (\<lambda>m. (Inr False, m))))"
        by (rule kept_andthen [OF steps(1) [OF k]]) simp
      define act where "act = (if low = ''e'' then arm obs (tn_after t) True m'
                        else if low \<in> {''w'', ''a'', ''s'', ''d'', '' ''} then key_event obs low (PBool True) (tn_after t) m' else (Inr (), m'))"
      have c: "kept m (snd (andthen act (\<lambda>m. andthen (tick obs (tn_after t) m) (\<lambda>m. (Inr True, m)))))"
        by (rule kept_andthen [OF a [folded act_def]]) (erule ticked)
      show ?thesis
        unfolding Some option.case Let_def low_def [symmetric] act_def [symmetric]
        using k b c by simp
    qed (use k ticked in simp)
  qed (simp add: kept_heartbeat assms)
qed

lemma kept_loop: "manual_ok m \<Longrightarrow> kept m (snd (manual_loop obs ts m))"
proof (induction ts arbitrary: m)
  case (Cons t ts)
  obtain r m' where t: "manual_turn obs t m = (r, m')" by fastforce
  have k: "kept m m'" using kept_turn [OF Cons.prems, of obs t] t by simp
  from Cons.IH [OF keptD [OF k]] kept_trans [OF k] k t show ?case
    by (auto split: sum.splits bool.splits)
qed (simp add: kept_update)

text \<open>
  The session of the program stops the simulated chair: whatever keys and times its loop read and
  whatever the observer did, at the end no motion is requested, every motion command was journaled before, and a return of 0
  means that the controller was closed without a fault. Only a time that overflows a float, as above, can prevent it.\<close>

lemma manual_session_stops:
  assumes "manual_init config run_mode = Inr m0" "manual_session obs ts ended m0 = (r, m)"
  shows "(case r of Inl e \<Rightarrow> exn_of e = OverflowError | Inr _ \<Rightarrow> False)
    \<or> (same_pair (mt_target m) float_zero \<and> mt_state m \<noteq> Armed \<and> audited m \<and> (case r of Inl _ \<Rightarrow> True | Inr c \<Rightarrow> mt_closed m \<and> (c = 0) = (mt_state m = Disarmed)))"
proof -
  obtain q m1 where l: "manual_loop obs ts m0 = (q, m1)" by fastforce
  have ok: "manual_ok m1" using kept_loop [OF init_ok(1) [OF assms(1)], of obs ts] l by (auto dest: keptD)
  obtain c m2 where c: "close obs ended m1 = (c, m2)" by fastforce
  have aud: "audited m2" using kept_close [OF ok, of obs ended] c by (auto simp: kept_def manual_ok_def)
  have r: "m = m2" "r = bindr c (\<lambda>_. bindr q (\<lambda>_. Inr (if mt_state m2 = Fault then 1 else 0)))"
    using assms(2) l c by (auto simp: manual_session_def)
  show ?thesis
  proof (cases rule: manual_now_cases [of obs ended m1])
    case (silent e)
    then have "c = Inl e" "m2 = m1" using c by (simp_all add: close_def)
    moreover have "exn_of e = OverflowError \<or> \<not> moving m1 \<and> mt_state m1 \<noteq> Armed" using manual_now_raised [OF silent] .
    ultimately show ?thesis using r aud by auto
  next
    case (halted e reason)
    then show ?thesis using c r aud by (auto simp: close_def stop_effect)
  next
    case passed
    then have m2: "c = Inr ()" "mt_closed m2" "\<not> moving m2" "mt_state m2 \<noteq> Armed"
      using c by (auto simp: close_def stop_effect)
    then have "(mt_state m2 = Disarmed) = (mt_state m2 \<noteq> Fault)" by (cases "mt_state m2") auto
    with m2 r aud show ?thesis by (cases q) auto
  qed
qed

end
