(* ===== verification/Fusion_Archive.thy ===== *)
theory Fusion_Archive
  imports Py_Value
begin

text \<open>
  \<open>src/src/wc_fusion/archive.py\<close>: the worker that makes raw observations durable. The first part is the
  file transaction \<open>_commit_bytes\<close> over a directory held open, with what \<open>fsync\<close> has put on the device kept beside
  what is visible; the answers of the operating system are a parameter, a record with one field per call in the
  order the code makes them. The second part is \<open>DurableArchive\<close>: admission, the worker's loop as the two
  critical sections it consists of, \<open>poll\<close> and \<open>close\<close>; any interleaving of the threads is a list of these events.
  Time stamps of results are left out; the text that \<open>_error_text\<close> makes of an exception is given.
\<close>

section \<open>The file transaction\<close>

subsection \<open>A directory\<close>

text \<open>Entries and file contents as the system shows them, and what is on the device for certain.\<close>

record disk =
  dk_names :: "string \<Rightarrow> nat option"
  dk_data :: "nat \<Rightarrow> bytes option"
  dk_entries :: "string \<Rightarrow> nat option"
  dk_synced :: "nat \<Rightarrow> bytes option"

record commit_io =
  ci_stopped :: "nat \<Rightarrow> bool"
  ci_resolved :: "exc + bool"
  ci_opendir :: "exc option"
  ci_open :: "exc option"
  ci_inode :: nat
  ci_fdopen :: "exc option"
  ci_fdclose :: "exc option"
  ci_write :: "exc + nat"
  ci_partial :: bytes
  ci_flush :: "exc option"
  ci_fsync :: "exc option"
  ci_close :: "exc option"
  ci_link :: "(exc \<times> bool) option"
  ci_same :: "exc + bool"
  ci_rename :: "exc option"
  ci_renamed :: "exc option"
  ci_unlink :: "exc option"
  ci_dirsync :: "exc option"
  ci_dirclose :: "exc option"

definition ar_cancelled :: "commit_io \<Rightarrow> nat \<Rightarrow> exc + unit" where
  "ar_cancelled io n = guard (ci_stopped io n) ArchiveError ''ARCHIVE_CANCELLED: close or preceding write failure requested cancellation''"

subsection \<open>The transaction\<close>

text \<open>\<open>with output:\<close> write, flush, fsync; leaving the block closes the file.\<close>

definition write_temp :: "commit_io \<Rightarrow> bytes \<Rightarrow> disk \<Rightarrow> (exc + unit) \<times> disk" where
  "write_temp io payload d = finally_do
     (andthen (case ci_write io of
          Inl e \<Rightarrow> (Inl e, d\<lparr>dk_data := (dk_data d)(ci_inode io \<mapsto> ci_partial io)\<rparr>)
        | Inr n \<Rightarrow> if n \<noteq> length payload then (raise ArchiveError ''ARCHIVE_SHORT_WRITE'', d\<lparr>dk_data := (dk_data d)(ci_inode io \<mapsto> ci_partial io)\<rparr>)
                   else (Inr (), d\<lparr>dk_data := (dk_data d)(ci_inode io \<mapsto> payload)\<rparr>))
       (\<lambda>d. andthen (attempt (ci_flush io) id d)
       (\<lambda>d. attempt (ci_fsync io) (\<lambda>d. d\<lparr>dk_synced := (dk_synced d)(ci_inode io := dk_data d (ci_inode io))\<rparr>) d)))
     (\<lambda>d. attempt (ci_close io) id d)"

text \<open>\<open>rename_on_configured_archive\<close>: its checks, no replacement, the rename, and what follows it.\<close>

definition rename_temp :: "commit_io \<Rightarrow> string \<Rightarrow> string \<Rightarrow> disk \<Rightarrow> (exc + unit) \<times> disk \<times> bool" where
  "rename_temp io temp name d = (case ci_rename io of
       Some e \<Rightarrow> (Inl e, d, True)
     | None \<Rightarrow> if dk_names d name \<noteq> None then (raise FileExistsError (''Archive destination already exists: '' @ name), d, True)
         else let d = d\<lparr>dk_names := (dk_names d)(temp := None, name \<mapsto> ci_inode io)\<rparr> in
         case ci_renamed io of Some e \<Rightarrow> (Inl e, d, True) | None \<Rightarrow> (Inr (), d, False))"

text \<open>Publication without replacement; the flag is \<open>created\<close>.\<close>

definition publish_temp :: "commit_io \<Rightarrow> string \<Rightarrow> string \<Rightarrow> disk \<Rightarrow> (exc + unit) \<times> disk \<times> bool" where
  "publish_temp io temp name d = (case ci_link io of
       None \<Rightarrow> if dk_names d name \<noteq> None then (raise FileExistsError name, d, True)
               else (Inr (), d\<lparr>dk_names := (dk_names d)(name \<mapsto> ci_inode io)\<rparr>, True)
     | Some (e, unsupported) \<Rightarrow>
         if \<not> unsupported then (Inl e, d, True)
         else case ci_same io of
           Inl e \<Rightarrow> (Inl e, d, True)
         | Inr False \<Rightarrow> (raise ArchiveError ''ARCHIVE_PATH: directory changed before USB publication'', d, True)
         | Inr True \<Rightarrow> rename_temp io temp name d)"

definition commit_file :: "commit_io \<Rightarrow> string \<Rightarrow> string \<Rightarrow> bytes \<Rightarrow> disk \<Rightarrow> (exc + unit) \<times> disk \<times> bool" where
  "commit_file io temp name payload d = (case ar_cancelled io 1 of
       Inl e \<Rightarrow> (Inl e, d, False)
     | Inr _ \<Rightarrow>
       (case ci_open io of
          Some e \<Rightarrow> (Inl e, d, False)
        | None \<Rightarrow>
          if dk_names d temp \<noteq> None then (raise FileExistsError temp, d, False)
          else let d = d\<lparr>dk_names := (dk_names d)(temp \<mapsto> ci_inode io), dk_data := (dk_data d)(ci_inode io \<mapsto> [])\<rparr> in
          (case ci_fdopen io of
             Some e \<Rightarrow> (Inl (case ci_fdclose io of Some e' \<Rightarrow> e' | None \<Rightarrow> e), d, True)
           | None \<Rightarrow>
             (case write_temp io payload d of
                (Inl e, d) \<Rightarrow> (Inl e, d, True)
              | (Inr _, d) \<Rightarrow> (case ar_cancelled io 2 of Inl e \<Rightarrow> (Inl e, d, True) | Inr _ \<Rightarrow> publish_temp io temp name d)))))"

definition unlink :: "commit_io \<Rightarrow> string \<Rightarrow> disk \<Rightarrow> (exc + unit) \<times> disk" where
  "unlink io temp d = (if dk_names d temp = None then (raise FileNotFoundError temp, d)
     else attempt (ci_unlink io) (\<lambda>d. d\<lparr>dk_names := (dk_names d)(temp := None)\<rparr>) d)"

definition commit_cleanup :: "commit_io \<Rightarrow> string \<Rightarrow> (exc + unit) \<times> disk \<times> bool \<Rightarrow> (exc + unit) \<times> disk" where
  "commit_cleanup io temp r = (case r of (q, d, created) \<Rightarrow> finally_do (q, d) (\<lambda>d. if created then unlink io temp d else (Inr (), d)))"

text \<open>\<open>'.' + path.name + '.archive-' + uuid + '.tmp'\<close>.\<close>

definition temporary :: "string \<Rightarrow> string \<Rightarrow> string" where
  "temporary uuid name = ''.'' @ name @ ''.archive-'' @ uuid @ ''.tmp''"

definition commit_bytes :: "commit_io \<Rightarrow> string \<Rightarrow> string \<Rightarrow> bytes \<Rightarrow> disk \<Rightarrow> (exc + unit) \<times> disk" where
  "commit_bytes io uuid name payload d =
     (case bindr (ar_cancelled io 0) (\<lambda>_. bindr (ci_resolved io) (\<lambda>same.
        guard (\<not> same) ArchiveError ''ARCHIVE_PATH: destination directory contains a symlink'')) of
       Inl e \<Rightarrow> (Inl e, d)
     | Inr _ \<Rightarrow> andthen (attempt (ci_opendir io) id d) (\<lambda>d.
         finally_do
           (andthen (commit_cleanup io (temporary uuid name) (commit_file io (temporary uuid name) name payload d))
             (\<lambda>d. attempt (ci_dirsync io) (\<lambda>d. d\<lparr>dk_entries := dk_names d\<rparr>) d))
           (\<lambda>d. attempt (ci_dirclose io) id d)))"

section \<open>\<open>DurableArchive\<close>\<close>

text \<open>A destination as \<open>Path\<close> sees it: absolute or not, and its parts below the root.\<close>

datatype destination = Unpathlike | Destination (is_absolute: bool) (parts: "string list")

type_synonym apath = "string list"

record job =
  jb_key :: string
  jb_path :: apath
  jb_payload :: bytes

record result =
  rs_key :: string
  rs_path :: apath
  rs_error :: "string option"

text \<open>\<open>ar_active\<close> is the local state of the worker between its two critical sections: the job, and \<open>prior\<close> and
  \<open>closing\<close> as it read them.\<close>

record archive =
  ar_capacity :: nat
  ar_waiting :: "job list"
  ar_results :: "result list"
  ar_outstanding :: "(string \<times> apath) list"
  ar_paths :: "apath set"
  ar_closing :: bool
  ar_failure :: "string option"
  ar_stop :: bool
  ar_active :: "(job \<times> string option \<times> bool) option"
  ar_exited :: bool

definition archive_init :: "pyval \<Rightarrow> exc + archive" where
  "archive_init capacity = (case capacity of
       PInt c \<Rightarrow> if 1 \<le> c \<and> c \<le> 8 then
           Inr \<lparr>ar_capacity = nat c, ar_waiting = [], ar_results = [], ar_outstanding = [], ar_paths = {}, ar_closing = False,
                ar_failure = None, ar_stop = False, ar_active = None, ar_exited = False\<rparr>
         else raise ArchiveError ''ARCHIVE_CAPACITY: capacity must be an integer from 1 through 8''
     | _ \<Rightarrow> raise ArchiveError ''ARCHIVE_CAPACITY: capacity must be an integer from 1 through 8'')"

definition submit_arguments :: "pyval \<Rightarrow> destination \<Rightarrow> pyval \<Rightarrow> exc + job" where
  "submit_arguments key path payload = (case key of
       PStr (k # ks) \<Rightarrow> (case payload of
           PBytes (b # bs) \<Rightarrow> (case path of
               Unpathlike \<Rightarrow> raise ArchiveError ''ARCHIVE_PATH: path-like destination required''
             | Destination rooted ps \<Rightarrow>
                 if \<not> rooted \<or> ''..'' \<in> set ps \<or> ps = []
                 then raise ArchiveError ''ARCHIVE_PATH: absolute destination without parent traversal required''
                 else Inr \<lparr>jb_key = k # ks, jb_path = ps, jb_payload = b # bs\<rparr>)
         | _ \<Rightarrow> raise ArchiveError ''ARCHIVE_PAYLOAD: nonempty immutable bytes required; encode JSON before submit'')
     | _ \<Rightarrow> raise ArchiveError ''ARCHIVE_KEY: nonempty string required'')"

definition archive_submit :: "pyval \<Rightarrow> destination \<Rightarrow> pyval \<Rightarrow> archive \<Rightarrow> (exc + unit) \<times> archive" where
  "archive_submit key path payload a = (case submit_arguments key path payload of
       Inl e \<Rightarrow> (Inl e, a)
     | Inr j \<Rightarrow>
         if ar_closing a then (raise ArchiveError ''ARCHIVE_CLOSED'', a)
         else case ar_failure a of
           Some f \<Rightarrow> (raise ArchiveError (''ARCHIVE_FAILED: '' @ f), a)
         | None \<Rightarrow>
             if jb_key j \<in> fst ` set (ar_outstanding a) \<or> jb_path j \<in> ar_paths a
             then (raise ArchiveError ''ARCHIVE_DUPLICATE: key or path already has an unpolled job'', a)
             else if ar_capacity a \<le> length (ar_outstanding a)
             then (raise ArchiveError ''ARCHIVE_QUEUE_FULL: active, waiting and unpolled total reached capacity'', a)
             else (Inr (), a\<lparr>ar_outstanding := ar_outstanding a @ [(jb_key j, jb_path j)], ar_paths := insert (jb_path j) (ar_paths a),
                             ar_waiting := ar_waiting a @ [j]\<rparr>))"

text \<open>\<open>dict.pop\<close> and \<open>set.remove\<close>, which raise when the entry is missing.\<close>

definition release_one :: "result \<Rightarrow> archive \<Rightarrow> (exc + unit) \<times> archive" where
  "release_one r a =
     (if rs_key r \<notin> fst ` set (ar_outstanding a) then (raise KeyError (rs_key r), a)
      else let a = a\<lparr>ar_outstanding := filter (\<lambda>(k, _). k \<noteq> rs_key r) (ar_outstanding a)\<rparr> in
      if rs_path r \<notin> ar_paths a then (raise KeyError (join_with ''/'' (rs_path r)), a)
      else (Inr (), a\<lparr>ar_paths := ar_paths a - {rs_path r}\<rparr>))"

fun release :: "result list \<Rightarrow> archive \<Rightarrow> (exc + unit) \<times> archive" where
  "release [] a = (Inr (), a)"
| "release (r # rs) a = andthen (release_one r a) (release rs)"

definition archive_poll :: "archive \<Rightarrow> (exc + result list) \<times> archive" where
  "archive_poll a = andthen (release (ar_results a) (a\<lparr>ar_results := []\<rparr>)) (\<lambda>a'. (Inr (ar_results a), a'))"

definition archive_close :: "pyval \<Rightarrow> archive \<Rightarrow> (exc + unit) \<times> archive" where
  "archive_close timeout a =
     (let bad = raise ArchiveError ''ARCHIVE_CLOSE_TIMEOUT_ARGUMENT: finite timeout from 0 through 60 seconds required'' in
      case timeout of
        PInt _ \<Rightarrow> (case py_isfinite timeout of
            Inl e \<Rightarrow> (Inl e, a)
          | Inr fin \<Rightarrow> if \<not> fin \<or> \<not> (py_le (PInt 0) timeout \<and> py_le timeout (PInt 60)) then (bad, a)
                       else (Inr (), a\<lparr>ar_closing := True, ar_stop := True\<rparr>))
      | PFloat _ \<Rightarrow> (case py_isfinite timeout of
            Inl e \<Rightarrow> (Inl e, a)
          | Inr fin \<Rightarrow> if \<not> fin \<or> \<not> (py_le (PInt 0) timeout \<and> py_le timeout (PInt 60)) then (bad, a)
                       else (Inr (), a\<lparr>ar_closing := True, ar_stop := True\<rparr>))
      | _ \<Rightarrow> (bad, a))"

text \<open>After \<open>join\<close>: \<open>close\<close> returns when the worker is gone.\<close>

definition archive_joined :: "archive \<Rightarrow> exc + unit" where
  "archive_joined a = guard (\<not> ar_exited a) ArchiveCloseTimeout ''ARCHIVE_CLOSE_TIMEOUT: worker still owns pending I/O; cleanup is not confirmed''"

text \<open>The worker: its first critical section, when \<open>wait_for\<close> lets it pass, and its second.\<close>

definition worker_take :: "archive \<Rightarrow> archive" where
  "worker_take a = (if ar_exited a \<or> ar_active a \<noteq> None then a
     else case ar_waiting a of
       [] \<Rightarrow> if ar_closing a then a\<lparr>ar_exited := True\<rparr> else a
     | j # js \<Rightarrow> a\<lparr>ar_waiting := js, ar_active := Some (j, ar_failure a, ar_closing a)\<rparr>)"

definition job_error :: "string option \<Rightarrow> bool \<Rightarrow> string option \<Rightarrow> string option" where
  "job_error prior closing committed = (case prior of
       Some f \<Rightarrow> Some (''ARCHIVE_CANCELLED_AFTER_FAILURE: '' @ f)
     | None \<Rightarrow> if closing then Some ''ARCHIVE_CANCELLED: writer is closing'' else committed)"

definition worker_finish :: "string option \<Rightarrow> archive \<Rightarrow> archive" where
  "worker_finish committed a = (case ar_active a of
       None \<Rightarrow> a
     | Some (j, prior, closing) \<Rightarrow>
         let error = job_error prior closing committed;
             a = (if error \<noteq> None \<and> ar_failure a = None then a\<lparr>ar_failure := error, ar_stop := True\<rparr> else a)
         in a\<lparr>ar_active := None, ar_results := ar_results a @ [\<lparr>rs_key = jb_key j, rs_path = jb_path j, rs_error = error\<rparr>]\<rparr>)"

section \<open>All events\<close>

datatype archive_event = Submit pyval destination pyval | Poll | Close pyval | Joined | Take | Finish "string option"

datatype archive_out = Done | Polled "result list"

definition with_out :: "archive_out \<Rightarrow> (exc + unit) \<times> archive \<Rightarrow> (exc + archive_out) \<times> archive" where
  "with_out out r = andthen r (\<lambda>a. (Inr out, a))"

fun archive_step :: "archive_event \<Rightarrow> archive \<Rightarrow> (exc + archive_out) \<times> archive" where
  "archive_step (Submit key path payload) a = with_out Done (archive_submit key path payload a)"
| "archive_step Poll a = (case archive_poll a of (Inl e, a') \<Rightarrow> (Inl e, a') | (Inr rs, a') \<Rightarrow> (Inr (Polled rs), a'))"
| "archive_step (Close timeout) a = with_out Done (archive_close timeout a)"
| "archive_step Joined a = (bindr (archive_joined a) (\<lambda>_. Inr Done), a)"
| "archive_step Take a = (Inr Done, worker_take a)"
| "archive_step (Finish committed) a = (Inr Done, worker_finish committed a)"

section \<open>The transaction is atomic\<close>

lemma write_temp_effect:
  assumes "write_temp io payload d = (r, d')"
  shows "dk_names d' = dk_names d" "dk_entries d' = dk_entries d"
    "j \<noteq> ci_inode io \<Longrightarrow> dk_data d' j = dk_data d j \<and> dk_synced d' j = dk_synced d j"
    "r = Inr () \<Longrightarrow> dk_data d' (ci_inode io) = Some payload \<and> dk_synced d' (ci_inode io) = Some payload"
proof -
  define P where "P = (\<lambda>d' :: disk. dk_names d' = dk_names d \<and> dk_entries d' = dk_entries d \<and> (\<forall>j. j \<noteq> ci_inode io \<longrightarrow> dk_data d' j = dk_data d j \<and> dk_synced d' j = dk_synced d j))"
  have sync: "P x \<Longrightarrow> P (x\<lparr>dk_synced := (dk_synced x)(ci_inode io := dk_data x (ci_inode io))\<rparr>)" for x
    by (simp add: P_def)
  have start: "P (d\<lparr>dk_data := (dk_data d)(ci_inode io \<mapsto> b)\<rparr>)" for b by (simp add: P_def)
  let ?w = "case ci_write io of Inl e \<Rightarrow> (Inl e, d\<lparr>dk_data := (dk_data d)(ci_inode io \<mapsto> ci_partial io)\<rparr>)
        | Inr n \<Rightarrow> if n \<noteq> length payload then (raise ArchiveError ''ARCHIVE_SHORT_WRITE'', d\<lparr>dk_data := (dk_data d)(ci_inode io \<mapsto> ci_partial io)\<rparr>)
                   else (Inr (), d\<lparr>dk_data := (dk_data d)(ci_inode io \<mapsto> payload)\<rparr>)"
  have w: "P (snd ?w)" using start by (cases "ci_write io") simp_all
  have "P (snd (write_temp io payload d))"
    unfolding write_temp_def using w
    by (intro finally_state [where P = P] andthen_state [where P = P] attempt_state [where P = P]) (simp_all add: sync)
  with assms show "dk_names d' = dk_names d" "dk_entries d' = dk_entries d"
      "j \<noteq> ci_inode io \<Longrightarrow> dk_data d' j = dk_data d j \<and> dk_synced d' j = dk_synced d j" by (auto simp: P_def)
  assume "r = Inr ()"
  with assms have "write_temp io payload d = (Inr (), d')" by simp
  from this [unfolded write_temp_def finally_ok andthen_ok attempt_ok] obtain d1 d2 where d1: "?w = (Inr (), d1)" and d2: "d2 = d1\<lparr>dk_synced := (dk_synced d1)(ci_inode io := dk_data d1 (ci_inode io))\<rparr>" "d' = d2"
    by auto
  from d1 have "dk_data d1 (ci_inode io) = Some payload" by (cases "ci_write io") (auto split: if_splits)
  with d2 show "dk_data d' (ci_inode io) = Some payload \<and> dk_synced d' (ci_inode io) = Some payload" by simp
qed

lemma rename_temp_cases:
  obtains (kept) e where "rename_temp io temp name d = (Inl e, d, True)"
  | (moved) r where "dk_names d name = None" "rename_temp io temp name d = (r, d\<lparr>dk_names := (dk_names d)(temp := None, name \<mapsto> ci_inode io)\<rparr>, isl r)"
  by (cases "ci_rename io"; cases "dk_names d name"; cases "ci_renamed io") (auto simp: rename_temp_def Let_def)

lemma publish_temp_cases:
  obtains (kept) e where "publish_temp io temp name d = (Inl e, d, True)"
  | (linked) "dk_names d name = None" "publish_temp io temp name d = (Inr (), d\<lparr>dk_names := (dk_names d)(name \<mapsto> ci_inode io)\<rparr>, True)"
  | (moved) r where "dk_names d name = None" "publish_temp io temp name d = (r, d\<lparr>dk_names := (dk_names d)(temp := None, name \<mapsto> ci_inode io)\<rparr>, isl r)"
proof (cases "ci_link io")
  case None
  then show thesis using kept linked by (cases "dk_names d name") (auto simp: publish_temp_def)
next
  case (Some q)
  then show thesis
  proof (cases "snd q \<and> ci_same io = Inr True")
    case True
    with Some have "publish_temp io temp name d = rename_temp io temp name d" by (cases q) (auto simp: publish_temp_def)
    then show thesis using kept moved by (cases rule: rename_temp_cases [of io temp name d]) auto
  next
    case False
    obtain e b where q: "q = (e, b)" by fastforce
    have "\<exists>e. publish_temp io temp name d = (Inl e, d, True)"
    proof (cases "b")
      case True
      with False Some q show ?thesis by (cases "ci_same io") (auto simp: publish_temp_def split: bool.split)
    qed (use Some q in \<open>simp add: publish_temp_def\<close>)
    then show thesis using kept by blast
  qed
qed

text \<open>What the inner block leaves, before its cleanup.\<close>

lemma commit_file_cases:
  obtains (untouched) e where "commit_file io temp name payload d = (Inl e, d, False)"
  | (failed) e d' where "commit_file io temp name payload d = (Inl e, d', True)" "dk_names d temp = None"
      "dk_names d' = (dk_names d)(temp \<mapsto> ci_inode io)" "dk_entries d' = dk_entries d"
      "\<And>j. j \<noteq> ci_inode io \<Longrightarrow> dk_data d' j = dk_data d j \<and> dk_synced d' j = dk_synced d j"
  | (published) r d' d'' c where "commit_file io temp name payload d = (r, d'', c)" "dk_names d temp = None"
      "dk_names d' = (dk_names d)(temp \<mapsto> ci_inode io)" "dk_entries d' = dk_entries d"
      "\<And>j. j \<noteq> ci_inode io \<Longrightarrow> dk_data d' j = dk_data d j \<and> dk_synced d' j = dk_synced d j"
      "dk_data d' (ci_inode io) = Some payload \<and> dk_synced d' (ci_inode io) = Some payload"
      "publish_temp io temp name d' = (r, d'', c)"
proof (cases "ar_cancelled io 1")
  case (Inl e)
  then show thesis using untouched by (simp add: commit_file_def)
next
  case run: (Inr u)
  show thesis
  proof (cases "ci_open io = None \<and> dk_names d temp = None")
    case False
    with run show thesis using untouched by (cases "ci_open io") (auto simp: commit_file_def)
  next
    case opened: True
    define d1 where "d1 = d\<lparr>dk_names := (dk_names d)(temp \<mapsto> ci_inode io), dk_data := (dk_data d)(ci_inode io \<mapsto> [])\<rparr>"
    note start = run opened commit_file_def d1_def [symmetric] Let_def
    show thesis
    proof (cases "ci_fdopen io")
      case (Some e)
      with start show thesis using failed [of "case ci_fdclose io of Some e' \<Rightarrow> e' | None \<Rightarrow> e" d1] by (simp add: d1_def)
    next
      case None
      obtain w d2 where w: "write_temp io payload d1 = (w, d2)" by fastforce
      note e = write_temp_effect [OF w]
      have same: "j \<noteq> ci_inode io \<Longrightarrow> dk_data d2 j = dk_data d j \<and> dk_synced d2 j = dk_synced d j" for j
        using e(3) [of j] by (simp add: d1_def)
      have n: "dk_names d2 = (dk_names d)(temp \<mapsto> ci_inode io)" "dk_entries d2 = dk_entries d" using e by (simp_all add: d1_def)
      show thesis
      proof (cases "w = Inr () \<and> is_ok (ar_cancelled io 2)")
        case True
        obtain r d'' c where p: "publish_temp io temp name d2 = (r, d'', c)" by (cases "publish_temp io temp name d2")
        from True obtain v where v: "ar_cancelled io 2 = Inr v" by (cases "ar_cancelled io 2") auto
        have "commit_file io temp name payload d = (r, d'', c)" using start None w v True p by simp
        then show thesis
          by (rule published [OF _ _ n same _ p]) (use opened e(4) True in simp_all)
      next
        case False
        then obtain e' where "commit_file io temp name payload d = (Inl e', d2, True)"
          using start None w by (cases w; cases "ar_cancelled io 2") auto
        then show thesis using failed [OF _ _ n same] opened by blast
      qed
    qed
  qed
qed

text \<open>The two outcomes a transaction may have for the entries of the directory.\<close>

definition landed :: "nat \<Rightarrow> string \<Rightarrow> bytes \<Rightarrow> disk \<Rightarrow> disk \<Rightarrow> bool" where
  "landed i name payload d d' \<longleftrightarrow> dk_names d name = None \<and> dk_names d' name = Some i \<and> dk_data d' i = Some payload \<and> dk_synced d' i = Some payload"

definition outcome :: "nat \<Rightarrow> string \<Rightarrow> string \<Rightarrow> bytes \<Rightarrow> disk \<Rightarrow> disk \<Rightarrow> bool" where
  "outcome i temp name payload d d' \<longleftrightarrow>
     (\<forall>n. n \<noteq> name \<and> (n \<noteq> temp \<or> dk_names d n \<noteq> None) \<longrightarrow> dk_names d' n = dk_names d n)
     \<and> (dk_names d' name = dk_names d name \<or> landed i name payload d d')
     \<and> (\<forall>j. j \<noteq> i \<longrightarrow> dk_data d' j = dk_data d j \<and> dk_synced d' j = dk_synced d j)"

lemma unlink_cases:
  assumes "unlink io temp d = (r, d')"
  shows "d' = d \<and> isl r \<or> d' = d\<lparr>dk_names := (dk_names d)(temp := None)\<rparr> \<and> r = Inr ()"
  using assms by (cases "ci_unlink io") (auto simp: unlink_def split: if_splits)

lemma commit_cleanup_split:
  "commit_cleanup io temp (q, d, True) = (r, d') \<Longrightarrow>
     d' = d \<and> isl r \<or> d' = d\<lparr>dk_names := (dk_names d)(temp := None)\<rparr> \<and> r = q"
  using unlink_cases [of io temp d "fst (unlink io temp d)" "snd (unlink io temp d)"]
  by (cases "unlink io temp d"; cases "fst (unlink io temp d)") (auto simp: commit_cleanup_def finally_do_def)

lemma commit_cleanup_untouched: "commit_cleanup io temp (q, d, False) = (q, d)"
  by (simp add: commit_cleanup_def finally_do_def)

lemma cleaned_outcome:
  assumes run: "commit_cleanup io temp (commit_file io temp name payload d) = (r, d')" and temp: "temp \<noteq> name"
  shows "outcome (ci_inode io) temp name payload d d'"
    "r = Inr () \<Longrightarrow> landed (ci_inode io) name payload d d' \<and> dk_names d' = (dk_names d)(name \<mapsto> ci_inode io)"
proof -
  let ?i = "ci_inode io"
  have "outcome ?i temp name payload d d' \<and> (r = Inr () \<longrightarrow> landed ?i name payload d d' \<and> dk_names d' = (dk_names d)(name \<mapsto> ?i))"
  proof (cases rule: commit_file_cases [of io temp name payload d])
    case (untouched e)
    with run show ?thesis by (auto simp: commit_cleanup_untouched outcome_def)
  next
    case (failed e d1)
    from commit_cleanup_split [OF run [unfolded failed(1)]] failed(2-) temp show ?thesis
      by (auto simp: outcome_def)
  next
    case (published q d1 d2 c)
    note p = published(2-6)
    show ?thesis
    proof (cases rule: publish_temp_cases [of io temp name d1])
      case (kept e)
      with published have q: "q = Inl e" "d2 = d1" "c" by simp_all
      with published(1) run have "commit_cleanup io temp (Inl e, d1, True) = (r, d')" by simp
      from commit_cleanup_split [OF this] p q temp show ?thesis
        by (auto simp: outcome_def)
    next
      case linked
      with published have q: "q = Inr ()" "d2 = d1\<lparr>dk_names := (dk_names d1)(name \<mapsto> ?i)\<rparr>" "c" by simp_all
      with published(1) run have "commit_cleanup io temp (Inr (), d2, True) = (r, d')" by simp
      from commit_cleanup_split [OF this] p q linked(1) temp show ?thesis
        by (auto simp: outcome_def landed_def)
    next
      case (moved q')
      have q: "q = q'" "d2 = d1\<lparr>dk_names := (dk_names d1)(temp := None, name \<mapsto> ?i)\<rparr>" "c = isl q'" using published(7) unfolding moved(2) by auto
      have names: "dk_names d2 = (dk_names d)(name \<mapsto> ?i)" "dk_names d2 temp = None" using q p temp by auto
      have "d' = d2 \<and> (r = Inr () \<longrightarrow> q' = Inr ())"
      proof (cases c)
        case True
        with published(1) run q have "commit_cleanup io temp (q', d2, True) = (r, d')" by simp
        moreover have "d2\<lparr>dk_names := (dk_names d2)(temp := None)\<rparr> = d2" using names(2) by (simp add: fun_upd_idem)
        ultimately show ?thesis using commit_cleanup_split [of io temp q' d2 r d'] True q(3) by auto
      next
        case False
        with published(1) run q have "r = q' \<and> d' = d2" by (simp add: commit_cleanup_untouched)
        then show ?thesis by simp
      qed
      then show ?thesis using names moved(1) p q temp by (auto simp: outcome_def landed_def)
    qed
  qed
  then show "outcome ?i temp name payload d d'"
      "r = Inr () \<Longrightarrow> landed ?i name payload d d' \<and> dk_names d' = (dk_names d)(name \<mapsto> ?i)" by auto
qed

lemma temporary_differs: "temporary uuid name \<noteq> name"
proof
  assume "temporary uuid name = name"
  then have "length (temporary uuid name) = length name" by simp
  then show False by (simp add: temporary_def)
qed

lemma attempt_final: "finally_do r (\<lambda>d. attempt e id d) = (q, d') \<Longrightarrow> d' = snd r \<and> (q = Inr x \<longrightarrow> fst r = Inr x)"
  by (cases r; cases e) (auto simp: finally_do_def)

lemma commit_bytes_cases:
  assumes "commit_bytes io uuid name payload d = (r, d')"
  shows "isl r \<and> d' = d \<or> (\<exists>q d1. commit_cleanup io (temporary uuid name) (commit_file io (temporary uuid name) name payload d) = (q, d1)
     \<and> (d' = d1 \<and> isl r \<or> d' = d1\<lparr>dk_entries := dk_names d1\<rparr> \<and> (isl r \<or> q = Inr () \<and> r = Inr ())))"
proof (cases "bindr (ar_cancelled io 0) (\<lambda>_. bindr (ci_resolved io) (\<lambda>same.
        guard (\<not> same) ArchiveError ''ARCHIVE_PATH: destination directory contains a symlink''))")
  case (Inl e)
  then have "commit_bytes io uuid name payload d = (Inl e, d)" unfolding commit_bytes_def by simp
  with assms show ?thesis by auto
next
  case (Inr u)
  show ?thesis
  proof (cases "ci_opendir io")
    case (Some e)
    with assms Inr show ?thesis by (auto simp: commit_bytes_def)
  next
    case None
    obtain q d1 where c: "commit_cleanup io (temporary uuid name) (commit_file io (temporary uuid name) name payload d) = (q, d1)" by fastforce
    let ?inner = "andthen (q, d1) (\<lambda>d. attempt (ci_dirsync io) (\<lambda>d. d\<lparr>dk_entries := dk_names d\<rparr>) d)"
    have f: "finally_do ?inner (\<lambda>d. attempt (ci_dirclose io) id d) = (r, d')"
      using assms Inr None c by (simp add: commit_bytes_def)
    have a: "d' = snd ?inner" using attempt_final [OF f] by simp
    have b: "r = Inr () \<Longrightarrow> fst ?inner = Inr ()" using attempt_final [OF f, of "()"] by simp
    show ?thesis
    proof (cases q)
      case (Inl e)
      with a b c show ?thesis by (cases r) auto
    next
      case (Inr v)
      with a b c show ?thesis by (cases r; cases "ci_dirsync io") auto
    qed
  qed
qed

text \<open>
  C8. The file transaction is atomic and durable on every path. Whatever call fails: no other entry and
  no other file of the directory changes, an existing destination is never replaced, and the destination is either as before or
  the complete payload, already synced - never a part of it. When the transaction returns, the destination was
  absent, holds the payload, the temporary name is gone, and file and entry are on the device.\<close>

theorem commit_atomic_durable:
  assumes "commit_bytes io uuid name payload d = (r, d')"
  shows "outcome (ci_inode io) (temporary uuid name) name payload d d'
    \<and> (r = Inr () \<longrightarrow> landed (ci_inode io) name payload d d' \<and> dk_names d' = (dk_names d)(name \<mapsto> ci_inode io)
        \<and> dk_entries d' name = Some (ci_inode io))"
proof -
  from commit_bytes_cases [OF assms] show ?thesis
  proof (elim disjE exE conjE)
    assume "isl r" "d' = d"
    then show ?thesis by (auto simp: outcome_def)
  next
    fix q d1
    assume c: "commit_cleanup io (temporary uuid name) (commit_file io (temporary uuid name) name payload d) = (q, d1)" and d': "d' = d1" "isl r"
    from cleaned_outcome(1) [OF c temporary_differs] d' show ?thesis by (auto simp: outcome_def landed_def)
  next
    fix q d1
    assume c: "commit_cleanup io (temporary uuid name) (commit_file io (temporary uuid name) name payload d) = (q, d1)"
      and d': "d' = d1\<lparr>dk_entries := dk_names d1\<rparr>" "isl r"
    from cleaned_outcome(1) [OF c temporary_differs] d' show ?thesis by (auto simp: outcome_def landed_def)
  next
    fix q d1
    assume c: "commit_cleanup io (temporary uuid name) (commit_file io (temporary uuid name) name payload d) = (q, d1)"
      and d': "d' = d1\<lparr>dk_entries := dk_names d1\<rparr>" "q = Inr ()" "r = Inr ()"
    from cleaned_outcome [OF c temporary_differs] d' show ?thesis by (auto simp: outcome_def landed_def)
  qed
qed

definition demo_commit :: commit_io where
  "demo_commit = \<lparr>ci_stopped = (\<lambda>_. False), ci_resolved = Inr True, ci_opendir = None, ci_open = None, ci_inode = 7, ci_fdopen = None,
     ci_fdclose = None, ci_write = Inr 2, ci_partial = [], ci_flush = None, ci_fsync = None, ci_close = None, ci_link = None, ci_same = Inr True,
     ci_rename = None, ci_renamed = None, ci_unlink = None, ci_dirsync = None, ci_dirclose = None\<rparr>"

theorem commit_atomic_durable_witness:
  "(let (r, d') = commit_bytes demo_commit ''u'' ''a.json'' [1, 2] \<lparr>dk_names = (\<lambda>_. None), dk_data = (\<lambda>_. None), dk_entries = (\<lambda>_. None), dk_synced = (\<lambda>_. None)\<rparr>
    in r = Inr () \<and> dk_entries d' ''a.json'' = Some 7 \<and> dk_synced d' 7 = Some [1, 2])"
proof -
  let ?d = "\<lparr>dk_names = (\<lambda>_. None), dk_data = (\<lambda>_. None), dk_entries = (\<lambda>_. None), dk_synced = (\<lambda>_. None)\<rparr>"
  obtain r d' where c: "commit_bytes demo_commit ''u'' ''a.json'' [1, 2] ?d = (r, d')" by fastforce
  have "fst (commit_bytes demo_commit ''u'' ''a.json'' [1, 2] ?d) = Inr ()"
    by (simp add: commit_bytes_def commit_cleanup_def commit_file_def publish_temp_def write_temp_def unlink_def finally_do_def Let_def
        ar_cancelled_def demo_commit_def temporary_def)
  with c have "r = Inr ()" by simp
  with commit_atomic_durable [OF c] c show ?thesis by (simp add: landed_def demo_commit_def)
qed

section \<open>The queue\<close>

definition result_pair :: "result \<Rightarrow> string \<times> apath" where "result_pair r = (rs_key r, rs_path r)"

definition job_pair :: "job \<Rightarrow> string \<times> apath" where "job_pair j = (jb_key j, jb_path j)"

definition held :: "archive \<Rightarrow> (string \<times> apath) list" where
  "held a = map result_pair (ar_results a) @ (case ar_active a of None \<Rightarrow> [] | Some (j, _) \<Rightarrow> [job_pair j]) @ map job_pair (ar_waiting a)"

definition archive_ok :: "archive \<Rightarrow> bool" where
  "archive_ok a \<longleftrightarrow> ar_outstanding a = held a \<and> distinct (map fst (held a)) \<and> distinct (map snd (held a)) \<and> ar_paths a = set (map snd (held a))
     \<and> length (held a) \<le> ar_capacity a \<and> ar_capacity a \<le> 8
     \<and> (\<forall>j prior closing. ar_active a = Some (j, prior, closing) \<longrightarrow> prior = ar_failure a)"

lemma archive_ok_same:
  assumes "archive_ok a" "held a' = held a" "ar_outstanding a' = ar_outstanding a" "ar_paths a' = ar_paths a" "ar_capacity a' = ar_capacity a"
    "\<forall>j prior closing. ar_active a' = Some (j, prior, closing) \<longrightarrow> prior = ar_failure a'"
  shows "archive_ok a'"
  using assms unfolding archive_ok_def by simp

text \<open>What one event accepts, delivers and finishes.\<close>

fun accepted_by :: "archive_event \<Rightarrow> exc + archive_out \<Rightarrow> (string \<times> apath) list" where
  "accepted_by (Submit key path payload) (Inr _) = (case submit_arguments key path payload of Inr j \<Rightarrow> [job_pair j] | Inl _ \<Rightarrow> [])"
| "accepted_by _ _ = []"

fun polled_by :: "exc + archive_out \<Rightarrow> result list" where
  "polled_by (Inr (Polled rs)) = rs"
| "polled_by _ = []"

lemma release_prefix:
  assumes "ar_outstanding a = map result_pair rs @ rest" "distinct (map fst (ar_outstanding a))" "distinct (map snd (ar_outstanding a))"
    "ar_paths a = set (map snd (ar_outstanding a))"
  shows "release rs a = (Inr (), a\<lparr>ar_outstanding := rest, ar_paths := set (map snd rest)\<rparr>)"
  using assms
proof (induction rs arbitrary: a)
  case (Cons r rs)
  define a1 where "a1 = a\<lparr>ar_outstanding := map result_pair rs @ rest, ar_paths := set (map snd (map result_pair rs @ rest))\<rparr>"
  have o: "ar_outstanding a = (rs_key r, rs_path r) # (map result_pair rs @ rest)" using Cons.prems(1) by (simp add: result_pair_def)
  have f: "filter (\<lambda>(k, _). k \<noteq> rs_key r) (map result_pair rs @ rest) = map result_pair rs @ rest"
  proof (rule filter_True, rule ballI)
    fix x assume "x \<in> set (map result_pair rs @ rest)"
    then have "fst x \<in> set (map fst (map result_pair rs @ rest))" by (simp only: set_map) (rule imageI)
    moreover have "rs_key r \<notin> set (map fst (map result_pair rs @ rest))"
      using Cons.prems(2) unfolding o by (simp only: list.map distinct.simps fst_conv) simp
    ultimately show "case x of (k, _) \<Rightarrow> k \<noteq> rs_key r" by (cases x) auto
  qed
  have p: "ar_paths a - {rs_path r} = set (map snd (map result_pair rs @ rest))"
    using Cons.prems(3,4) unfolding o by auto
  have "release_one r a = (Inr (), a1)"
    using f p Cons.prems(4) unfolding release_one_def o a1_def by (simp add: o)
  moreover have "release rs a1 = (Inr (), a1\<lparr>ar_outstanding := rest, ar_paths := set (map snd rest)\<rparr>)"
    using Cons.prems(2,3) unfolding o by (intro Cons.IH) (simp_all add: a1_def)
  ultimately show ?case by (simp add: a1_def)
qed simp

lemma poll_all:
  assumes "archive_ok a"
  shows "archive_poll a = (Inr (ar_results a), a\<lparr>ar_results := [], ar_outstanding := held (a\<lparr>ar_results := []\<rparr>), ar_paths := set (map snd (held (a\<lparr>ar_results := []\<rparr>)))\<rparr>)"
proof -
  have h: "held a = map result_pair (ar_results a) @ held (a\<lparr>ar_results := []\<rparr>)" by (simp add: held_def)
  have "release (ar_results a) (a\<lparr>ar_results := []\<rparr>) = (Inr (), (a\<lparr>ar_results := []\<rparr>)\<lparr>ar_outstanding := held (a\<lparr>ar_results := []\<rparr>), ar_paths := set (map snd (held (a\<lparr>ar_results := []\<rparr>)))\<rparr>)"
    using assms h by (intro release_prefix) (simp_all add: archive_ok_def)
  then show ?thesis by (simp add: archive_poll_def)
qed

lemma poll_ok:
  assumes "archive_ok a" "archive_poll a = (r, a')"
  shows "archive_ok a' \<and> ar_failure a' = ar_failure a \<and> ar_results a' = [] \<and> r = Inr (ar_results a)
    \<and> ar_outstanding a = map result_pair (ar_results a) @ ar_outstanding a'"
proof -
  have h: "held a = map result_pair (ar_results a) @ held (a\<lparr>ar_results := []\<rparr>)" by (simp add: held_def)
  have u: "held (a\<lparr>ar_results := [], ar_outstanding := x, ar_paths := y\<rparr>) = held (a\<lparr>ar_results := []\<rparr>)" for x y by (simp add: held_def)
  have a': "r = Inr (ar_results a)" "a' = a\<lparr>ar_results := [], ar_outstanding := held (a\<lparr>ar_results := []\<rparr>), ar_paths := set (map snd (held (a\<lparr>ar_results := []\<rparr>)))\<rparr>"
    using assms(2) poll_all [OF assms(1)] by simp_all
  have s: "held a' = held (a\<lparr>ar_results := []\<rparr>)" "ar_outstanding a' = held (a\<lparr>ar_results := []\<rparr>)" "ar_paths a' = set (map snd (held (a\<lparr>ar_results := []\<rparr>)))"
      "ar_failure a' = ar_failure a" "ar_active a' = ar_active a" "ar_capacity a' = ar_capacity a" "ar_results a' = []"
    unfolding a'(2) by (simp_all add: u)
  have "archive_ok a'"
    using assms(1) unfolding archive_ok_def s h by simp
  with assms(1) show ?thesis unfolding archive_ok_def s a'(1) using h by simp
qed

lemma submit_cases:
  obtains (refused) e where "archive_submit key path payload a = (Inl e, a)"
  | (taken) j where "submit_arguments key path payload = Inr j" "jb_key j \<notin> fst ` set (ar_outstanding a)" "jb_path j \<notin> ar_paths a"
      "length (ar_outstanding a) < ar_capacity a" "ar_failure a = None" "\<not> ar_closing a"
      "archive_submit key path payload a = (Inr (), a\<lparr>ar_outstanding := ar_outstanding a @ [(jb_key j, jb_path j)],
         ar_paths := insert (jb_path j) (ar_paths a), ar_waiting := ar_waiting a @ [j]\<rparr>)"
proof (cases "submit_arguments key path payload")
  case (Inl e)
  then show thesis using refused by (simp add: archive_submit_def)
next
  case (Inr j)
  show thesis
  proof (cases "ar_closing a \<or> ar_failure a \<noteq> None")
    case True
    then show thesis using refused Inr by (cases "ar_closing a") (auto simp: archive_submit_def)
  next
    case False
    show thesis
    proof (cases "jb_key j \<in> fst ` set (ar_outstanding a) \<or> jb_path j \<in> ar_paths a")
      case True
      with False Inr show thesis using refused by (simp add: archive_submit_def)
    next
      case new: False
      with False Inr show thesis
        using refused taken [OF Inr] by (cases "ar_capacity a \<le> length (ar_outstanding a)") (simp_all add: archive_submit_def)
    qed
  qed
qed

lemma submit_ok:
  assumes "archive_ok a" "archive_submit key path payload a = (r, a')"
  shows "archive_ok a' \<and> ar_failure a' = ar_failure a \<and> ar_results a' = ar_results a
    \<and> ar_outstanding a' = ar_outstanding a @ accepted_by (Submit key path payload) (bindr r (\<lambda>_. Inr Done))"
proof (cases rule: submit_cases [of key path payload a])
  case (refused e)
  with assms show ?thesis by auto
next
  case (taken j)
  note new = taken(2-4)
  have a': "r = Inr ()" "a' = a\<lparr>ar_outstanding := ar_outstanding a @ [(jb_key j, jb_path j)], ar_paths := insert (jb_path j) (ar_paths a), ar_waiting := ar_waiting a @ [j]\<rparr>"
    using assms(2) taken(7) by simp_all
  have h: "held a' = held a @ [(jb_key j, jb_path j)]" by (simp add: a'(2) held_def job_pair_def)
  have s: "ar_failure a' = ar_failure a" "ar_active a' = ar_active a" "ar_capacity a' = ar_capacity a" "ar_results a' = ar_results a"
      "ar_outstanding a' = ar_outstanding a @ [(jb_key j, jb_path j)]" "ar_paths a' = insert (jb_path j) (ar_paths a)"
    by (simp_all add: a'(2))
  have "archive_ok a'"
    using assms(1) new unfolding archive_ok_def h s by auto
  with taken(1) s show ?thesis by (simp add: a'(1) job_pair_def)
qed

lemma take_ok:
  assumes "archive_ok a"
  shows "archive_ok (worker_take a) \<and> ar_failure (worker_take a) = ar_failure a \<and> ar_results (worker_take a) = ar_results a
    \<and> ar_outstanding (worker_take a) = ar_outstanding a"
proof (cases "ar_exited a \<or> ar_active a \<noteq> None")
  case False
  show ?thesis
  proof (cases "ar_waiting a")
    case Nil
    have "archive_ok (a\<lparr>ar_exited := True\<rparr>)"
      using assms by (rule archive_ok_same) (use assms in \<open>simp_all add: held_def archive_ok_def\<close>)
    with assms False Nil show ?thesis by (simp add: worker_take_def)
  next
    case (Cons j js)
    have "ar_active a = None" using False by blast
    then have "held (worker_take a) = held a" using False Cons by (simp add: worker_take_def held_def)
    then have "archive_ok (worker_take a)"
      using False Cons by (intro archive_ok_same [OF assms]) (simp_all add: worker_take_def)
    with False Cons show ?thesis by (simp add: worker_take_def)
  qed
qed (use assms in \<open>simp add: worker_take_def\<close>)

text \<open>The results an event adds, and how they agree with the latched failure.\<close>

definition finished_by :: "archive \<Rightarrow> archive \<Rightarrow> result list \<Rightarrow> bool" where
  "finished_by a a' new \<longleftrightarrow> (new = [] \<and> ar_failure a' = ar_failure a)
     \<or> (\<exists>x. new = [x] \<and> (rs_error x = None \<longrightarrow> ar_failure a = None \<and> ar_failure a' = None) \<and> (rs_error x \<noteq> None \<longrightarrow> ar_failure a' \<noteq> None))"

lemma finish_ok:
  assumes "archive_ok a"
  shows "archive_ok (worker_finish c a) \<and> ar_outstanding (worker_finish c a) = ar_outstanding a
    \<and> (\<exists>new. ar_results (worker_finish c a) = ar_results a @ new \<and> finished_by a (worker_finish c a) new)"
proof (cases "ar_active a")
  case None
  with assms show ?thesis by (simp add: worker_finish_def finished_by_def)
next
  case (Some q)
  obtain j prior closing where q: "q = (j, prior, closing)" by (cases q)
  have p: "prior = ar_failure a" using assms Some q by (simp add: archive_ok_def)
  define x where "x = \<lparr>rs_key = jb_key j, rs_path = jb_path j, rs_error = job_error prior closing c\<rparr>"
  define b where "b = (if rs_error x \<noteq> None \<and> ar_failure a = None then a\<lparr>ar_failure := rs_error x, ar_stop := True\<rparr> else a)"
  have w: "worker_finish c a = b\<lparr>ar_active := None, ar_results := ar_results a @ [x]\<rparr>"
    using Some by (simp add: worker_finish_def q Let_def x_def b_def)
  have b: "ar_waiting b = ar_waiting a" "ar_outstanding b = ar_outstanding a" "ar_paths b = ar_paths a" "ar_capacity b = ar_capacity a"
    by (simp_all add: b_def)
  have "held (worker_finish c a) = held a"
    by (simp add: w held_def b Some q x_def result_pair_def job_pair_def)
  then have ok: "archive_ok (worker_finish c a)"
    by (intro archive_ok_same [OF assms]) (simp_all add: w b)
  have "rs_error x = None \<Longrightarrow> ar_failure a = None" using p by (auto simp: x_def job_error_def split: option.splits)
  then have "finished_by a (worker_finish c a) [x]"
    by (auto simp: finished_by_def w b_def)
  with ok show ?thesis by (simp add: w b)
qed

lemma step_ok:
  assumes "archive_ok a" "archive_step e a = (r, a')"
  shows "archive_ok a'" "ar_outstanding a @ accepted_by e r = map result_pair (polled_by r) @ ar_outstanding a'"
    "\<exists>new. polled_by r @ ar_results a' = ar_results a @ new \<and> finished_by a a' new"
proof -
  have "archive_ok a' \<and> ar_outstanding a @ accepted_by e r = map result_pair (polled_by r) @ ar_outstanding a'
    \<and> (\<exists>new. polled_by r @ ar_results a' = ar_results a @ new \<and> finished_by a a' new)"
  proof (cases e)
    case (Submit key path payload)
    obtain q a1 where s: "archive_submit key path payload a = (q, a1)" by fastforce
    have "a' = a1" "r = bindr q (\<lambda>_. Inr Done)" using assms(2) s Submit by (cases q; simp add: with_out_def)+
    moreover have "polled_by (bindr q (\<lambda>_. Inr Done)) = []" by (cases q) simp_all
    ultimately show ?thesis using submit_ok [OF assms(1) s] Submit by (simp add: finished_by_def)
  next
    case Poll
    obtain q a1 where s: "archive_poll a = (q, a1)" by fastforce
    from poll_ok [OF assms(1) s] have "a' = a1" "r = Inr (Polled (ar_results a))" using assms(2) s Poll by auto
    with poll_ok [OF assms(1) s] Poll show ?thesis by (simp add: finished_by_def)
  next
    case (Close timeout)
    obtain q a1 where s: "archive_close timeout a = (q, a1)" by fastforce
    have "a' = a1" "polled_by r = []" using assms(2) s Close by (cases q; auto simp: with_out_def)+
    moreover have "a1 = a \<or> a1 = a\<lparr>ar_closing := True, ar_stop := True\<rparr>"
      using s by (cases timeout) (auto simp: archive_close_def Let_def split: sum.splits if_splits)
    moreover have "archive_ok (a\<lparr>ar_closing := True, ar_stop := True\<rparr>)"
      by (rule archive_ok_same [OF assms(1)]) (use assms(1) in \<open>simp_all add: held_def archive_ok_def\<close>)
    ultimately show ?thesis using assms(1) Close by (auto simp: finished_by_def)
  next
    case Joined
    with assms show ?thesis by (cases "ar_exited a") (auto simp: finished_by_def archive_joined_def)
  next
    case Take
    with assms take_ok [OF assms(1)] show ?thesis by (auto simp: finished_by_def)
  next
    case (Finish c)
    with assms finish_ok [OF assms(1), of c] show ?thesis by auto
  qed
  then show "archive_ok a'" "ar_outstanding a @ accepted_by e r = map result_pair (polled_by r) @ ar_outstanding a'"
    "\<exists>new. polled_by r @ ar_results a' = ar_results a @ new \<and> finished_by a a' new" by blast+
qed

interpretation durable: preserves archive_step archive_ok
  by unfold_locales (metis prod.collapse step_ok(1))

subsection \<open>Runs\<close>

fun accepted_all :: "archive_event list \<Rightarrow> (exc + archive_out) list \<Rightarrow> (string \<times> apath) list" where
  "accepted_all (e # es) (r # rs) = accepted_by e r @ accepted_all es rs"
| "accepted_all _ _ = []"

definition polled_all :: "(exc + archive_out) list \<Rightarrow> result list" where
  "polled_all rs = concat (map polled_by rs)"

lemma run_queue:
  "archive_ok a \<Longrightarrow> ar_outstanding a @ accepted_all es (run_outs archive_step es a)
     = map result_pair (polled_all (run_outs archive_step es a)) @ ar_outstanding (run_state archive_step es a)"
proof (induction es arbitrary: a)
  case (Cons e es)
  obtain r a' where s: "archive_step e a = (r, a')" by fastforce
  note ok = step_ok [OF Cons.prems s]
  have "(ar_outstanding a @ accepted_by e r) @ accepted_all es (run_outs archive_step es a')
      = map result_pair (polled_by r) @ map result_pair (polled_all (run_outs archive_step es a')) @ ar_outstanding (run_state archive_step es a')"
    unfolding ok(2) append_assoc Cons.IH [OF ok(1)] ..
  with s show ?case by (simp add: polled_all_def)
qed (simp add: polled_all_def)

text \<open>Successes first, then only errors; there are errors exactly when the archive has latched a failure.\<close>

definition cut :: "string option list \<Rightarrow> string option \<Rightarrow> bool" where
  "cut es failure \<longleftrightarrow> None \<notin> set (dropWhile (\<lambda>e. e = None) es) \<and> (failure = None) = (dropWhile (\<lambda>e. e = None) es = [])"

lemma cut_extend:
  assumes "cut (map rs_error xs) (ar_failure a)" "finished_by a a' new"
  shows "cut (map rs_error (xs @ new)) (ar_failure a')"
proof -
  let ?d = "dropWhile (\<lambda>e. e = None)"
  have one: "?d (map rs_error xs @ [e]) = (if ?d (map rs_error xs) = [] then ?d [e] else ?d (map rs_error xs) @ [e])" for e
    by (induction xs) auto
  from assms(2) show ?thesis
    unfolding finished_by_def using assms(1) one by (elim disjE exE conjE) (auto simp: cut_def)
qed

lemma run_cut:
  assumes "archive_ok a" "cut (map rs_error (xs @ ar_results a)) (ar_failure a)"
  shows "cut (map rs_error (xs @ polled_all (run_outs archive_step es a) @ ar_results (run_state archive_step es a))) (ar_failure (run_state archive_step es a))"
  using assms
proof (induction es arbitrary: a xs)
  case (Cons e es)
  obtain r a' where s: "archive_step e a = (r, a')" by fastforce
  note ok = step_ok [OF Cons.prems(1) s]
  obtain new where new: "polled_by r @ ar_results a' = ar_results a @ new" "finished_by a a' new" using ok(3) by blast
  have "cut (map rs_error ((xs @ polled_by r) @ ar_results a')) (ar_failure a')"
    using cut_extend [OF Cons.prems(2) new(2)] new(1) by simp
  from Cons.IH [OF ok(1) this] s show ?case by (simp add: polled_all_def)
qed (simp add: polled_all_def)

lemma init_archive: assumes "archive_init c = Inr a" shows "archive_ok a" "ar_outstanding a = []" "ar_results a = []" "ar_failure a = None"
  using assms by (cases c; auto simp: archive_init_def archive_ok_def held_def split: if_splits)+

text \<open>
  C21. The archive is a bounded first-in first-out queue that acknowledges every job once. In any
  interleaving of the callers and the worker, the jobs accepted so far are the polled ones followed by those outstanding, in
  the order of their admission; at most the capacity (and so at most 8) is outstanding, with distinct keys and
  paths; and the results in that order are successes followed by errors only, with an error exactly when a failure is
  latched, so nothing is acknowledged as durable after a failure.\<close>

theorem archive_fifo:
  assumes "archive_init c = Inr a0" "outs = run_outs archive_step es a0" "a = run_state archive_step es a0"
  shows "accepted_all es outs = map result_pair (polled_all outs) @ ar_outstanding a
    \<and> length (ar_outstanding a) \<le> ar_capacity a \<and> ar_capacity a \<le> 8
    \<and> distinct (map fst (ar_outstanding a)) \<and> distinct (map snd (ar_outstanding a))
    \<and> cut (map rs_error (polled_all outs @ ar_results a)) (ar_failure a)"
proof -
  note i = init_archive [OF assms(1)]
  have ok: "archive_ok a" unfolding assms(3) using i(1) by (rule durable.run_keeps)
  have "cut (map rs_error ([] @ ar_results a0)) (ar_failure a0)" using i by (simp add: cut_def)
  from run_cut [OF i(1) this, of es] run_queue [OF i(1), of es] ok i show ?thesis
    unfolding assms(2,3) archive_ok_def by simp
qed

theorem archive_fifo_witness:
  "(let es = [Submit (PStr ''a'') (Destination True [''a'']) (PBytes [1]), Submit (PStr ''b'') (Destination True [''b'']) (PBytes [2]),
              Take, Finish (Some ''disk''), Take, Finish None, Poll];
        a0 = projr (archive_init (PInt 2)); outs = run_outs archive_step es a0
    in map result_pair (polled_all outs) = [(''a'', [''a'']), (''b'', [''b''])] \<and> accepted_all es outs = map result_pair (polled_all outs)
       \<and> map rs_error (polled_all outs) = [Some ''disk'', Some ''ARCHIVE_CANCELLED_AFTER_FAILURE: disk''])"
proof -
  let ?es = "[Submit (PStr ''a'') (Destination True [''a'']) (PBytes [1]), Submit (PStr ''b'') (Destination True [''b'']) (PBytes [2]),
              Take, Finish (Some ''disk''), Take, Finish None, Poll]"
  let ?a0 = "projr (archive_init (PInt 2))"
  have i: "archive_init (PInt 2) = Inr ?a0" by (simp add: archive_init_def)
  have p: "polled_all (run_outs archive_step ?es ?a0)
      = [\<lparr>rs_key = ''a'', rs_path = [''a''], rs_error = Some ''disk''\<rparr>, \<lparr>rs_key = ''b'', rs_path = [''b''], rs_error = Some ''ARCHIVE_CANCELLED_AFTER_FAILURE: disk''\<rparr>]"
    and o: "ar_outstanding (run_state archive_step ?es ?a0) = []"
    by code_simp+
  from archive_fifo [OF i refl refl, of ?es] p o show ?thesis
    by (simp add: Let_def result_pair_def)
qed

end
