(* ===== verification/Manual_Contract.thy ===== *)
theory Manual_Contract
  imports Serial_Feedback
begin

text \<open>
  \<open>src/src/wc_motion/manual_hardware.py\<close>, lines 28-176: the reviewed contract of a manual session with the real
  controller: the command profile, the evidence that must agree with it, the reads it allows, and the encoder
  and the validator of velocity frames. Configuration and evidence are dictionaries as read from JSON; the canonical
  hash of a value, what the file system says of a source file, and the text of a number are parameters.
\<close>

section \<open>Arithmetic of the module\<close>

definition py_neg :: "pyval \<Rightarrow> pyval" where
  "py_neg v = (case v of PInt i \<Rightarrow> PInt (- i) | _ \<Rightarrow> PFloat (f_neg (to_float v)))"

definition py_round :: "pyfloat \<Rightarrow> exc + int" where
  "py_round x = (case x of Fin q \<Rightarrow> Inr (half_even q)
     | NaN \<Rightarrow> raise ValueError ''cannot convert float NaN to integer''
     | _ \<Rightarrow> raise OverflowError ''cannot convert float infinity to integer'')"

definition py_ceil :: "pyval \<Rightarrow> exc + int" where
  "py_ceil v = (case v of PInt i \<Rightarrow> Inr i | _ \<Rightarrow> (case to_float v of Fin q \<Rightarrow> Inr \<lceil>q\<rceil>
     | NaN \<Rightarrow> raise ValueError ''cannot convert float NaN to integer''
     | _ \<Rightarrow> raise OverflowError ''cannot convert float infinity to integer''))"

definition py_min :: "pyval \<Rightarrow> pyval \<Rightarrow> pyval" where
  "py_min a b = (if py_lt b a then b else a)"

section \<open>The command profile\<close>

definition zero_payload :: bytes where
  "zero_payload = [1, 0x10] @ be16 0x2088 @ be16 2 @ [4] @ be16 0 @ be16 0"

definition zero_request :: bytes where
  "zero_request = zero_payload @ crc16 zero_payload"

definition required_checks :: "string list" where
  "required_checks = [''firmware'', ''drive_enabled'', ''velocity_mode'', ''controller_watchdog'', ''stop_policy'']"

definition profile_bounds :: "(string \<times> bound \<times> bound) list" where
  "profile_bounds = [(''wheel_radius_m'', rat_bound (1 / 100) ''0.01'', int_bound 1 ''1''),
     (''track_width_m'', rat_bound (1 / 10) ''0.1'', int_bound 2 ''2''),
     (''rpm_to_register_scale'', rat_bound (1 / 100) ''0.01'', int_bound 100 ''100''),
     (''register_to_feedback_rpm'', rat_bound (1 / 10000) ''0.0001'', int_bound 100 ''100''),
     (''max_linear_m_s'', rat_bound (1 / 1000) ''0.001'', rat_bound (15 / 100) ''0.15''),
     (''max_angular_rad_s'', rat_bound (1 / 1000) ''0.001'', rat_bound (3 / 10) ''0.3''),
     (''max_wheel_rpm'', rat_bound (1 / 10) ''0.1'', int_bound 30 ''30'')]"

definition as_dict :: "pyval \<Rightarrow> exc + pydict" where
  "as_dict v = (case v of PDict d \<Rightarrow> Inr d | _ \<Rightarrow> raise AttributeError ''get'')"

definition sign_check :: "pydict \<Rightarrow> string \<Rightarrow> exc + unit" where
  "sign_check profile name = guard (dget profile name \<notin> {PInt (- 1), PInt 1}) FeedbackError ''explicit reviewed wheel signs required''"

definition profile_from_config :: "pydict \<Rightarrow> exc + pydict" where
  "profile_from_config config =
     (if dget config ''schema'' \<noteq> PStr ''wc_manual_hardware_v1'' then raise FeedbackError ''manual hardware configuration schema required''
      else bindr (dsub config ''command_profile'') (\<lambda>p. bindr (as_dict p) (\<lambda>profile.
      if \<not> py_eq (dget profile ''slave_id'') (PInt 1) \<or> \<not> py_eq (dget profile ''first_register'') (PInt 0x2088)
         \<or> \<not> py_eq (dget profile ''register_count'') (PInt 2)
      then raise FeedbackError ''only reviewed dual speed registers 0x2088/0x2089 are supported''
      else bindr (mapr (\<lambda>(name, lo, hi). bounded (dget profile name) name lo hi) profile_bounds) (\<lambda>_.
           bindr (all_pass (map (sign_check profile) [''left_sign'', ''right_sign''])) (\<lambda>_. Inr profile)))))"

section \<open>The contract\<close>

record state_check =
  ck_purpose :: string
  ck_hex :: string
  ck_request :: bytes
  ck_index :: nat
  ck_mask :: int
  ck_equals :: int

record contract =
  ct_profile :: pydict
  ct_device :: string
  ct_transaction :: pyval
  ct_key :: pyval
  ct_watchdog :: pyval
  ct_period :: pyval
  ct_stop :: pyval
  ct_stationary :: int
  ct_checks :: "state_check list"
  ct_reads :: "bytes list"
  ct_budget :: pyfloat
  ct_evidence :: string
  ct_firmware :: pyval

text \<open>What the module asks of the rest of the system: \<open>canonical_hash\<close>, and for a review source whether it is a bounded
  file inside the project and the digest of its content.\<close>

record review =
  rv_hash :: "pyval \<Rightarrow> exc + string"
  rv_source :: "pyval \<Rightarrow> exc + bool"
  rv_digest :: "pyval \<Rightarrow> exc + string"

text \<open>The items of a value that is iterated and asked for keys.\<close>

definition dict_items :: "pyval \<Rightarrow> exc + pydict list" where
  "dict_items v = (case v of PList xs \<Rightarrow> mapr as_dict xs
     | PDict d \<Rightarrow> if d = [] then Inr [] else raise AttributeError ''get''
     | PStr s \<Rightarrow> if s = [] then Inr [] else raise AttributeError ''get''
     | PBytes b \<Rightarrow> if b = [] then Inr [] else raise AttributeError ''get''
     | _ \<Rightarrow> raise TypeError ''object is not iterable'')"

definition hashable :: "pyval \<Rightarrow> bool" where
  "hashable v \<longleftrightarrow> \<not> is_list v \<and> \<not> is_dict v"

definition key_set :: "string \<Rightarrow> pydict list \<Rightarrow> exc + pyval list" where
  "key_set k ds = mapr (\<lambda>d. if hashable (dget d k) then Inr (dget d k) else raise TypeError ''unhashable type'') ds"

definition attestations :: "string list" where
  "attestations = [''command_registers_units_directions_verified'', ''controller_disconnect_stop_verified'',
     ''zero_velocity_hold_verified'', ''physical_stop_and_brake_behavior_verified'']"

definition contract_device :: "pydict \<Rightarrow> string option \<Rightarrow> exc + string" where
  "contract_device evidence expected =
     (case identity_token (dget evidence ''device_id'') (Some ''ZLAC8030D-'') of
        Inl e \<Rightarrow> raise FeedbackError (msg_of e)
      | Inr device \<Rightarrow>
          if (case expected of None \<Rightarrow> False | Some d \<Rightarrow> device \<noteq> d) \<or> \<not> py_true (dget evidence ''firmware_id'')
          then raise FeedbackError ''stop evidence must identify this controller and firmware'' else Inr device)"

definition source_check :: "review \<Rightarrow> pydict \<Rightarrow> exc + unit" where
  "source_check rv item = bindr (dsub item ''path'') (\<lambda>path. bindr (rv_source rv path) (\<lambda>fine.
     if \<not> fine then raise FeedbackError ''review source must be a bounded file inside this project''
     else bindr (rv_digest rv path) (\<lambda>digest. guard (\<not> py_eq (PStr digest) (dget item ''sha256'')) FeedbackError ''manual review source content hash mismatch'')))"

definition contract_sources :: "review \<Rightarrow> pydict \<Rightarrow> exc + unit" where
  "contract_sources rv evidence =
     (let sources = dget_or evidence ''sources'' (PList []);
          missing = raise FeedbackError ''protocol and on-site stop test source files are both required'' in
      if \<not> py_true sources then missing
      else bindr (dict_items sources) (\<lambda>items. bindr (key_set ''kind'' items) (\<lambda>kinds.
      if \<not> {PStr ''protocol'', PStr ''onsite_stop_test''} \<subseteq> set kinds then missing
      else all_pass (map (source_check rv) items))))"

definition string_of :: "pyval \<Rightarrow> string" where
  "string_of v = (case v of PStr s \<Rightarrow> s | _ \<Rightarrow> [])"

definition from_hex_value :: "pyval \<Rightarrow> exc + bytes" where
  "from_hex_value v = (case v of
       PStr s \<Rightarrow> (case from_hex s of None \<Rightarrow> raise ValueError ''non-hexadecimal number found in fromhex() arg'' | Some raw \<Rightarrow> Inr raw)
     | _ \<Rightarrow> raise TypeError ''fromhex() argument must be str'')"

text \<open>The number of registers of an allowed state read.\<close>

definition check_range :: "bytes \<Rightarrow> exc + int" where
  "check_range raw = bindr (checked_frame raw) (\<lambda>request.
     if length request \<noteq> 8 \<or> take 2 request \<noteq> [1, 3] then raise FeedbackError ''state readback permits only slave 1 FC03''
     else let address = hd (be_words (slice 2 4 request)); count = hd (be_words (slice 4 6 request)) in
     if \<not> (1 \<le> count \<and> count \<le> 8) \<or> read_request (PInt 1) (PInt address) (PInt count) \<noteq> Inr request
     then raise FeedbackError ''state readback range is invalid'' else Inr count)"

definition parse_check :: "pydict \<Rightarrow> exc + state_check" where
  "parse_check item = bindr (dsub item ''request_hex'') (\<lambda>h. bindr (from_hex_value h) (\<lambda>raw. bindr (check_range raw) (\<lambda>count.
     bindr (integer (dget item ''word_index'') ''state word index'' 0 (Some (count - 1))) (\<lambda>index.
     bindr (integer (dget item ''mask'') ''state bit mask'' 1 (Some 65535)) (\<lambda>mask.
     bindr (integer (dget item ''equals'') ''expected state value'' 0 (Some 65535)) (\<lambda>equals.
     if and equals (not mask) \<noteq> 0 then raise FeedbackError ''expected state value lies outside mask''
     else Inr \<lparr>ck_purpose = string_of (dget item ''purpose''), ck_hex = string_of h, ck_request = raw,
               ck_index = nat index, ck_mask = mask, ck_equals = equals\<rparr>))))))"

definition contract_checks :: "pydict \<Rightarrow> exc + state_check list" where
  "contract_checks evidence = bindr (dict_items (dget_or evidence ''state_checks'' (PList []))) (\<lambda>items.
     bindr (key_set ''purpose'' items) (\<lambda>purposes.
     if set purposes \<noteq> set (map PStr required_checks) \<or> length items \<noteq> length required_checks
     then raise FeedbackError ''firmware, enabled, velocity, watchdog and stop-policy live readback checks required''
     else mapr parse_check items))"

text \<open>Unique status reads, feedback and one write, each with its quiet guard, and the period.\<close>

definition command_budget :: "state_check list \<Rightarrow> pyval \<Rightarrow> pyval \<Rightarrow> pyfloat" where
  "command_budget checks transaction period =
     (let exchanges = card (set (map ck_hex checks)) + 2
      in f_add (f_mul (Fin (of_nat exchanges)) (f_add (to_float transaction) (round64 (2 / 1000)))) (to_float period))"

definition contract_timing :: "pydict \<Rightarrow> exc + (pyval \<times> pyval \<times> pyval \<times> pyval \<times> pyval)" where
  "contract_timing evidence = bindr (as_dict (dget_or evidence ''timing'' (PDict []))) (\<lambda>timing.
     bindr (bounded (dget timing ''transaction_timeout_s'') ''manual transaction timeout'' (rat_bound (1 / 100) ''0.01'') (rat_bound (1 / 10) ''0.1'')) (\<lambda>transaction.
     bindr (bounded (dget timing ''key_timeout_s'') ''manual key timeout'' (rat_bound (5 / 100) ''0.05'') (rat_bound (1 / 2) ''0.5'')) (\<lambda>key.
     bindr (bounded (dget timing ''controller_watchdog_timeout_s'') ''controller watchdog timeout'' (rat_bound (5 / 100) ''0.05'') (rat_bound (1 / 2) ''0.5'')) (\<lambda>watchdog.
     bindr (bounded (dget timing ''command_period_s'') ''manual command period'' (rat_bound (2 / 100) ''0.02'') (rat_bound (15 / 100) ''0.15'')) (\<lambda>period.
     bindr (bounded (dget timing ''zero_feedback_timeout_s'') ''stop feedback timeout'' (rat_bound (1 / 10) ''0.1'') (int_bound 1 ''1'')) (\<lambda>stop.
     if py_le (py_min key watchdog) period then raise FeedbackError ''command period must be below key/controller watchdog limits''
     else if py_le watchdog transaction then raise FeedbackError ''serial transaction budget must be below controller watchdog time''
     else Inr (transaction, key, watchdog, period, stop)))))))"

definition manual_contract :: "review \<Rightarrow> pydict \<Rightarrow> pydict \<Rightarrow> string option \<Rightarrow> exc + contract" where
  "manual_contract rv config evidence expected =
     bindr (profile_from_config config) (\<lambda>profile.
     if dget evidence ''schema'' \<noteq> PStr ''wc_manual_stop_evidence_v1'' \<or> dget evidence ''state'' \<noteq> PStr ''REVIEWED_FOR_EMPTY_CHAIR_MANUAL''
     then raise FeedbackError ''reviewed stop/firmware/watchdog evidence is missing''
     else bindr (contract_device evidence expected) (\<lambda>device.
     bindr (rv_hash rv (PDict profile)) (\<lambda>ph.
     if \<not> py_eq (dget evidence ''command_profile_sha256'') (PStr ph) then raise FeedbackError ''manual command profile differs from the reviewed evidence''
     else if \<not> py_true (dget evidence ''reviewer'') \<or> \<not> py_true (dget evidence ''reviewed_at'')
     then raise FeedbackError ''explicit reviewer and review date required''
     else if list_ex (\<lambda>name. dget evidence name \<noteq> PBool True) attestations
     then raise FeedbackError ''manual control/stop/physical-stop evidence is incomplete''
     else bindr (contract_sources rv evidence) (\<lambda>_.
     bindr (contract_timing evidence) (\<lambda>(transaction, key, watchdog, period, stop).
     if dget evidence ''stop_strategy'' \<noteq> PStr ''zero_velocity_hold''
     then raise FeedbackError ''only independently verified zero-velocity hold is implemented; no guessed control word''
     else bindr (integer (dget evidence ''stationary_feedback_abs_raw_max'') ''stationary feedback bound'' 0 (Some 10)) (\<lambda>stationary.
     bindr (contract_checks evidence) (\<lambda>checks.
     let budget = command_budget checks transaction period in
     if py_le (py_min key watchdog) (PFloat budget)
     then raise FeedbackError ''complete feedback/state/write/period budget exceeds key or controller watchdog deadline''
     else bindr (rv_hash rv (PDict evidence)) (\<lambda>eh.
     Inr \<lparr>ct_profile = profile, ct_device = device, ct_transaction = transaction, ct_key = key, ct_watchdog = watchdog, ct_period = period,
          ct_stop = stop, ct_stationary = stationary, ct_checks = checks, ct_reads = query # map ck_request checks, ct_budget = budget,
          ct_evidence = eh, ct_firmware = dget evidence ''firmware_id''\<rparr>))))))))"

section \<open>Velocity frames\<close>

text \<open>The parameter \<open>txt\<close> prints a number, for the message of \<open>bounded\<close>.\<close>

definition wheel_words :: "pydict \<Rightarrow> pyfloat list \<Rightarrow> exc + int list" where
  "wheel_words p rpm = mapr (\<lambda>(r, name). py_round (f_mul (f_mul r (to_float (dget p name))) (to_float (dget p ''rpm_to_register_scale''))))
     (zip rpm [''left_sign'', ''right_sign''])"

definition velocity_frame :: "int list \<Rightarrow> bytes" where
  "velocity_frame ws = (let payload = [1, 0x10] @ be16 0x2088 @ be16 2 @ [4] @ be16 (ws ! 0) @ be16 (ws ! 1) in payload @ crc16 payload)"

definition velocity_request :: "(pyval \<Rightarrow> string) \<Rightarrow> contract \<Rightarrow> pyval \<Rightarrow> pyval \<Rightarrow> exc + bytes" where
  "velocity_request txt ct fwd rot =
     (let p = ct_profile ct; ml = dget p ''max_linear_m_s''; ma = dget p ''max_angular_rad_s'' in
      bindr (bounded fwd ''linear velocity'' (py_neg ml, txt (py_neg ml)) (ml, txt ml)) (\<lambda>_.
      bindr (bounded rot ''angular velocity'' (py_neg ma, txt (py_neg ma)) (ma, txt ma)) (\<lambda>_.
      bindr (f_div (f_mul (to_float rot) (to_float (dget p ''track_width_m''))) (Fin 2)) (\<lambda>turn.
      bindr (mapr (\<lambda>v. f_div (f_mul v (Fin 60)) (f_mul two_pi (to_float (dget p ''wheel_radius_m''))))
               [f_sub (to_float fwd) turn, f_add (to_float fwd) turn]) (\<lambda>rpm.
      if to_float (dget p ''max_wheel_rpm'') < f_max (f_abs (rpm ! 0)) (f_abs (rpm ! 1))
      then raise FeedbackError ''requested wheel rpm exceeds reviewed bound''
      else bindr (wheel_words p rpm) (\<lambda>words.
      if list_ex (\<lambda>w. \<not> (- 32768 \<le> w \<and> w \<le> 32767)) words
      then raise FeedbackError ''wheel command cannot be encoded as signed 16-bit value''
      else Inr (velocity_frame words)))))))"

definition signed_word :: "int \<Rightarrow> int" where
  "signed_word w = (if 32768 \<le> w then w - 65536 else w)"

text \<open>\<open>values[i]/scale*sign*2*pi*radius/60\<close>, and the quantum of a register.\<close>

definition register_speed :: "pydict \<Rightarrow> pyfloat \<Rightarrow> pyfloat \<Rightarrow> exc + pyfloat" where
  "register_speed p v sign = bindr (f_div v (to_float (dget p ''rpm_to_register_scale''))) (\<lambda>x.
     f_div (f_mul (f_mul (f_mul (f_mul x sign) (Fin 2)) pi64) (to_float (dget p ''wheel_radius_m''))) (Fin 60))"

definition quantum :: "pydict \<Rightarrow> exc + pyfloat" where
  "quantum p = bindr (f_div (Fin (1 / 2)) (to_float (dget p ''rpm_to_register_scale''))) (\<lambda>x.
     f_div (f_mul (f_mul (f_mul x (Fin 2)) pi64) (to_float (dget p ''wheel_radius_m''))) (Fin 60))"

definition motion_bounds :: "pydict \<Rightarrow> pyfloat \<Rightarrow> pyfloat \<Rightarrow> pyfloat \<Rightarrow> exc + bool" where
  "motion_bounds p left right q =
     (let tiny = round64 (1 / 1000000000000); track = to_float (dget p ''track_width_m'') in
      bindr (f_div (f_add left right) (Fin 2)) (\<lambda>fwd.
      if f_add (f_add (to_float (dget p ''max_linear_m_s'')) q) tiny < f_abs fwd then Inr False
      else bindr (f_div (f_sub right left) track) (\<lambda>rot. bindr (f_div (f_mul (Fin 2) q) track) (\<lambda>slack.
      Inr (\<not> f_add (f_add (to_float (dget p ''max_angular_rad_s'')) slack) tiny < f_abs rot)))))"

definition frame_values :: "bytes \<Rightarrow> int list" where
  "frame_values request = map signed_word (be_words (slice 7 11 request))"

definition validate_write :: "contract \<Rightarrow> bytes \<Rightarrow> exc + bytes" where
  "validate_write ct request = bindr (checked_frame request) (\<lambda>request.
     if length request \<noteq> 13 \<or> take 7 request \<noteq> take 7 zero_request then raise FeedbackError ''only paired FC10 velocity registers are writable''
     else let p = ct_profile ct; values = frame_values request in
     bindr (py_ceil (py_mul (dget p ''max_wheel_rpm'') (dget p ''rpm_to_register_scale''))) (\<lambda>limit.
     if limit < max \<bar>values ! 0\<bar> \<bar>values ! 1\<bar> then raise FeedbackError ''encoded speed lies above reviewed register bound''
     else bindr (register_speed p (Fin (of_int (values ! 0))) (to_float (dget p ''left_sign''))) (\<lambda>left.
     bindr (register_speed p (Fin (of_int (values ! 1))) (to_float (dget p ''right_sign''))) (\<lambda>right.
     bindr (quantum p) (\<lambda>q. bindr (motion_bounds p left right q) (\<lambda>fine.
     if \<not> fine then raise FeedbackError ''encoded chassis motion exceeds reviewed linear/angular bound''
     else Inr request))))))"

definition validate_ack :: "bytes \<Rightarrow> bytes \<Rightarrow> exc + int list option" where
  "validate_ack request response = bindr (checked_frame response) (\<lambda>response.
     if response ! 0 \<noteq> 1 then raise FeedbackError ''manual response slave mismatch''
     else if response ! 1 = or (request ! 1) 0x80 then
       (if length response \<noteq> 5 then raise FeedbackError ''invalid Modbus exception length''
        else raise FeedbackError (''manual Modbus exception '' @ show_int (uint (response ! 2))))
     else if request ! 1 = 3 then bindr (parse_exchange request response) (\<lambda>(_, _, ws). Inr (Some ws))
     else if request ! 1 \<noteq> 0x10 \<or> length response \<noteq> 8 \<or> take 6 response \<noteq> take 6 request
     then raise FeedbackError ''FC10 ACK does not echo exact slave/function/register/count''
     else Inr None)"

section \<open>Lemmas\<close>

subsection \<open>Numbers of an accepted profile\<close>

definition between :: "rat \<Rightarrow> rat \<Rightarrow> pyfloat \<Rightarrow> bool" where
  "between a b x \<longleftrightarrow> (\<exists>y. x = Fin y \<and> a \<le> y \<and> y \<le> b)"

lemma between_round: "0 < x \<Longrightarrow> pow2 (- 1022) \<le> x \<Longrightarrow> x \<le> 2 ^ 1000 \<Longrightarrow> between (x / 2) (2 * x) (round64 x)"
  by (rule round64_positive [of x]) (auto simp: between_def)

lemma between_weaken: "between a b x \<Longrightarrow> c \<le> a \<Longrightarrow> b \<le> d \<Longrightarrow> between c d x"
  by (auto simp: between_def)

lemma between_mul:
  assumes "between a b x" "between c d z" "0 < a" "0 < c" "1 / 10 ^ 20 \<le> a * c" "b * d \<le> 2 ^ 1000"
  shows "between (a * c / 2) (2 * (b * d)) (f_mul x z)"
proof -
  from assms obtain p q where x: "x = Fin p" "z = Fin q" and p: "a \<le> p" "p \<le> b" and q: "c \<le> q" "q \<le> d" by (auto simp: between_def)
  have l: "a * c \<le> p * q" using p q assms(3,4) by (intro mult_mono) simp_all
  have u: "p * q \<le> b * d" using p q assms(3,4) by (intro mult_mono) simp_all
  have "0 < a * c" using assms(3,4) by simp
  then have "between (p * q / 2) (2 * (p * q)) (round64 (p * q))"
    using l u assms(5,6) by (intro between_round pow2_tiny) linarith+
  then show ?thesis unfolding x f_mul.simps by (rule between_weaken) (use l u in linarith)+
qed

lemma between_div:
  assumes "between a b x" "between c d z" "0 < a" "0 < c" "1 / 10 ^ 20 \<le> a / d" "b / c \<le> 2 ^ 1000"
  obtains w where "f_div x z = Inr w" "between (a / d / 2) (2 * (b / c)) w"
proof -
  from assms obtain p q where x: "x = Fin p" "z = Fin q" and p: "a \<le> p" "p \<le> b" and q: "c \<le> q" "q \<le> d" by (auto simp: between_def)
  have l: "a / d \<le> p / q" using p q assms(3,4) by (intro frac_le) simp_all
  have u: "p / q \<le> b / c" using p q assms(3,4) by (intro frac_le) simp_all
  have "0 < a / d" using assms(3,4) q by simp
  then have "between (p / q / 2) (2 * (p / q)) (round64 (p / q))"
    using l u assms(5,6) by (intro between_round pow2_tiny) linarith+
  then have "between (a / d / 2) (2 * (b / c)) (round64 (p / q))"
    by (rule between_weaken) (rule divide_right_mono [OF l], simp, rule mult_left_mono [OF u], simp)
  moreover have "f_div x z = Inr (round64 (p / q))" using q assms(4) unfolding x by simp
  ultimately show thesis using that by blast
qed

lemma bounded_Inr:
  assumes "bounded v s lo hi = Inr w"
  shows "w = v" "py_le (fst lo) v" "py_le v (fst hi)" "(\<exists>i. v = PInt i) \<or> (\<exists>q. v = PFloat (Fin q))"
proof -
  have "w = v \<and> py_le (fst lo) v \<and> py_le v (fst hi) \<and> ((\<exists>i. v = PInt i) \<or> (\<exists>q. v = PFloat (Fin q)))"
  proof (cases v)
    case (PFloat f)
    with assms show ?thesis by (cases f) (auto simp: bounded_def result_simps Let_def split: if_splits)
  qed (use assms in \<open>auto simp: bounded_def result_simps Let_def split: if_splits\<close>)
  then show "w = v" "py_le (fst lo) v" "py_le v (fst hi)" "(\<exists>i. v = PInt i) \<or> (\<exists>q. v = PFloat (Fin q))" by blast+
qed

definition sane :: "pyval \<Rightarrow> bool" where
  "sane v \<longleftrightarrow> (\<exists>i. v = PInt i \<and> 1 \<le> i \<and> i \<le> 100) \<or> (\<exists>y. v = PFloat (Fin y) \<and> 1 / 20000 \<le> y \<and> y \<le> 100)"

lemma sane_bounded:
  assumes b: "bounded v s (rat_bound q t) hi = Inr w" and q: "1 / 10000 \<le> q" "q \<le> 1"
    and hi: "fst hi = PInt j \<and> j \<le> 100 \<or> fst hi = PFloat (round64 r) \<and> 1 / 1000 \<le> r \<and> r \<le> 1"
  shows "sane v"
proof -
  have tiny: "pow2 (- 1022) \<le> q" by (rule pow2_tiny) (rule order_trans [OF _ q(1)], simp)
  have "q \<le> 2 ^ 1000" by (rule order_trans [OF q(2)]) simp
  with tiny obtain l where l: "q / 2 \<le> l" "round64 q = Fin l" using round64_positive [of q] by blast
  have top: "\<exists>m \<le> 100. py_num (fst hi) = Some (Fin m)"
  proof (cases "fst hi = PInt j \<and> j \<le> 100")
    case False
    with hi have r: "fst hi = PFloat (round64 r)" "1 / 1000 \<le> r" "r \<le> 1" by auto
    have "pow2 (- 1022) \<le> r" by (rule pow2_tiny) (rule order_trans [OF _ r(2)], simp)
    moreover have "r \<le> 2 ^ 1000" by (rule order_trans [OF r(3)]) simp
    ultimately obtain m where "m \<le> 2 * r" "round64 r = Fin m" using round64_positive [of r] by blast
    with r show ?thesis by (intro exI [of _ m]) auto
  qed auto
  from bounded_Inr(4) [OF b] show ?thesis
  proof (elim disjE exE)
    fix i assume v: "v = PInt i"
    have "l \<le> of_int i" using bounded_Inr(2) [OF b] l by (simp add: v rat_bound_def py_le_def)
    then have "0 < (of_int i :: rat)" using l(1) q(1) by linarith
    moreover have "(of_int i :: rat) \<le> 100" using bounded_Inr(3) [OF b] top by (auto simp: v py_le_def)
    ultimately show ?thesis by (simp add: sane_def v)
  next
    fix y assume v: "v = PFloat (Fin y)"
    have "l \<le> y" using bounded_Inr(2) [OF b] l by (simp add: v rat_bound_def py_le_def)
    moreover have "y \<le> 100" using bounded_Inr(3) [OF b] top by (auto simp: v py_le_def)
    ultimately show ?thesis using l(1) q(1) by (simp add: sane_def v)
  qed
qed

lemma sane_rat: "bounded v s (rat_bound q t) (rat_bound r t') = Inr w \<Longrightarrow> 1 / 10000 \<le> q \<Longrightarrow> q \<le> 1 \<Longrightarrow> 1 / 1000 \<le> r \<Longrightarrow> r \<le> 1 \<Longrightarrow> sane v"
  by (erule sane_bounded [where r = r and j = 0]) (simp_all add: rat_bound_def)

lemma sane_int: "bounded v s (rat_bound q t) (PInt j, t') = Inr w \<Longrightarrow> 1 / 10000 \<le> q \<Longrightarrow> q \<le> 1 \<Longrightarrow> j \<le> 100 \<Longrightarrow> sane v"
  by (erule sane_bounded [where j = j and r = 0]) simp_all

lemma sane_float: "sane v \<Longrightarrow> between (1 / 20000) 200 (to_float v)"
proof (unfold sane_def, elim disjE exE conjE)
  fix i assume v: "v = PInt i" "1 \<le> i" "i \<le> 100"
  then have i: "(1 :: rat) \<le> of_int i" "(of_int i :: rat) \<le> 100" by simp_all
  have "between (of_int i / 2) (2 * of_int i) (round64 (of_int i))"
  proof (rule between_round)
    show "pow2 (- 1022) \<le> of_int i" by (rule pow2_tiny) (rule order_trans [OF _ i(1)], simp)
    show "of_int i \<le> (2 :: rat) ^ 1000" by (rule order_trans [OF i(2)]) simp
  qed (use i in linarith)
  moreover have "to_float v = round64 (of_int i)" by (simp add: v to_float_def)
  ultimately show "between (1 / 20000) 200 (to_float v)" by simp (rule between_weaken, assumption, use i in linarith, use i in linarith)
qed (auto simp: between_def to_float_def)

text \<open>What \<open>profile_from_config\<close> accepts.\<close>

definition profile_ok :: "pydict \<Rightarrow> bool" where
  "profile_ok p \<longleftrightarrow> list_all (\<lambda>(name, _). sane (dget p name)) profile_bounds
     \<and> list_all (\<lambda>name. dget p name = PInt (- 1) \<or> dget p name = PInt 1) [''left_sign'', ''right_sign'']"

lemma profile_from_config_ok:
  assumes "profile_from_config config = Inr p" shows "profile_ok p"
proof -
  from assms obtain vs where m: "mapr (\<lambda>(name, lo, hi). bounded (dget p name) name lo hi) profile_bounds = Inr vs"
    and s: "all_pass (map (sign_check p) [''left_sign'', ''right_sign'']) = Inr ()"
    by (auto simp: profile_from_config_def result_simps split: if_splits)
  have n: "length profile_bounds = 7" by (simp add: profile_bounds_def)
  have b: "i < 7 \<Longrightarrow> (case profile_bounds ! i of (name, lo, hi) \<Rightarrow> bounded (dget p name) name lo hi) = Inr (vs ! i)" for i
    using m unfolding mapr_Inr_iff n by simp
  have "list_all (\<lambda>(name, _). sane (dget p name)) profile_bounds"
    using b [of 0] b [of 1] b [of 2] b [of 3] b [of 4] b [of 5] b [of 6] unfolding profile_bounds_def
    by (auto simp: nth_Cons' int_bound_def elim: sane_rat sane_int)
  then show ?thesis using s by (auto simp: profile_ok_def result_simps sign_check_def)
qed

subsection \<open>The stop frame\<close>

lemma profile_sane:
  assumes "profile_ok p"
  shows "between (1 / 20000) 200 (to_float (dget p ''wheel_radius_m''))" "between (1 / 20000) 200 (to_float (dget p ''track_width_m''))"
    "between (1 / 20000) 200 (to_float (dget p ''rpm_to_register_scale''))" "sane (dget p ''max_linear_m_s'')" "sane (dget p ''max_angular_rad_s'')"
    "sane (dget p ''max_wheel_rpm'')" "sane (dget p ''rpm_to_register_scale'')"
    "dget p ''left_sign'' = PInt (- 1) \<or> dget p ''left_sign'' = PInt 1" "dget p ''right_sign'' = PInt (- 1) \<or> dget p ''right_sign'' = PInt 1"
  using assms by (simp_all add: profile_ok_def profile_bounds_def sane_float)

lemma between_add:
  assumes "between a b x" "between c d z" "0 < a" "0 < c" "1 / 10 ^ 20 \<le> a" "b + d \<le> 2 ^ 1000"
  shows "between ((a + c) / 2) (2 * (b + d)) (f_add x z)"
proof -
  from assms obtain p q where x: "x = Fin p" "z = Fin q" and p: "a \<le> p" "p \<le> b" and q: "c \<le> q" "q \<le> d" by (auto simp: between_def)
  have "between ((p + q) / 2) (2 * (p + q)) (round64 (p + q))"
    using p q assms(3-6) by (intro between_round pow2_tiny) linarith+
  then show ?thesis unfolding x f_add.simps by (rule between_weaken) (use p q in simp_all)
qed

text \<open>The same with the bounds wanted.\<close>

lemma mul_within:
  assumes "between a b x" "between c d z" "0 < a" "0 < c" "1 / 10 ^ 20 \<le> a * c" "b * d \<le> 2 ^ 1000" "lo \<le> a * c / 2" "2 * (b * d) \<le> hi"
  shows "between lo hi (f_mul x z)"
  by (rule between_weaken [OF between_mul [OF assms(1-6)] assms(7,8)])

lemma add_within:
  assumes "between a b x" "between c d z" "0 < a" "0 < c" "1 / 10 ^ 20 \<le> a" "b + d \<le> 2 ^ 1000" "lo \<le> (a + c) / 2" "2 * (b + d) \<le> hi"
  shows "between lo hi (f_add x z)"
  by (rule between_weaken [OF between_add [OF assms(1-6)] assms(7,8)])

lemma div_within:
  assumes "between a b x" "between c d z" "0 < a" "0 < c" "1 / 10 ^ 20 \<le> a / d" "b / c \<le> 2 ^ 1000" "lo \<le> a / d / 2" "2 * (b / c) \<le> hi"
  shows "\<exists>w. f_div x z = Inr w \<and> between lo hi w"
  by (rule between_div [OF assms(1-6)]) (blast intro: between_weaken [OF _ assms(7,8)])

lemma zero_within: assumes "sane m" shows "bounded (PFloat (Fin 0)) s (py_neg m, t) (m, t') = Inr (PFloat (Fin 0))"
  using assms by (auto simp: sane_def bounded_def py_le_def py_neg_def to_float_def)

lemma sign_float: "v = PInt (- 1) \<or> v = PInt 1 \<Longrightarrow> \<exists>s. to_float v = Fin s"
proof -
  have e: "exponent 1 = 0" by (simp add: exponent_def bitlen_def compute_floorlog)
  have "round64 1 = Fin 1" by (subst round64_eq [where e = 0 and n = "2 ^ 52"]) (simp_all add: e pow2_def)
  moreover have "round64 (- 1) = Fin (- 1)"
    using half_even_eq [of "2 ^ 52" "2 ^ 52"] by (simp add: round64_def Let_def e pow2_def)
  ultimately show "v = PInt (- 1) \<or> v = PInt 1 \<Longrightarrow> \<exists>s. to_float v = Fin s" by (auto simp: to_float_def)
qed

lemma f_zero [simp]: "f_mul (Fin 0) (Fin y) = Fin 0" "f_add (Fin 0) (Fin 0) = Fin 0" "f_sub (Fin 0) (Fin 0) = Fin 0"
  "y \<noteq> 0 \<Longrightarrow> f_div (Fin 0) (Fin y) = Inr (Fin 0)"
  by (simp_all add: f_sub_def)

lemma zero_frame: "velocity_frame [0, 0] = zero_request"
  by (simp add: velocity_frame_def zero_request_def zero_payload_def Let_def)

lemma zero_velocity_request:
  assumes p: "profile_ok (ct_profile ct)"
  shows "velocity_request txt ct (PFloat (Fin 0)) (PFloat (Fin 0)) = Inr zero_request"
proof -
  let ?p = "ct_profile ct"
  note s = profile_sane [OF p]
  from s(1,2,3) obtain r t c where f: "to_float (dget ?p ''wheel_radius_m'') = Fin r" "to_float (dget ?p ''track_width_m'') = Fin t"
      "to_float (dget ?p ''rpm_to_register_scale'') = Fin c" by (auto simp: between_def)
  from sign_float [OF s(8)] sign_float [OF s(9)] obtain a b where g: "to_float (dget ?p ''left_sign'') = Fin a" "to_float (dget ?p ''right_sign'') = Fin b" by blast
  have "between 6 7 two_pi" unfolding between_def two_pi_def by (intro exI conjI) (rule refl, simp_all)
  from between_mul [OF this s(1)] obtain w where w: "f_mul two_pi (Fin r) = Fin w" "w \<noteq> 0"
    by (auto simp: between_def f)
  from sane_float [OF s(6)] obtain m where m: "to_float (dget ?p ''max_wheel_rpm'') = Fin m" "0 < m" by (auto simp: between_def)
  show ?thesis
    using m w by (simp add: velocity_request_def Let_def zero_within s to_float_def [of "PFloat _"] f g wheel_words_def py_round_def half_even_def f_max_def zero_frame)
qed

lemma zero_request_checked: "checked_frame zero_request = Inr zero_request" "length zero_request = 13" "zero_request ! 1 = 0x10"
  "frame_values zero_request = [0, 0]"
proof -
  show "checked_frame zero_request = Inr zero_request"
    unfolding zero_request_def by (subst checked_frame_append_crc) (simp add: zero_payload_def)
qed (simp_all add: zero_request_def zero_payload_def frame_values_def slice_def be16_def signed_word_def)

lemma zero_validates:
  assumes p: "profile_ok (ct_profile ct)"
  shows "validate_write ct zero_request = Inr zero_request"
proof -
  let ?p = "ct_profile ct"
  note s = profile_sane [OF p]
  from s(1,2,3) obtain r t c where f: "to_float (dget ?p ''wheel_radius_m'') = Fin r" "to_float (dget ?p ''track_width_m'') = Fin t"
      "to_float (dget ?p ''rpm_to_register_scale'') = Fin c" and c: "0 < c" "0 < t" by (auto simp: between_def)
  from sign_float [OF s(8)] sign_float [OF s(9)] obtain a b where g: "to_float (dget ?p ''left_sign'') = Fin a" "to_float (dget ?p ''right_sign'') = Fin b" by blast
  have "\<exists>limit. py_ceil (py_mul (dget ?p ''max_wheel_rpm'') (dget ?p ''rpm_to_register_scale'')) = Inr limit \<and> 0 \<le> limit"
  proof (cases "(\<exists>i. dget ?p ''max_wheel_rpm'' = PInt i) \<and> (\<exists>j. dget ?p ''rpm_to_register_scale'' = PInt j)")
    case True
    with s(6,7) show ?thesis by (auto simp: py_ceil_def sane_def)
  next
    case False
    have "between (1 / 10000000000) 10000000000 (f_mul (to_float (dget ?p ''max_wheel_rpm'')) (to_float (dget ?p ''rpm_to_register_scale'')))"
      by (rule mul_within [OF sane_float [OF s(6)] s(3)]) simp_all
    then obtain y where y: "f_mul (to_float (dget ?p ''max_wheel_rpm'')) (to_float (dget ?p ''rpm_to_register_scale'')) = Fin y" "0 < y"
      by (auto simp: between_def)
    have "py_mul (dget ?p ''max_wheel_rpm'') (dget ?p ''rpm_to_register_scale'') = PFloat (Fin y)"
      using False s(6,7) y(1) by (auto simp: sane_def)
    with y(2) show ?thesis by (simp add: py_ceil_def to_float_def)
  qed
  then obtain limit where limit: "py_ceil (py_mul (dget ?p ''max_wheel_rpm'') (dget ?p ''rpm_to_register_scale'')) = Inr limit" "0 \<le> limit" by blast
  have speed: "register_speed ?p (Fin 0) (Fin x) = Inr (Fin 0)" for x
    using c by (simp add: register_speed_def f pi64_def)
  have "between 3 4 pi64" unfolding between_def pi64_def by (intro exI conjI) (rule refl, simp_all)
  moreover have "between (1 / 2) (1 / 2) (Fin (1 / 2))" "between 2 2 (Fin 2)" "between 60 60 (Fin 60)" unfolding between_def by (rule exI, rule conjI, rule refl, simp)+
  ultimately have b: "between (1 / 2) (1 / 2) (Fin (1 / 2))" "between 2 2 (Fin 2)" "between 3 4 pi64" "between 60 60 (Fin 60)" by simp_all
  obtain q where q: "quantum ?p = Inr q" "between (1 / 1000000000000) 1000000000000 q"
  proof -
    have "\<exists>x. f_div (Fin (1 / 2)) (Fin c) = Inr x \<and> between (1 / 800) 20000 x"
      by (rule div_within [OF b(1) s(3) [unfolded f]]) simp_all
    then obtain x where x: "f_div (Fin (1 / 2)) (Fin c) = Inr x" "between (1 / 800) 20000 x" by blast
    have y: "between (1 / 800) 80000 (f_mul x (Fin 2))" by (rule mul_within [OF x(2) b(2)]) simp_all
    have z: "between (1 / 1000) 1000000 (f_mul (f_mul x (Fin 2)) pi64)" by (rule mul_within [OF y b(3)]) simp_all
    have w: "between (1 / 100000000) 1000000000 (f_mul (f_mul (f_mul x (Fin 2)) pi64) (Fin r))"
      by (rule mul_within [OF z s(1) [unfolded f]]) simp_all
    have "\<exists>v. f_div (f_mul (f_mul (f_mul x (Fin 2)) pi64) (Fin r)) (Fin 60) = Inr v \<and> between (1 / 1000000000000) 1000000000000 v"
      by (rule div_within [OF w b(4)]) simp_all
    then obtain v where "f_div (f_mul (f_mul (f_mul x (Fin 2)) pi64) (Fin r)) (Fin 60) = Inr v" "between (1 / 1000000000000) 1000000000000 v" by blast
    with x that show thesis by (simp add: quantum_def f)
  qed
  have fine: "motion_bounds ?p (Fin 0) (Fin 0) q = Inr True"
  proof -
    have tiny: "between (1 / 10000000000000) 1 (round64 (1 / 1000000000000))"
      by (rule between_weaken [OF between_round]) (simp_all add: pow2_def)
    have q2: "between (1 / 1000000000000) 100000000000000 (f_mul (Fin 2) q)" by (rule mul_within [OF b(2) q(2)]) simp_all
    have "\<exists>e. f_div (f_mul (Fin 2) q) (Fin t) = Inr e \<and> between (1 / 1000000000000000) 100000000000000000000 e"
      by (rule div_within [OF q2 s(2) [unfolded f]]) simp_all
    then obtain e where e: "f_div (f_mul (Fin 2) q) (Fin t) = Inr e" "between (1 / 1000000000000000) 100000000000000000000 e" by blast
    have ml: "between (1 / 1000000) 10000000000000 (f_add (to_float (dget ?p ''max_linear_m_s'')) q)"
      by (rule add_within [OF sane_float [OF s(4)] q(2)]) simp_all
    have l: "between (1 / 10000000) 100000000000000 (f_add (f_add (to_float (dget ?p ''max_linear_m_s'')) q) (round64 (1 / 1000000000000)))"
      by (rule add_within [OF ml tiny]) simp_all
    have ma: "between (1 / 1000000) 1000000000000000000000 (f_add (to_float (dget ?p ''max_angular_rad_s'')) e)"
      by (rule add_within [OF sane_float [OF s(5)] e(2)]) simp_all
    have a: "between (1 / 10000000) 10000000000000000000000 (f_add (f_add (to_float (dget ?p ''max_angular_rad_s'')) e) (round64 (1 / 1000000000000)))"
      by (rule add_within [OF ma tiny]) simp_all
    have "\<not> x < Fin 0" if "between u v x" "0 < u" for u v x using that by (auto simp: between_def)
    from this [OF l] this [OF a] show ?thesis using c e(1) f by (simp add: motion_bounds_def Let_def)
  qed
  then show ?thesis
    using limit q(1) fine by (simp add: validate_write_def zero_request_checked speed g)
qed

subsection \<open>What a contract holds\<close>

definition check_ok :: "state_check \<Rightarrow> bool" where
  "check_ok ck \<longleftrightarrow> from_hex (ck_hex ck) = Some (ck_request ck) \<and> length (ck_request ck) = 8 \<and> take 2 (ck_request ck) = [1, 3] \<and> checked_frame (ck_request ck) = Inr (ck_request ck)
     \<and> (let count = hd (be_words (slice 4 6 (ck_request ck))) in 1 \<le> count \<and> count \<le> 8 \<and> int (ck_index ck) < count)
     \<and> 1 \<le> ck_mask ck \<and> ck_mask ck \<le> 65535 \<and> 0 \<le> ck_equals ck \<and> ck_equals ck \<le> 65535 \<and> and (ck_equals ck) (not (ck_mask ck)) = 0"

lemma check_range_ok:
  "check_range raw = Inr count \<Longrightarrow> checked_frame raw = Inr raw \<and> length raw = 8 \<and> take 2 raw = [1, 3]
     \<and> count = hd (be_words (slice 4 6 raw)) \<and> 1 \<le> count \<and> count \<le> 8"
  by (auto simp: check_range_def result_simps Let_def split: if_splits)

lemma from_hex_value_Inr: "from_hex_value v = Inr raw \<Longrightarrow> \<exists>t. v = PStr t \<and> from_hex t = Some raw"
  by (cases v) (auto simp: from_hex_value_def split: option.splits)

lemma parse_check_ok:
  assumes "parse_check item = Inr ck"
  shows "check_ok ck" "ck_purpose ck = string_of (dget item ''purpose'')"
  using assms by (auto simp: parse_check_def result_simps if_raise check_ok_def Let_def string_of_def dest!: check_range_ok from_hex_value_Inr)

lemma parse_check_purpose: "parse_check item = Inr ck \<Longrightarrow> dget item ''purpose'' = PStr p \<Longrightarrow> ck_purpose ck = p"
  by (simp add: parse_check_ok(2) string_of_def)

lemma contract_checks_ok:
  assumes "contract_checks evidence = Inr cks"
  shows "list_all check_ok cks" "set (map ck_purpose cks) = set required_checks" "length cks = 5"
proof -
  from assms obtain items ps where i: "mapr (\<lambda>d. if hashable (dget d ''purpose'') then Inr (dget d ''purpose'') else raise TypeError ''unhashable type'') items = Inr ps"
    and s: "set ps = set (map PStr required_checks)" "length items = length required_checks" and c: "mapr parse_check items = Inr cks"
    by (auto simp: contract_checks_def key_set_def result_simps split: if_splits)
  have ps: "ps = map (\<lambda>d. dget d ''purpose'') items"
    using i unfolding mapr_Inr_iff by (auto intro!: nth_equalityI split: if_splits)
  have len: "length cks = length items" and ck: "k < length items \<Longrightarrow> parse_check (items ! k) = Inr (cks ! k)" for k
    using c unfolding mapr_Inr_iff by auto
  show "list_all check_ok cks" using ck len by (auto simp: list_all_length intro: parse_check_ok(1))
  show "length cks = 5" using len s(2) by (simp add: required_checks_def)
  have "map (PStr \<circ> ck_purpose) cks = ps"
  proof (rule nth_equalityI)
    show "length (map (PStr \<circ> ck_purpose) cks) = length ps" using len ps by simp
    fix k assume "k < length (map (PStr \<circ> ck_purpose) cks)"
    then have k: "k < length items" using len by simp
    have "dget (items ! k) ''purpose'' \<in> set ps" using k ps by simp
    then obtain p where p: "dget (items ! k) ''purpose'' = PStr p" unfolding s by auto
    with ck [OF k] have "ck_purpose (cks ! k) = p" by (auto dest: parse_check_purpose)
    then show "map (PStr \<circ> ck_purpose) cks ! k = ps ! k" using k len p ps by simp
  qed
  then have "PStr ` set (map ck_purpose cks) = PStr ` set required_checks" using s(1) by (auto simp flip: set_map map_map)
  then show "set (map ck_purpose cks) = set required_checks" by (simp add: inj_image_eq_iff inj_def)
qed

lemma contract_fields:
  assumes "manual_contract rv config evidence expected = Inr ct"
  shows "profile_from_config config = Inr (ct_profile ct)" "contract_checks evidence = Inr (ct_checks ct)"
    "contract_timing evidence = Inr (ct_transaction ct, ct_key ct, ct_watchdog ct, ct_period ct, ct_stop ct)"
    "ct_reads ct = query # map ck_request (ct_checks ct)" "0 \<le> ct_stationary ct" "ct_stationary ct \<le> 10"
    "\<not> py_le (py_min (ct_key ct) (ct_watchdog ct)) (PFloat (ct_budget ct))"
    "list_all (\<lambda>name. dget evidence name = PBool True) attestations"
    "ct_budget ct = command_budget (ct_checks ct) (ct_transaction ct) (ct_period ct)"
  using assms by (auto simp: manual_contract_def result_simps Let_def list_ex_iff list_all_iff split: if_splits prod.splits)

lemma contract_profile: "manual_contract rv config evidence expected = Inr ct \<Longrightarrow> profile_ok (ct_profile ct)"
  by (rule profile_from_config_ok [OF contract_fields(1)])

lemma py_min_le:
  assumes "py_num a = Some x" "py_num b = Some y" "x \<noteq> NaN" "y \<noteq> NaN" "py_le a c \<or> py_le b c"
  shows "py_le (py_min a b) c"
proof -
  have t: "x < y \<or> y \<le> x" "y < x \<or> x \<le> y" using assms(3,4) by (cases x; cases y; auto simp: less_pyfloat_def)+
  with assms show ?thesis by (auto simp: py_min_def py_le_def py_lt_def less_pyfloat_def split: option.splits intro: pyfloat_le_trans)
qed

lemma timing_numbers:
  assumes "contract_timing evidence = Inr (t, k, w, p, s)"
  shows "\<exists>x. py_num k = Some (Fin x)" "\<exists>x. py_num w = Some (Fin x)"
proof -
  from assms obtain timing where k: "bounded (dget timing ''key_timeout_s'') ''manual key timeout'' (rat_bound (5 / 100) ''0.05'') (rat_bound (1 / 2) ''0.5'') = Inr k"
    and w: "bounded (dget timing ''controller_watchdog_timeout_s'') ''controller watchdog timeout'' (rat_bound (5 / 100) ''0.05'') (rat_bound (1 / 2) ''0.5'') = Inr w"
    by (auto simp: contract_timing_def result_simps split: if_splits)
  show "\<exists>x. py_num k = Some (Fin x)" using bounded_Inr(1,4) [OF k] by auto
  show "\<exists>x. py_num w = Some (Fin x)" using bounded_Inr(1,4) [OF w] by auto
qed

lemma tight: "1 / 1000 \<le> x \<Longrightarrow> x \<le> 1 \<Longrightarrow> between (x - 1 / 10 ^ 9) (x + 1 / 10 ^ 9) (round64 x)"
proof -
  assume x: "1 / 1000 \<le> x" "x \<le> 1"
  have "pow2 (- 1022) \<le> x" by (rule pow2_tiny) (rule order_trans [OF _ x(1)], simp)
  moreover have "x \<le> 2 ^ 1000" by (rule order_trans [OF x(2)]) simp
  ultimately obtain z where "x - x / 2 ^ 53 \<le> z" "z \<le> x + x / 2 ^ 53" "round64 x = Fin z" by (rule round64_close)
  moreover have "x / 2 ^ 53 \<le> 1 / 10 ^ 9" using x by simp
  ultimately show ?thesis unfolding between_def by (intro exI [of _ z]) linarith
qed

text \<open>A number that is not a truth value, and one between two reviewed bounds.\<close>

definition measures :: "pyval \<Rightarrow> rat \<Rightarrow> bool" where
  "measures v x \<longleftrightarrow> v = PFloat (Fin x) \<or> (\<exists>i. v = PInt i \<and> x = of_int i)"

definition reviewed :: "pyval \<Rightarrow> pyfloat \<Rightarrow> pyfloat \<Rightarrow> bool" where
  "reviewed v lo hi \<longleftrightarrow> (\<exists>x. measures v x \<and> lo \<le> Fin x \<and> Fin x \<le> hi)"

lemma bounded_reviewed:
  assumes "bounded v s lo hi = Inr w" "py_num (fst lo) = Some a" "py_num (fst hi) = Some b"
  shows "w = v \<and> reviewed v a b"
  using bounded_Inr [OF assms(1)] assms(2,3) by (auto simp: reviewed_def measures_def py_le_def)

definition profile_reviewed :: "pydict \<Rightarrow> bool" where
  "profile_reviewed p \<longleftrightarrow> reviewed (dget p ''wheel_radius_m'') (round64 (1 / 100)) (Fin 1) \<and> reviewed (dget p ''track_width_m'') (round64 (1 / 10)) (Fin 2)
     \<and> reviewed (dget p ''rpm_to_register_scale'') (round64 (1 / 100)) (Fin 100) \<and> reviewed (dget p ''register_to_feedback_rpm'') (round64 (1 / 10000)) (Fin 100)
     \<and> reviewed (dget p ''max_linear_m_s'') (round64 (1 / 1000)) (round64 (15 / 100)) \<and> reviewed (dget p ''max_angular_rad_s'') (round64 (1 / 1000)) (round64 (3 / 10))
     \<and> reviewed (dget p ''max_wheel_rpm'') (round64 (1 / 10)) (Fin 30)
     \<and> dget p ''left_sign'' \<in> {PInt (- 1), PInt 1} \<and> dget p ''right_sign'' \<in> {PInt (- 1), PInt 1}"

lemma profile_from_config_reviewed:
  assumes "profile_from_config config = Inr p" shows "profile_reviewed p"
proof -
  from assms obtain vs where m: "mapr (\<lambda>(name, lo, hi). bounded (dget p name) name lo hi) profile_bounds = Inr vs"
    and sgn: "all_pass (map (sign_check p) [''left_sign'', ''right_sign'']) = Inr ()"
    by (auto simp: profile_from_config_def result_simps split: if_splits)
  have n: "length profile_bounds = 7" by (simp add: profile_bounds_def)
  have b: "i < 7 \<Longrightarrow> (case profile_bounds ! i of (name, lo, hi) \<Rightarrow> bounded (dget p name) name lo hi) = Inr (vs ! i)" for i
    using m unfolding mapr_Inr_iff n by simp
  note r = bounded_reviewed [THEN conjunct2]
  have "reviewed (dget p ''wheel_radius_m'') (round64 (1 / 100)) (Fin 1)" "reviewed (dget p ''track_width_m'') (round64 (1 / 10)) (Fin 2)"
      "reviewed (dget p ''rpm_to_register_scale'') (round64 (1 / 100)) (Fin 100)" "reviewed (dget p ''register_to_feedback_rpm'') (round64 (1 / 10000)) (Fin 100)"
      "reviewed (dget p ''max_linear_m_s'') (round64 (1 / 1000)) (round64 (15 / 100))" "reviewed (dget p ''max_angular_rad_s'') (round64 (1 / 1000)) (round64 (3 / 10))"
      "reviewed (dget p ''max_wheel_rpm'') (round64 (1 / 10)) (Fin 30)"
    using b [of 0] b [of 1] b [of 2] b [of 3] b [of 4] b [of 5] b [of 6] unfolding profile_bounds_def
    by (auto simp: nth_Cons' intro!: r simp: int_bound_def rat_bound_def)
  then show ?thesis using sgn by (auto simp: profile_reviewed_def result_simps sign_check_def)
qed

text \<open>The time limits, and that a cycle of so many exchanges, each with its quiet guard of two milliseconds, and the period end before
  the key and the watchdog do. The sum is exact; the code's is rounded five times, which is less than a tenth of a microsecond.\<close>

definition timing_reviewed :: "contract \<Rightarrow> bool" where
  "timing_reviewed ct \<longleftrightarrow> reviewed (ct_transaction ct) (round64 (1 / 100)) (round64 (1 / 10))
     \<and> reviewed (ct_key ct) (round64 (5 / 100)) (round64 (1 / 2)) \<and> reviewed (ct_watchdog ct) (round64 (5 / 100)) (round64 (1 / 2))
     \<and> reviewed (ct_period ct) (round64 (2 / 100)) (round64 (15 / 100)) \<and> reviewed (ct_stop ct) (round64 (1 / 10)) (Fin 1)"

definition cycle_fits :: "contract \<Rightarrow> nat \<Rightarrow> bool" where
  "cycle_fits ct exchanges \<longleftrightarrow> (\<exists>t k w p. measures (ct_transaction ct) t \<and> measures (ct_key ct) k \<and> measures (ct_watchdog ct) w \<and> measures (ct_period ct) p
     \<and> t < w \<and> p < min k w \<and> of_nat exchanges * (t + 1 / 500) + p < min k w + 1 / 10 ^ 7)"

lemma contract_timing_reviewed:
  assumes "contract_timing evidence = Inr (ct_transaction ct, ct_key ct, ct_watchdog ct, ct_period ct, ct_stop ct)"
  shows "timing_reviewed ct" "\<not> py_le (py_min (ct_key ct) (ct_watchdog ct)) (ct_period ct)" "\<not> py_le (ct_watchdog ct) (ct_transaction ct)"
proof -
  note r = bounded_reviewed [THEN conjunct2]
  from assms obtain timing where b: "bounded (dget timing ''transaction_timeout_s'') ''manual transaction timeout'' (rat_bound (1 / 100) ''0.01'') (rat_bound (1 / 10) ''0.1'') = Inr (ct_transaction ct)"
      "bounded (dget timing ''key_timeout_s'') ''manual key timeout'' (rat_bound (5 / 100) ''0.05'') (rat_bound (1 / 2) ''0.5'') = Inr (ct_key ct)"
      "bounded (dget timing ''controller_watchdog_timeout_s'') ''controller watchdog timeout'' (rat_bound (5 / 100) ''0.05'') (rat_bound (1 / 2) ''0.5'') = Inr (ct_watchdog ct)"
      "bounded (dget timing ''command_period_s'') ''manual command period'' (rat_bound (2 / 100) ''0.02'') (rat_bound (15 / 100) ''0.15'') = Inr (ct_period ct)"
      "bounded (dget timing ''zero_feedback_timeout_s'') ''stop feedback timeout'' (rat_bound (1 / 10) ''0.1'') (int_bound 1 ''1'') = Inr (ct_stop ct)"
    and "\<not> py_le (py_min (ct_key ct) (ct_watchdog ct)) (ct_period ct)" "\<not> py_le (ct_watchdog ct) (ct_transaction ct)"
    by (auto simp: contract_timing_def result_simps split: if_splits)
  then show "\<not> py_le (py_min (ct_key ct) (ct_watchdog ct)) (ct_period ct)" "\<not> py_le (ct_watchdog ct) (ct_transaction ct)" by blast+
  have v: "dget timing ''transaction_timeout_s'' = ct_transaction ct" "dget timing ''key_timeout_s'' = ct_key ct" "dget timing ''controller_watchdog_timeout_s'' = ct_watchdog ct"
      "dget timing ''command_period_s'' = ct_period ct" "dget timing ''zero_feedback_timeout_s'' = ct_stop ct"
    using b by (auto dest: bounded_Inr(1))
  show "timing_reviewed ct"
    unfolding timing_reviewed_def using b [unfolded v] by (auto intro!: r simp: rat_bound_def int_bound_def)
qed

lemma reviewed_small:
  assumes "reviewed v (round64 a) (round64 b)" "1 / 1000 \<le> a" "a \<le> 1" "1 / 1000 \<le> b" "b \<le> 9 / 10"
  obtains x where "v = PFloat (Fin x)" "a - 1 / 10 ^ 9 \<le> x" "x \<le> b + 1 / 10 ^ 9"
proof -
  obtain x where x: "measures v x" "round64 a \<le> Fin x" "Fin x \<le> round64 b" using assms(1) by (auto simp: reviewed_def)
  have l: "a - 1 / 10 ^ 9 \<le> x" using tight [OF assms(2,3)] x(2) by (auto simp: between_def)
  have u: "x \<le> b + 1 / 10 ^ 9" using tight [of b] assms(4,5) x(3) by (auto simp: between_def)
  have "v \<noteq> PInt i" for i
  proof
    assume "v = PInt i"
    with x(1) have "x = of_int i" by (simp add: measures_def)
    moreover have "0 < x" "x < 1" using l u assms(2,5) by (simp_all add: field_simps)
    ultimately show False by simp
  qed
  with x(1) l u that show thesis by (auto simp: measures_def)
qed

lemma budget_exact:
  assumes "timing_reviewed ct" "length (ct_checks ct) = 5" "ct_budget ct = command_budget (ct_checks ct) (ct_transaction ct) (ct_period ct)"
    "\<not> py_le (py_min (ct_key ct) (ct_watchdog ct)) (ct_period ct)" "\<not> py_le (ct_watchdog ct) (ct_transaction ct)"
    "\<not> py_le (py_min (ct_key ct) (ct_watchdog ct)) (PFloat (ct_budget ct))"
  shows "cycle_fits ct (card (set (map ck_hex (ct_checks ct))) + 2)"
proof -
  obtain t where t: "ct_transaction ct = PFloat (Fin t)" "1 / 100 - 1 / 10 ^ 9 \<le> t" "t \<le> 1 / 10 + 1 / 10 ^ 9"
    using assms(1) unfolding timing_reviewed_def by (auto elim: reviewed_small)
  obtain p where p: "ct_period ct = PFloat (Fin p)" "2 / 100 - 1 / 10 ^ 9 \<le> p" "p \<le> 15 / 100 + 1 / 10 ^ 9"
    using assms(1) unfolding timing_reviewed_def by (auto elim: reviewed_small)
  obtain k where k: "ct_key ct = PFloat (Fin k)" using assms(1) unfolding timing_reviewed_def by (auto elim: reviewed_small)
  obtain w where w: "ct_watchdog ct = PFloat (Fin w)" using assms(1) unfolding timing_reviewed_def by (auto elim: reviewed_small)
  define N :: rat where "N = of_nat (card (set (map ck_hex (ct_checks ct))) + 2)"
  have "card (set (map ck_hex (ct_checks ct))) \<le> 5" using card_length [of "map ck_hex (ct_checks ct)"] assms(2) by simp
  then have N: "2 \<le> N" "N \<le> 7" by (simp_all add: N_def)
  obtain a where a: "round64 (2 / 1000) = Fin a" "2 / 1000 - 1 / 10 ^ 9 \<le> a" "a \<le> 2 / 1000 + 1 / 10 ^ 9"
    using tight [of "2 / 1000"] by (auto simp: between_def)
  have ta: "1 / 1000 \<le> t + a" "t + a \<le> 11 / 100" using t(2,3) a(2,3) by simp_all
  obtain b where b: "round64 (t + a) = Fin b" "t + a - 1 / 10 ^ 9 \<le> b" "b \<le> t + a + 1 / 10 ^ 9"
    using tight [of "t + a"] ta by (auto simp: between_def)
  have Nb: "2 * b \<le> N * b" "N * b \<le> 7 * b" using N b(2) ta(1) by (intro mult_right_mono; simp)+
  have bb: "1 / 100 \<le> b" "b \<le> 11 / 100" using b(2,3) t(2,3) a(2,3) by simp_all
  have low: "1 / 1000 \<le> N * b" using Nb bb by linarith
  have high: "N * b \<le> 8 / 10" using Nb bb by linarith
  note NB = low high
  obtain c where c: "round64 (N * b) = Fin c" "N * b - 1 / 10 ^ 9 \<le> c" "c \<le> N * b + 1 / 10 ^ 9"
    using tight [of "N * b"] NB by (auto simp: between_def)
  obtain d where d: "round64 (c + p) = Fin d" "c + p - 1 / 10 ^ 9 \<le> d" "d \<le> c + p + 1 / 10 ^ 9"
    using tight [of "c + p"] c(2,3) NB p(2,3) by (auto simp: between_def)
  have budget: "ct_budget ct = Fin d"
    using a(1) b(1) c(1) d(1) unfolding assms(3) command_budget_def t(1) p(1) N_def by (simp add: to_float_def Let_def)
  have "N * (t + 1 / 500) \<le> N * (b + 2 / 10 ^ 9)" using b(2) a(2) N(1) by (intro mult_left_mono) simp_all
  moreover have "N * (b + 2 / 10 ^ 9) = N * b + N * (2 / 10 ^ 9)" by (simp add: distrib_left)
  ultimately have "N * (t + 1 / 500) + p < d + 1 / 10 ^ 7" using N(2) c(2) d(2) by simp
  moreover have less: "d < min k w" "p < min k w" "t < w"
    using assms(4-6) unfolding budget t(1) p(1) k w by (auto simp: py_le_def py_min_def py_lt_def less_pyfloat_def min_def split: if_splits)
  ultimately have "N * (t + 1 / 500) + p < min k w + 1 / 10 ^ 7" by linarith
  moreover have "measures (ct_transaction ct) t" "measures (ct_key ct) k" "measures (ct_watchdog ct) w" "measures (ct_period ct) p"
    by (simp_all add: t(1) p(1) k w measures_def)
  ultimately show ?thesis using less(2,3) unfolding cycle_fits_def N_def by blast
qed

section \<open>Properties\<close>

text \<open>Configuration and evidence that are accepted.\<close>

definition demo_manual_profile :: pydict where
  "demo_manual_profile = [(''slave_id'', PInt 1), (''first_register'', PInt 0x2088), (''register_count'', PInt 2), (''wheel_radius_m'', PInt 1),
     (''track_width_m'', PInt 1), (''rpm_to_register_scale'', PInt 10), (''register_to_feedback_rpm'', PInt 1), (''max_linear_m_s'', PFloat (Fin (1 / 8))),
     (''max_angular_rad_s'', PFloat (Fin (1 / 4))), (''max_wheel_rpm'', PInt 30), (''left_sign'', PInt 1), (''right_sign'', PInt (- 1))]"

definition demo_state_check :: "string \<Rightarrow> pyval" where
  "demo_state_check purpose = PDict [(''purpose'', PStr purpose), (''request_hex'', PStr (to_hex query)), (''word_index'', PInt 0), (''mask'', PInt 1), (''equals'', PInt 1)]"

definition demo_evidence :: pydict where
  "demo_evidence = [(''schema'', PStr ''wc_manual_stop_evidence_v1''), (''state'', PStr ''REVIEWED_FOR_EMPTY_CHAIR_MANUAL''), (''device_id'', PStr ''ZLAC8030D-7''),
     (''firmware_id'', PStr ''1''), (''command_profile_sha256'', PStr ''h''), (''reviewer'', PStr ''r''), (''reviewed_at'', PStr ''t''),
     (''command_registers_units_directions_verified'', PBool True), (''controller_disconnect_stop_verified'', PBool True),
     (''zero_velocity_hold_verified'', PBool True), (''physical_stop_and_brake_behavior_verified'', PBool True),
     (''sources'', PList [PDict [(''kind'', PStr ''protocol''), (''path'', PStr ''a''), (''sha256'', PStr ''d'')], PDict [(''kind'', PStr ''onsite_stop_test''), (''path'', PStr ''b''), (''sha256'', PStr ''d'')]]),
     (''timing'', PDict [(''transaction_timeout_s'', PFloat (Fin (1 / 16))), (''key_timeout_s'', PFloat (Fin (1 / 2))), (''controller_watchdog_timeout_s'', PFloat (Fin (1 / 2))),
        (''command_period_s'', PFloat (Fin (1 / 16))), (''zero_feedback_timeout_s'', PFloat (Fin (1 / 2)))]),
     (''stop_strategy'', PStr ''zero_velocity_hold''), (''stationary_feedback_abs_raw_max'', PInt 2), (''state_checks'', PList (map demo_state_check required_checks))]"

definition demo_review :: review where
  "demo_review = \<lparr>rv_hash = (\<lambda>_. Inr ''h''), rv_source = (\<lambda>_. Inr True), rv_digest = (\<lambda>_. Inr ''d'')\<rparr>"

lemma demo_bounds: "mapr (\<lambda>(name, lo, hi). bounded (dget demo_manual_profile name) name lo hi) profile_bounds
    = Inr [PInt 1, PInt 1, PInt 10, PInt 1, PFloat (Fin (1 / 8)), PFloat (Fin (1 / 4)), PInt 30]"
proof -
  have n: "\<not> int_overflows 1" "\<not> int_overflows 10" "\<not> int_overflows 30" by (simp_all add: int_overflows_def)
  have r: "round64 (1 / 100) \<le> Fin 1" "round64 (1 / 10) \<le> Fin 1" "round64 (1 / 100) \<le> Fin 10" "round64 (1 / 10000) \<le> Fin 1" "round64 (1 / 1000) \<le> Fin (1 / 8)"
      "round64 (1 / 1000) \<le> Fin (1 / 4)" "round64 (1 / 10) \<le> Fin 30" by (rule low_bound; simp)+
  have i: "bounded (PInt k) s (rat_bound q t) (int_bound m t') = Inr (PInt k)" if "\<not> int_overflows k" "round64 q \<le> Fin (of_int k)" "k \<le> m" for k s q t m t'
    using that by (simp add: bounded_def rat_bound_def int_bound_def py_le_def)
  have f: "bounded (PFloat (Fin y)) s (rat_bound q t) (rat_bound m t') = Inr (PFloat (Fin y))" if "round64 q \<le> Fin y" "Fin y \<le> round64 m" for y s q t m t'
    using that by (simp add: bounded_def rat_bound_def py_le_def)
  have t: "Fin (1 / 8) \<le> round64 (3 / 20)" "Fin (1 / 4) \<le> round64 (3 / 10)" by (simp_all add: round64_tenths)
  show ?thesis unfolding profile_bounds_def by (simp add: demo_manual_profile_def i f n r t del: Fin_le)
qed

lemma demo_profile: "profile_from_config [(''schema'', PStr ''wc_manual_hardware_v1''), (''command_profile'', PDict demo_manual_profile)] = Inr demo_manual_profile"
  unfolding profile_from_config_def by (simp add: as_dict_def demo_bounds) (simp add: demo_manual_profile_def sign_check_def)

lemma demo_gets:
  "dget demo_evidence ''schema'' = PStr ''wc_manual_stop_evidence_v1''" "dget demo_evidence ''state'' = PStr ''REVIEWED_FOR_EMPTY_CHAIR_MANUAL''"
  "dget demo_evidence ''device_id'' = PStr ''ZLAC8030D-7''" "dget demo_evidence ''firmware_id'' = PStr ''1''"
  "dget demo_evidence ''command_profile_sha256'' = PStr ''h''" "dget demo_evidence ''reviewer'' = PStr ''r''" "dget demo_evidence ''reviewed_at'' = PStr ''t''"
  "dget demo_evidence ''stop_strategy'' = PStr ''zero_velocity_hold''" "dget demo_evidence ''stationary_feedback_abs_raw_max'' = PInt 2"
  "list_all (\<lambda>name. dget demo_evidence name = PBool True) attestations"
  "dget_or demo_evidence ''sources'' v = PList [PDict [(''kind'', PStr ''protocol''), (''path'', PStr ''a''), (''sha256'', PStr ''d'')], PDict [(''kind'', PStr ''onsite_stop_test''), (''path'', PStr ''b''), (''sha256'', PStr ''d'')]]"
  "dget_or demo_evidence ''state_checks'' v = PList (map demo_state_check required_checks)"
  "dget_or demo_evidence ''timing'' v = PDict [(''transaction_timeout_s'', PFloat (Fin (1 / 16))), (''key_timeout_s'', PFloat (Fin (1 / 2))), (''controller_watchdog_timeout_s'', PFloat (Fin (1 / 2))),
        (''command_period_s'', PFloat (Fin (1 / 16))), (''zero_feedback_timeout_s'', PFloat (Fin (1 / 2)))]"
  by (simp_all add: demo_evidence_def attestations_def)

lemma demo_device: "contract_device demo_evidence None = Inr ''ZLAC8030D-7''"
proof -
  have "identity_token (PStr ''ZLAC8030D-7'') (Some ''ZLAC8030D-'') = Inr ''ZLAC8030D-7''" by code_simp
  then show ?thesis by (simp add: contract_device_def demo_gets)
qed

lemma demo_sources: "contract_sources demo_review demo_evidence = Inr ()"
  by (simp add: contract_sources_def demo_gets dict_items_def as_dict_def key_set_def hashable_def Let_def)
    (simp add: source_check_def demo_review_def)

lemma demo_timing: "contract_timing demo_evidence = Inr (PFloat (Fin (1 / 16)), PFloat (Fin (1 / 2)), PFloat (Fin (1 / 2)), PFloat (Fin (1 / 16)), PFloat (Fin (1 / 2)))"
proof -
  have a: "round64 (1 / 100) \<le> Fin (1 / 16)" "round64 (1 / 50) \<le> Fin (1 / 16)" "round64 (1 / 10) \<le> Fin (1 / 2)" by (rule low_bound; simp)+
  have b: "Fin (1 / 16) \<le> round64 (3 / 20)" by (simp add: round64_tenths)
  have c: "Fin (1 / 16) \<le> round64 (1 / 10)"
    using tight [of "1 / 10"] by (auto simp: between_def)
  show ?thesis
    by (simp add: contract_timing_def demo_gets as_dict_def bounded_def rat_bound_def int_bound_def py_le_def py_min_def py_lt_def a b c round64_half round64_twentieth)
qed

lemma demo_checks: "\<exists>cks. contract_checks demo_evidence = Inr cks \<and> map ck_hex cks = replicate 5 (to_hex query)"
proof -
  have q: "check_range query = Inr 2"
    using read_request_fields [OF query_request]
    by (simp add: check_range_def query_request Let_def) (simp add: query_def read_request_def numeral_eq_Suc)
  show ?thesis
    by (simp add: contract_checks_def demo_gets dict_items_def demo_state_check_def required_checks_def as_dict_def key_set_def hashable_def
        parse_check_def from_hex_value_def q string_of_def numeral_eq_Suc)
qed

lemma demo_budget: assumes "map ck_hex cks = replicate 5 (to_hex query)"
  shows "\<not> py_le (PFloat (Fin (1 / 2))) (PFloat (command_budget cks (PFloat (Fin (1 / 16))) (PFloat (Fin (1 / 16)))))"
proof -
  have "set (map ck_hex cks) = {to_hex query}" unfolding assms by simp
  then have n: "card (ck_hex ` set cks) = 1" by simp
  obtain a where a: "round64 (2 / 1000) = Fin a" "1 / 1000 \<le> a" "a \<le> 3 / 1000"
    using tight [of "2 / 1000"] by (auto simp: between_def)
  obtain b where b: "round64 (1 / 16 + a) = Fin b" "1 / 20 \<le> b" "b \<le> 1 / 10"
    using tight [of "1 / 16 + a"] a by (auto simp: between_def)
  obtain c where c: "round64 (3 * b) = Fin c" "1 / 10 \<le> c" "c \<le> 4 / 10"
    using tight [of "3 * b"] b by (auto simp: between_def)
  obtain d where d: "round64 (c + 1 / 16) = Fin d" "d < 1 / 2"
    using tight [of "c + 1 / 16"] c by (auto simp: between_def)
  show ?thesis using a b c d by (simp add: command_budget_def n to_float_def py_le_def)
qed

definition demo_hardware_config :: pydict where
  "demo_hardware_config = [(''schema'', PStr ''wc_manual_hardware_v1''), (''command_profile'', PDict demo_manual_profile)]"

lemma demo_contract: "\<exists>ct. manual_contract demo_review demo_hardware_config demo_evidence None = Inr ct"
proof -
  obtain cks where c: "contract_checks demo_evidence = Inr cks" "map ck_hex cks = replicate 5 (to_hex query)" using demo_checks by blast
  have g: "list_ex (\<lambda>name. dget demo_evidence name \<noteq> PBool True) attestations = False"
    using demo_gets(10) by (auto simp: list_all_iff list_ex_iff)
  have h: "rv_hash demo_review v = Inr ''h''" for v by (simp add: demo_review_def)
  show ?thesis
    using demo_budget [OF c(2)]
    by (simp add: manual_contract_def demo_hardware_config_def demo_profile demo_gets demo_device h g demo_sources demo_timing c(1) py_min_def py_lt_def Let_def)
qed

text \<open>
  C35. A contract that is accepted is well typed. Each number of its profile and each of its time limits lies between the
  reviewed bounds, as the nearest floats to them, and the signs are units; its
  five checks have exactly the five required purposes, each a checked FC03 read of slave 1 for at most eight registers, the one its text
  spells, with an index inside the answer and an expected value inside its mask; only these reads and the feedback query
  are allowed. The period and a transaction are shorter than the deadlines they are compared with, and a complete command cycle, one exchange for each
  distinct check and two more, every one at its full timeout and quiet guard, with the period, takes less time than the key and the controller watchdog
  allow, up to a tenth of a microsecond of rounding.\<close>

theorem contract_typed:
  assumes "manual_contract rv config evidence expected = Inr ct"
  shows "profile_reviewed (ct_profile ct) \<and> timing_reviewed ct \<and> list_all check_ok (ct_checks ct) \<and> length (ct_checks ct) = 5
    \<and> set (map ck_purpose (ct_checks ct)) = set required_checks \<and> ct_reads ct = query # map ck_request (ct_checks ct)
    \<and> 0 \<le> ct_stationary ct \<and> ct_stationary ct \<le> 10
    \<and> cycle_fits ct (card (set (map ck_hex (ct_checks ct))) + 2)
    \<and> \<not> py_le (ct_key ct) (PFloat (ct_budget ct)) \<and> \<not> py_le (ct_watchdog ct) (PFloat (ct_budget ct))"
proof -
  note f = contract_fields [OF assms]
  note t = contract_timing_reviewed [OF f(3)]
  note ck = contract_checks_ok [OF f(2)]
  from timing_numbers [OF f(3)] obtain x y where "py_num (ct_key ct) = Some (Fin x)" "py_num (ct_watchdog ct) = Some (Fin y)" by blast
  then have "\<not> py_le (ct_key ct) (PFloat (ct_budget ct)) \<and> \<not> py_le (ct_watchdog ct) (PFloat (ct_budget ct))"
    using py_min_le [of "ct_key ct" "Fin x" "ct_watchdog ct" "Fin y" "PFloat (ct_budget ct)"] f(7) by auto
  then show ?thesis
    using ck profile_from_config_reviewed [OF f(1)] t(1) budget_exact [OF t(1) ck(3) f(9) t(2,3) f(7)] f(4-6) by simp
qed

theorem contract_typed_witness:
  "(case manual_contract demo_review demo_hardware_config demo_evidence None of Inr ct \<Rightarrow> list_all check_ok (ct_checks ct) \<and> length (ct_checks ct) = 5
     \<and> cycle_fits ct (card (set (map ck_hex (ct_checks ct))) + 2) | Inl _ \<Rightarrow> False)"
proof -
  obtain ct where "manual_contract demo_review demo_hardware_config demo_evidence None = Inr ct" using demo_contract by blast
  with contract_typed [OF this] show ?thesis by simp
qed

text \<open>
  C29. Stopping is always encodable: under an accepted contract the request for zero speed is the fixed
  stop frame, whatever the profile's scales and signs, and the write validator accepts that frame.\<close>

theorem stop_frame_always_valid:
  assumes "manual_contract rv config evidence expected = Inr ct"
  shows "velocity_request txt ct (PFloat (Fin 0)) (PFloat (Fin 0)) = Inr zero_request \<and> validate_write ct zero_request = Inr zero_request"
  using zero_velocity_request zero_validates contract_profile [OF assms] by blast

theorem stop_frame_always_valid_witness:
  "(case manual_contract demo_review demo_hardware_config demo_evidence None of
      Inr ct \<Rightarrow> velocity_request (\<lambda>_. []) ct (PFloat (Fin 0)) (PFloat (Fin 0)) = Inr zero_request | Inl _ \<Rightarrow> False)"
proof -
  obtain ct where "manual_contract demo_review demo_hardware_config demo_evidence None = Inr ct" using demo_contract by blast
  with stop_frame_always_valid [OF this, of "\<lambda>_. []"] show ?thesis by simp
qed

end
