(* ===== verification/Manual_Channel.thy ===== *)
theory Manual_Channel
  imports Manual_Contract "HOL-Library.Sublist"
begin

text \<open>
  \<open>ManualRtuChannel\<close> of \<open>src/src/wc_motion/manual_hardware.py\<close>: exchanges on the exclusive serial line during a manual
  session, with the last checks before a motion frame is written, and the one stop frame that is still allowed after
  a failure.

  The outside world is a parameter. A channel counts its calls to it; the \<open>n\<close>-th call is answered by
  \<open>wd_now w n\<close> (the clock), \<open>wd_cancel w n\<close> (signal or parent exit), \<open>wd_journal w n\<close> (what the journal raises, if
  anything), \<open>wd_io w n\<close> (the system calls of an exchange, as for the feedback lease) \<open>wd_last w n\<close> (those of the best-effort stop) or \<open>wd_turns w n\<close> (how often the clock is found before the
  deadline of a stop: finitely often, as the loop sleeps). What
  calls raise is an \<open>Exception\<close>: the signal handlers of the program only set a flag. \<open>ch_writes\<close> records every buffer
  handed to \<open>os.write\<close>, \<open>ch_log\<close> every record the journal accepted.
\<close>

section \<open>State\<close>

datatype stop_record = Best_effort nat "string option" | Zero_observed

datatype channel_record =
    Request_planned nat bytes
  | Transaction_complete nat bytes bytes nat
  | Transaction_failed nat bytes bytes nat string
  | Manual_feedback nat bytes bytes "int list"
  | Stop_event nat stop_record
  | Session_status string string "char list" bool "stop_record option"

record channel =
  ch_open :: bool
  ch_armed :: bool
  ch_failed :: bool
  ch_motion :: bool
  ch_attempted :: bool
  ch_sequence :: nat
  ch_last_stop :: "stop_record option"
  ch_feedback :: nat
  ch_stopping :: bool
  ch_deadline :: "pyval option"
  ch_last_write :: "pyval option"
  ch_calls :: nat
  ch_writes :: "bytes list"
  ch_log :: "channel_record list"

record world =
  wd_now :: "nat \<Rightarrow> pyval"
  wd_cancel :: "nat \<Rightarrow> bool"
  wd_journal :: "nat \<Rightarrow> exc option"
  wd_io :: "nat \<Rightarrow> exchange_io"
  wd_last :: "nat \<Rightarrow> (exc + bool) \<times> (exc + nat)"
  wd_turns :: "nat \<Rightarrow> nat"

text \<open>\<open>lease\<close> is the device of the verified lease, when it has a configuration.\<close>

definition channel_init :: "string option \<Rightarrow> bool \<Rightarrow> contract \<Rightarrow> exc + channel" where
  "channel_init lease opened ct =
     (if (case lease of None \<Rightarrow> False | Some d \<Rightarrow> d \<noteq> ct_device ct)
      then raise FeedbackError ''manual evidence and verified serial lease identify different controllers''
      else Inr \<lparr>ch_open = opened, ch_armed = False, ch_failed = False, ch_motion = False, ch_attempted = False, ch_sequence = 0,
             ch_last_stop = None, ch_feedback = 0, ch_stopping = False, ch_deadline = None, ch_last_write = None, ch_calls = 0,
             ch_writes = [], ch_log = []\<rparr>)"

section \<open>Calls to the outside\<close>

definition called :: "channel \<Rightarrow> channel" where
  "called c = c\<lparr>ch_calls := ch_calls c + 1\<rparr>"

definition journal_call :: "world \<Rightarrow> channel_record \<Rightarrow> channel \<Rightarrow> (exc + unit) \<times> channel" where
  "journal_call w r c = (case wd_journal w (ch_calls c) of
       Some e \<Rightarrow> (Inl e, called c)
     | None \<Rightarrow> (Inr (), (called c)\<lparr>ch_log := ch_log c @ [r]\<rparr>))"

definition require_not_cancelled :: "world \<Rightarrow> channel \<Rightarrow> (exc + unit) \<times> channel" where
  "require_not_cancelled w c =
     (if ch_stopping c then (Inr (), c)
      else if wd_cancel w (ch_calls c) then (raise MotionRejected ''operator signal/parent exit cancelled manual motion'', called c)
      else (Inr (), called c))"

definition intent_expired :: "channel \<Rightarrow> pyval \<Rightarrow> bool" where
  "intent_expired c now \<longleftrightarrow> (case ch_deadline c of None \<Rightarrow> True | Some d \<Rightarrow> py_le d now)"

definition gap_exceeded :: "contract \<Rightarrow> channel \<Rightarrow> pyval \<Rightarrow> bool" where
  "gap_exceeded ct c now \<longleftrightarrow> (case ch_last_write c of None \<Rightarrow> False | Some t \<Rightarrow> py_le (ct_watchdog ct) (py_sub now t))"

definition require_fresh_motion :: "world \<Rightarrow> contract \<Rightarrow> channel \<Rightarrow> (exc + unit) \<times> channel" where
  "require_fresh_motion w ct c =
     (if ch_stopping c then (raise MotionRejected ''nonzero commands are prohibited during stopping'', c)
      else andthen (require_not_cancelled w c) (\<lambda>c.
        let now = wd_now w (ch_calls c); c = called c in
        if intent_expired c now
        then (raise MotionRejected ''keyboard intent expired before serial write'', c)
        else if gap_exceeded ct c now
        then (raise MotionRejected ''controller command gap exceeded watchdog; new arm required'', c)
        else (Inr (), c)))"

section \<open>One exchange\<close>

definition is_motion :: "bytes \<Rightarrow> bool" where
  "is_motion request \<longleftrightarrow> request ! 1 = 0x10 \<and> request \<noteq> zero_request"

definition expected_length :: "bytes \<Rightarrow> nat" where
  "expected_length request = (if request ! 1 = 0x10 then 8 else nat (5 + 2 * hd (be_words (slice 4 6 request))))"

fun manual_receive :: "read_event list \<Rightarrow> nat \<Rightarrow> bytes \<Rightarrow> (exc \<times> bytes) + bytes" where
  "manual_receive reads expected response =
     (if expected \<le> length response then Inr response
      else case reads of
        Chunk chunk # rest \<Rightarrow>
          if chunk = [] then Inl (Exc QueryFailure ''manual serial disconnected'', response)
          else let response = response @ chunk;
                   expected = (if 2 \<le> length response \<and> and (response ! 1) 0x80 \<noteq> 0 then 5 else expected)
               in if expected < length response
                  then Inl (Exc QueryFailure ''manual response overflow / overlapping traffic'', response)
                  else manual_receive rest expected response
      | Fault e # _ \<Rightarrow> Inl (e, response)
      | _ \<Rightarrow> Inl (Exc QueryFailure ''manual response timeout'', response))"

declare manual_receive.simps [simp del]

text \<open>The last check before an actuator write, and what is noted before it.\<close>

definition before_write :: "world \<Rightarrow> contract \<Rightarrow> bytes \<Rightarrow> channel \<Rightarrow> (exc + unit) \<times> channel" where
  "before_write w ct request c =
     (if is_motion request
      then andthen (require_fresh_motion w ct c) (\<lambda>c.
        (Inr (), (called c)\<lparr>ch_motion := True, ch_last_write := Some (wd_now w (ch_calls c))\<rparr>))
      else (Inr (), c))"

text \<open>From \<open>os.write\<close> on: the local variables \<open>response\<close> and \<open>sent\<close> go with an exception.\<close>

definition after_write :: "world \<Rightarrow> bytes \<Rightarrow> exchange_io \<Rightarrow> channel \<Rightarrow> (query_error + bytes) \<times> channel" where
  "after_write w request io c =
     (let c = c\<lparr>ch_writes := ch_writes c @ [request]\<rparr> in
      case q_sent io of
        Inl e \<Rightarrow> (Inl \<lparr>e_exc = e, e_response = [], e_sent = 0\<rparr>, c)
      | Inr sent \<Rightarrow>
          if sent \<noteq> length request then (Inl \<lparr>e_exc = Exc QueryFailure ''partial manual request write'', e_response = [], e_sent = sent\<rparr>, c)
          else (case manual_receive (q_reads io) (expected_length request) [] of
              Inl (e, response) \<Rightarrow> (Inl \<lparr>e_exc = e, e_response = response, e_sent = sent\<rparr>, c)
            | Inr response \<Rightarrow> (case validate_ack request response of
                  Inl e \<Rightarrow> (Inl \<lparr>e_exc = e, e_response = response, e_sent = sent\<rparr>, c)
                | Inr _ \<Rightarrow> (case journal_call w (Transaction_complete (ch_sequence c) request response sent) c of
                      (Inl e, c) \<Rightarrow> (Inl \<lparr>e_exc = e, e_response = response, e_sent = sent\<rparr>, c)
                    | (Inr _, c) \<Rightarrow> (Inr response, c\<lparr>ch_sequence := ch_sequence c + 1\<rparr>)))))"

definition exchange_body :: "world \<Rightarrow> contract \<Rightarrow> bytes \<Rightarrow> channel \<Rightarrow> (query_error + bytes) \<times> channel" where
  "exchange_body w ct request c =
     (case journal_call w (Request_planned (ch_sequence c) request) c of
        (Inl e, c) \<Rightarrow> (Inl \<lparr>e_exc = e, e_response = [], e_sent = 0\<rparr>, c)
      | (Inr _, c) \<Rightarrow>
        let io = wd_io w (ch_calls c); c = called c in
        (case q_pre io of
           Inl e \<Rightarrow> (Inl \<lparr>e_exc = e, e_response = [], e_sent = 0\<rparr>, c)
         | Inr (Some pending) \<Rightarrow> (Inl \<lparr>e_exc = Exc QueryFailure ''unexpected bytes; transaction association unsafe'', e_response = pending, e_sent = 0\<rparr>, c)
         | Inr None \<Rightarrow> (case q_writable io of
             Inl e \<Rightarrow> (Inl \<lparr>e_exc = e, e_response = [], e_sent = 0\<rparr>, c)
           | Inr False \<Rightarrow> (Inl \<lparr>e_exc = Exc QueryFailure ''manual request readiness timeout'', e_response = [], e_sent = 0\<rparr>, c)
           | Inr True \<Rightarrow> (case before_write w ct request c of
               (Inl e, c) \<Rightarrow> (Inl \<lparr>e_exc = e, e_response = [], e_sent = 0\<rparr>, c)
             | (Inr _, c) \<Rightarrow> after_write w request io c))))"

text \<open>The handler: the channel is dead unless motion was rejected before anything was sent.\<close>

definition exchange_failed :: "world \<Rightarrow> bytes \<Rightarrow> query_error \<Rightarrow> channel \<Rightarrow> channel" where
  "exchange_failed w request e c =
     (let c = (if exn_of (e_exc e) \<noteq> MotionRejected \<or> e_sent e \<noteq> 0 then c\<lparr>ch_failed := True\<rparr> else c)
      in snd (journal_call w (Transaction_failed (ch_sequence c) request (e_response e) (e_sent e) (str_exc (e_exc e))) c))"

text \<open>What a request must be before the transaction starts.\<close>

definition admit :: "contract \<Rightarrow> bytes \<Rightarrow> channel \<Rightarrow> exc + unit" where
  "admit ct request c =
     (if request ! 1 = 3
      then guard (request \<notin> set (ct_reads ct)) FeedbackError ''read outside reviewed state/feedback allowlist''
      else bindr (validate_write ct request) (\<lambda>_.
           guard (\<not> ch_armed c) FeedbackError ''user arming is required before any velocity write''))"

definition manual_exchange :: "world \<Rightarrow> contract \<Rightarrow> bytes \<Rightarrow> channel \<Rightarrow> (exc + bytes) \<times> channel" where
  "manual_exchange w ct request c =
     (if \<not> ch_open c \<or> ch_failed c then (raise QueryFailure ''manual serial channel is closed/failed'', c)
      else andthen (require_not_cancelled w c) (\<lambda>c.
        case admit ct request c of
          Inl e \<Rightarrow> (Inl e, c)
        | Inr _ \<Rightarrow> (case exchange_body w ct request c of
              (Inr response, c) \<Rightarrow> (Inr response, c)
            | (Inl e, c) \<Rightarrow> (Inl (e_exc e), exchange_failed w request e c))))"

section \<open>The operations\<close>

definition manual_read :: "world \<Rightarrow> contract \<Rightarrow> bytes \<Rightarrow> channel \<Rightarrow> (exc + int list) \<times> channel" where
  "manual_read w ct request c = bindm (manual_exchange w ct request c) (\<lambda>response c.
     case parse_exchange request response of
       Inl e \<Rightarrow> (Inl e, c)
     | Inr (_, _, words) \<Rightarrow> andthen (require_not_cancelled w c) (\<lambda>c.
         if request = query
         then andthen (journal_call w (Manual_feedback (ch_feedback c) request response words) c) (\<lambda>c.
           (Inr words, c\<lparr>ch_feedback := ch_feedback c + 1\<rparr>))
         else (Inr words, c)))"

definition channel_velocity :: "world \<Rightarrow> (pyval \<Rightarrow> string) \<Rightarrow> contract \<Rightarrow> pyval \<Rightarrow> pyval \<Rightarrow> channel \<Rightarrow> (exc + bytes) \<times> channel" where
  "channel_velocity w txt ct fwd rot c = (case velocity_request txt ct fwd rot of
       Inl e \<Rightarrow> (Inl e, c)
     | Inr request \<Rightarrow> manual_exchange w ct request c)"

text \<open>The stop frame after a failure: the bytes sent and the problem, if any.\<close>

definition best_effort_write :: "world \<Rightarrow> channel \<Rightarrow> (nat \<times> string option) \<times> channel" where
  "best_effort_write w c =
     (if \<not> ch_open c then ((0, Some ''serial already closed''), c)
      else case wd_last w (ch_calls c) of (writable, written) \<Rightarrow>
        let c = called c in
        (case writable of
           Inl e \<Rightarrow> ((0, Some (str_exc e)), c)
         | Inr False \<Rightarrow> ((0, Some ''stop write readiness timeout''), c)
         | Inr True \<Rightarrow>
             let c = c\<lparr>ch_writes := ch_writes c @ [zero_request]\<rparr> in
             (case written of
                Inl e \<Rightarrow> ((0, Some (str_exc e)), c)
              | Inr sent \<Rightarrow> ((sent, if sent \<noteq> length zero_request then Some ''partial best-effort zero write'' else None), c))))"

definition best_effort_zero :: "world \<Rightarrow> channel \<Rightarrow> channel" where
  "best_effort_zero w c =
     (if \<not> ch_motion c \<or> ch_attempted c then c
      else case best_effort_write w (c\<lparr>ch_attempted := True\<rparr>) of ((sent, problem), c) \<Rightarrow>
        let c = c\<lparr>ch_last_stop := Some (Best_effort sent problem)\<rparr>
        in snd (journal_call w (Stop_event (ch_sequence c) (Best_effort sent problem)) c))"

section \<open>What the operations may write\<close>

text \<open>The frames allowed on the line; motion frames only where motion is allowed.\<close>

definition permitted :: "contract \<Rightarrow> bool \<Rightarrow> bytes \<Rightarrow> bool" where
  "permitted ct motion f \<longleftrightarrow> f \<in> set (ct_reads ct) \<or> f = zero_request \<or> (motion \<and> is_motion f \<and> validate_write ct f = Inr f)"

definition motion_allowed :: "channel \<Rightarrow> bool" where
  "motion_allowed c \<longleftrightarrow> ch_armed c \<and> \<not> ch_stopping c"

text \<open>How a channel may go on: who may move it is unchanged, a failure stays, only permitted frames are written, and after a
  failure nothing but one stop frame.\<close>

definition advanced :: "contract \<Rightarrow> channel \<Rightarrow> channel \<Rightarrow> bool" where
  "advanced ct c c' \<longleftrightarrow> ch_armed c' = ch_armed c \<and> ch_stopping c' = ch_stopping c \<and> ch_open c' = ch_open c
     \<and> (ch_failed c \<longrightarrow> ch_failed c') \<and> (ch_attempted c \<longrightarrow> ch_attempted c') \<and> (ch_motion c' \<longrightarrow> ch_motion c \<or> motion_allowed c)
     \<and> prefix (ch_log c) (ch_log c')
     \<and> (\<exists>ws. ch_writes c' = ch_writes c @ ws \<and> list_all (permitted ct (motion_allowed c)) ws
          \<and> (ch_failed c \<longrightarrow> ws = [] \<or> (ws = [zero_request] \<and> \<not> ch_attempted c \<and> ch_attempted c')))"

lemma advanced_refl [simp]: "advanced ct c c"
  by (auto simp: advanced_def)

lemma advanced_trans:
  assumes "advanced ct c d" "advanced ct d e" shows "advanced ct c e"
proof -
  have m: "motion_allowed d = motion_allowed c" using assms(1) by (simp add: advanced_def motion_allowed_def)
  from assms(1) obtain ws where ws: "ch_writes d = ch_writes c @ ws" "list_all (permitted ct (motion_allowed c)) ws"
      "ch_failed c \<longrightarrow> ws = [] \<or> (ws = [zero_request] \<and> \<not> ch_attempted c \<and> ch_attempted d)" by (auto simp: advanced_def)
  from assms(2) obtain vs where vs: "ch_writes e = ch_writes d @ vs" "list_all (permitted ct (motion_allowed c)) vs"
      "ch_failed d \<longrightarrow> vs = [] \<or> (vs = [zero_request] \<and> \<not> ch_attempted d \<and> ch_attempted e)" by (auto simp: advanced_def m)
  have "ch_failed c \<longrightarrow> ws @ vs = [] \<or> (ws @ vs = [zero_request] \<and> \<not> ch_attempted c \<and> ch_attempted e)"
    using assms ws(3) vs(3) by (auto simp: advanced_def)
  then have "\<exists>us. ch_writes e = ch_writes c @ us \<and> list_all (permitted ct (motion_allowed c)) us
      \<and> (ch_failed c \<longrightarrow> us = [] \<or> (us = [zero_request] \<and> \<not> ch_attempted c \<and> ch_attempted e))"
    using ws(1,2) vs(1,2) by (intro exI [of _ "ws @ vs"]) simp
  moreover have "prefix (ch_log c) (ch_log e)" using assms prefix_order.trans by (simp add: advanced_def) blast
  moreover have "ch_armed e = ch_armed c \<and> ch_stopping e = ch_stopping c \<and> ch_open e = ch_open c \<and> (ch_failed c \<longrightarrow> ch_failed e)
      \<and> (ch_attempted c \<longrightarrow> ch_attempted e) \<and> (ch_motion e \<longrightarrow> ch_motion c \<or> motion_allowed c)"
    using assms by (simp add: advanced_def m) blast
  ultimately show ?thesis unfolding advanced_def by blast
qed

lemma called_simps [simp]: "ch_calls (called c) = ch_calls c + 1" "ch_deadline (called c) = ch_deadline c" "ch_last_write (called c) = ch_last_write c"
  "ch_stopping (called c) = ch_stopping c" "ch_armed (called c) = ch_armed c" "ch_open (called c) = ch_open c" "ch_failed (called c) = ch_failed c"
  "ch_motion (called c) = ch_motion c" "ch_writes (called c) = ch_writes c" "ch_log (called c) = ch_log c" "ch_attempted (called c) = ch_attempted c" "ch_last_stop (called c) = ch_last_stop c"
  by (simp_all add: called_def)

lemma called_stale [simp]: "intent_expired (called c) now = intent_expired c now" "gap_exceeded ct (called c) now = gap_exceeded ct c now"
  by (simp_all add: intent_expired_def gap_exceeded_def)

lemma advanced_called [simp]: "advanced ct c (called c)"
  by (auto simp: advanced_def called_def)

lemma advanced_same:
  assumes "ch_armed c' = ch_armed c" "ch_stopping c' = ch_stopping c" "ch_open c' = ch_open c" "ch_failed c \<longrightarrow> ch_failed c'"
    "ch_attempted c \<longrightarrow> ch_attempted c'" "ch_motion c' \<longrightarrow> ch_motion c" "ch_writes c' = ch_writes c" "prefix (ch_log c) (ch_log c')"
  shows "advanced ct c c'"
  using assms by (auto simp: advanced_def)

lemma advanced_journal: "advanced ct c (snd (journal_call w r c))"
  by (cases "wd_journal w (ch_calls c)") (auto simp: journal_call_def called_def intro!: advanced_same)

lemma advanced_cancel: "advanced ct c (snd (require_not_cancelled w c))"
  by (simp add: require_not_cancelled_def)

lemma advanced_andthen:
  "advanced ct c (snd r) \<Longrightarrow> (\<And>x s. r = (Inr x, s) \<Longrightarrow> advanced ct s (snd (f s))) \<Longrightarrow> advanced ct c (snd (andthen r f))"
  by (cases r; cases "fst r") (auto intro: advanced_trans)

lemma advanced_bindm:
  "advanced ct c (snd r) \<Longrightarrow> (\<And>x s. r = (Inr x, s) \<Longrightarrow> advanced ct s (snd (f x s))) \<Longrightarrow> advanced ct c (snd (bindm r f))"
  by (cases r; cases "fst r") (auto intro: advanced_trans)

text \<open>The check before an actuator write lets a motion frame pass only when not stopping, before the deadline.\<close>

lemma before_write_cases:
  obtains (plain) "\<not> is_motion request" "before_write w ct request c = (Inr (), c)"
  | (rejected) e d where "before_write w ct request c = (Inl (Exc MotionRejected e), d)" "advanced ct c d"
  | (motion) now where "is_motion request" "\<not> ch_stopping c" "\<not> intent_expired c now"
      "before_write w ct request c = (Inr (), c\<lparr>ch_calls := ch_calls c + 3, ch_motion := True, ch_last_write := Some (wd_now w (ch_calls c + 2))\<rparr>)"
proof (cases "is_motion request")
  case False
  then show thesis using plain by (simp add: before_write_def)
next
  case m: True
  show thesis
  proof (cases "ch_stopping c \<or> wd_cancel w (ch_calls c)")
    case True
    with m show thesis using rejected [of _ c] rejected [of _ "called c"]
      by (cases "ch_stopping c") (auto simp: before_write_def require_fresh_motion_def require_not_cancelled_def)
  next
    case False
    let ?now = "wd_now w (ch_calls c + 1)"
    have r: "require_not_cancelled w c = (Inr (), called c)" using False by (simp add: require_not_cancelled_def)
    show thesis
    proof (cases "intent_expired c ?now \<or> gap_exceeded ct c ?now")
      case True
      have "\<exists>e. before_write w ct request c = (Inl (Exc MotionRejected e), called (called c))"
        using m False True r unfolding before_write_def require_fresh_motion_def by (auto simp: Let_def)
      then show thesis using rejected advanced_trans [OF advanced_called advanced_called] by blast
    next
      case ok: False
      have "require_fresh_motion w ct c = (Inr (), called (called c))"
        using False ok r unfolding require_fresh_motion_def by (auto simp: Let_def)
      then have "before_write w ct request c = (Inr (), c\<lparr>ch_calls := ch_calls c + 3, ch_motion := True, ch_last_write := Some (wd_now w (ch_calls c + 2))\<rparr>)"
        using m by (simp add: before_write_def called_def numeral_eq_Suc)
      moreover have "\<not> intent_expired c ?now" using ok by simp
      ultimately show thesis using motion m False by blast
    qed
  qed
qed

lemma after_write_advanced: "advanced ct (c\<lparr>ch_writes := ch_writes c @ [request]\<rparr>) (snd (after_write w request io c))"
proof -
  define d where "d = c\<lparr>ch_writes := ch_writes c @ [request]\<rparr>"
  have j: "advanced ct d (d'\<lparr>ch_sequence := ch_sequence d' + 1\<rparr>)" "advanced ct d d'" if "journal_call w r d = (x, d')" for r x d'
  proof -
    show a: "advanced ct d d'" using advanced_journal [of ct d w r] that by simp
    have "advanced ct d' (d'\<lparr>ch_sequence := ch_sequence d' + 1\<rparr>)" by (rule advanced_same) simp_all
    with a show "advanced ct d (d'\<lparr>ch_sequence := ch_sequence d' + 1\<rparr>)" by (rule advanced_trans)
  qed
  show ?thesis
    unfolding after_write_def Let_def d_def [symmetric]
    using j by (auto split: sum.splits prod.splits)
qed

lemma validate_write_code: "validate_write ct request = Inr r \<Longrightarrow> r = request \<and> request ! 1 = 0x10"
proof -
  assume "validate_write ct request = Inr r"
  then have "r = request" "take 7 request = take 7 zero_request" "length request = 13"
    by (auto simp: validate_write_def result_simps Let_def if_raise)
  moreover have "request ! 1 = take 7 request ! 1" by simp
  ultimately have "request ! 1 = take 7 zero_request ! 1" by (simp only:)
  with \<open>r = request\<close> show ?thesis using zero_request_checked(3) by simp
qed

lemma admit_permitted:
  assumes "admit ct request c = Inr u" "is_motion request \<longrightarrow> \<not> ch_stopping c"
  shows "permitted ct (motion_allowed c) request"
proof (cases "request ! 1 = 3")
  case True
  with assms show ?thesis by (simp add: admit_def permitted_def)
next
  case False
  with assms(1) obtain r where v: "validate_write ct request = Inr r" "ch_armed c" by (auto simp: admit_def result_simps)
  with validate_write_code [OF v(1)] assms(2) show ?thesis by (auto simp: permitted_def is_motion_def motion_allowed_def)
qed

lemma exchange_body_advanced:
  assumes a: "admit ct request c = Inr u" and f: "\<not> ch_failed c"
  shows "advanced ct c (snd (exchange_body w ct request c))"
proof -
  obtain r c1 where j: "journal_call w (Request_planned (ch_sequence c) request) c = (r, c1)" by fastforce
  have c1: "c1 = called c \<or> c1 = (called c)\<lparr>ch_log := ch_log c @ [Request_planned (ch_sequence c) request]\<rparr>"
    using j by (auto simp: journal_call_def split: option.splits)
  define c2 where "c2 = called c1"
  have same: "ch_armed c2 = ch_armed c" "ch_stopping c2 = ch_stopping c" "ch_open c2 = ch_open c" "ch_failed c2 = ch_failed c"
      "ch_attempted c2 = ch_attempted c" "ch_motion c2 = ch_motion c" "ch_writes c2 = ch_writes c"
    using c1 by (auto simp: c2_def called_def)
  have log: "prefix (ch_log c) (ch_log c2)" using c1 by (auto simp: c2_def called_def)
  have adv1: "advanced ct c c1" using c1 by (auto simp: called_def intro!: advanced_same)
  have adv2: "advanced ct c c2" by (rule advanced_same) (simp_all add: same log)
  have written: "advanced ct c (snd (after_write w request io d))"
    if "permitted ct (motion_allowed c) request" "ch_motion d \<longrightarrow> ch_motion c \<or> motion_allowed c"
      "ch_armed d = ch_armed c" "ch_stopping d = ch_stopping c" "ch_open d = ch_open c" "ch_failed d = ch_failed c" "ch_attempted d = ch_attempted c" "ch_writes d = ch_writes c" "ch_log d = ch_log c2" for d io
  proof -
    have "advanced ct c (d\<lparr>ch_writes := ch_writes d @ [request]\<rparr>)" using that f log by (auto simp: advanced_def)
    then show ?thesis using after_write_advanced by (rule advanced_trans)
  qed
  show ?thesis
  proof (cases r)
    case (Inl e)
    with j adv1 show ?thesis by (simp add: exchange_body_def)
  next
    case (Inr v)
    show ?thesis
    proof (cases "q_pre (wd_io w (ch_calls c1)) = Inr None \<and> q_writable (wd_io w (ch_calls c1)) = Inr True")
      case False
      with j Inr adv2 show ?thesis
        by (auto simp: exchange_body_def Let_def c2_def split: sum.splits option.splits bool.splits)
    next
      case True
      then have body: "exchange_body w ct request c = (case before_write w ct request c2 of
               (Inl e, c) \<Rightarrow> (Inl \<lparr>e_exc = e, e_response = [], e_sent = 0\<rparr>, c)
             | (Inr _, c) \<Rightarrow> after_write w request (wd_io w (ch_calls c1)) c)"
        using j Inr by (simp add: exchange_body_def Let_def c2_def)
      show ?thesis
      proof (cases rule: before_write_cases [of request w ct c2])
        case plain
        then have "permitted ct (motion_allowed c) request" using admit_permitted [OF a] by simp
        then show ?thesis using written same by (simp add: body plain)
      next
        case (rejected e d)
        with adv2 show ?thesis by (auto simp: body intro: advanced_trans)
      next
        case (motion now)
        then have p: "permitted ct (motion_allowed c) request" using admit_permitted [OF a] same by simp
        have "\<not> request ! 1 = 3" using motion(1) by (simp add: is_motion_def)
        then have "motion_allowed c" using a motion(2) same by (auto simp: admit_def result_simps motion_allowed_def)
        then show ?thesis using written [OF p] same by (simp add: body motion(4))
      qed
    qed
  qed
qed

lemma admit_called: "admit ct request (called c) = admit ct request c"
  by (simp add: admit_def called_def)

lemma manual_exchange_advanced: "advanced ct c (snd (manual_exchange w ct request c))"
proof (cases "\<not> ch_open c \<or> ch_failed c")
  case True
  then show ?thesis by (simp add: manual_exchange_def)
next
  case False
  have core: "advanced ct d (snd (case admit ct request d of Inl e \<Rightarrow> (Inl e, d)
        | Inr _ \<Rightarrow> (case exchange_body w ct request d of (Inr response, d) \<Rightarrow> (Inr response, d)
            | (Inl e, d) \<Rightarrow> (Inl (e_exc e), exchange_failed w request e d))))" if f: "\<not> ch_failed d" for d
  proof (cases "admit ct request d")
    case (Inr u)
    obtain r d' where b: "exchange_body w ct request d = (r, d')" by fastforce
    have a: "advanced ct d d'" using exchange_body_advanced [OF Inr f, of w] b by simp
    have "advanced ct d' (exchange_failed w request e d')" for e
      unfolding exchange_failed_def Let_def
      by (rule advanced_trans [OF _ advanced_journal]) (auto intro: advanced_same)
    with a have "advanced ct d (exchange_failed w request e d')" for e by (blast intro: advanced_trans)
    with a b Inr show ?thesis by (cases r) simp_all
  qed simp
  have "ch_failed d = ch_failed c" if "require_not_cancelled w c = (x, d)" for x d
    using that by (auto simp: require_not_cancelled_def called_def split: if_splits)
  with False show ?thesis
    unfolding manual_exchange_def by (auto intro!: advanced_andthen advanced_cancel core)
qed

lemma manual_read_advanced: "advanced ct c (snd (manual_read w ct request c))"
proof -
  have feedback: "advanced ct d (d\<lparr>ch_feedback := n\<rparr>)" for d n by (rule advanced_same) simp_all
  show ?thesis
    unfolding manual_read_def
  proof (rule advanced_bindm [OF manual_exchange_advanced])
    fix response d
    show "advanced ct d (snd (case parse_exchange request response of
         Inl e \<Rightarrow> (Inl e, d)
       | Inr (_, _, words) \<Rightarrow> andthen (require_not_cancelled w d) (\<lambda>c.
           if request = query
           then andthen (journal_call w (Manual_feedback (ch_feedback c) request response words) c) (\<lambda>c. (Inr words, c\<lparr>ch_feedback := ch_feedback c + 1\<rparr>))
           else (Inr words, c))))"
      by (auto split: sum.split prod.split intro!: advanced_andthen advanced_cancel advanced_journal feedback)
  qed
qed

lemma channel_velocity_advanced: "advanced ct c (snd (channel_velocity w txt ct fwd rot c))"
  by (auto simp: channel_velocity_def manual_exchange_advanced split: sum.split)

lemma best_effort_advanced: "advanced ct c (best_effort_zero w c)"
proof (cases "\<not> ch_motion c \<or> ch_attempted c")
  case True
  then show ?thesis by (simp add: best_effort_zero_def)
next
  case False
  define d where "d = c\<lparr>ch_attempted := True\<rparr>"
  obtain sent problem d' where b: "best_effort_write w d = ((sent, problem), d')" by (cases "best_effort_write w d") auto
  have "ch_writes d' = ch_writes d \<or> ch_writes d' = ch_writes d @ [zero_request]"
    and same: "ch_armed d' = ch_armed d" "ch_stopping d' = ch_stopping d" "ch_open d' = ch_open d" "ch_failed d' = ch_failed d"
      "ch_attempted d' = ch_attempted d" "ch_motion d' = ch_motion d" "ch_log d' = ch_log d"
    using b by (auto simp: best_effort_write_def Let_def split: if_splits prod.splits sum.splits bool.splits)
  then have "advanced ct c d'" using False by (auto simp: advanced_def d_def permitted_def)
  then have "advanced ct c (d'\<lparr>ch_last_stop := Some (Best_effort sent problem)\<rparr>)" by (rule advanced_trans) (auto intro: advanced_same)
  then show ?thesis
    using False b by (simp add: best_effort_zero_def Let_def d_def) (rule advanced_trans [OF _ advanced_journal])
qed

lemma best_effort_attempted: "ch_motion c \<Longrightarrow> ch_attempted (best_effort_zero w c)"
proof (cases "ch_attempted c")
  case False
  assume "ch_motion c"
  define d where "d = c\<lparr>ch_attempted := True\<rparr>"
  obtain sent problem d' where b: "best_effort_write w d = ((sent, problem), d')" by (cases "best_effort_write w d") auto
  have "ch_attempted d'"
    using b by (auto simp: best_effort_write_def d_def Let_def split: if_splits prod.splits sum.splits bool.splits)
  then show ?thesis
    using False b \<open>ch_motion c\<close> by (auto simp: best_effort_zero_def Let_def d_def journal_call_def called_def split: option.splits)
qed (simp add: best_effort_zero_def)

section \<open>What a completed call leaves in the journal\<close>

fun feedbacks :: "channel_record list \<Rightarrow> int list list" where
  "feedbacks [] = []"
| "feedbacks (r # rs) = (case r of Manual_feedback _ _ _ ws \<Rightarrow> ws # feedbacks rs | _ \<Rightarrow> feedbacks rs)"

lemma feedbacks_append [simp]: "feedbacks (xs @ ys) = feedbacks xs @ feedbacks ys"
  by (induction xs) (auto split: channel_record.split)

lemma journal_call_ok: "journal_call w r c = (Inr u, d) \<Longrightarrow> ch_log d = ch_log c @ [r] \<and> ch_sequence d = ch_sequence c"
  by (auto simp: journal_call_def called_def split: option.splits)

lemma not_cancelled_log: "require_not_cancelled w c = (r, d) \<Longrightarrow> ch_log d = ch_log c \<and> ch_sequence d = ch_sequence c"
  by (auto simp: require_not_cancelled_def called_def split: if_splits)

lemma before_write_log:
  assumes "before_write w ct request c = (Inr u, d)" shows "ch_log d = ch_log c \<and> ch_sequence d = ch_sequence c"
  by (rule before_write_cases [of request w ct c]) (use assms in auto)

lemma after_write_logged:
  assumes "after_write w request io c = (Inr response, d)"
  shows "ch_log d = ch_log c @ [Transaction_complete (ch_sequence c) request response (length request)] \<and> (\<exists>v. validate_ack request response = Inr v)"
proof -
  let ?c = "c\<lparr>ch_writes := ch_writes c @ [request]\<rparr>"
  from assms obtain r d' where "manual_receive (q_reads io) (expected_length request) [] = Inr r" and v: "\<exists>v. validate_ack request r = Inr v"
    and j: "journal_call w (Transaction_complete (ch_sequence ?c) request r (length request)) ?c = (Inr (), d')" and d: "d = d'\<lparr>ch_sequence := ch_sequence d' + 1\<rparr>" "response = r"
    unfolding after_write_def by (auto simp: Let_def split: sum.splits prod.splits if_splits)
  then show ?thesis using journal_call_ok [OF j] by simp
qed

lemma exchange_body_logged:
  assumes "exchange_body w ct request c = (Inr response, d)"
  shows "ch_log d = ch_log c @ [Request_planned (ch_sequence c) request, Transaction_complete (ch_sequence c) request response (length request)]
    \<and> (\<exists>v. validate_ack request response = Inr v)"
proof -
  obtain c1 where j: "journal_call w (Request_planned (ch_sequence c) request) c = (Inr (), c1)"
    using assms by (auto simp: exchange_body_def split: prod.splits sum.splits)
  obtain c2 where b: "before_write w ct request (called c1) = (Inr (), c2)" "after_write w request (wd_io w (ch_calls c1)) c2 = (Inr response, d)"
    using assms j by (auto simp: exchange_body_def Let_def split: prod.splits sum.splits option.splits bool.splits)
  show ?thesis using journal_call_ok [OF j] before_write_log [OF b(1)] after_write_logged [OF b(2)] by (simp add: called_def)
qed

lemma manual_exchange_logged:
  assumes "manual_exchange w ct request c = (Inr response, d)"
  obtains k where "ch_log d = ch_log c @ [Request_planned k request, Transaction_complete k request response (length request)]"
    "\<exists>v. validate_ack request response = Inr v"
proof -
  from assms obtain c1 where n: "require_not_cancelled w c = (Inr (), c1)"
    and e: "(case admit ct request c1 of Inl e \<Rightarrow> (Inl e, c1)
        | Inr _ \<Rightarrow> (case exchange_body w ct request c1 of (Inr response, c) \<Rightarrow> (Inr response, c)
            | (Inl e, c) \<Rightarrow> (Inl (e_exc e), exchange_failed w request e c))) = (Inr response, d)"
    unfolding manual_exchange_def by (auto simp: andthen_ok split: if_splits)
  have c1: "require_not_cancelled w c = (Inr (), c1)" "exchange_body w ct request c1 = (Inr response, d)"
    using n e by (cases "admit ct request c1"; simp split: prod.splits sum.splits)+
  show thesis using that exchange_body_logged [OF c1(2)] not_cancelled_log [OF c1(1)] by simp
qed

text \<open>A successful read of the speeds adds exactly one feedback record.\<close>

lemma read_query_logged:
  assumes "manual_read w ct query c = (Inr ws, d)"
  shows "\<exists>ls. ch_log d = ch_log c @ ls \<and> feedbacks ls = [ws]"
proof -
  from assms obtain response c1 where m: "manual_exchange w ct query c = (Inr response, c1)"
    and rest: "(case parse_exchange query response of Inl e \<Rightarrow> (Inl e, c1)
       | Inr (_, _, words) \<Rightarrow> andthen (require_not_cancelled w c1) (\<lambda>c.
         if query = query then andthen (journal_call w (Manual_feedback (ch_feedback c) query response words) c) (\<lambda>c. (Inr words, c\<lparr>ch_feedback := ch_feedback c + 1\<rparr>))
         else (Inr words, c))) = (Inr ws, d)"
    unfolding manual_read_def by (auto simp: bindm_ok)
  from rest obtain a b vs c2 c3 where p: "parse_exchange query response = Inr (a, b, vs)" and n: "require_not_cancelled w c1 = (Inr (), c2)"
    and j: "journal_call w (Manual_feedback (ch_feedback c2) query response vs) c2 = (Inr (), c3)" and d: "d = c3\<lparr>ch_feedback := ch_feedback c3 + 1\<rparr>" "ws = vs"
    by (cases "parse_exchange query response") (auto simp: andthen_ok)
  obtain k where "ch_log c1 = ch_log c @ [Request_planned k query, Transaction_complete k query response (length query)]"
    using manual_exchange_logged [OF m] by blast
  then show ?thesis using not_cancelled_log [OF n] journal_call_ok [OF j] d
    by (intro exI [of _ "[Request_planned k query, Transaction_complete k query response (length query), Manual_feedback (ch_feedback c2) query response vs]"]) simp
qed

end
