(* ===== verification/Manual_Session.thy ===== *)
theory Manual_Session
  imports Manual_Channel
begin

text \<open>
  \<open>ManualHardwareSession\<close> and the loop of \<open>main\<close> of \<open>src/src/wc_motion/manual_hardware.py\<close>: arming after a read-only
  preflight, keys, the command tick, and the stop that every way out goes through. The journal of the session is the
  channel's, as \<open>main\<close> sets it up. Argument parsing, the checks before the lease is opened, the ROS publisher and the setting of the terminal (with
  the backlog it first discards) are not modelled.
\<close>

section \<open>State\<close>

datatype session_state = S_disarmed | S_armed | S_fault

record session =
  se_state :: session_state
  se_keys :: "char list"
  se_times :: "(char \<times> pyval) list"
  se_last_key :: "pyval option"
  se_last_command :: "pyval option"
  se_last_now :: "pyval option"
  se_reason :: string
  se_closed :: bool
  se_channel :: channel

definition onsite_confirmation :: string where
  "onsite_confirmation = ''EMPTY_CHAIR_OPERATOR_PRESENT_PHYSICAL_STOP_READY''"

definition session_init :: "pyval \<Rightarrow> channel \<Rightarrow> exc + session" where
  "session_init confirmation c =
     (if confirmation \<noteq> PStr onsite_confirmation then raise FeedbackError ''explicit on-site empty-chair/physical-stop confirmation required''
      else Inr \<lparr>se_state = S_disarmed, se_keys = [], se_times = [], se_last_key = None, se_last_command = None, se_last_now = None,
             se_reason = ''STARTUP_READ_ONLY'', se_closed = False, se_channel = c\<rparr>)"

fun state_text :: "session_state \<Rightarrow> string" where
  "state_text S_disarmed = ''DISARMED''"
| "state_text S_armed = ''ARMED''"
| "state_text S_fault = ''FAULT''"

definition session_status :: "session \<Rightarrow> channel_record" where
  "session_status s = Session_status (state_text (se_state s)) (se_reason s) (sort (se_keys s)) (ch_motion (se_channel s)) (ch_last_stop (se_channel s))"

text \<open>A call on the channel.\<close>

definition on_channel :: "(channel \<Rightarrow> (exc + 'a) \<times> channel) \<Rightarrow> session \<Rightarrow> (exc + 'a) \<times> session" where
  "on_channel f s = (case f (se_channel s) of (r, c) \<Rightarrow> (r, s\<lparr>se_channel := c\<rparr>))"

definition session_now :: "world \<Rightarrow> session \<Rightarrow> pyval \<times> session" where
  "session_now w s = (wd_now w (ch_calls (se_channel s)), s\<lparr>se_channel := called (se_channel s)\<rparr>)"

definition session_journal :: "world \<Rightarrow> session \<Rightarrow> (exc + unit) \<times> session" where
  "session_journal w s = on_channel (journal_call w (session_status s)) s"

section \<open>Reading the controller\<close>

definition max_abs :: "int list \<Rightarrow> int" where
  "max_abs xs = foldl (\<lambda>m x. max m \<bar>x\<bar>) 0 xs"

definition session_feedback :: "world \<Rightarrow> contract \<Rightarrow> channel \<Rightarrow> (exc + int list) \<times> channel" where
  "session_feedback w ct c = bindm (manual_read w ct query c) (\<lambda>words c.
     let speeds = map signed_word words in
     case f_div (to_float (dget (ct_profile ct) ''max_wheel_rpm'')) (to_float (dget (ct_profile ct) ''register_to_feedback_rpm'')) of
       Inl e \<Rightarrow> (Inl e, c)
     | Inr bound \<Rightarrow>
         if bound < Fin (of_int (max_abs speeds)) then (raise FeedbackError ''actual wheel feedback exceeds reviewed manual speed bound'', c)
         else (Inr speeds, c))"

fun read_checks :: "world \<Rightarrow> contract \<Rightarrow> state_check list \<Rightarrow> (bytes \<times> int list) list \<Rightarrow> channel \<Rightarrow> (exc + unit) \<times> channel" where
  "read_checks w ct [] replies c = (Inr (), c)"
| "read_checks w ct (ck # cks) replies c =
     bindm (case map_of replies (ck_request ck) of Some ws \<Rightarrow> (Inr ws, c) | None \<Rightarrow> manual_read w ct (ck_request ck) c) (\<lambda>ws c.
       if and (ws ! ck_index ck) (ck_mask ck) \<noteq> ck_equals ck
       then (raise FeedbackError (''required live controller state is not ready: '' @ ck_purpose ck), c)
       else read_checks w ct cks ((ck_request ck, ws) # replies) c)"

text \<open>\<open>for index in range(3)\<close>.\<close>

fun stationary_reads :: "world \<Rightarrow> contract \<Rightarrow> nat \<Rightarrow> channel \<Rightarrow> (exc + unit) \<times> channel" where
  "stationary_reads w ct 0 c = (Inr (), c)"
| "stationary_reads w ct (Suc n) c = bindm (session_feedback w ct c) (\<lambda>speeds c.
     if ct_stationary ct < max_abs speeds then (raise FeedbackError ''stationary actual feedback required before user arm'', c)
     else stationary_reads w ct n c)"

section \<open>Stopping\<close>

text \<open>The loop until three stationary readings in a row; \<open>k\<close> bounds its tests before the deadline.\<close>

fun settle :: "world \<Rightarrow> contract \<Rightarrow> nat \<Rightarrow> nat \<Rightarrow> channel \<Rightarrow> (exc + nat) \<times> channel" where
  "settle w ct 0 n c = (Inr n, c)"
| "settle w ct (Suc k) n c =
     (if 3 \<le> n then (Inr n, c)
      else bindm (session_feedback w ct c) (\<lambda>speeds c. settle w ct k (if max_abs speeds \<le> ct_stationary ct then n + 1 else 0) c))"

definition stop_moving :: "world \<Rightarrow> (pyval \<Rightarrow> string) \<Rightarrow> contract \<Rightarrow> channel \<Rightarrow> (exc + unit) \<times> channel" where
  "stop_moving w txt ct c = andthen (channel_velocity w txt ct (PFloat (Fin 0)) (PFloat (Fin 0)) c) (\<lambda>c.
     bindm (settle w ct (wd_turns w (ch_calls c)) 0 (called c)) (\<lambda>n c.
     andthen (read_checks w ct (ct_checks ct) [] c) (\<lambda>c.
       if n \<noteq> 3 then (raise FeedbackError ''zero command ACK without confirmed stationary feedback'', c)
       else (Inr (), c\<lparr>ch_motion := False, ch_last_write := None, ch_last_stop := Some Zero_observed\<rparr>))))"

text \<open>The \<open>try\<close> and \<open>except\<close> of \<open>stop\<close>: whether it faults, and the channel.\<close>

definition stop_channel :: "world \<Rightarrow> (pyval \<Rightarrow> string) \<Rightarrow> contract \<Rightarrow> channel \<Rightarrow> bool \<times> channel" where
  "stop_channel w txt ct c =
     (if \<not> ch_motion c then (False, c)
      else if ch_failed c then (True, best_effort_zero w c)
      else case stop_moving w txt ct c of
          (Inr _, c) \<Rightarrow> (False, c)
        | (Inl _, c) \<Rightarrow> (True, best_effort_zero w (c\<lparr>ch_failed := True\<rparr>)))"

definition session_stop :: "world \<Rightarrow> (pyval \<Rightarrow> string) \<Rightarrow> contract \<Rightarrow> string \<Rightarrow> bool \<Rightarrow> session \<Rightarrow> session" where
  "session_stop w txt ct reason fault s =
     (case stop_channel w txt ct ((se_channel s)\<lparr>ch_stopping := True\<rparr>) of (faulted, c) \<Rightarrow>
        let s = s\<lparr>se_keys := [], se_times := [], se_reason := reason,
                  se_state := (if fault \<or> se_state s = S_fault \<or> faulted then S_fault else S_disarmed),
                  se_channel := c\<lparr>ch_armed := False, ch_deadline := None, ch_stopping := False\<rparr>\<rparr>
        in case session_journal w s of (Inr _, s) \<Rightarrow> s | (Inl _, s) \<Rightarrow> s\<lparr>se_state := S_fault\<rparr>)"

section \<open>Arming\<close>

definition preflight :: "world \<Rightarrow> contract \<Rightarrow> session \<Rightarrow> (exc + unit) \<times> session" where
  "preflight w ct s =
     (if se_closed s \<or> se_state s = S_fault \<or> \<not> ch_open (se_channel s)
      then (raise FeedbackError ''open, nonfaulted serial owner required for manual preflight'', s)
      else andthen (on_channel (read_checks w ct (ct_checks ct) []) s) (\<lambda>s.
           andthen (on_channel (stationary_reads w ct 3) s) (\<lambda>s.
           let s = s\<lparr>se_reason := ''READ_ONLY_PREFLIGHT_PASSED_DRIVE_ALREADY_READY''\<rparr> in
           andthen (on_channel (require_not_cancelled w) s) (session_journal w))))"

definition session_arm :: "world \<Rightarrow> contract \<Rightarrow> string \<Rightarrow> session \<Rightarrow> (exc + unit) \<times> session" where
  "session_arm w ct operator_key s =
     (if operator_key \<noteq> ''e'' \<or> se_state s \<noteq> S_disarmed \<or> se_closed s
      then (raise FeedbackError ''fresh explicit E arming is required in a disarmed live session'', s)
      else andthen (preflight w ct s) (\<lambda>s.
        case session_now w (s\<lparr>se_channel := (se_channel s)\<lparr>ch_armed := True, ch_last_write := None\<rparr>, se_state := S_armed, se_keys := [], se_times := []\<rparr>) of
          (now, s) \<Rightarrow> session_journal w (s\<lparr>se_last_key := Some now, se_reason := ''USER_ARMED_NO_ENABLE_COMMAND''\<rparr>)))"

section \<open>Keys and ticks\<close>

definition session_clock :: "world \<Rightarrow> contract \<Rightarrow> pyval \<Rightarrow> session \<Rightarrow> (exc + unit) \<times> session" where
  "session_clock w ct now s = (case bounded now ''manual monotonic timestamp'' (int_bound 0 ''0'') (PFloat (Fin 1000000000000000), ''1000000000000000.0'') of
       Inl e \<Rightarrow> (Inl e, s)
     | Inr _ \<Rightarrow> (case session_now w s of (current, s) \<Rightarrow>
         if py_lt (py_add current (PFloat (round64 (5 / 1000)))) now \<or> py_lt (ct_key ct) (py_sub current now)
         then (raise FeedbackError ''manual key/tick timestamp is stale or future-dated'', s)
         else if (case se_last_now s of None \<Rightarrow> False | Some t \<Rightarrow> py_lt now t)
         then (raise FeedbackError ''manual monotonic clock reversed'', s)
         else (Inr (), s\<lparr>se_last_now := Some now\<rparr>)))"

definition expired :: "contract \<Rightarrow> pyval \<Rightarrow> session \<Rightarrow> bool" where
  "expired ct now s \<longleftrightarrow> (case se_last_key s of None \<Rightarrow> True | Some t \<Rightarrow> py_lt (ct_key ct) (py_sub now t))"

definition key_axis :: "char \<Rightarrow> char \<Rightarrow> char list \<Rightarrow> pyval \<Rightarrow> pyval" where
  "key_axis up down keys speed = py_mul (PInt ((if up \<in> set keys then 1 else 0) - (if down \<in> set keys then 1 else 0))) speed"

text \<open>The command at the end of a tick: feedback, state checks, the deadline of the oldest key, and the frame.\<close>

definition session_command :: "world \<Rightarrow> (pyval \<Rightarrow> string) \<Rightarrow> contract \<Rightarrow> session \<Rightarrow> (exc + unit) \<times> session" where
  "session_command w txt ct s =
     andthen (on_channel (session_feedback w ct) s) (\<lambda>s. andthen (on_channel (read_checks w ct (ct_checks ct) []) s) (\<lambda>s.
     case session_now w s of (later, s) \<Rightarrow>
     if expired ct later s then (Inr (), session_stop w txt ct ''KEY_EXPIRED_DURING_FEEDBACK'' False s)
     else andthen (on_channel (require_not_cancelled w) s) (\<lambda>s.
       let stamps = map snd (se_times s); oldest = foldl py_min (hd stamps) (tl stamps);
           s = s\<lparr>se_channel := (se_channel s)\<lparr>ch_deadline := Some (py_add oldest (ct_key ct))\<rparr>\<rparr>
       in andthen (on_channel (channel_velocity w txt ct (key_axis CHR ''w'' CHR ''s'' (se_keys s) (dget (ct_profile ct) ''max_linear_m_s''))
                                  (key_axis CHR ''a'' CHR ''d'' (se_keys s) (dget (ct_profile ct) ''max_angular_rad_s''))) s) (\<lambda>s.
          case session_now w s of (stamp, s) \<Rightarrow> (Inr (), s\<lparr>se_last_command := Some stamp\<rparr>)))))"

definition tick_body :: "world \<Rightarrow> (pyval \<Rightarrow> string) \<Rightarrow> contract \<Rightarrow> pyval \<Rightarrow> bool \<Rightarrow> session \<Rightarrow> (exc + unit) \<times> session" where
  "tick_body w txt ct now force s = andthen (session_clock w ct now s) (\<lambda>s. andthen (on_channel (require_not_cancelled w) s) (\<lambda>s.
     if se_state s \<noteq> S_armed then (Inr (), s)
     else if expired ct now s then (Inr (), session_stop w txt ct ''KEY_TIMEOUT'' False s)
     else let times = filter (\<lambda>(k, t). py_lt (py_sub now t) (ct_key ct)) (se_times s);
              s = s\<lparr>se_times := times, se_keys := map fst times\<rparr> in
     if se_keys s = [] then (Inr (), if ch_motion (se_channel s) then session_stop w txt ct ''ALL_KEYS_RELEASED'' False s else s)
     else if \<not> force \<and> (case se_last_command s of None \<Rightarrow> False | Some t \<Rightarrow> py_lt (py_sub now t) (ct_period ct)) then (Inr (), s)
     else session_command w txt ct s))"

text \<open>\<open>except Exception: self.stop(..., fault=True); raise\<close>.\<close>

definition or_stop :: "world \<Rightarrow> (pyval \<Rightarrow> string) \<Rightarrow> contract \<Rightarrow> string \<Rightarrow> (exc + unit) \<times> session \<Rightarrow> (exc + unit) \<times> session" where
  "or_stop w txt ct reason r = (case r of (Inl e, s) \<Rightarrow> (Inl e, session_stop w txt ct reason True s) | (Inr _, s) \<Rightarrow> (Inr (), s))"

definition session_tick :: "world \<Rightarrow> (pyval \<Rightarrow> string) \<Rightarrow> contract \<Rightarrow> pyval option \<Rightarrow> bool \<Rightarrow> session \<Rightarrow> (exc + unit) \<times> session" where
  "session_tick w txt ct now force s =
     (case (case now of Some t \<Rightarrow> (t, s) | None \<Rightarrow> session_now w s) of (now, s) \<Rightarrow>
        or_stop w txt ct ''TRANSACTION_OR_STATE_FAILURE'' (tick_body w txt ct now force s))"

definition press :: "char \<Rightarrow> bool \<Rightarrow> pyval \<Rightarrow> session \<Rightarrow> session" where
  "press k pressed now s = (if pressed then s\<lparr>se_keys := List.insert k (se_keys s), se_times := dput k now (se_times s)\<rparr>
     else s\<lparr>se_keys := removeAll k (se_keys s), se_times := filter (\<lambda>(k', _). k' \<noteq> k) (se_times s)\<rparr>)"

definition key_body :: "world \<Rightarrow> (pyval \<Rightarrow> string) \<Rightarrow> contract \<Rightarrow> string \<Rightarrow> pyval \<Rightarrow> pyval \<Rightarrow> session \<Rightarrow> (exc + unit) \<times> session" where
  "key_body w txt ct key pressed now s = andthen (session_clock w ct now s) (\<lambda>s.
     if se_closed s then (raise FeedbackError ''manual hardware session is closed'', s)
     else andthen (on_channel (require_not_cancelled w) s) (\<lambda>s.
     if key = '' '' then (Inr (), session_stop w txt ct ''USER_SPACE_STOP'' False s)
     else if key \<notin> {''w'', ''a'', ''s'', ''d''} \<or> \<not> is_bool pressed then (raise FeedbackError ''explicit WASD event required'', s)
     else if se_state s \<noteq> S_armed then (Inr (), s)
     else if expired ct now s then (Inr (), session_stop w txt ct ''KEY_TIMEOUT_BEFORE_EVENT'' False s)
     else session_tick w txt ct (Some now) True ((press (hd key) (pressed = PBool True) now s)\<lparr>se_last_key := Some now\<rparr>)))"

definition session_key :: "world \<Rightarrow> (pyval \<Rightarrow> string) \<Rightarrow> contract \<Rightarrow> string \<Rightarrow> pyval \<Rightarrow> pyval \<Rightarrow> session \<Rightarrow> (exc + unit) \<times> session" where
  "session_key w txt ct key pressed now s = or_stop w txt ct ''KEY_EVENT_FAILURE'' (key_body w txt ct key pressed now s)"

definition terminal_key :: "world \<Rightarrow> (pyval \<Rightarrow> string) \<Rightarrow> contract \<Rightarrow> string \<Rightarrow> pyval \<Rightarrow> session \<Rightarrow> (exc + unit) \<times> session" where
  "terminal_key w txt ct key now s = session_key w txt ct key (PBool True) now (s\<lparr>se_keys := [], se_times := []\<rparr>)"

definition session_close :: "world \<Rightarrow> (pyval \<Rightarrow> string) \<Rightarrow> contract \<Rightarrow> session \<Rightarrow> session" where
  "session_close w txt ct s = (let s = session_stop w txt ct ''USER_EXIT'' (se_state s = S_fault) s
     in s\<lparr>se_channel := (se_channel s)\<lparr>ch_open := False\<rparr>, se_closed := True\<rparr>)"

section \<open>The loop of \<open>main\<close>\<close>

definition event_bytes :: bytes where "event_bytes = [0x65, 0x77, 0x61, 0x73, 0x64, 0x20, 0x71, 0x03]"

definition lower_byte :: "8 word \<Rightarrow> 8 word" where
  "lower_byte b = (if 65 \<le> b \<and> b \<le> 90 then b + 32 else b)"

definition terminal_event :: "bytes \<Rightarrow> exc + string" where
  "terminal_event payload = (case payload of
       [] \<Rightarrow> Inr ''q''
     | [b] \<Rightarrow> if lower_byte b \<notin> set event_bytes then raise FeedbackError ''terminal escape, pasted batch or unrecognized input rejected''
              else Inr [char_of (unat (lower_byte b))]
     | _ \<Rightarrow> raise FeedbackError ''terminal escape, pasted batch or unrecognized input rejected'')"

fun discard_backlog :: "nat \<Rightarrow> bytes list \<Rightarrow> exc + unit" where
  "discard_backlog discarded [] = Inr ()"
| "discard_backlog discarded (payload # rest) =
     (if payload = [] then Inr ()
      else if 1024 < discarded + length payload then raise FeedbackError ''terminal input flood; manual session stopped''
      else discard_backlog (discarded + length payload) rest)"

text \<open>What the terminal gives in one turn: the bytes read when it is readable, and the backlog after the key and after the tick.\<close>

record hardware_turn =
  ht_read :: "bytes option"
  ht_backlog :: "bytes list"
  ht_backlog_end :: "bytes list"

definition lift_result :: "exc + unit \<Rightarrow> session \<Rightarrow> (exc + unit) \<times> session" where "lift_result r s = (r, s)"

definition handle_key :: "world \<Rightarrow> (pyval \<Rightarrow> string) \<Rightarrow> contract \<Rightarrow> string \<Rightarrow> bytes list \<Rightarrow> session \<Rightarrow> (exc + unit) \<times> session" where
  "handle_key w txt ct key backlog s =
     (if key = ''e'' then andthen (session_arm w ct ''e'' s) (lift_result (discard_backlog 0 backlog))
      else if key \<in> {''w'', ''a'', ''s'', ''d'', '' ''}
      then (case session_now w s of (now, s) \<Rightarrow> andthen (terminal_key w txt ct key now s) (\<lambda>s.
             if key = '' '' then lift_result (discard_backlog 0 backlog) s else (Inr (), s)))
      else (Inr (), s))"

definition hardware_turn_step :: "world \<Rightarrow> (pyval \<Rightarrow> string) \<Rightarrow> contract \<Rightarrow> hardware_turn \<Rightarrow> session \<Rightarrow> (exc + bool) \<times> session" where
  "hardware_turn_step w txt ct t s =
     (let previous = se_state s;
          finish = (\<lambda>s. andthen (session_tick w txt ct None False s) (\<lambda>s.
            andthen (lift_result (if previous = S_armed \<and> se_state s \<noteq> S_armed then discard_backlog 0 (ht_backlog_end t) else Inr ()) s) (\<lambda>s.
              (Inr (se_state s \<noteq> S_fault), s))))
      in case ht_read t of
           None \<Rightarrow> finish s
         | Some payload \<Rightarrow> (case terminal_event payload of
               Inl e \<Rightarrow> (Inl e, s)
             | Inr key \<Rightarrow> if key = ''q'' \<or> key = [CHR 0x03] then (Inr False, s) else andthen (handle_key w txt ct key (ht_backlog t) s) finish))"

fun hardware_loop :: "world \<Rightarrow> (pyval \<Rightarrow> string) \<Rightarrow> contract \<Rightarrow> hardware_turn list \<Rightarrow> session \<Rightarrow> (exc + unit) \<times> session" where
  "hardware_loop w txt ct [] s = (Inr (), s)"
| "hardware_loop w txt ct (t # ts) s = (case hardware_turn_step w txt ct t s of
       (Inl e, s) \<Rightarrow> (Inl e, s)
     | (Inr False, s) \<Rightarrow> (Inr (), s)
     | (Inr True, s) \<Rightarrow> hardware_loop w txt ct ts s)"

text \<open>The session is preflighted, runs, and is closed whatever happened.\<close>

definition hardware_session :: "world \<Rightarrow> (pyval \<Rightarrow> string) \<Rightarrow> contract \<Rightarrow> hardware_turn list \<Rightarrow> session \<Rightarrow> (exc + int) \<times> session" where
  "hardware_session w txt ct ts s =
     (case andthen (preflight w ct s) (\<lambda>s. andthen (on_channel (require_not_cancelled w) s) (hardware_loop w txt ct ts)) of (r, s) \<Rightarrow>
        let s = session_close w txt ct s in (bindr r (\<lambda>_. Inr (if se_state s = S_fault then 1 else 0)), s))"

section \<open>The routines on the channel\<close>

lemma session_feedback_advanced: "advanced ct c (snd (session_feedback w ct c))"
  unfolding session_feedback_def
  by (rule advanced_bindm [OF manual_read_advanced]) (auto simp: Let_def split: sum.split)

lemma read_checks_advanced: "advanced ct c (snd (read_checks w ct cks replies c))"
proof (induction cks arbitrary: replies c)
  case (Cons ck cks)
  have "advanced ct c (snd (case map_of replies (ck_request ck) of Some ws \<Rightarrow> (Inr ws, c) | None \<Rightarrow> manual_read w ct (ck_request ck) c))"
    by (auto simp: manual_read_advanced split: option.split)
  then show ?case using Cons.IH by (simp add: advanced_bindm)
qed simp

lemma stationary_reads_advanced: "advanced ct c (snd (stationary_reads w ct n c))"
proof (induction n arbitrary: c)
  case (Suc n)
  then show ?case by (simp add: advanced_bindm session_feedback_advanced)
qed simp

lemma settle_advanced: "advanced ct c (snd (settle w ct k n c))"
proof (induction k arbitrary: n c)
  case (Suc k)
  then show ?case by (simp add: advanced_bindm session_feedback_advanced)
qed simp

lemma stop_moving_advanced: "advanced ct c (snd (stop_moving w txt ct c))"
proof -
  have zero_seen: "advanced ct d (d\<lparr>ch_motion := False, ch_last_write := None, ch_last_stop := Some Zero_observed\<rparr>)" for d
    by (rule advanced_same) simp_all
  have settled: "advanced ct d (snd (settle w ct k n (called d)))" for k n d
    by (rule advanced_trans [OF advanced_called settle_advanced])
  show ?thesis
    unfolding stop_moving_def
    by (intro advanced_andthen advanced_bindm channel_velocity_advanced settled read_checks_advanced) (simp add: zero_seen)
qed

lemma stop_moving_done: "stop_moving w txt ct c = (Inr u, d) \<Longrightarrow> \<not> ch_motion d \<and> ch_last_stop d = Some Zero_observed"
  by (auto simp: stop_moving_def andthen_ok bindm_ok split: if_splits)

lemma stop_channel_advanced: "advanced ct c (snd (stop_channel w txt ct c))"
proof -
  have "advanced ct c (best_effort_zero w (d\<lparr>ch_failed := True\<rparr>))" if "stop_moving w txt ct c = (r, d)" for r d
  proof -
    have "advanced ct c d" using stop_moving_advanced [of ct c w "txt"] that by simp
    moreover have "advanced ct d (d\<lparr>ch_failed := True\<rparr>)" by (rule advanced_same) simp_all
    ultimately show ?thesis using best_effort_advanced advanced_trans by blast
  qed
  moreover have "advanced ct c d" if "stop_moving w txt ct c = (r, d)" for r d
    using stop_moving_advanced [of ct c w "txt"] that by simp
  ultimately show ?thesis
    by (auto simp: stop_channel_def best_effort_advanced split: prod.split sum.split)
qed

section \<open>What an observed stop leaves in the journal\<close>

definition calm :: "contract \<Rightarrow> int list \<Rightarrow> bool" where
  "calm ct ws \<longleftrightarrow> max_abs (map signed_word ws) \<le> ct_stationary ct"

lemma session_feedback_logged:
  assumes "session_feedback w ct c = (Inr speeds, d)"
  shows "\<exists>ls ws. ch_log d = ch_log c @ ls \<and> feedbacks ls = [ws] \<and> speeds = map signed_word ws"
proof -
  from assms obtain ws c1 where m: "manual_read w ct query c = (Inr ws, c1)"
    and r: "(case f_div (to_float (dget (ct_profile ct) ''max_wheel_rpm'')) (to_float (dget (ct_profile ct) ''register_to_feedback_rpm'')) of
       Inl e \<Rightarrow> (Inl e, c1)
     | Inr bound \<Rightarrow> if bound < Fin (of_int (max_abs (map signed_word ws)))
         then (raise FeedbackError ''actual wheel feedback exceeds reviewed manual speed bound'', c1) else (Inr (map signed_word ws), c1)) = (Inr speeds, d)"
    unfolding session_feedback_def by (auto simp: bindm_ok Let_def)
  from r have "c1 = d" "speeds = map signed_word ws"
    by (cases "f_div (to_float (dget (ct_profile ct) ''max_wheel_rpm'')) (to_float (dget (ct_profile ct) ''register_to_feedback_rpm''))"; simp split: if_splits)+
  with m have "manual_read w ct query c = (Inr ws, d)" "speeds = map signed_word ws" by simp_all
  then show ?thesis using read_query_logged by metis
qed

text \<open>The counter never exceeds the number of stationary readings at the end of the journal.\<close>

lemma settle_logged:
  assumes "settle w ct k n c = (Inr m, d)" "n \<le> length (takeWhile (calm ct) (rev (feedbacks pre)))"
  shows "\<exists>ls. ch_log d = ch_log c @ ls \<and> m \<le> length (takeWhile (calm ct) (rev (feedbacks (pre @ ls))))"
  using assms
proof (induction k arbitrary: n c pre)
  case 0
  then show ?case by simp
next
  case (Suc k)
  show ?case
  proof (cases "3 \<le> n")
    case True
    with Suc.prems show ?thesis by simp
  next
    case False
    with Suc.prems(1) obtain speeds c1 where f: "session_feedback w ct c = (Inr speeds, c1)"
      and r: "settle w ct k (if max_abs speeds \<le> ct_stationary ct then n + 1 else 0) c1 = (Inr m, d)"
      by (auto simp: bindm_ok)
    obtain ls ws where l: "ch_log c1 = ch_log c @ ls" "feedbacks ls = [ws]" "speeds = map signed_word ws"
      using session_feedback_logged [OF f] by blast
    have "(if max_abs speeds \<le> ct_stationary ct then n + 1 else 0) \<le> length (takeWhile (calm ct) (rev (feedbacks (pre @ ls))))"
      using Suc.prems(2) l calm_def [of ct ws] by simp
    from Suc.IH [OF r this] l(1) show ?thesis by auto
  qed
qed

lemma stop_moving_logged:
  assumes p: "profile_ok (ct_profile ct)" and s: "stop_moving w txt ct c = (Inr u, d)"
  shows "\<exists>k a ls more. ch_log d = ch_log c @ [Request_planned k zero_request, Transaction_complete k zero_request a 13] @ ls @ more
    \<and> 3 \<le> length (takeWhile (calm ct) (rev (feedbacks ls)))"
proof -
  from s obtain r c1 c2 c3 where v: "channel_velocity w txt ct (PFloat (Fin 0)) (PFloat (Fin 0)) c = (Inr r, c1)"
    and t: "settle w ct (wd_turns w (ch_calls c1)) 0 (called c1) = (Inr 3, c2)" and k: "read_checks w ct (ct_checks ct) [] c2 = (Inr (), c3)"
    and d: "ch_log d = ch_log c3"
    by (auto simp: stop_moving_def andthen_ok bindm_ok split: if_splits)
  have "manual_exchange w ct zero_request c = (Inr r, c1)"
    using v zero_velocity_request [OF p] by (simp add: channel_velocity_def)
  then obtain n where e: "ch_log c1 = ch_log c @ [Request_planned n zero_request, Transaction_complete n zero_request r 13]"
    using manual_exchange_logged zero_request_checked(2) by metis
  obtain ls where l: "ch_log c2 = ch_log (called c1) @ ls" "3 \<le> length (takeWhile (calm ct) (rev (feedbacks ls)))"
    using settle_logged [OF t, of "[]"] by auto
  have "prefix (ch_log c2) (ch_log c3)" using read_checks_advanced [of ct c2 w "ct_checks ct" "[]"] k by (simp add: advanced_def)
  then obtain rest where "ch_log c3 = ch_log c2 @ rest" by (auto simp: prefix_def)
  with e l d show ?thesis by (intro exI [of _ n] exI [of _ r] exI [of _ ls] exI [of _ rest]) simp
qed

lemma on_channel_state: "on_channel f s = (r, d) \<Longrightarrow> se_state d = se_state s \<and> se_closed d = se_closed s"
  by (auto simp: on_channel_def split: prod.splits)

section \<open>What a session may write\<close>

definition session_ok :: "session \<Rightarrow> bool" where
  "session_ok s \<longleftrightarrow> \<not> ch_stopping (se_channel s) \<and> (ch_armed (se_channel s) \<longrightarrow> se_state s = S_armed)
     \<and> (ch_motion (se_channel s) \<longrightarrow> se_state s \<noteq> S_disarmed)"

text \<open>Whether motion frames are possible: in the armed state, or when arming is possible (\<open>b\<close>) and there is no fault.\<close>

definition movable :: "bool \<Rightarrow> session \<Rightarrow> bool" where
  "movable b s \<longleftrightarrow> se_state s = S_armed \<or> (b \<and> se_state s \<noteq> S_fault)"

definition wrote :: "contract \<Rightarrow> bool \<Rightarrow> session \<Rightarrow> session \<Rightarrow> bool" where
  "wrote ct b s s' \<longleftrightarrow> (\<exists>ws. ch_writes (se_channel s') = ch_writes (se_channel s) @ ws \<and> list_all (permitted ct (movable b s)) ws
     \<and> (ch_failed (se_channel s) \<longrightarrow> ws = [] \<or> (ws = [zero_request] \<and> \<not> ch_attempted (se_channel s) \<and> ch_attempted (se_channel s'))))"

definition went :: "contract \<Rightarrow> bool \<Rightarrow> session \<Rightarrow> session \<Rightarrow> bool" where
  "went ct b s s' \<longleftrightarrow> (session_ok s \<longrightarrow> session_ok s' \<and> (movable b s' \<longrightarrow> movable b s) \<and> (se_state s = S_fault \<longrightarrow> se_state s' = S_fault)
     \<and> (ch_failed (se_channel s) \<longrightarrow> ch_failed (se_channel s')) \<and> (ch_attempted (se_channel s) \<longrightarrow> ch_attempted (se_channel s')) \<and> wrote ct b s s')"

lemma permitted_mono: "list_all (permitted ct m) ws \<Longrightarrow> (m \<Longrightarrow> m') \<Longrightarrow> list_all (permitted ct m') ws"
  by (auto simp: permitted_def list_all_iff)

lemma wrote_refl [simp]: "wrote ct b s s"
  by (auto simp: wrote_def)

lemma wrote_trans:
  assumes "wrote ct b s d" "wrote ct b d e" "movable b d \<longrightarrow> movable b s" "ch_failed (se_channel s) \<longrightarrow> ch_failed (se_channel d)"
    "ch_attempted (se_channel s) \<longrightarrow> ch_attempted (se_channel d)" "ch_attempted (se_channel d) \<longrightarrow> ch_attempted (se_channel e)"
  shows "wrote ct b s e"
proof -
  from assms(1) obtain ws where ws: "ch_writes (se_channel d) = ch_writes (se_channel s) @ ws" "list_all (permitted ct (movable b s)) ws"
      "ch_failed (se_channel s) \<longrightarrow> ws = [] \<or> (ws = [zero_request] \<and> \<not> ch_attempted (se_channel s) \<and> ch_attempted (se_channel d))" by (auto simp: wrote_def)
  from assms(2) obtain vs where vs: "ch_writes (se_channel e) = ch_writes (se_channel d) @ vs" "list_all (permitted ct (movable b d)) vs"
      "ch_failed (se_channel d) \<longrightarrow> vs = [] \<or> (vs = [zero_request] \<and> \<not> ch_attempted (se_channel d) \<and> ch_attempted (se_channel e))" by (auto simp: wrote_def)
  have "list_all (permitted ct (movable b s)) vs" using vs(2) assms(3) by (blast intro: permitted_mono)
  moreover have "ch_failed (se_channel s) \<longrightarrow> ws @ vs = [] \<or> (ws @ vs = [zero_request] \<and> \<not> ch_attempted (se_channel s) \<and> ch_attempted (se_channel e))"
    using ws(3) vs(3) assms(4-6) by auto
  ultimately show ?thesis unfolding wrote_def using ws(1,2) vs(1) by (intro exI [of _ "ws @ vs"]) simp
qed

lemma went_refl [simp]: "went ct b s s"
  by (simp add: went_def)

lemma went_trans: "went ct b s d \<Longrightarrow> went ct b d e \<Longrightarrow> went ct b s e"
  unfolding went_def using wrote_trans [of ct b s d e] by blast

lemma went_step:
  assumes st: "se_state s' = se_state s" and a: "advanced ct (se_channel s) (se_channel s')"
  shows "went ct b s s'"
proof (cases "session_ok s")
  case ok: True
  have m: "motion_allowed (se_channel s) \<Longrightarrow> se_state s = S_armed" using ok by (auto simp: session_ok_def motion_allowed_def)
  from a obtain ws where ws: "ch_writes (se_channel s') = ch_writes (se_channel s) @ ws" "list_all (permitted ct (motion_allowed (se_channel s))) ws"
      "ch_failed (se_channel s) \<longrightarrow> ws = [] \<or> (ws = [zero_request] \<and> \<not> ch_attempted (se_channel s) \<and> ch_attempted (se_channel s'))"
    by (auto simp: advanced_def)
  have "wrote ct b s s'"
    unfolding wrote_def using ws permitted_mono [OF ws(2), of "movable b s"] m by (auto simp: movable_def)
  moreover have "session_ok s'" using ok a st m by (auto simp: session_ok_def advanced_def)
  ultimately show ?thesis using a st by (simp add: went_def movable_def advanced_def)
qed (simp add: went_def)

lemma went_andthen:
  "went ct b s (snd r) \<Longrightarrow> (\<And>x d. r = (Inr x, d) \<Longrightarrow> went ct b d (snd (f d))) \<Longrightarrow> went ct b s (snd (andthen r f))"
  by (cases r; cases "fst r") (auto intro: went_trans)

lemma went_on_channel: "advanced ct (se_channel s) (snd (f (se_channel s))) \<Longrightarrow> went ct b s (snd (on_channel f s))"
  by (cases "f (se_channel s)") (auto simp: on_channel_def intro: went_step)

lemma went_journal: "went ct b s (snd (session_journal w s))"
  unfolding session_journal_def by (rule went_on_channel, rule advanced_journal)

lemma went_cancel: "went ct b s (snd (on_channel (require_not_cancelled w) s))"
  by (rule went_on_channel, rule advanced_cancel)

lemma went_now: "session_now w s = (t, s') \<Longrightarrow> went ct b s s'"
  by (auto simp: session_now_def intro: went_step)

lemma session_clock_went: "went ct b s (snd (session_clock w ct now s))"
  by (auto simp: session_clock_def session_now_def split: sum.split option.split intro!: went_step)

text \<open>Stopping disarms, and either clears the motion flag or faults.\<close>

lemma stop_channel_cleared: "\<not> fst (stop_channel w txt ct c) \<Longrightarrow> \<not> ch_motion (snd (stop_channel w txt ct c))"
  by (auto simp: stop_channel_def split: prod.splits sum.splits if_splits dest: stop_moving_done)

lemma session_stop_went: "went ct b s (session_stop w txt ct reason fault s)"
proof -
  let ?c = "(se_channel s)\<lparr>ch_stopping := True\<rparr>"
  obtain faulted c where e: "stop_channel w txt ct ?c = (faulted, c)" by fastforce
  have a: "advanced ct ?c c" using stop_channel_advanced [of ct ?c w "txt"] e by simp
  have clear: "\<not> faulted \<Longrightarrow> \<not> ch_motion c" using stop_channel_cleared [of w "txt" ct ?c] e by simp
  define d where "d = s\<lparr>se_keys := [], se_times := [], se_reason := reason,
      se_state := (if fault \<or> se_state s = S_fault \<or> faulted then S_fault else S_disarmed),
      se_channel := c\<lparr>ch_armed := False, ch_deadline := None, ch_stopping := False\<rparr>\<rparr>"
  from a obtain ws where ws: "ch_writes c = ch_writes (se_channel s) @ ws" "list_all (permitted ct False) ws"
      "ch_failed (se_channel s) \<longrightarrow> ws = [] \<or> (ws = [zero_request] \<and> \<not> ch_attempted (se_channel s) \<and> ch_attempted c)"
    by (auto simp: advanced_def motion_allowed_def)
  have "wrote ct b s d"
    unfolding wrote_def using ws permitted_mono [OF ws(2), of "movable b s"] by (simp add: d_def)
  moreover have "session_ok d" using clear by (auto simp: session_ok_def d_def)
  moreover have "movable b d \<longrightarrow> movable b s" by (auto simp: d_def movable_def)
  ultimately have d: "went ct b s d" using a by (auto simp: went_def d_def advanced_def)
  obtain r d' where j: "session_journal w d = (r, d')" by fastforce
  have j': "went ct b d d'" using went_journal [of ct b d w] j by simp
  have "se_state d' = se_state d" using j on_channel_state unfolding session_journal_def by blast
  then have "se_state d' \<noteq> S_armed" by (simp add: d_def)
  then have "went ct b d' (d'\<lparr>se_state := S_fault\<rparr>)"
    by (auto simp: went_def session_ok_def movable_def wrote_def)
  then have "went ct b s (case r of Inr _ \<Rightarrow> d' | Inl _ \<Rightarrow> d'\<lparr>se_state := S_fault\<rparr>)"
    using went_trans [OF d j'] by (auto split: sum.split intro: went_trans)
  then show ?thesis by (cases r) (simp_all add: session_stop_def e Let_def d_def [symmetric] j)
qed

subsection \<open>Every operation\<close>

lemma preflight_went: "went ct b s (snd (preflight w ct s))"
proof -
  have "went ct b d (snd (andthen (on_channel (require_not_cancelled w) (d\<lparr>se_reason := r\<rparr>)) (session_journal w)))" for d r
    by (rule went_trans [of _ _ d "d\<lparr>se_reason := r\<rparr>"]) (auto intro!: went_step went_andthen went_cancel went_journal)
  then show ?thesis
    unfolding preflight_def Let_def
    by (simp add: went_andthen went_on_channel read_checks_advanced stationary_reads_advanced)
qed

lemma preflight_state: "preflight w ct s = (Inr u, d) \<Longrightarrow> se_state d = se_state s"
  by (auto simp: preflight_def andthen_ok Let_def session_journal_def split: if_splits dest!: on_channel_state)

lemma session_arm_went: "went ct True s (snd (session_arm w ct k s))"
proof (cases "k \<noteq> ''e'' \<or> se_state s \<noteq> S_disarmed \<or> se_closed s")
  case False
  have armed: "went ct True d (d\<lparr>se_channel := (se_channel d)\<lparr>ch_armed := True, ch_last_write := None\<rparr>, se_state := S_armed, se_keys := [], se_times := []\<rparr>)"
    if "se_state d = S_disarmed" for d
    using that by (auto simp: went_def session_ok_def movable_def wrote_def)
  show ?thesis
    unfolding session_arm_def using False
  proof (simp, intro went_andthen preflight_went)
    fix u d assume "preflight w ct s = (Inr u, d)"
    then have "se_state d = S_disarmed" using preflight_state False by auto
    from armed [OF this] show "went ct True d (snd (case session_now w (d\<lparr>se_channel := (se_channel d)\<lparr>ch_armed := True, ch_last_write := None\<rparr>, se_state := S_armed, se_keys := [], se_times := []\<rparr>) of
          (now, s) \<Rightarrow> session_journal w (s\<lparr>se_last_key := Some now, se_reason := ''USER_ARMED_NO_ENABLE_COMMAND''\<rparr>)))"
      by (rule went_trans) (auto simp: session_now_def intro: went_trans [OF went_step went_journal])
  qed
qed (auto simp: session_arm_def)

lemma session_command_went: "went ct b s (snd (session_command w txt ct s))"
proof -
  have deadline: "went ct b d (d\<lparr>se_channel := (se_channel d)\<lparr>ch_deadline := x\<rparr>\<rparr>)" for d x
    by (rule went_step) (auto intro: advanced_same)
  have stamped: "went ct b d (snd (case session_now w d of (stamp, s) \<Rightarrow> (Inr (), s\<lparr>se_last_command := Some stamp\<rparr>)))" for d
    by (auto simp: session_now_def intro: went_step)
  have sent: "went ct b d (snd (on_channel (channel_velocity w txt ct x y) d))" for d x y
    by (rule went_on_channel, rule channel_velocity_advanced)
  have go: "went ct b d (snd (let stamps = map snd (se_times d); oldest = foldl py_min (hd stamps) (tl stamps);
           s = d\<lparr>se_channel := (se_channel d)\<lparr>ch_deadline := Some (py_add oldest (ct_key ct))\<rparr>\<rparr>
       in andthen (on_channel (channel_velocity w txt ct (key_axis CHR ''w'' CHR ''s'' (se_keys s) (dget (ct_profile ct) ''max_linear_m_s''))
                                  (key_axis CHR ''a'' CHR ''d'' (se_keys s) (dget (ct_profile ct) ''max_angular_rad_s''))) s) (\<lambda>s.
          case session_now w s of (stamp, s) \<Rightarrow> (Inr (), s\<lparr>se_last_command := Some stamp\<rparr>))))" for d
    unfolding Let_def by (rule went_trans [OF deadline], rule went_andthen [OF sent stamped])
  show ?thesis
    unfolding session_command_def
  proof (intro went_andthen went_on_channel session_feedback_advanced read_checks_advanced)
    fix x y d e assume "on_channel (read_checks w ct (ct_checks ct) []) d = (Inr y, e)"
    obtain later f where n: "session_now w e = (later, f)" by fastforce
    have "went ct b f (snd (andthen (on_channel (require_not_cancelled w) f) (\<lambda>s.
       let stamps = map snd (se_times s); oldest = foldl py_min (hd stamps) (tl stamps);
           s = s\<lparr>se_channel := (se_channel s)\<lparr>ch_deadline := Some (py_add oldest (ct_key ct))\<rparr>\<rparr>
       in andthen (on_channel (channel_velocity w txt ct (key_axis CHR ''w'' CHR ''s'' (se_keys s) (dget (ct_profile ct) ''max_linear_m_s''))
                                  (key_axis CHR ''a'' CHR ''d'' (se_keys s) (dget (ct_profile ct) ''max_angular_rad_s''))) s) (\<lambda>s.
          case session_now w s of (stamp, s) \<Rightarrow> (Inr (), s\<lparr>se_last_command := Some stamp\<rparr>)))))"
      by (rule went_andthen [OF went_cancel go])
    then show "went ct b e (snd (case session_now w e of (later, s) \<Rightarrow>
     if expired ct later s then (Inr (), session_stop w txt ct ''KEY_EXPIRED_DURING_FEEDBACK'' False s)
     else andthen (on_channel (require_not_cancelled w) s) (\<lambda>s.
       let stamps = map snd (se_times s); oldest = foldl py_min (hd stamps) (tl stamps);
           s = s\<lparr>se_channel := (se_channel s)\<lparr>ch_deadline := Some (py_add oldest (ct_key ct))\<rparr>\<rparr>
       in andthen (on_channel (channel_velocity w txt ct (key_axis CHR ''w'' CHR ''s'' (se_keys s) (dget (ct_profile ct) ''max_linear_m_s''))
                                  (key_axis CHR ''a'' CHR ''d'' (se_keys s) (dget (ct_profile ct) ''max_angular_rad_s''))) s) (\<lambda>s.
          case session_now w s of (stamp, s) \<Rightarrow> (Inr (), s\<lparr>se_last_command := Some stamp\<rparr>)))))"
      using went_trans [OF went_now [OF n]] session_stop_went by (simp add: n)
  qed
qed

lemma or_stop_went: "went ct b s (snd r) \<Longrightarrow> went ct b s (snd (or_stop w txt ct reason r))"
  by (cases r; cases "fst r") (auto simp: or_stop_def intro: went_trans session_stop_went)

lemma tick_body_went: "went ct b s (snd (tick_body w txt ct now force s))"
proof -
  have times: "went ct b d (d\<lparr>se_times := ts, se_keys := ks\<rparr>)" for d ts ks by (rule went_step) simp_all
  show ?thesis
    unfolding tick_body_def Let_def
    by (intro went_andthen session_clock_went went_cancel)
       (auto intro!: session_stop_went intro: went_trans [OF times] session_command_went session_stop_went times)
qed

lemma session_tick_went: "went ct b s (snd (session_tick w txt ct now force s))"
proof -
  obtain t d where n: "(case now of Some t \<Rightarrow> (t, s) | None \<Rightarrow> session_now w s) = (t, d)" by fastforce
  have "went ct b s d" using n went_now by (auto split: option.splits)
  then show ?thesis using or_stop_went [OF went_trans [OF _ tick_body_went]] by (simp add: session_tick_def n)
qed

lemma key_body_went: "went ct b s (snd (key_body w txt ct key pressed now s))"
proof -
  have pressing: "went ct b d ((press k p now d)\<lparr>se_last_key := x\<rparr>)" for d k p x
    by (rule went_step) (simp_all add: press_def)
  show ?thesis
    unfolding key_body_def
  proof (intro went_andthen session_clock_went, goal_cases)
    case (1 x d)
    show ?case
      by (auto intro!: went_andthen went_cancel session_stop_went went_trans [OF pressing session_tick_went])
  qed
qed

lemma terminal_key_went: "went ct b s (snd (terminal_key w txt ct key now s))"
  unfolding terminal_key_def session_key_def
  by (rule went_trans [of _ _ s "s\<lparr>se_keys := [], se_times := []\<rparr>"]) (auto intro!: went_step or_stop_went key_body_went)

subsection \<open>The loop\<close>

definition arms :: "hardware_turn \<Rightarrow> bool" where
  "arms t \<longleftrightarrow> (case ht_read t of None \<Rightarrow> False | Some payload \<Rightarrow> terminal_event payload = Inr ''e'')"

lemma went_lift: "went ct b s (snd (lift_result r s))"
  by (simp add: lift_result_def)

lemma handle_key_went: "(key = ''e'' \<Longrightarrow> b) \<Longrightarrow> went ct b s (snd (handle_key w txt ct key backlog s))"
proof -
  assume b: "key = ''e'' \<Longrightarrow> b"
  have arm: "went ct b s (snd (session_arm w ct ''e'' s))" if "key = ''e''" using b [OF that] session_arm_went by simp
  obtain now d where n: "session_now w s = (now, d)" by fastforce
  have key: "went ct b s (snd (andthen (terminal_key w txt ct key now d) (\<lambda>s. if key = '' '' then lift_result (discard_backlog 0 backlog) s else (Inr (), s))))"
    by (rule went_trans [OF went_now [OF n]], rule went_andthen [OF terminal_key_went]) (simp add: went_lift)
  show ?thesis
    unfolding handle_key_def n prod.case using key by (auto intro!: went_andthen arm went_lift)
qed

lemma hardware_turn_went: "(arms t \<Longrightarrow> b) \<Longrightarrow> went ct b s (snd (hardware_turn_step w txt ct t s))"
proof -
  assume b: "arms t \<Longrightarrow> b"
  define finish where "finish = (\<lambda>d. andthen (session_tick w txt ct None False d) (\<lambda>d.
            andthen (lift_result (if se_state s = S_armed \<and> se_state d \<noteq> S_armed then discard_backlog 0 (ht_backlog_end t) else Inr ()) d) (\<lambda>s.
              (Inr (se_state s \<noteq> S_fault), s))))"
  have step: "hardware_turn_step w txt ct t s = (case ht_read t of None \<Rightarrow> finish s
         | Some payload \<Rightarrow> (case terminal_event payload of Inl e \<Rightarrow> (Inl e, s)
             | Inr key \<Rightarrow> if key = ''q'' \<or> key = [CHR 0x03] then (Inr False, s) else andthen (handle_key w txt ct key (ht_backlog t) s) finish))"
    by (simp only: hardware_turn_step_def finish_def Let_def)
  have fin: "went ct b d (snd (finish d))" for d
    unfolding finish_def by (intro went_andthen session_tick_went went_lift) simp
  have key: "went ct b s (snd (andthen (handle_key w txt ct key (ht_backlog t) s) finish))" if "ht_read t = Some p" "terminal_event p = Inr key" for p key
    by (rule went_andthen [OF handle_key_went fin]) (use b that in \<open>auto simp: arms_def\<close>)
  show ?thesis
    unfolding step using fin [of s] key by (simp split: option.split sum.split)
qed

lemma hardware_loop_went: "(list_ex arms ts \<Longrightarrow> b) \<Longrightarrow> went ct b s (snd (hardware_loop w txt ct ts s))"
proof (induction ts arbitrary: s)
  case (Cons t ts)
  have "went ct b s (snd (hardware_turn_step w txt ct t s))" using Cons.prems by (intro hardware_turn_went) simp
  moreover have "went ct b d (snd (hardware_loop w txt ct ts d))" for d using Cons by simp
  ultimately show ?case by (auto split: prod.split sum.split bool.split intro: went_trans)
qed simp

lemma session_stop_outcome:
  "se_state (session_stop w txt ct reason fault s) \<noteq> S_armed \<and> \<not> ch_armed (se_channel (session_stop w txt ct reason fault s))
    \<and> se_keys (session_stop w txt ct reason fault s) = [] \<and> ch_deadline (se_channel (session_stop w txt ct reason fault s)) = None"
  by (auto simp: session_stop_def session_journal_def on_channel_def journal_call_def called_def Let_def split: prod.split sum.split option.split)

lemma stop_channel_attempted: "ch_motion (snd (stop_channel w txt ct c)) \<Longrightarrow> ch_stopping c \<Longrightarrow> ch_attempted (snd (stop_channel w txt ct c))"
proof -
  have "ch_motion (best_effort_zero w d) \<Longrightarrow> ch_stopping d \<Longrightarrow> ch_attempted (best_effort_zero w d)" for d
    using best_effort_advanced [of ct d w] best_effort_attempted [of d w] by (auto simp: advanced_def motion_allowed_def)
  moreover have "ch_stopping d = ch_stopping c" if "stop_moving w txt ct c = (r, d)" for r d
    using stop_moving_advanced [of ct c w "txt"] that by (simp add: advanced_def)
  moreover assume "ch_motion (snd (stop_channel w txt ct c))" "ch_stopping c"
  ultimately show ?thesis
    by (auto simp: stop_channel_def split: prod.splits sum.splits if_splits dest: stop_moving_done)
qed

lemma session_stop_channel:
  obtains (journaled) faulted c r where "stop_channel w txt ct ((se_channel s)\<lparr>ch_stopping := True\<rparr>) = (faulted, c)"
    "ch_attempted (se_channel (session_stop w txt ct reason fault s)) = ch_attempted c"
    "ch_motion (se_channel (session_stop w txt ct reason fault s)) = ch_motion c"
    "ch_log (se_channel (session_stop w txt ct reason fault s)) = ch_log c @ r"
    "se_state (session_stop w txt ct reason fault s) = S_disarmed \<Longrightarrow> \<not> faulted"
proof -
  obtain faulted c where e: "stop_channel w txt ct ((se_channel s)\<lparr>ch_stopping := True\<rparr>) = (faulted, c)" by fastforce
  let ?s = "session_stop w txt ct reason fault s"
  have "ch_attempted (se_channel ?s) = ch_attempted c \<and> ch_motion (se_channel ?s) = ch_motion c \<and> (\<exists>r. ch_log (se_channel ?s) = ch_log c @ r)
      \<and> (se_state ?s = S_disarmed \<longrightarrow> \<not> faulted)"
    by (simp add: session_stop_def session_journal_def on_channel_def journal_call_def called_def Let_def e split: prod.split sum.split option.split)
  with e show thesis using journaled by blast
qed

lemma session_stop_attempted: "ch_motion (se_channel (session_stop w txt ct reason fault s)) \<Longrightarrow> ch_attempted (se_channel (session_stop w txt ct reason fault s))"
proof (rule session_stop_channel [of w "txt" ct s reason fault])
  fix faulted c assume "ch_motion (se_channel (session_stop w txt ct reason fault s))"
    "stop_channel w txt ct ((se_channel s)\<lparr>ch_stopping := True\<rparr>) = (faulted, c)"
    "ch_attempted (se_channel (session_stop w txt ct reason fault s)) = ch_attempted c"
    "ch_motion (se_channel (session_stop w txt ct reason fault s)) = ch_motion c"
  then show ?thesis using stop_channel_attempted [of w "txt" ct "(se_channel s)\<lparr>ch_stopping := True\<rparr>"] by simp
qed

lemma session_stop_logged:
  assumes p: "profile_ok (ct_profile ct)" and m: "ch_motion (se_channel s)" and d: "se_state (session_stop w txt ct reason fault s) = S_disarmed"
  shows "\<exists>k a ls rest. ch_log (se_channel (session_stop w txt ct reason fault s))
        = ch_log (se_channel s) @ [Request_planned k zero_request, Transaction_complete k zero_request a 13] @ ls @ rest
      \<and> 3 \<le> length (takeWhile (calm ct) (rev (feedbacks ls)))"
proof (rule session_stop_channel [of w "txt" ct s reason fault])
  fix faulted c r
  assume e: "stop_channel w txt ct ((se_channel s)\<lparr>ch_stopping := True\<rparr>) = (faulted, c)"
    and l: "ch_log (se_channel (session_stop w txt ct reason fault s)) = ch_log c @ r"
    and f: "se_state (session_stop w txt ct reason fault s) = S_disarmed \<Longrightarrow> \<not> faulted"
  have "\<exists>u. stop_moving w txt ct ((se_channel s)\<lparr>ch_stopping := True\<rparr>) = (Inr u, c)"
    using e f [OF d] m by (auto simp: stop_channel_def split: if_splits prod.splits sum.splits)
  then obtain u where u: "stop_moving w txt ct ((se_channel s)\<lparr>ch_stopping := True\<rparr>) = (Inr u, c)" ..
  from stop_moving_logged [OF p u] obtain k a ls rest where "ch_log c = ch_log (se_channel s) @ [Request_planned k zero_request, Transaction_complete k zero_request a 13] @ ls @ rest"
      "3 \<le> length (takeWhile (calm ct) (rev (feedbacks ls)))"
    by auto
  with l show ?thesis by (intro exI [of _ k] exI [of _ a] exI [of _ ls] exI [of _ "rest @ r"]) simp
qed

lemma session_close_went: "went ct b s (session_close w txt ct s)"
proof -
  define d where "d = session_stop w txt ct ''USER_EXIT'' (se_state s = S_fault) s"
  have "went ct b d (d\<lparr>se_channel := (se_channel d)\<lparr>ch_open := False\<rparr>, se_closed := True\<rparr>)"
    by (auto simp: went_def session_ok_def movable_def wrote_def)
  then show ?thesis
    unfolding session_close_def Let_def d_def [symmetric] using session_stop_went went_trans d_def by blast
qed

lemma hardware_session_went: "(list_ex arms ts \<Longrightarrow> b) \<Longrightarrow> went ct b s (snd (hardware_session w txt ct ts s))"
proof -
  assume b: "list_ex arms ts \<Longrightarrow> b"
  obtain r d where run: "andthen (preflight w ct s) (\<lambda>s. andthen (on_channel (require_not_cancelled w) s) (hardware_loop w txt ct ts)) = (r, d)" by fastforce
  have "went ct b s (snd (andthen (preflight w ct s) (\<lambda>s. andthen (on_channel (require_not_cancelled w) s) (hardware_loop w txt ct ts))))"
    by (intro went_andthen preflight_went went_cancel hardware_loop_went b)
  then show ?thesis using went_trans session_close_went by (auto simp: hardware_session_def run Let_def)
qed

section \<open>Properties\<close>

definition demo_world :: world where
  "demo_world = \<lparr>wd_now = (\<lambda>n. PInt (int n)), wd_cancel = (\<lambda>_. False), wd_journal = (\<lambda>_. None),
     wd_io = (\<lambda>_. \<lparr>q_pre = Inr None, q_writable = Inr False, q_sent = Inr 0, q_reads = []\<rparr>), wd_last = (\<lambda>_. (Inr True, Inr 13)), wd_turns = (\<lambda>_. 9)\<rparr>"

definition demo_channel :: "bool \<Rightarrow> channel" where
  "demo_channel moving = \<lparr>ch_open = True, ch_armed = moving, ch_failed = False, ch_motion = moving, ch_attempted = False, ch_sequence = 0,
     ch_last_stop = None, ch_feedback = 0, ch_stopping = False, ch_deadline = None, ch_last_write = None, ch_calls = 0, ch_writes = [], ch_log = []\<rparr>"

definition demo_session :: "bool \<Rightarrow> session" where
  "demo_session moving = \<lparr>se_state = (if moving then S_armed else S_disarmed), se_keys = [], se_times = [], se_last_key = None, se_last_command = None,
     se_last_now = None, se_reason = ''STARTUP_READ_ONLY'', se_closed = False, se_channel = demo_channel moving\<rparr>"

text \<open>
  C4. Motion is gated for a whole session. Whatever the terminal, clock, signals, journal and serial line
  do, every buffer a session writes is a reviewed read, the stop frame or a motion frame that passes the write
  validator, and there are no motion frames at all unless the operator pressed \<open>e\<close>. The session ends disarmed or in
  fault with the line closed, and in fault if motion may still exist.\<close>

theorem hardware_motion_gated:
  assumes "channel_init lease True ct = Inr c" "session_init confirmation c = Inr s" "hardware_session w txt ct ts s = (r, s')"
  shows "list_all (permitted ct (list_ex arms ts)) (ch_writes (se_channel s')) \<and> se_state s' \<noteq> S_armed \<and> \<not> ch_armed (se_channel s')
    \<and> \<not> ch_open (se_channel s') \<and> se_closed s' \<and> (ch_motion (se_channel s') \<longrightarrow> se_state s' = S_fault)"
proof -
  have s: "session_ok s" "ch_writes (se_channel s) = []" "se_state s = S_disarmed"
    using assms(1,2) by (auto simp: channel_init_def session_init_def session_ok_def split: if_splits)
  have w: "went ct (list_ex arms ts) s s'" using hardware_session_went [of ts "list_ex arms ts" ct s w "txt"] assms(3) by simp
  then have ok: "session_ok s'" and ws: "list_all (permitted ct (movable (list_ex arms ts) s)) (ch_writes (se_channel s'))"
    using s by (auto simp: went_def wrote_def)
  obtain d where d: "s' = session_close w txt ct d" using assms(3) by (auto simp: hardware_session_def Let_def split: prod.splits)
  have "se_state s' \<noteq> S_armed \<and> \<not> ch_armed (se_channel s') \<and> \<not> ch_open (se_channel s') \<and> se_closed s'"
    using session_stop_outcome by (simp add: d session_close_def Let_def)
  moreover from this ok have "ch_motion (se_channel s') \<longrightarrow> se_state s' = S_fault"
    using session_state.exhaust by (auto simp: session_ok_def)
  moreover have "list_all (permitted ct (list_ex arms ts)) (ch_writes (se_channel s'))"
    by (rule permitted_mono [OF ws]) (simp add: movable_def s(3))
  ultimately show ?thesis by blast
qed

theorem hardware_motion_gated_witness:
  "(case manual_contract demo_review demo_hardware_config demo_evidence None of
      Inr ct \<Rightarrow> se_state (snd (hardware_session demo_world (\<lambda>_. []) ct [\<lparr>ht_read = Some [0x65], ht_backlog = [], ht_backlog_end = []\<rparr>] (demo_session False))) \<noteq> S_armed
    | Inl _ \<Rightarrow> False)"
proof -
  obtain ct where c: "manual_contract demo_review demo_hardware_config demo_evidence None = Inr ct" using demo_contract by blast
  have "channel_init None True ct = Inr (demo_channel False)" "session_init (PStr onsite_confirmation) (demo_channel False) = Inr (demo_session False)"
    by (simp_all add: channel_init_def session_init_def demo_channel_def demo_session_def)
  from hardware_motion_gated [OF this, of demo_world "\<lambda>_. []" "[\<lparr>ht_read = Some [0x65], ht_backlog = [], ht_backlog_end = []\<rparr>]",
      OF surjective_pairing]
  show ?thesis by (simp add: c)
qed

text \<open>
  C6. A stop claims no more than it saw. Stopping disarms, drops the keys and the motion deadline. If motion
  was possible and the session ends up merely disarmed, then the journal holds the stop frame with its acknowledgement,
  followed by three consecutive speed readings within the stationary bound, and the motion flag is cleared. If the
  motion flag stays, the session is in fault and the best-effort stop frame has been tried; after a failed exchange
  nothing else is written, and it at most once.\<close>

theorem stop_observed_or_fault:
  assumes "manual_contract rv config evidence expected = Inr ct" "session_ok s"
  shows "(let s' = session_stop w txt ct reason fault s; c = se_channel s; c' = se_channel s' in
      se_state s' \<noteq> S_armed \<and> \<not> ch_armed c' \<and> se_keys s' = [] \<and> ch_deadline c' = None
    \<and> (ch_motion c \<and> se_state s' = S_disarmed \<longrightarrow> \<not> ch_motion c' \<and> (\<exists>k a ls rest.
        ch_log c' = ch_log c @ [Request_planned k zero_request, Transaction_complete k zero_request a 13] @ ls @ rest
        \<and> 3 \<le> length (takeWhile (calm ct) (rev (feedbacks ls)))))
    \<and> (ch_motion c' \<longrightarrow> se_state s' = S_fault \<and> ch_attempted c')
    \<and> (ch_failed c \<longrightarrow> ch_writes c' = ch_writes c \<or> (ch_writes c' = ch_writes c @ [zero_request] \<and> \<not> ch_attempted c \<and> ch_attempted c')))"
proof -
  define s' where "s' = session_stop w txt ct reason fault s"
  have w: "went ct False s s'" unfolding s'_def by (rule session_stop_went)
  then have ok: "session_ok s'" using assms(2) by (simp add: went_def)
  have fault: "ch_motion (se_channel s') \<longrightarrow> se_state s' = S_fault"
    using ok session_stop_outcome session_state.exhaust unfolding s'_def session_ok_def by metis
  have once: "ch_failed (se_channel s) \<longrightarrow> ch_writes (se_channel s') = ch_writes (se_channel s)
      \<or> (ch_writes (se_channel s') = ch_writes (se_channel s) @ [zero_request] \<and> \<not> ch_attempted (se_channel s) \<and> ch_attempted (se_channel s'))"
    using w assms(2) by (auto simp: went_def wrote_def)
  have tried: "ch_motion (se_channel s') \<longrightarrow> ch_attempted (se_channel s')"
    using session_stop_attempted unfolding s'_def by blast
  have seen: "\<exists>k a ls rest. ch_log (se_channel s') = ch_log (se_channel s) @ [Request_planned k zero_request, Transaction_complete k zero_request a 13] @ ls @ rest
        \<and> 3 \<le> length (takeWhile (calm ct) (rev (feedbacks ls)))" if "ch_motion (se_channel s)" "se_state s' = S_disarmed"
    using session_stop_logged contract_profile [OF assms(1)] that unfolding s'_def by blast
  show ?thesis
    unfolding s'_def [symmetric] Let_def using session_stop_outcome fault once tried seen s'_def by auto
qed

theorem stop_observed_or_fault_witness:
  "(case manual_contract demo_review demo_hardware_config demo_evidence None of
      Inr ct \<Rightarrow> (let s' = session_stop demo_world (\<lambda>_. []) ct ''USER_SPACE_STOP'' False (demo_session True) in
        se_state s' \<noteq> S_armed \<and> se_keys s' = [] \<and> (case ch_motion (se_channel s') of True \<Rightarrow> se_state s' = S_fault \<and> ch_attempted (se_channel s') | False \<Rightarrow> True))
    | Inl _ \<Rightarrow> False)"
proof -
  obtain ct where c: "manual_contract demo_review demo_hardware_config demo_evidence None = Inr ct" using demo_contract by blast
  have "session_ok (demo_session True)" by (simp add: session_ok_def demo_session_def demo_channel_def)
  from stop_observed_or_fault [OF c this, of demo_world "\<lambda>_. []" "''USER_SPACE_STOP''" False]
  show ?thesis by (simp add: c Let_def split: bool.split)
qed

end
