(* ===== verification/Storage_Paths.thy ===== *)
theory Storage_Paths
  imports Device_Bindings
begin

text \<open>
  \<open>src/src/wc_runtime/capture_destination.py\<close> and \<open>storage_directory.py\<close>: the checks that bind an output directory
  to one mounted file system for a session, and the part of \<open>pathlib\<close> that these and the storage policy use.

  What the file system and the mount table say at a moment is a \<open>fileview\<close>; a call is given the view it
  meets. The root directory always exists, so that the search for the nearest existing parent ends there.
  Strings are lists of 8-bit code points, which holds the escapes of the kernel's mount table.
\<close>

section \<open>Paths\<close>

record ppath =
  pt_root :: string
  pt_parts :: "string list"

definition path_of :: "string \<Rightarrow> ppath" where
  "path_of s = \<lparr>pt_root = (if take 1 s \<noteq> ''/'' then '''' else if take 2 s = ''//'' \<and> take 3 s \<noteq> ''///'' then ''//'' else ''/''),
     pt_parts = filter (\<lambda>p. p \<noteq> '''' \<and> p \<noteq> ''.'') (split_on CHR ''/'' s)\<rparr>"

definition is_absolute :: "ppath \<Rightarrow> bool" where "is_absolute p \<longleftrightarrow> pt_root p \<noteq> ''''"

definition path_str :: "ppath \<Rightarrow> string" where
  "path_str p = (if pt_root p = '''' \<and> pt_parts p = [] then ''.'' else pt_root p @ join_with ''/'' (pt_parts p))"

text \<open>\<open>base/p\<close>, \<open>p.is_relative_to(q)\<close>, \<open>p.relative_to(q)\<close> and \<open>(p, *p.parents)\<close>.\<close>

definition join_path :: "ppath \<Rightarrow> ppath \<Rightarrow> ppath" where
  "join_path base p = (if is_absolute p then p else base\<lparr>pt_parts := pt_parts base @ pt_parts p\<rparr>)"

definition lies_under :: "ppath \<Rightarrow> ppath \<Rightarrow> bool" where
  "lies_under p q \<longleftrightarrow> pt_root p = pt_root q \<and> prefix (pt_parts q) (pt_parts p)"

definition relative_to :: "ppath \<Rightarrow> ppath \<Rightarrow> ppath" where
  "relative_to p q = \<lparr>pt_root = '''', pt_parts = drop (length (pt_parts q)) (pt_parts p)\<rparr>"

definition lineage :: "ppath \<Rightarrow> ppath list" where
  "lineage p = map (\<lambda>k. p\<lparr>pt_parts := take k (pt_parts p)\<rparr>) (rev [0..<Suc (length (pt_parts p))])"

definition has_parent_part :: "ppath \<Rightarrow> bool" where
  "has_parent_part p \<longleftrightarrow> ''..'' \<in> set (pt_parts p)"

section \<open>The view of the file system\<close>

datatype file_kind = No_entry | Is_link | Is_dir | Is_regular | Is_other

record fileview =
  fv_kind :: "ppath \<Rightarrow> file_kind"
  fv_exists :: "ppath \<Rightarrow> bool"
  fv_file :: "ppath \<Rightarrow> bool"
  fv_dev :: "ppath \<Rightarrow> exc + int"
  fv_ino :: "ppath \<Rightarrow> exc + int"
  fv_block :: "ppath \<Rightarrow> exc + int option"
  fv_devname :: "int \<Rightarrow> string"
  fv_writable :: "ppath \<Rightarrow> bool"
  fv_mounts :: "string list"
  fv_size :: "ppath \<Rightarrow> int"
  fv_bytes :: "ppath \<Rightarrow> bytes"
  fv_home :: "ppath \<Rightarrow> ppath"
  fv_cwd :: ppath
  fv_json :: "bytes \<Rightarrow> exc + pyval"

text \<open>\<open>while not existing.exists(): existing = existing.parent\<close>.\<close>

fun nearest :: "fileview \<Rightarrow> ppath list \<Rightarrow> ppath" where
  "nearest fs [] = \<lparr>pt_root = ''/'', pt_parts = []\<rparr>"
| "nearest fs [p] = p"
| "nearest fs (p # q # ps) = (if fv_exists fs p then p else nearest fs (q # ps))"

section \<open>The mount table\<close>

record mount =
  mn_id :: string
  mn_device :: string
  mn_root :: string
  mn_point :: string
  mn_options :: "string list"
  mn_type :: string
  mn_source :: string
  mn_super :: "string list"

definition octal :: "char \<Rightarrow> bool" where
  "octal c \<longleftrightarrow> 48 \<le> (of_char c :: nat) \<and> (of_char c :: nat) \<le> 55"

fun unescape :: "string \<Rightarrow> string" where
  "unescape (c # x # y # z # rest) =
     (if c = CHR 0x5C \<and> octal x \<and> octal y \<and> octal z
      then char_of (64 * (of_char x - 48) + 8 * (of_char y - 48) + (of_char z - 48 :: nat)) # unescape rest
      else c # unescape (x # y # z # rest))"
| "unescape s = s"

text \<open>\<open>s.split()\<close> and \<open>s.split(sep, 1)\<close>.\<close>

definition words :: "string \<Rightarrow> string list" where
  "words s = filter (\<lambda>w. w \<noteq> []) (split_on CHR '' '' (map (\<lambda>c. if py_space c then CHR '' '' else c) s))"

fun break_at :: "string \<Rightarrow> string \<Rightarrow> (string \<times> string) option" where
  "break_at sep [] = None"
| "break_at sep (c # cs) = (if prefix sep (c # cs) then Some ([], drop (length sep) (c # cs))
     else map_option (\<lambda>(a, b). (c # a, b)) (break_at sep cs))"

definition parse_mount :: "string \<Rightarrow> exc + mount" where
  "parse_mount line = (case break_at '' - '' line of
       None \<Rightarrow> raise ValueError ''not enough values to unpack (expected 2, got 1)''
     | Some (front, rest) \<Rightarrow> let fields = words front; system = words rest in
         if length fields < 6 \<or> length system < 3 then raise IndexError ''list index out of range''
         else Inr \<lparr>mn_id = fields ! 0, mn_device = fields ! 2, mn_root = unescape (fields ! 3), mn_point = unescape (fields ! 4),
                mn_options = split_on CHR '','' (fields ! 5), mn_type = system ! 0, mn_source = unescape (system ! 1),
                mn_super = split_on CHR '','' (system ! 2)\<rparr>)"

text \<open>The mount that holds a path: the first of those with the longest mount point.\<close>

definition deepness :: "mount \<Rightarrow> nat" where "deepness m = length (pt_parts (path_of (mn_point m)))"

fun deepest :: "mount \<Rightarrow> mount list \<Rightarrow> mount" where
  "deepest m [] = m"
| "deepest m (n # ns) = deepest (if deepness m < deepness n then n else m) ns"

definition holding_mount :: "fileview \<Rightarrow> ppath \<Rightarrow> string \<Rightarrow> string \<Rightarrow> exc + mount" where
  "holding_mount fs p none ambiguous = bindr (mapr parse_mount (fv_mounts fs)) (\<lambda>rows.
     case filter (\<lambda>row. lies_under p (path_of (mn_point row))) rows of
       [] \<Rightarrow> raise ValueError none
     | row # rest \<Rightarrow> let m = deepest row rest in
         if length (filter (\<lambda>r. mn_point r = mn_point m) (row # rest)) \<noteq> 1 then raise ValueError ambiguous else Inr m)"

section \<open>Destinations\<close>

datatype mount_identity =
    Removable_id string string string int
  | Directory_id "(string \<times> int \<times> int) list" string string string

text \<open>\<open>dg_uuid\<close> is \<open>None\<close> for an ordinary directory.\<close>

record dguard =
  dg_uuid :: "string option"
  dg_output :: ppath
  dg_identity :: "mount_identity option"

definition unlinked :: "fileview \<Rightarrow> ppath \<Rightarrow> exc + unit" where
  "unlinked fs p = all_pass (map (\<lambda>q. case fv_kind fs q of
       No_entry \<Rightarrow> Inr ()
     | Is_link \<Rightarrow> raise ValueError (''external capture path must not contain symlinks: '' @ path_str q)
     | Is_dir \<Rightarrow> Inr ()
     | _ \<Rightarrow> raise ValueError (''external capture path requires directories: '' @ path_str q)) (lineage p))"

definition read_write :: "mount \<Rightarrow> bool" where
  "read_write m \<longleftrightarrow> ''rw'' \<in> set (mn_options m) \<and> ''rw'' \<in> set (mn_super m)"

definition block_devices :: "fileview \<Rightarrow> mount \<Rightarrow> string \<Rightarrow> exc + int" where
  "block_devices fs m uuid = bindr (fv_block fs (path_of (mn_source m))) (\<lambda>actual.
     bindr (fv_block fs (join_path (path_of ''/dev/disk/by-uuid'') (path_of uuid))) (\<lambda>required.
     case (actual, required) of
       (Some a, Some r) \<Rightarrow> if a \<noteq> r then raise ValueError ''external archive mounted UUID does not match required-output-uuid'' else Inr a
     | _ \<Rightarrow> raise ValueError ''external archive UUID and source must identify block devices''))"

text \<open>The checks of a removable archive and of an ordinary directory, up to the identity.\<close>

definition removable_identity :: "fileview \<Rightarrow> ppath \<Rightarrow> string \<Rightarrow> exc + mount_identity \<times> mount" where
  "removable_identity fs output uuid =
     bindr (unlinked fs output) (\<lambda>_.
     bindr (holding_mount fs output ''output-root has no mounted filesystem'' ''external archive mount is ambiguous: stacked mounts'') (\<lambda>m.
     let mount_root = path_of (mn_point m) in
     bindr (guard (mount_root = path_of ''/'' \<or> mn_root m \<noteq> ''/'') ValueError ''external archive requires a separate whole filesystem mount'') (\<lambda>_.
     bindr (guard (\<not> read_write m) ValueError ''external archive filesystem is not mounted read-write'') (\<lambda>_.
     bindr (guard (\<not> is_absolute (path_of (mn_source m))) ValueError ''external archive mount must identify its block device'') (\<lambda>_.
     bindr (block_devices fs m uuid) (\<lambda>rdev.
     bindr (fv_dev fs mount_root) (\<lambda>mounted.
     bindr (fv_dev fs (path_of ''/'')) (\<lambda>root_device.
     bindr (guard (mounted = root_device \<or> rdev = root_device) ValueError ''external archive must not use the root filesystem'') (\<lambda>_.
     bindr (guard (fv_devname fs mounted \<noteq> mn_device m) ValueError ''external archive mount metadata changed during verification'') (\<lambda>_.
     bindr (fv_dev fs (nearest fs (lineage output))) (\<lambda>dev.
     bindr (guard (dev \<noteq> mounted) ValueError ''external output-root crosses another filesystem'') (\<lambda>_.
     Inr (Removable_id (mn_id m) (mn_device m) (path_str mount_root) rdev, m)))))))))))))"

definition directory_identity :: "fileview \<Rightarrow> ppath \<Rightarrow> exc + mount_identity \<times> mount" where
  "directory_identity fs output =
     bindr (unlinked fs output) (\<lambda>_.
     bindr (guard (fv_kind fs output \<noteq> Is_dir) ValueError ''configured directory must exist; run storage setup first'') (\<lambda>_.
     bindr (holding_mount fs output ''configured directory has no mounted filesystem'' ''configured directory mount is ambiguous'') (\<lambda>m.
     bindr (guard (\<not> read_write m) ValueError ''configured directory filesystem is not writable'') (\<lambda>_.
     bindr (guard (\<not> fv_writable fs output) ValueError ''configured directory is not writable by current user'') (\<lambda>_.
     bindr (fv_dev fs output) (\<lambda>dev.
     bindr (guard (fv_devname fs dev \<noteq> mn_device m) ValueError ''configured directory mount identity mismatch'') (\<lambda>_.
     bindr (mapr (\<lambda>p. bindr (fv_dev fs p) (\<lambda>d. bindr (fv_ino fs p) (\<lambda>i. Inr (path_str p, d, i)))) (lineage output)) (\<lambda>ancestors.
     Inr (Directory_id ancestors (mn_id m) (mn_device m) (mn_point m), m)))))))))"

definition unavailable :: "exc + 'a \<Rightarrow> exc + 'a" where
  "unavailable r = (case r of
       Inl e \<Rightarrow> if caught_by (exn_of e) OSError \<or> caught_by (exn_of e) ValueError \<or> caught_by (exn_of e) IndexError
         then raise ValueError (''CAPTURE_DESTINATION_UNAVAILABLE: '' @ str_exc e) else Inl e
     | Inr x \<Rightarrow> Inr x)"

definition same_identity :: "dguard \<Rightarrow> mount_identity \<Rightarrow> bool" where
  "same_identity g i \<longleftrightarrow> (case dg_identity g of None \<Rightarrow> True | Some j \<Rightarrow> i = j)"

text \<open>\<open>check\<close> of both classes: the identity found now, the mount that was verified, and the guard with its identity.\<close>

definition measured_identity :: "fileview \<Rightarrow> dguard \<Rightarrow> exc + mount_identity \<times> mount" where
  "measured_identity fs g = (case dg_uuid g of Some uuid \<Rightarrow> removable_identity fs (dg_output g) uuid | None \<Rightarrow> directory_identity fs (dg_output g))"

definition changed_message :: "dguard \<Rightarrow> string" where
  "changed_message g = (case dg_uuid g of Some _ \<Rightarrow> ''external archive mount changed since session verification''
     | None \<Rightarrow> ''configured directory or mount changed during the session'')"

definition destination_check :: "fileview \<Rightarrow> dguard \<Rightarrow> (exc + mount) \<times> dguard" where
  "destination_check fs g =
     (case unavailable (bindr (measured_identity fs g) (\<lambda>(i, m). if same_identity g i then Inr (i, m) else raise ValueError (changed_message g))) of
        Inl e \<Rightarrow> (Inl e, g)
      | Inr (i, m) \<Rightarrow> (Inr m, g\<lparr>dg_identity := Some i\<rparr>))"

text \<open>The constructors: the guard and its mount root.\<close>

definition uuid_text :: "string \<Rightarrow> bool" where
  "uuid_text s \<longleftrightarrow> s \<noteq> [] \<and> list_all (\<lambda>c. ascii_alnum c \<or> c = CHR ''-'') s"

definition checked_guard :: "fileview \<Rightarrow> string option \<Rightarrow> ppath \<Rightarrow> exc + dguard \<times> ppath" where
  "checked_guard fs uuid output = (case destination_check fs \<lparr>dg_uuid = uuid, dg_output = output, dg_identity = None\<rparr> of
       (Inl e, _) \<Rightarrow> Inl e
     | (Inr m, g) \<Rightarrow> Inr (g, path_of (mn_point m)))"

definition capture_destination :: "fileview \<Rightarrow> ppath \<Rightarrow> pyval \<Rightarrow> exc + dguard \<times> ppath" where
  "capture_destination fs output uuid =
     (if \<not> is_absolute output \<or> has_parent_part output
      then raise ValueError ''external output-root must be absolute without parent traversal''
      else case uuid of
          PStr s \<Rightarrow> if uuid_text s then checked_guard fs (Some s) output
            else raise ValueError ''required-output-uuid must be one filesystem UUID''
        | _ \<Rightarrow> raise ValueError ''required-output-uuid must be one filesystem UUID'')"

definition directory_destination :: "fileview \<Rightarrow> ppath \<Rightarrow> exc + dguard \<times> ppath" where
  "directory_destination fs output =
     (if \<not> is_absolute output \<or> has_parent_part output
      then raise ValueError ''directory output-root must be absolute without parent traversal''
      else checked_guard fs None output)"

section \<open>Lemmas\<close>

lemma measured_update [simp]: "measured_identity fs (g\<lparr>dg_identity := x\<rparr>) = measured_identity fs g"
  by (simp add: measured_identity_def split: option.split)

lemma destination_check_Inr:
  assumes "destination_check fs g = (Inr m, g')"
  obtains i where "measured_identity fs g = Inr (i, m)" "same_identity g i" "g' = g\<lparr>dg_identity := Some i\<rparr>"
  using assms by (cases "measured_identity fs g") (auto simp: destination_check_def unavailable_def split: if_splits)

lemma destination_check_ok:
  "measured_identity fs g = Inr (i, m) \<Longrightarrow> same_identity g i \<Longrightarrow> destination_check fs g = (Inr m, g\<lparr>dg_identity := Some i\<rparr>)"
  by (simp add: destination_check_def unavailable_def)

text \<open>A check that succeeds succeeds again on the same view, and changes nothing more.\<close>

lemma destination_check_again: "destination_check fs g = (Inr m, g') \<Longrightarrow> destination_check fs g' = (Inr m, g')"
  by (erule destination_check_Inr) (simp add: destination_check_ok same_identity_def)

text \<open>Once an identity is held it stays.\<close>

lemma destination_check_cases:
  obtains (verified) m g' where "destination_check fs g = (Inr m, g')" | (refused) e where "destination_check fs g = (Inl e, g)"
  by (cases "unavailable (bindr (measured_identity fs g) (\<lambda>(i, m). if same_identity g i then Inr (i, m) else raise ValueError (changed_message g)))")
    (auto simp: destination_check_def)

definition identified :: "mount_identity \<Rightarrow> dguard \<Rightarrow> bool" where
  "identified i g \<longleftrightarrow> dg_identity g = Some i"

lemma check_identified: "identified i g \<Longrightarrow> identified i (snd (destination_check fs g))"
  by (rule destination_check_cases [of fs g])
    (auto simp: identified_def same_identity_def elim!: destination_check_Inr)

interpretation pinned: preserves destination_check "identified i"
  by unfold_locales (rule check_identified)

definition same_destination :: "dguard \<Rightarrow> dguard \<Rightarrow> bool" where
  "same_destination g h \<longleftrightarrow> dg_uuid h = dg_uuid g \<and> dg_output h = dg_output g"

lemma check_same_destination: "same_destination g h \<Longrightarrow> same_destination g (snd (destination_check fs h))"
  by (rule destination_check_cases [of fs h])
    (auto simp: same_destination_def elim!: destination_check_Inr)

interpretation destination: preserves destination_check "same_destination g"
  by unfold_locales (rule check_same_destination)

lemma deepest_in: "deepest m ms \<in> set (m # ms)"
  by (induction ms arbitrary: m) auto

lemma holding_mount_holds: "holding_mount fs p e e' = Inr m \<Longrightarrow> lies_under p (path_of (mn_point m))"
proof -
  assume "holding_mount fs p e e' = Inr m"
  then obtain rows where r: "(case filter (\<lambda>row. lies_under p (path_of (mn_point row))) rows of
       [] \<Rightarrow> raise ValueError e
     | row # rest \<Rightarrow> let m = deepest row rest in
         if length (filter (\<lambda>r. mn_point r = mn_point m) (row # rest)) \<noteq> 1 then raise ValueError e' else Inr m) = Inr m"
    unfolding holding_mount_def by (auto simp only: bindr_eq_Inr)
  show ?thesis
  proof (cases "filter (\<lambda>row. lies_under p (path_of (mn_point row))) rows")
    case Nil
    with r show ?thesis by simp
  next
    case (Cons row rest)
    with r have "m = deepest row rest" by (simp add: Let_def split: if_split_asm)
    then have "m \<in> set (filter (\<lambda>row. lies_under p (path_of (mn_point row))) rows)" using Cons deepest_in by simp
    then show ?thesis by simp
  qed
qed

lemma measured_facts:
  assumes "measured_identity fs g = Inr (i, m)"
  shows "read_write m \<and> lies_under (dg_output g) (path_of (mn_point m))"
    and "(case i of Removable_id k d _ _ \<Rightarrow> k = mn_id m \<and> d = mn_device m | Directory_id _ k d _ \<Rightarrow> k = mn_id m \<and> d = mn_device m)"
  using assms
  by (auto simp: measured_identity_def removable_identity_def directory_identity_def result_simps Let_def split: option.splits dest: holding_mount_holds)

section \<open>Properties\<close>

text \<open>
  C25. A session keeps the file system it verified. However the mount table and the directories change between
  the checks, a check of a guard that succeeds has found the identity of the first one: the same mount, device and ancestors.
  The mount it reports holds the output root and is writable.\<close>

theorem session_keeps_its_mount:
  assumes "checked_guard fs uuid out = Inr (g, mount_root)" "destination_check now (run_state destination_check views g) = (Inr m, g')"
  shows "\<exists>i m0. measured_identity fs g = Inr (i, m0) \<and> measured_identity now g = Inr (i, m)
    \<and> mn_id m = mn_id m0 \<and> mn_device m = mn_device m0 \<and> read_write m \<and> lies_under out (path_of (mn_point m))"
proof -
  let ?g0 = "\<lparr>dg_uuid = uuid, dg_output = out, dg_identity = None\<rparr>"
  obtain m0 where "destination_check fs ?g0 = (Inr m0, g)"
    using assms(1) by (auto simp: checked_guard_def split: prod.splits sum.splits)
  then obtain i where i: "measured_identity fs ?g0 = Inr (i, m0)" "g = ?g0\<lparr>dg_identity := Some i\<rparr>" by (rule destination_check_Inr)
  let ?h = "run_state destination_check views g"
  have "identified i ?h" by (rule pinned.run_keeps) (simp add: identified_def i)
  moreover have s: "same_destination g ?h" by (rule destination.run_keeps) (simp add: same_destination_def)
  ultimately obtain j where j: "measured_identity now ?h = Inr (i, m)"
    using assms(2) by (auto simp: identified_def same_identity_def elim!: destination_check_Inr)
  have h: "measured_identity now ?h = measured_identity now g" using s by (simp add: measured_identity_def same_destination_def split: option.split)
  have g: "measured_identity fs g = Inr (i, m0)" unfolding i(2) measured_update by (rule i(1))
  have out: "dg_output ?h = out" using s i(2) by (simp add: same_destination_def)
  from measured_facts(2) [OF i(1)] measured_facts(2) [OF j] have "mn_id m = mn_id m0 \<and> mn_device m = mn_device m0"
    by (auto split: mount_identity.splits)
  with g h j measured_facts(1) [OF j] out show ?thesis by auto
qed

definition demo_mounts :: fileview where
  "demo_mounts = \<lparr>fv_kind = (\<lambda>_. Is_dir), fv_exists = (\<lambda>_. True), fv_file = (\<lambda>_. False), fv_dev = (\<lambda>_. Inr 5), fv_ino = (\<lambda>_. Inr 1),
     fv_block = (\<lambda>_. Inr None), fv_devname = (\<lambda>_. ''8:1''), fv_writable = (\<lambda>_. True),
     fv_mounts = [''30 1 8:1 / /my'' @ [CHR 0x5C] @ ''040disk rw - ext4 /dev/sda1 rw'', ''29 1 8:1 / / rw - ext4 /dev/sda1 rw''], fv_size = (\<lambda>_. 0), fv_bytes = (\<lambda>_. []),
     fv_home = (\<lambda>p. p), fv_cwd = path_of ''/'', fv_json = (\<lambda>_. Inr PNone)\<rparr>"

theorem session_keeps_its_mount_witness:
  "(case checked_guard demo_mounts None (path_of ''/my disk/wc'') of Inl _ \<Rightarrow> False
    | Inr (g, _) \<Rightarrow> (case destination_check demo_mounts (run_state destination_check [demo_mounts\<lparr>fv_mounts := []\<rparr>] g) of
        (Inr m, _) \<Rightarrow> lies_under (path_of ''/my disk/wc'') (path_of (mn_point m)) | _ \<Rightarrow> False))"
proof -
  have "map_sum (\<lambda>_. ()) (\<lambda>(g, r). map_sum (\<lambda>_. ()) mn_id (fst (destination_check demo_mounts (run_state destination_check [demo_mounts\<lparr>fv_mounts := []\<rparr>] g))))
      (checked_guard demo_mounts None (path_of ''/my disk/wc'')) = Inr (Inr ''30'')" by code_simp
  then obtain g r where g: "checked_guard demo_mounts None (path_of ''/my disk/wc'') = Inr (g, r)"
    and k: "map_sum (\<lambda>_. ()) mn_id (fst (destination_check demo_mounts (run_state destination_check [demo_mounts\<lparr>fv_mounts := []\<rparr>] g))) = Inr ''30''"
    by (cases "checked_guard demo_mounts None (path_of ''/my disk/wc'')") (auto simp del: run_state.simps)
  from k obtain m h where m: "destination_check demo_mounts (run_state destination_check [demo_mounts\<lparr>fv_mounts := []\<rparr>] g) = (Inr m, h)"
    by (cases "destination_check demo_mounts (run_state destination_check [demo_mounts\<lparr>fv_mounts := []\<rparr>] g)"; cases "fst (destination_check demo_mounts (run_state destination_check [demo_mounts\<lparr>fv_mounts := []\<rparr>] g))")
      (simp_all del: run_state.simps)
  show ?thesis using session_keeps_its_mount [OF g m] by (auto simp: g m simp del: run_state.simps)
qed

end
