(* ===== verification/Storage_Policy.thy ===== *)
theory Storage_Policy
  imports Storage_Paths
begin

text \<open>
  \<open>src/src/wc_runtime/storage_policy.py\<close>: where the data of the project lives. A policy is read once from the local
  configuration or the base one; references are then resolved into the project or into the configured archive, never
  with a fallback between the two. Also the publication step of \<open>storage_atomic.py\<close>.

  Not modelled: \<open>snapshot_configuration\<close> and the command line (file output), and the lock file of the publication.
\<close>

section \<open>The policy\<close>

record spolicy =
  sp_root :: ppath
  sp_enabled :: bool
  sp_archive :: ppath
  sp_guard :: "(dguard \<times> ppath) option"
  sp_mount :: "ppath option"
  sp_uuid :: pyval
  sp_original :: ppath
  sp_backend :: string
  sp_files :: "(string \<times> bytes) list"
  sp_config :: "ppath option"

definition data_names :: "string list" where "data_names = [''data'', ''reports'', ''maps'']"

definition local_names :: "string list" where
  "local_names = [''src'', ''scripts'', ''config'', ''install'', ''build'', ''.phase1_runtime'', ''tests'', ''docs'', ''state'', ''vendor_patches'']"

definition orin_project :: ppath where "orin_project = path_of ''/home/nvidia/wheelchair''"

definition ordinary :: "fileview \<Rightarrow> ppath \<Rightarrow> exc + ppath" where
  "ordinary fs p =
     (if has_parent_part p then raise ValueError ''STORAGE_PATH_INVALID: parent traversal is not allowed''
      else case find (\<lambda>q. fv_kind fs q = Is_link) (lineage p) of
          Some q \<Rightarrow> raise ValueError (''STORAGE_PATH_INVALID: symlinks or junctions are not allowed: '' @ path_str q)
        | None \<Rightarrow> Inr p)"

text \<open>The two configuration files, read once; sizes are checked before the bytes are kept.\<close>

fun read_files :: "fileview \<Rightarrow> ppath list \<Rightarrow> exc + (string \<times> bytes) list" where
  "read_files fs [] = Inr []"
| "read_files fs (p # ps) =
     (if \<not> fv_exists fs p then read_files fs ps
      else if \<not> fv_file fs p \<or> 16384 < fv_size fs p then raise ValueError ''STORAGE_CONFIG_INVALID: expected a small ordinary JSON file''
      else bindr (read_files fs ps) (\<lambda>files. Inr ((last (pt_parts p), fv_bytes fs p) # files)))"

text \<open>The backend the configuration selects; \<open>None\<close> where schema 1 is switched off.\<close>

definition select_backend :: "pydict \<Rightarrow> exc + string option" where
  "select_backend v =
     (if \<not> is_int (dget v ''schema_version'') then raise ValueError ''STORAGE_CONFIG_INVALID: explicit schema_version required''
      else if dget v ''schema_version'' = PInt 1
      then (case dget v ''enabled'' of
          PBool b \<Rightarrow> Inr (if b then Some ''removable'' else None)
        | _ \<Rightarrow> raise ValueError ''STORAGE_CONFIG_INVALID: schema 1 requires explicit enabled'')
      else if dget v ''schema_version'' = PInt 2
      then (if has_key v ''enabled'' \<and> dget v ''enabled'' \<noteq> PBool True
            then raise ValueError ''STORAGE_CONFIG_INVALID: schema 2 requires enabled=true when supplied''
            else if dget v ''backend'' = PStr ''directory'' then Inr (Some ''directory'')
            else if dget v ''backend'' = PStr ''removable'' then Inr (Some ''removable'')
            else raise ValueError ''STORAGE_CONFIG_INVALID: directory or removable backend required'')
      else raise ValueError ''STORAGE_CONFIG_INVALID: unsupported schema_version'')"

definition configured_path :: "fileview \<Rightarrow> string \<Rightarrow> pyval \<Rightarrow> exc + ppath" where
  "configured_path fs field raw = (case raw of
       PStr s \<Rightarrow> if s = [] then raise ValueError (''STORAGE_CONFIG_INVALID: nonempty '' @ field @ '' required'')
         else bindr (ordinary fs (fv_home fs (path_of s))) (\<lambda>p.
           if \<not> is_absolute p then raise ValueError ''STORAGE_CONFIG_INVALID: absolute or home-relative roots required'' else Inr p)
     | _ \<Rightarrow> raise ValueError (''STORAGE_CONFIG_INVALID: nonempty '' @ field @ '' required''))"

text \<open>The roots of an enabled policy, on a policy that already holds the files.\<close>

definition configure :: "fileview \<Rightarrow> pydict \<Rightarrow> string \<Rightarrow> spolicy \<Rightarrow> exc + spolicy" where
  "configure fs v backend p =
     bindr (guard (dget v ''fallback_allowed'' \<noteq> PBool False) ValueError ''STORAGE_CONFIG_INVALID: configured storage must disable fallback'') (\<lambda>_.
     bindr (configured_path fs ''archive_root'' (dget v ''archive_root'')) (\<lambda>archive.
     bindr (configured_path fs ''original_project_root'' (dget_or v ''original_project_root'' (PStr (path_str (sp_root p))))) (\<lambda>original.
     bindr (guard (lies_under archive (sp_root p) \<or> lies_under (sp_root p) archive) ValueError ''STORAGE_CONFIG_INVALID: archive and code roots must be separate'') (\<lambda>_.
     bindr (if backend = ''removable''
            then bindr (configured_path fs ''mount_point'' (dget v ''mount_point'')) (\<lambda>mount.
              if \<not> lies_under archive mount \<or> archive = mount then raise ValueError ''STORAGE_CONFIG_INVALID: archive root must be a child of the mount''
              else Inr (Some mount))
            else if has_key v ''required_uuid'' \<or> has_key v ''mount_point''
            then raise ValueError ''STORAGE_CONFIG_INVALID: directory backend does not accept USB identity fields''
            else Inr None) (\<lambda>mount.
     Inr (p\<lparr>sp_enabled := True, sp_archive := archive, sp_original := original, sp_backend := backend, sp_mount := mount,
           sp_uuid := (if backend = ''removable'' then dget v ''required_uuid'' else PNone)\<rparr>))))))"

definition storage_policy :: "fileview \<Rightarrow> ppath \<Rightarrow> exc + spolicy" where
  "storage_policy fs project_root =
     bindr (ordinary fs (join_path (fv_cwd fs) project_root)) (\<lambda>root.
     bindr (ordinary fs (join_path root (path_of ''config/storage.json''))) (\<lambda>base.
     bindr (ordinary fs (join_path root (path_of ''config/storage.local.json''))) (\<lambda>local.
     let configuration = (if fv_exists fs local then local else base) in
     bindr (read_files fs [base, local]) (\<lambda>files.
     let p = \<lparr>sp_root = root, sp_enabled = False, sp_archive = root, sp_guard = None, sp_mount = None, sp_uuid = PNone, sp_original = root,
                sp_backend = ''legacy'', sp_files = files, sp_config = None\<rparr> in
     if \<not> fv_exists fs configuration
     then (if root = orin_project \<or> fv_file fs (join_path root (path_of ''scripts/wc_phase1''))
           then raise ValueError ''STORAGE_CONFIG_MISSING: explicit storage configuration is required'' else Inr p)
     else bindr (fv_json fs (the (map_of files (last (pt_parts configuration))))) (\<lambda>v. case v of
         PDict d \<Rightarrow> bindr (select_backend d) (\<lambda>backend. case backend of
             None \<Rightarrow> Inr (p\<lparr>sp_config := Some configuration\<rparr>)
           | Some b \<Rightarrow> configure fs d b (p\<lparr>sp_config := Some configuration\<rparr>))
       | _ \<Rightarrow> raise ValueError ''STORAGE_CONFIG_INVALID: explicit schema_version required'')))))"

section \<open>Checking and resolving\<close>

definition destination_guard :: "fileview \<Rightarrow> spolicy \<Rightarrow> ppath \<Rightarrow> exc + (dguard \<times> ppath) option" where
  "destination_guard fs p output =
     (if sp_backend p = ''removable''
      then bindr (capture_destination fs output (sp_uuid p)) (\<lambda>(g, mount_root).
        if Some mount_root \<noteq> sp_mount p then raise ValueError ''STORAGE_CONFIG_INVALID: actual mount differs from configured mount''
        else Inr (Some (g, mount_root)))
      else if sp_backend p = ''directory'' then bindr (directory_destination fs output) (\<lambda>g. Inr (Some g))
      else Inr None)"

definition policy_check :: "fileview \<Rightarrow> spolicy \<Rightarrow> (exc + mount option) \<times> spolicy" where
  "policy_check fs p =
     (case (if sp_enabled p \<and> sp_guard p = None then destination_guard fs p (sp_archive p) else Inr (sp_guard p)) of
        Inl e \<Rightarrow> (Inl e, p)
      | Inr None \<Rightarrow> (Inr None, p)
      | Inr (Some (g, mount_root)) \<Rightarrow> (case destination_check fs g of
            (Inl e, g) \<Rightarrow> (Inl e, p\<lparr>sp_guard := Some (g, mount_root)\<rparr>)
          | (Inr m, g) \<Rightarrow> (Inr (Some m), p\<lparr>sp_guard := Some (g, mount_root)\<rparr>)))"

text \<open>\<open>_external\<close> reads \<open>self.guard.mount_root\<close>, which a policy that is not enabled does not have.\<close>

definition external_path :: "fileview \<Rightarrow> ppath \<Rightarrow> spolicy \<Rightarrow> (exc + ppath) \<times> spolicy" where
  "external_path fs q p = andthen (policy_check fs p) (\<lambda>p.
     (bindr (ordinary fs q) (\<lambda>q. bindr (fv_dev fs (nearest fs (lineage q))) (\<lambda>dev.
        case sp_guard p of
          None \<Rightarrow> raise AttributeError ''mount_root''
        | Some (g, mount_root) \<Rightarrow> bindr (fv_dev fs mount_root) (\<lambda>mounted.
            if dev \<noteq> mounted then raise ValueError ''STORAGE_PATH_INVALID: data path crosses another mounted filesystem'' else Inr q))), p))"

definition project_relative :: "spolicy \<Rightarrow> ppath \<Rightarrow> ppath option" where
  "project_relative p q = (if lies_under q (sp_root p) then Some (relative_to q (sp_root p))
     else if lies_under q (sp_original p) then Some (relative_to q (sp_original p)) else None)"

definition data_reference :: "ppath \<Rightarrow> bool" where
  "data_reference r \<longleftrightarrow> (case pt_parts r of [] \<Rightarrow> False | d # _ \<Rightarrow> d \<in> set data_names \<or> d = ''dev_archive'')"

definition resolve :: "fileview \<Rightarrow> ppath \<Rightarrow> spolicy \<Rightarrow> (exc + ppath) \<times> spolicy" where
  "resolve fs v p =
     (if has_parent_part v then (raise ValueError ''STORAGE_PATH_INVALID: parent traversal is not allowed'', p)
      else let q = join_path (sp_root p) v in
      if sp_enabled p \<and> lies_under q (sp_archive p) then external_path fs q p
      else case project_relative p q of
          None \<Rightarrow> (raise ValueError (''STORAGE_PATH_OUTSIDE_ALLOWED_ROOTS: '' @ path_str q), p)
        | Some r \<Rightarrow> if sp_enabled p \<and> data_reference r then external_path fs (join_path (sp_archive p) r) p
            else (ordinary fs (join_path (sp_root p) r), p))"

definition data_roots :: "fileview \<Rightarrow> spolicy \<Rightarrow> (exc + ppath list) \<times> spolicy" where
  "data_roots fs p = andthen (policy_check fs p) (\<lambda>p.
     (Inr (map (\<lambda>name. join_path (if sp_enabled p then sp_archive p else sp_root p) (path_of name)) data_names), p))"

definition logical_base :: "spolicy \<Rightarrow> ppath \<Rightarrow> ppath" where
  "logical_base p q = (if sp_enabled p \<and> lies_under q (sp_archive p) then sp_archive p else sp_root p)"

definition logical :: "fileview \<Rightarrow> ppath \<Rightarrow> spolicy \<Rightarrow> (exc + string) \<times> spolicy" where
  "logical fs v p = bindm (resolve fs v p) (\<lambda>q p. (Inr (path_str (relative_to q (logical_base p q))), p))"

text \<open>Code and runtime names are resolved without the configuration.\<close>

definition resolve_storage_path :: "fileview \<Rightarrow> ppath \<Rightarrow> ppath \<Rightarrow> exc + ppath" where
  "resolve_storage_path fs project_root v =
     bindr (ordinary fs (join_path (fv_cwd fs) project_root)) (\<lambda>root.
     if has_parent_part v then raise ValueError ''STORAGE_PATH_INVALID: parent traversal is not allowed''
     else let q = join_path root v;
              candidate = (if lies_under q root then Some root else if lies_under q orin_project then Some orin_project else None);
              configured = bindr (storage_policy fs project_root) (\<lambda>p. fst (resolve fs v p))
       in (case candidate of
             None \<Rightarrow> configured
           | Some c \<Rightarrow> let r = relative_to q c in
               if pt_parts r = [] \<or> hd (pt_parts r) \<in> set local_names then ordinary fs (join_path root r) else configured))"

section \<open>Publication\<close>

text \<open>\<open>rename_on_configured_archive\<close>, with the views before the rename and at the check that follows it: the
  rename that was made, if any, and how the call ends.\<close>

definition siblings_in_archive :: "spolicy \<Rightarrow> ppath \<Rightarrow> ppath \<Rightarrow> bool" where
  "siblings_in_archive p source destination \<longleftrightarrow> sp_enabled p \<and> lies_under source (sp_archive p) \<and> lies_under destination (sp_archive p)
     \<and> pt_root source = pt_root destination \<and> butlast (pt_parts source) = butlast (pt_parts destination) \<and> source \<noteq> destination"

definition publish_in_archive :: "fileview \<Rightarrow> fileview \<Rightarrow> ppath \<Rightarrow> ppath \<Rightarrow> spolicy \<Rightarrow> (exc + unit) \<times> (ppath \<times> ppath) list" where
  "publish_in_archive fs later source destination p =
     (let source = join_path (fv_cwd fs) source; destination = join_path (fv_cwd fs) destination in
      if \<not> siblings_in_archive p source destination then (raise ValueError ''Cooperative publication requires sibling paths on configured archive'', [])
      else case resolve fs source p of (Inl e, _) \<Rightarrow> (Inl e, []) | (Inr _, p) \<Rightarrow>
       (case resolve fs destination p of (Inl e, _) \<Rightarrow> (Inl e, []) | (Inr _, p) \<Rightarrow>
        if \<not> fv_exists fs source \<or> fv_kind fs source = Is_link then (raise ValueError ''Archive publication source is absent or linked'', [])
        else if fv_kind fs destination \<noteq> No_entry then (raise FileExistsError (''Archive destination already exists: '' @ path_str destination), [])
        else (bindr (fst (policy_check later p)) (\<lambda>_. Inr ()), [(source, destination)])))"

section \<open>Lemmas\<close>

lemma lineage_self: "p \<in> set (lineage p)"
  by (force simp: lineage_def)

lemma ordinary_Inr: "ordinary fs p = Inr q \<Longrightarrow> q = p \<and> \<not> has_parent_part q \<and> list_all (\<lambda>a. fv_kind fs a \<noteq> Is_link) (lineage q)"
  by (auto simp: ordinary_def list_all_iff find_None_iff split: if_splits option.splits)

lemma relative_joined: "is_absolute p = False \<Longrightarrow> lies_under (join_path base p) base" "is_absolute p = False \<Longrightarrow> pt_parts (relative_to (join_path base p) base) = pt_parts p"
  by (auto simp: join_path_def lies_under_def relative_to_def)

lemma relative_not_absolute [simp]: "\<not> is_absolute (relative_to p q)"
  by (simp add: relative_to_def is_absolute_def)

lemma relative_parts: "set (pt_parts (relative_to p q)) \<subseteq> set (pt_parts p)"
  by (auto simp: relative_to_def dest: in_set_dropD)

lemma joined_again: "lies_under p q \<Longrightarrow> join_path q (relative_to p q) = p"
  by (cases p; cases q) (auto simp: lies_under_def join_path_def relative_to_def is_absolute_def prefix_def)

text \<open>Two roots of which neither holds the other have no common path below them.\<close>

lemma separate_roots: "lies_under q a \<Longrightarrow> lies_under q b \<Longrightarrow> lies_under a b \<or> lies_under b a"
  by (auto simp: lies_under_def prefix_def append_eq_append_conv2) metis

definition separated :: "spolicy \<Rightarrow> bool" where
  "separated p \<longleftrightarrow> is_absolute (sp_root p) \<and> (sp_enabled p \<longrightarrow> is_absolute (sp_archive p) \<and> \<not> lies_under (sp_archive p) (sp_root p) \<and> \<not> lies_under (sp_root p) (sp_archive p))"

lemma configured_path_absolute: "configured_path fs f v = Inr q \<Longrightarrow> is_absolute q"
  by (auto simp: configured_path_def result_simps split: pyval.splits if_splits)

lemma storage_policy_separated:
  assumes "storage_policy fs r = Inr p" "is_absolute (fv_cwd fs)" shows "separated p"
proof -
  have abs: "is_absolute (join_path (fv_cwd fs) r)" using assms(2) by (simp add: join_path_def is_absolute_def)
  have conf: "separated p" if "configure fs d b p0 = Inr p" "is_absolute (sp_root p0)" for d b p0
    using that by (auto simp: configure_def result_simps separated_def dest: configured_path_absolute)
  from assms(1) obtain root base local files where o: "ordinary fs (join_path (fv_cwd fs) r) = Inr root"
    and rest: "(let configuration = (if fv_exists fs local then local else base);
        p = \<lparr>sp_root = root, sp_enabled = False, sp_archive = root, sp_guard = None, sp_mount = None, sp_uuid = PNone, sp_original = root,
                sp_backend = ''legacy'', sp_files = files, sp_config = None\<rparr> in
     if \<not> fv_exists fs configuration
     then (if root = orin_project \<or> fv_file fs (join_path root (path_of ''scripts/wc_phase1''))
           then raise ValueError ''STORAGE_CONFIG_MISSING: explicit storage configuration is required'' else Inr p)
     else bindr (fv_json fs (the (map_of files (last (pt_parts configuration))))) (\<lambda>v. case v of
         PDict d \<Rightarrow> bindr (select_backend d) (\<lambda>backend. case backend of
             None \<Rightarrow> Inr (p\<lparr>sp_config := Some configuration\<rparr>)
           | Some b \<Rightarrow> configure fs d b (p\<lparr>sp_config := Some configuration\<rparr>))
       | _ \<Rightarrow> raise ValueError ''STORAGE_CONFIG_INVALID: explicit schema_version required'')) = Inr p"
    unfolding storage_policy_def Let_def by (auto simp: result_simps)
  have plain: "separated q" if "\<not> sp_enabled q" "is_absolute (sp_root q)" for q using that by (simp add: separated_def)
  have root: "is_absolute root" using ordinary_Inr [OF o] abs by simp
  show ?thesis
    using rest root plain by (auto simp: Let_def result_simps split: if_splits pyval.splits option.splits elim!: conf)
qed

lemma policy_check_fields: "policy_check fs p = (r, p') \<Longrightarrow> \<exists>g. p' = p\<lparr>sp_guard := g\<rparr>"
  by (cases p) (auto simp: policy_check_def split: sum.splits option.splits prod.splits)

lemma external_path_Inr:
  assumes "external_path fs q p = (Inr q', p')"
  obtains g m where "policy_check fs p = (Inr m, p')" "sp_guard p' = Some g" "ordinary fs q = Inr q" "q' = q"
    "fv_dev fs (nearest fs (lineage q)) = fv_dev fs (snd g)"
proof -
  from assms obtain m where c: "policy_check fs p = (Inr m, p')"
    and r: "bindr (ordinary fs q) (\<lambda>q. bindr (fv_dev fs (nearest fs (lineage q))) (\<lambda>dev.
        case sp_guard p' of
          None \<Rightarrow> raise AttributeError ''mount_root''
        | Some (g, mount_root) \<Rightarrow> bindr (fv_dev fs mount_root) (\<lambda>mounted.
            if dev \<noteq> mounted then raise ValueError ''STORAGE_PATH_INVALID: data path crosses another mounted filesystem'' else Inr q))) = Inr q'"
    by (auto simp: external_path_def andthen_ok)
  from r obtain g where g: "ordinary fs q = Inr q" "sp_guard p' = Some g" "q' = q" "fv_dev fs (nearest fs (lineage q)) = fv_dev fs (snd g)"
    by (auto simp: result_simps split: option.splits if_splits dest: ordinary_Inr)
  with c show thesis using that by blast
qed

lemma policy_check_again:
  assumes "policy_check fs p = (Inr m, p')" shows "policy_check fs p' = (Inr m, p')"
proof -
  have e: "\<exists>g r. destination_check fs g0 = (Inr m', g) \<and> p' = p\<lparr>sp_guard := Some (g, r)\<rparr> \<and> m = Some m'"
    if "destination_check fs g0 = (Inr m', g)" "p' = p\<lparr>sp_guard := Some (g, r)\<rparr>" "m = Some m'" for g0 g r m' using that by blast
  show ?thesis
  proof (cases "sp_guard p' = None")
    case True
    with assms show ?thesis
      by (auto simp: policy_check_def split: if_splits sum.splits option.splits prod.splits)
  next
    case False
    from assms False obtain g0 g r m' where "destination_check fs g0 = (Inr m', g)" "p' = p\<lparr>sp_guard := Some (g, r)\<rparr>" "m = Some m'"
      by (auto simp: policy_check_def split: if_splits sum.splits option.splits prod.splits)
    with destination_check_again show ?thesis by (simp add: policy_check_def)
  qed
qed

text \<open>How a successful \<open>resolve\<close> ends.\<close>

lemma resolve_cases:
  assumes "resolve fs v p = (Inr q, p')"
  obtains (archive) "sp_enabled p" "lies_under q (sp_archive p)" "q = join_path (sp_root p) v" "external_path fs q p = (Inr q, p')"
  | (data) r where "sp_enabled p" "data_reference r" "q = join_path (sp_archive p) r" "external_path fs q p = (Inr q, p')"
      "project_relative p (join_path (sp_root p) v) = Some r" "\<not> lies_under (join_path (sp_root p) v) (sp_archive p)"
  | (project) r where "\<not> (sp_enabled p \<and> data_reference r)" "q = join_path (sp_root p) r" "ordinary fs q = Inr q" "p' = p"
      "project_relative p (join_path (sp_root p) v) = Some r" "\<not> (sp_enabled p \<and> lies_under (join_path (sp_root p) v) (sp_archive p))"
proof -
  let ?q = "join_path (sp_root p) v"
  have same: "q' = q" if "external_path fs q' p = (Inr q, p')" for q' using external_path_Inr [OF that] by blast
  have r: "(if sp_enabled p \<and> lies_under ?q (sp_archive p) then external_path fs ?q p
      else case project_relative p ?q of
          None \<Rightarrow> (raise ValueError (''STORAGE_PATH_OUTSIDE_ALLOWED_ROOTS: '' @ path_str ?q), p)
        | Some r \<Rightarrow> if sp_enabled p \<and> data_reference r then external_path fs (join_path (sp_archive p) r) p
            else (ordinary fs (join_path (sp_root p) r), p)) = (Inr q, p')"
    using assms by (cases "has_parent_part v") (simp_all only: resolve_def Let_def if_True if_False prod.inject sum.distinct simp_thms)
  show thesis
  proof (cases "sp_enabled p \<and> lies_under ?q (sp_archive p)")
    case True
    with r have "external_path fs ?q p = (Inr q, p')" by simp
    with True same archive show thesis by auto
  next
    case False
    with r obtain x where x: "project_relative p ?q = Some x" by (cases "project_relative p ?q") (simp_all only: if_False option.case prod.inject sum.distinct simp_thms)
    show thesis
    proof (cases "sp_enabled p \<and> data_reference x")
      case True
      with r False x have "external_path fs (join_path (sp_archive p) x) p = (Inr q, p')" by simp
      with True False x same data show thesis by blast
    next
      case other: False
      with r False x have o: "ordinary fs (join_path (sp_root p) x) = Inr q" "p' = p" by auto
      then have "join_path (sp_root p) x = q" using ordinary_Inr by blast
      with o other False x project show thesis by blast
    qed
  qed
qed

lemma project_relative_parts: "project_relative p (join_path b v) = Some r \<Longrightarrow> \<not> is_absolute r"
  by (auto simp: project_relative_def split: if_splits)

lemma data_reference_relative: "\<not> is_absolute r \<Longrightarrow> pt_parts (relative_to (join_path b r) b) = pt_parts r"
  by (rule relative_joined(2)) simp

lemma external_path_again: "external_path fs q p = (Inr q', p') \<Longrightarrow> external_path fs q p' = (Inr q', p')"
proof -
  assume e: "external_path fs q p = (Inr q', p')"
  then obtain m where "policy_check fs p = (Inr m, p')" by (rule external_path_Inr)
  moreover from this have "policy_check fs p' = (Inr m, p')" by (rule policy_check_again)
  ultimately show ?thesis using e by (simp add: external_path_def)
qed

lemma external_path_fields: "external_path fs q p = (Inr q', p') \<Longrightarrow> \<exists>g. p' = p\<lparr>sp_guard := g\<rparr>"
  by (erule external_path_Inr) (rule policy_check_fields)

subsection \<open>Printing and reading relative paths\<close>

definition plain_parts :: "string list \<Rightarrow> bool" where
  "plain_parts ps \<longleftrightarrow> list_all (\<lambda>p. p \<noteq> '''' \<and> p \<noteq> ''.'' \<and> CHR ''/'' \<notin> set p) ps"

lemma split_on_append: "c \<notin> set w \<Longrightarrow> split_on c (w @ c # s) = w # split_on c s"
  by (induction w) auto

lemma split_join: "ps \<noteq> [] \<Longrightarrow> list_all (\<lambda>p. CHR ''/'' \<notin> set p) ps \<Longrightarrow> split_on CHR ''/'' (join_with ''/'' ps) = ps"
  by (induction "''/''" ps rule: join_with.induct) (simp_all add: split_on_plain split_on_append)

lemma path_of_plain: "plain_parts (pt_parts (path_of s))"
  by (auto simp: path_of_def plain_parts_def list_all_iff dest: split_on_pieces)

lemma path_of_relative:
  assumes "plain_parts ps" shows "path_of (path_str \<lparr>pt_root = '''', pt_parts = ps\<rparr>) = \<lparr>pt_root = '''', pt_parts = ps\<rparr>"
proof (cases ps)
  case Nil
  then show ?thesis by (simp add: path_str_def path_of_def)
next
  case (Cons a as)
  have ps: "filter (\<lambda>p. p \<noteq> '''' \<and> p \<noteq> ''.'') ps = ps" "list_all (\<lambda>p. CHR ''/'' \<notin> set p) ps"
    using assms by (auto simp: plain_parts_def list_all_iff filter_id_conv)
  obtain x xs where a: "a = x # xs" "x \<noteq> CHR ''/''" using assms Cons by (cases a) (auto simp: plain_parts_def)
  have "take 1 (join_with ''/'' ps) = [x]" using Cons a by (cases as) simp_all
  with a have "take 1 (join_with ''/'' ps) \<noteq> ''/''" by simp
  with ps Cons show ?thesis by (simp add: path_str_def path_of_def split_join [of ps, unfolded Cons, simplified])
qed


subsection \<open>Resolving a logical name\<close>

lemma relative_rejoined: "\<not> is_absolute r \<Longrightarrow> relative_to (join_path b r) b = r"
  by (cases r) (simp add: relative_to_def join_path_def is_absolute_def)

lemma project_relative_subset: "project_relative p (join_path (sp_root p) v) = Some r \<Longrightarrow> set (pt_parts r) \<subseteq> set (pt_parts v)"
proof (cases "is_absolute v")
  case True
  assume "project_relative p (join_path (sp_root p) v) = Some r"
  with True show ?thesis using relative_parts by (auto simp: project_relative_def join_path_def split: if_splits)
next
  case False
  assume "project_relative p (join_path (sp_root p) v) = Some r"
  with False have "r = v" using relative_rejoined relative_joined(1) by (simp add: project_relative_def)
  then show ?thesis by simp
qed

lemma not_both: "separated p \<Longrightarrow> sp_enabled p \<Longrightarrow> lies_under q (sp_archive p) \<Longrightarrow> \<not> lies_under q (sp_root p)"
  using separate_roots by (auto simp: separated_def)

lemma resolve_shape:
  assumes sep: "separated p" and r: "resolve fs v p = (Inr q, p')"
  shows "set (pt_parts (relative_to q (logical_base p q))) \<subseteq> set (pt_parts v) \<and> \<not> has_parent_part q \<and> lies_under q (logical_base p q)
    \<and> (if sp_enabled p \<and> lies_under q (sp_archive p) then external_path fs q p' = (Inr q, p')
       else \<not> (sp_enabled p \<and> data_reference (relative_to q (sp_root p))) \<and> ordinary fs q = Inr q)"
  using r
proof (cases rule: resolve_cases)
  case archive
  have "is_absolute v"
  proof (rule ccontr)
    assume "\<not> is_absolute v"
    then have "lies_under q (sp_root p)" using archive(3) relative_joined(1) by simp
    with not_both [OF sep archive(1,2)] show False by simp
  qed
  then have "q = v" using archive(3) by (simp add: join_path_def)
  have "\<not> has_parent_part q" using archive(4) by (rule external_path_Inr) (auto dest: ordinary_Inr)
  with \<open>q = v\<close> show ?thesis using archive external_path_again relative_parts by (auto simp: logical_base_def)
next
  case (data x)
  have x: "\<not> is_absolute x" using data(5) by (rule project_relative_parts)
  then have u: "lies_under q (sp_archive p)" "relative_to q (sp_archive p) = x" using data(3) relative_joined(1) relative_rejoined by simp_all
  have "\<not> has_parent_part q" using data(4) by (rule external_path_Inr) (auto dest: ordinary_Inr)
  with u show ?thesis using data(1,4,5) external_path_again project_relative_subset by (auto simp: logical_base_def)
next
  case (project x)
  have x: "\<not> is_absolute x" using project(5) by (rule project_relative_parts)
  then have u: "lies_under q (sp_root p)" "relative_to q (sp_root p) = x" using project(2) relative_joined(1) relative_rejoined by simp_all
  have n: "\<not> (sp_enabled p \<and> lies_under q (sp_archive p))" using not_both [OF sep] u(1) by blast
  have "\<not> has_parent_part q" using ordinary_Inr [OF project(3)] by simp
  with u n show ?thesis using project(1,3,5) project_relative_subset by (auto simp: logical_base_def)
qed

lemma resolve_again:
  assumes sep: "separated p" and q: "\<not> has_parent_part q" "lies_under q (logical_base p q)"
    and d: "sp_enabled p \<and> lies_under q (sp_archive p) \<Longrightarrow> data_reference (relative_to q (sp_archive p))"
    and how: "if sp_enabled p \<and> lies_under q (sp_archive p) then external_path fs q p = (Inr q, p)
       else \<not> (sp_enabled p \<and> data_reference (relative_to q (sp_root p))) \<and> ordinary fs q = Inr q"
  shows "resolve fs (relative_to q (logical_base p q)) p = (Inr q, p)"
proof -
  let ?b = "logical_base p q"
  let ?r = "relative_to q ?b"
  have np: "\<not> has_parent_part ?r" using q(1) relative_parts by (auto simp: has_parent_part_def)
  have u: "lies_under (join_path (sp_root p) ?r) (sp_root p)" "project_relative p (join_path (sp_root p) ?r) = Some ?r"
    using relative_joined(1) relative_rejoined by (simp_all add: project_relative_def)
  have na: "\<not> (sp_enabled p \<and> lies_under (join_path (sp_root p) ?r) (sp_archive p))" using not_both [OF sep] u(1) by blast
  have rejoin: "join_path ?b ?r = q" using q(2) by (rule joined_again)
  show ?thesis
  proof (cases "sp_enabled p \<and> lies_under q (sp_archive p)")
    case True
    then have "?b = sp_archive p" by (simp add: logical_base_def)
    with True how d np na u rejoin show ?thesis unfolding resolve_def Let_def by simp
  next
    case False
    then have "?b = sp_root p" by (auto simp: logical_base_def)
    with False how np na u rejoin show ?thesis unfolding resolve_def Let_def by simp
  qed
qed

section \<open>Properties\<close>

definition demo_view :: fileview where
  "demo_view = \<lparr>fv_kind = (\<lambda>p. if p = path_of ''/code/config/storage.json'' then Is_regular else Is_dir),
     fv_exists = (\<lambda>p. p \<noteq> path_of ''/code/config/storage.local.json'' \<and> p \<noteq> path_of ''/disk/wc/maps/a''), fv_file = (\<lambda>p. p = path_of ''/code/config/storage.json''),
     fv_dev = (\<lambda>p. Inr 5), fv_ino = (\<lambda>p. Inr 1), fv_block = (\<lambda>p. Inr None), fv_devname = (\<lambda>_. ''8:1''), fv_writable = (\<lambda>_. True),
     fv_mounts = [''30 1 8:1 / / rw - ext4 /dev/sda1 rw''], fv_size = (\<lambda>_. 100), fv_bytes = (\<lambda>_. []), fv_home = (\<lambda>p. p), fv_cwd = path_of ''/'',
     fv_json = (\<lambda>_. Inr (PDict [(''schema_version'', PInt 2), (''backend'', PStr ''directory''), (''fallback_allowed'', PBool False), (''archive_root'', PStr ''/disk/wc'')]))\<rparr>"

lemma demo_enabled: "map_sum (\<lambda>_. ()) sp_enabled (storage_policy demo_view (path_of ''/code'')) = Inr True"
  by code_simp

lemma demo_resolved: "map_sum (\<lambda>_. ()) (\<lambda>p. fst (resolve demo_view (path_of ''maps/a'') p)) (storage_policy demo_view (path_of ''/code'')) = Inr (Inr (path_of ''/disk/wc/maps/a''))"
  by code_simp

lemma demo_logical: "map_sum (\<lambda>_. ()) (\<lambda>p. (fst (logical demo_view (path_of ''maps/a'') p), data_reference (relative_to (path_of ''/disk/wc/maps/a'') (sp_archive p))))
    (storage_policy demo_view (path_of ''/code'')) = Inr (Inr ''maps/a'', True)"
  by code_simp

text \<open>
  C18. A resolved reference is confined. It has no parent part and no link on its way to the root; it is below
  the project, or below the configured archive, on the file system the session's guard verified. With a
  configured archive, a relative reference to data, reports, maps or the development archive is below the archive: there
  is no fallback into the project.\<close>

theorem resolve_confined:
  assumes "storage_policy fs0 project = Inr p0" "is_absolute (fv_cwd fs0)" "p = p0\<lparr>sp_guard := g0\<rparr>" "resolve fs v p = (Inr q, p')"
  shows "\<not> has_parent_part q \<and> list_all (\<lambda>a. fv_kind fs a \<noteq> Is_link) (lineage q)
    \<and> (lies_under q (sp_root p) \<or> (sp_enabled p \<and> lies_under q (sp_archive p)
         \<and> (case sp_guard p' of Some (g, mount_root) \<Rightarrow> fv_dev fs (nearest fs (lineage q)) = fv_dev fs mount_root | None \<Rightarrow> False)))
    \<and> (sp_enabled p \<and> \<not> is_absolute v \<and> data_reference v \<longrightarrow> lies_under q (sp_archive p))"
proof -
  have sep: "separated p" using storage_policy_separated [OF assms(1,2)] by (simp add: assms(3) separated_def)
  from assms(4) show ?thesis
  proof (cases rule: resolve_cases)
    case archive
    from archive(4) show ?thesis
    proof (rule external_path_Inr)
      fix g m assume "sp_guard p' = Some g" "ordinary fs q = Inr q" "fv_dev fs (nearest fs (lineage q)) = fv_dev fs (snd g)"
      with archive show ?thesis using ordinary_Inr [of fs q q] by (auto split: prod.split)
    qed
  next
    case (data r)
    have u: "lies_under q (sp_archive p)" using data(3,5) project_relative_parts relative_joined(1) by auto
    from data(4) show ?thesis
    proof (rule external_path_Inr)
      fix g m assume "sp_guard p' = Some g" "ordinary fs q = Inr q" "fv_dev fs (nearest fs (lineage q)) = fv_dev fs (snd g)"
      with data(1) u show ?thesis using ordinary_Inr [of fs q q] by (auto split: prod.split)
    qed
  next
    case (project r)
    have u: "lies_under q (sp_root p)" using project(2,5) project_relative_parts relative_joined(1) by auto
    have "\<not> (sp_enabled p \<and> \<not> is_absolute v \<and> data_reference v)"
    proof
      assume a: "sp_enabled p \<and> \<not> is_absolute v \<and> data_reference v"
      then have "lies_under (join_path (sp_root p) v) (sp_root p)" using relative_joined(1) by simp
      then have "r = relative_to (join_path (sp_root p) v) (sp_root p)" using project(5) by (simp add: project_relative_def)
      then have "pt_parts r = pt_parts v" using a relative_joined(2) by simp
      with a project(1) show False by (simp add: data_reference_def)
    qed
    with u project(3) show ?thesis using ordinary_Inr [of fs q q] by blast
  qed
qed

theorem resolve_confined_witness:
  "(case storage_policy demo_view (path_of ''/code'') of Inl _ \<Rightarrow> False
    | Inr p \<Rightarrow> (case resolve demo_view (path_of ''maps/a'') p of
        (Inr q, _) \<Rightarrow> \<not> has_parent_part q \<and> lies_under q (sp_archive p) | _ \<Rightarrow> False))"
proof -
  obtain p where p: "storage_policy demo_view (path_of ''/code'') = Inr p" and r: "fst (resolve demo_view (path_of ''maps/a'') p) = Inr (path_of ''/disk/wc/maps/a'')"
    using demo_resolved by (cases "storage_policy demo_view (path_of ''/code'')") auto
  then obtain p' where q: "resolve demo_view (path_of ''maps/a'') p = (Inr (path_of ''/disk/wc/maps/a''), p')" by (metis prod.collapse)
  have "sp_enabled p" using demo_enabled p by simp
  moreover have "is_absolute (fv_cwd demo_view)" "\<not> is_absolute (path_of ''maps/a'')" "data_reference (path_of ''maps/a'')" by code_simp+
  moreover have same: "p = p\<lparr>sp_guard := sp_guard p\<rparr>" by simp
  ultimately show ?thesis using resolve_confined [OF p _ same q] p q by simp
qed

text \<open>
  C22. Logical names are stable. The name that is stored for a resolved reference is read back to the very same
  path, for everything in the project and for data in the archive; a second resolution on the same file system does not
  fail where the first succeeded.\<close>

theorem logical_roundtrip:
  assumes "storage_policy fs0 project = Inr p0" "is_absolute (fv_cwd fs0)" "p = p0\<lparr>sp_guard := g0\<rparr>"
    "resolve fs (path_of t) p = (Inr q, p')" "logical fs (path_of t) p = (Inr s, p'')"
    "sp_enabled p \<and> lies_under q (sp_archive p) \<Longrightarrow> data_reference (relative_to q (sp_archive p))"
  shows "resolve fs (path_of s) p' = (Inr q, p')"
proof -
  have sep: "separated p" using storage_policy_separated [OF assms(1,2)] by (simp add: assms(3) separated_def)
  have "\<exists>g. p' = p\<lparr>sp_guard := g\<rparr>"
    using assms(4) by (cases rule: resolve_cases) (auto dest: external_path_fields intro: exI [of _ "sp_guard p"])
  then obtain g where g: "p' = p\<lparr>sp_guard := g\<rparr>" by blast
  then have f: "sp_root p' = sp_root p" "sp_archive p' = sp_archive p" "sp_enabled p' = sp_enabled p" "logical_base p' q = logical_base p q"
    by (simp_all add: logical_base_def)
  let ?r = "relative_to q (logical_base p q)"
  note shape = resolve_shape [OF sep assms(4)]
  have s: "s = path_str ?r" using assms(4,5) f(4) by (simp add: logical_def)
  have plain: "plain_parts (pt_parts ?r)" using shape path_of_plain [of t] by (auto simp: plain_parts_def list_all_iff)
  have r: "?r = \<lparr>pt_root = '''', pt_parts = pt_parts ?r\<rparr>" by (simp add: relative_to_def)
  have "path_of s = ?r" using path_of_relative [OF plain] unfolding s r [symmetric] .
  moreover have "resolve fs (relative_to q (logical_base p' q)) p' = (Inr q, p')"
    by (rule resolve_again) (use sep shape assms(6) f in \<open>auto simp: separated_def\<close>)
  ultimately show ?thesis using f(4) by simp
qed

theorem logical_roundtrip_witness:
  "(case storage_policy demo_view (path_of ''/code'') of Inl _ \<Rightarrow> False
    | Inr p \<Rightarrow> (case resolve demo_view (path_of ''maps/a'') p of
        (Inr q, p') \<Rightarrow> resolve demo_view (path_of ''maps/a'') p' = (Inr q, p') | _ \<Rightarrow> False))"
proof -
  obtain p where p: "storage_policy demo_view (path_of ''/code'') = Inr p" and r: "fst (resolve demo_view (path_of ''maps/a'') p) = Inr (path_of ''/disk/wc/maps/a'')"
    and l: "fst (logical demo_view (path_of ''maps/a'') p) = Inr ''maps/a''" and d: "data_reference (relative_to (path_of ''/disk/wc/maps/a'') (sp_archive p))"
    using demo_resolved demo_logical by (cases "storage_policy demo_view (path_of ''/code'')") auto
  then obtain p' p'' where q: "resolve demo_view (path_of ''maps/a'') p = (Inr (path_of ''/disk/wc/maps/a''), p')" "logical demo_view (path_of ''maps/a'') p = (Inr ''maps/a'', p'')"
    by (metis prod.collapse)
  have "is_absolute (fv_cwd demo_view)" by code_simp
  moreover have same: "p = p\<lparr>sp_guard := sp_guard p\<rparr>" by simp
  ultimately show ?thesis using logical_roundtrip [OF p _ same q] d p q(1) by simp
qed

end
