(* ===== verification/Wheel_Tf.thy ===== *)
theory Wheel_Tf
  imports Fusion_Core "HOL-Library.Sublist"
begin

text \<open>
  \<open>src/src/wc_fusion/wheel_prior.py\<close> and \<open>wheel_tf.py\<close>: wheel poses as a prediction for the registration of clouds. The
  prior keeps a history of rig poses; the bridge checks every wheel pose with its diagnostics, freezes one guess per
  cloud, hands them to the native registration one at a time in order, and relays its poses, and nothing else, to the
  public transform.

  The array computations are the fields of \<open>tf_numeric\<close>: the conversion of a ROS pose (\<open>ros_pose_matrix\<close>), the
  check of a rigid transform (\<open>matrix\<close>), the product with the axle's inverse mounting, distance and angle between
  two poses, the arithmetic of \<open>MotionHistory.predict\<close> after its checks, and equality of arrays. A blocking reason is
  never empty. \<open>status\<close>, \<open>assign_transform\<close> and the ROS messages themselves are not modelled.
\<close>

section \<open>Messages and state\<close>

record ('w, 'm) tf_numeric =
  tn_pose :: "'w \<Rightarrow> exc + 'm"
  tn_matrix :: "'m \<Rightarrow> exc + 'm"
  tn_to_rig :: "'m \<Rightarrow> 'm"
  tn_distance :: "'m \<Rightarrow> 'm \<Rightarrow> pyfloat"
  tn_angle :: "'m \<Rightarrow> 'm \<Rightarrow> pyfloat"
  tn_extrapolate :: "policy \<Rightarrow> (int \<times> 'm) \<times> (int \<times> 'm) \<times> int \<Rightarrow> exc + 'm"
  tn_equal :: "'m \<Rightarrow> 'm \<Rightarrow> bool"

record 'w pose_message =
  pm_sec :: pyval
  pm_nsec :: pyval
  pm_frame :: string
  pm_child :: string
  pm_pose :: 'w

record 'm transform_record =
  tr_stamp :: pyval
  tr_parent :: string
  tr_child :: string
  tr_transform :: 'm
  tr_source :: string

record 'm tf_bridge =
  tb_policy :: policy
  tb_history :: "'m history"
  tb_max_uncertainty :: int
  tb_epoch :: "string option"
  tb_sequence :: int
  tb_receive :: "int option"
  tb_blocked :: "string option"
  tb_prepared :: "(int \<times> string option \<times> 'm) list"
  tb_pending :: "(int \<times> string option) list"
  tb_last_prepared :: "int option"
  tb_last_registered :: "int option"
  tb_last_relayed :: "int option"

definition positive_ns :: "pyval \<Rightarrow> string \<Rightarrow> bool \<Rightarrow> exc + int" where
  "positive_ns v name allow_zero = bindr (integer_ns v) (\<lambda>i.
     if i < (if allow_zero then 0 else 1) then raise FusionError (name @ ''_INVALID'') else Inr i)"

definition message_stamp :: "'w pose_message \<Rightarrow> exc + int" where
  "message_stamp m = bindr (integer_ns (pm_sec m)) (\<lambda>sec. bindr (integer_ns (pm_nsec m)) (\<lambda>nsec.
     if \<not> (- (2 ^ 31) \<le> sec \<and> sec < 2 ^ 31) \<or> \<not> (0 \<le> nsec \<and> nsec < 1000000000) then raise FusionError ''TF_ROS_STAMP_INVALID''
     else positive_ns (PInt (sec * 1000000000 + nsec)) ''STAMP'' False))"

definition expected_status :: "string \<Rightarrow> pyval" where
  "expected_status source_mode = PStr (if source_mode = ''synthetic'' then ''SYNTHETIC'' else ''VERIFIED'')"

definition bridge_init :: "('a \<Rightarrow> exc + 'm) \<Rightarrow> policy \<Rightarrow> 'a \<Rightarrow> pydict \<Rightarrow> string \<Rightarrow> exc + 'm tf_bridge" where
  "bridge_init matrix k mounting config source_mode =
     (if source_mode \<notin> {''synthetic'', ''real''} \<or> dget config ''coordinate_status'' \<noteq> expected_status source_mode
         \<or> dget config ''time_status'' \<noteq> expected_status source_mode
      then raise FusionError ''WHEEL_TF_COORDINATES_OR_TIME_UNVERIFIED''
      else bindr (matrix mounting) (\<lambda>_. bindr (positive_ns (dget config ''max_time_uncertainty_ns'') ''WHEEL_TIME_UNCERTAINTY'' False) (\<lambda>unc.
        Inr \<lparr>tb_policy = k, tb_history = history_init, tb_max_uncertainty = unc, tb_epoch = None, tb_sequence = 0, tb_receive = None,
             tb_blocked = None, tb_prepared = [], tb_pending = [], tb_last_prepared = None, tb_last_registered = None, tb_last_relayed = None\<rparr>)))"

definition history_predict :: "('w, 'm) tf_numeric \<Rightarrow> policy \<Rightarrow> pyval \<Rightarrow> 'm history \<Rightarrow> exc + 'm" where
  "history_predict num k stamp h = bindr (history_window k stamp h) (tn_extrapolate num k)"

text \<open>A rate above its bound; the time difference is positive where this is asked.\<close>

definition too_fast :: "pyfloat \<Rightarrow> pyfloat \<Rightarrow> pyfloat \<Rightarrow> pyfloat \<Rightarrow> bool" where
  "too_fast x dt a b \<longleftrightarrow> (case f_div x dt of Inr v \<Rightarrow> (if b < a then b else a) < v | Inl _ \<Rightarrow> True)"

section \<open>The prior\<close>

record 'm wheel_prior =
  wp_policy :: policy
  wp_history :: "'m history"
  wp_samples :: nat
  wp_icp :: "(int \<times> 'm \<times> string) option"

definition prior_init :: "('a \<Rightarrow> exc + 'm) \<Rightarrow> policy \<Rightarrow> 'a \<Rightarrow> pydict \<Rightarrow> string \<Rightarrow> exc + 'm wheel_prior" where
  "prior_init matrix k mounting config source_mode =
     (if dget config ''coordinate_status'' \<noteq> expected_status source_mode \<or> dget config ''time_status'' \<noteq> expected_status source_mode
      then raise FusionError ''WHEEL_COORDINATES_OR_TIME_UNVERIFIED''
      else bindr (matrix mounting) (\<lambda>_. Inr \<lparr>wp_policy = k, wp_history = history_init, wp_samples = 0, wp_icp = None\<rparr>))"

definition add_wheel :: "('w, 'm) tf_numeric \<Rightarrow> pyval \<Rightarrow> 'm \<Rightarrow> string \<Rightarrow> 'm wheel_prior \<Rightarrow> (exc + unit) \<times> 'm wheel_prior" where
  "add_wheel num stamp T epoch p = (case bindr (integer_ns stamp) (\<lambda>t. bindr (tn_matrix num T) (\<lambda>m. Inr (t, tn_to_rig num m))) of
       Inl e \<Rightarrow> (Inl e, p)
     | Inr (t, pose) \<Rightarrow>
         (case (if h_poses (wp_history p) = [] then Inr () else
             let (t0, before) = last (h_poses (wp_history p)); dt = df_seconds (t - t0) in
             if t \<le> t0 then raise FusionError ''WHEEL_TIME_NOT_INCREASING''
             else if too_fast (tn_distance num before pose) dt (k_motion_speed (wp_policy p)) (k_velocity (wp_policy p)) then raise FusionError ''WHEEL_POSE_SPEED_OR_RESET''
             else if too_fast (tn_angle num before pose) dt (k_motion_angular (wp_policy p)) (k_angular (wp_policy p)) then raise FusionError ''WHEEL_POSE_ROTATION_OR_RESET''
             else Inr ()) of
           Inl e \<Rightarrow> (Inl e, p)
         | Inr _ \<Rightarrow> (case history_add (tn_matrix num) (PInt t) pose epoch (wp_history p) of
               (Inl e, h) \<Rightarrow> (Inl e, p\<lparr>wp_history := h\<rparr>)
             | (Inr _, h) \<Rightarrow> (Inr (), p\<lparr>wp_history := h, wp_samples := wp_samples p + 1\<rparr>))))"

text \<open>\<open>add\<close>: a completed registration is noted and does not touch the wheel history.\<close>

definition add_completed :: "('w, 'm) tf_numeric \<Rightarrow> pyval \<Rightarrow> 'm \<Rightarrow> string \<Rightarrow> 'm wheel_prior \<Rightarrow> (exc + unit) \<times> 'm wheel_prior" where
  "add_completed num stamp pose epoch p = (case bindr (integer_ns stamp) (\<lambda>t. bindr (tn_matrix num pose) (\<lambda>m. Inr (t, m, epoch))) of
       Inl e \<Rightarrow> (Inl e, p) | Inr x \<Rightarrow> (Inr (), p\<lparr>wp_icp := Some x\<rparr>))"

definition prior_predict :: "('w, 'm) tf_numeric \<Rightarrow> pyval \<Rightarrow> 'm wheel_prior \<Rightarrow> exc + 'm" where
  "prior_predict num stamp p =
     (if wp_samples p < 2 then raise FusionError ''WHEEL_PREDICTION_NEEDS_TWO_SAMPLES'' else history_predict num (wp_policy p) stamp (wp_history p))"

section \<open>Observing the wheel\<close>

definition bridge_active :: "'m tf_bridge \<Rightarrow> exc + unit" where
  "bridge_active b = (case tb_blocked b of None \<Rightarrow> Inr () | Some r \<Rightarrow> raise FusionError (''WHEEL_TF_BLOCKED:'' @ r))"

definition aged :: "int \<Rightarrow> 'm tf_bridge \<Rightarrow> bool" where
  "aged age b \<longleftrightarrow> \<not> (0 \<le> age \<and> age \<le> k_max_age_ns (tb_policy b))"

definition common_time :: "pydict \<Rightarrow> int \<Rightarrow> exc + unit" where
  "common_time d stamp =
     (if dget d ''time_source'' \<noteq> PStr ''common_measurement'' \<and> dget d ''time_source'' \<noteq> PStr ''external_common_time''
      then raise FusionError ''WHEEL_TF_COMMON_TIME_MISMATCH''
      else bindr (positive_ns (dget d ''stamp_ns'') ''DIAGNOSTIC_STAMP'' False) (\<lambda>s.
        guard (s \<noteq> stamp) FusionError ''WHEEL_TF_COMMON_TIME_MISMATCH''))"

definition check_epoch :: "pydict \<Rightarrow> int \<Rightarrow> int \<Rightarrow> int \<Rightarrow> 'm tf_bridge \<Rightarrow> exc + int \<times> int \<times> string \<times> int" where
  "check_epoch d stamp rx seq b = (case dget d ''stream_epoch'' of
       PStr epoch \<Rightarrow>
         if epoch = [] then raise FusionError ''WHEEL_TF_EPOCH_REQUIRED''
         else if tb_epoch b \<noteq> None \<and> (tb_epoch b \<noteq> Some epoch \<or> seq \<le> tb_sequence b) then raise FusionError ''WHEEL_TF_EPOCH_OR_SEQUENCE_RESET''
         else if (case tb_receive b of None \<Rightarrow> False | Some r \<Rightarrow> rx < r) then raise FusionError ''WHEEL_TF_MONOTONIC_CLOCK_RESET''
         else Inr (stamp, rx, epoch, seq)
     | _ \<Rightarrow> raise FusionError ''WHEEL_TF_EPOCH_REQUIRED'')"

text \<open>The checks that do not need the pose: the stamp, the receive time, the epoch and the sequence number.\<close>

definition check_observation :: "'w pose_message \<Rightarrow> pydict \<Rightarrow> pyval \<Rightarrow> pyval \<Rightarrow> 'm tf_bridge \<Rightarrow> exc + int \<times> int \<times> string \<times> int" where
  "check_observation m d now rx b =
     bindr (message_stamp m) (\<lambda>stamp. bindr (positive_ns now ''NOW'' False) (\<lambda>now. bindr (positive_ns rx ''MONOTONIC'' True) (\<lambda>rx.
     if pm_frame m \<noteq> ''wheel_odom'' \<or> pm_child m \<noteq> ''axle_link'' then raise FusionError ''WHEEL_TF_FRAME_MISMATCH''
     else if dget d ''schema'' \<noteq> PStr ''wc_wheel_diagnostics_v1'' \<or> dget d ''time_valid'' \<noteq> PBool True \<or> dget d ''state'' \<noteq> PStr ''FEEDBACK''
     then raise FusionError ''WHEEL_TF_DIAGNOSTIC_INVALID''
     else bindr (common_time d stamp) (\<lambda>_. bindr (positive_ns (dget d ''uncertainty_ns'') ''UNCERTAINTY'' True) (\<lambda>unc.
     if tb_max_uncertainty b < unc \<or> aged (now - stamp) b then raise FusionError ''WHEEL_TF_TIME_BUDGET_EXCEEDED''
     else bindr (positive_ns (dget d ''sequence'') ''SEQUENCE'' True) (\<lambda>seq.
     check_epoch d stamp rx seq b))))))"

definition check_motion :: "('w, 'm) tf_numeric \<Rightarrow> int \<Rightarrow> 'm \<Rightarrow> 'm tf_bridge \<Rightarrow> exc + unit" where
  "check_motion num stamp pose b =
     (if h_poses (tb_history b) = [] then Inr () else
      let (t0, before) = last (h_poses (tb_history b)); dt = df_seconds (stamp - t0); k = tb_policy b in
      if stamp \<le> t0 \<or> k_max_age_ns k < stamp - t0 then raise FusionError ''WHEEL_TF_TIME_GAP_OR_RESET''
      else if too_fast (tn_distance num before pose) dt (k_velocity k) (k_motion_speed k) then raise FusionError ''WHEEL_TF_MOTION_SPEED_EXCEEDED''
      else if too_fast (tn_angle num before pose) dt (k_angular k) (k_motion_angular k) then raise FusionError ''WHEEL_TF_MOTION_ROTATION_EXCEEDED''
      else Inr ())"

definition observe_body :: "('w, 'm) tf_numeric \<Rightarrow> 'w pose_message \<Rightarrow> pydict \<Rightarrow> pyval \<Rightarrow> pyval \<Rightarrow> 'm tf_bridge \<Rightarrow> (exc + 'm transform_record) \<times> 'm tf_bridge" where
  "observe_body num m d now rx b = (case check_observation m d now rx b of
       Inl e \<Rightarrow> (Inl e, b)
     | Inr (stamp, rx, epoch, seq) \<Rightarrow> (case bindr (tn_pose num (pm_pose m)) (\<lambda>w. let pose = tn_to_rig num w in bindr (check_motion num stamp pose b) (\<lambda>_. Inr pose)) of
           Inl e \<Rightarrow> (Inl e, b)
         | Inr pose \<Rightarrow> (case history_add (tn_matrix num) (PInt stamp) pose epoch (tb_history b) of
               (Inl e, h) \<Rightarrow> (Inl e, b\<lparr>tb_history := h\<rparr>)
             | (Inr _, h) \<Rightarrow> (Inr \<lparr>tr_stamp = PInt stamp, tr_parent = ''wheel_odom'', tr_child = ''rig_link'', tr_transform = pose, tr_source = ''validated_wheel_pose_private_only''\<rparr>,
                 b\<lparr>tb_history := h, tb_epoch := Some epoch, tb_sequence := seq, tb_receive := Some rx\<rparr>))))"

definition observe_wheel :: "('w, 'm) tf_numeric \<Rightarrow> 'w pose_message \<Rightarrow> pydict \<Rightarrow> pyval \<Rightarrow> pyval \<Rightarrow> 'm tf_bridge \<Rightarrow> (exc + 'm transform_record) \<times> 'm tf_bridge" where
  "observe_wheel num m d now rx b = (case bridge_active b of
       Inl e \<Rightarrow> (Inl e, b)
     | Inr _ \<Rightarrow> (case observe_body num m d now rx b of
           (Inl e, b) \<Rightarrow> (Inl e, if caught_by (exn_of e) ValueError \<or> caught_by (exn_of e) TypeError \<or> caught_by (exn_of e) AttributeError
              then b\<lparr>tb_blocked := Some (str_exc e)\<rparr> else b)
         | (Inr r, b) \<Rightarrow> (Inr r, b)))"

section \<open>Guesses and the public transform\<close>

definition bridge_fresh :: "pyval \<Rightarrow> pyval \<Rightarrow> 'm tf_bridge \<Rightarrow> exc + int" where
  "bridge_fresh now rx b = bindr (positive_ns now ''NOW'' False) (\<lambda>now. bindr (positive_ns rx ''MONOTONIC'' True) (\<lambda>rx.
     case (tb_receive b, h_poses (tb_history b)) of
       (Some r, p # ps) \<Rightarrow> if aged (rx - r) b \<or> aged (now - fst (last (p # ps))) b then raise FusionError ''WHEEL_TF_STALE_OR_CLOCK_JUMP'' else Inr now
     | _ \<Rightarrow> raise FusionError ''WHEEL_TF_NO_OBSERVATIONS''))"

definition not_after :: "int \<Rightarrow> int option \<Rightarrow> bool" where
  "not_after t last_t \<longleftrightarrow> (case last_t of None \<Rightarrow> False | Some s \<Rightarrow> t \<le> s)"

definition prepare_guess :: "('w, 'm) tf_numeric \<Rightarrow> pyval \<Rightarrow> pyval \<Rightarrow> pyval \<Rightarrow> 'm tf_bridge \<Rightarrow> (exc + 'm transform_record) \<times> 'm tf_bridge" where
  "prepare_guess num stamp now rx b =
     (case bindr (bridge_active b) (\<lambda>_. bindr (bridge_fresh now rx b) (\<lambda>now. bindr (positive_ns stamp ''ICP_INPUT_STAMP'' False) (\<lambda>t.
        if not_after t (tb_last_prepared b) then raise FusionError ''WHEEL_TF_ICP_INPUT_NOT_INCREASING''
        else if k_max_queue (tb_policy b) \<le> length (tb_prepared b) + length (tb_pending b) then raise FusionError ''WHEEL_TF_PREPARED_QUEUE_FULL''
        else if aged (now - t) b then raise FusionError ''WHEEL_TF_ICP_INPUT_STALE_OR_FUTURE''
        else bindr (history_predict num (tb_policy b) (PInt t) (tb_history b)) (\<lambda>pose. Inr (t, pose))))) of
       Inl e \<Rightarrow> (Inl e, b)
     | Inr (t, pose) \<Rightarrow> (Inr \<lparr>tr_stamp = PInt t, tr_parent = ''wheel_odom'', tr_child = ''rig_link'', tr_transform = pose, tr_source = ''wheel_prediction_private_only''\<rparr>,
         b\<lparr>tb_prepared := tb_prepared b @ [(t, tb_epoch b, pose)], tb_last_prepared := Some t\<rparr>))"

definition foreign_guess :: "'m transform_record \<Rightarrow> string option \<Rightarrow> 'm tf_bridge \<Rightarrow> bool" where
  "foreign_guess r epoch b \<longleftrightarrow> epoch \<noteq> tb_epoch b \<or> tr_parent r \<noteq> ''wheel_odom'' \<or> tr_child r \<noteq> ''rig_link'' \<or> tr_source r \<noteq> ''wheel_prediction_private_only''"

definition register_guess :: "('w, 'm) tf_numeric \<Rightarrow> 'm transform_record \<Rightarrow> 'm tf_bridge \<Rightarrow> (exc + 'm transform_record) \<times> 'm tf_bridge" where
  "register_guess num r b =
     (case bindr (bridge_active b) (\<lambda>_. positive_ns (tr_stamp r) ''ICP_INPUT_STAMP'' False) of
        Inl e \<Rightarrow> (Inl e, b)
      | Inr stamp \<Rightarrow>
         if tb_pending b \<noteq> [] then (raise FusionError ''WHEEL_TF_ICP_INPUT_ALREADY_IN_FLIGHT'', b)
         else (case tb_prepared b of
             [] \<Rightarrow> (raise FusionError ''WHEEL_TF_UNPREPARED_OR_REORDERED_GUESS'', b)
           | (first, epoch, pose) # rest \<Rightarrow>
               if stamp \<noteq> first then (raise FusionError ''WHEEL_TF_UNPREPARED_OR_REORDERED_GUESS'', b)
               else if foreign_guess r epoch b then (raise FusionError ''WHEEL_TF_FROZEN_GUESS_CHANGED'', b)
               else (case tn_matrix num (tr_transform r) of
                   Inl e \<Rightarrow> (Inl e, b)
                 | Inr m \<Rightarrow>
                     if \<not> tn_equal num m pose then (raise FusionError ''WHEEL_TF_FROZEN_GUESS_CHANGED'', b)
                     else if not_after stamp (tb_last_registered b) then (raise FusionError ''WHEEL_TF_ICP_INPUT_NOT_INCREASING'', b)
                     else (Inr \<lparr>tr_stamp = PInt stamp, tr_parent = ''wheel_odom'', tr_child = ''rig_link'', tr_transform = pose, tr_source = tr_source r\<rparr>,
                       b\<lparr>tb_prepared := rest, tb_pending := [(stamp, epoch)], tb_last_registered := Some stamp\<rparr>))))"

definition guess_for_cloud :: "('w, 'm) tf_numeric \<Rightarrow> pyval \<Rightarrow> pyval \<Rightarrow> pyval \<Rightarrow> 'm tf_bridge \<Rightarrow> (exc + 'm transform_record) \<times> 'm tf_bridge" where
  "guess_for_cloud num stamp now rx b = bindm (prepare_guess num stamp now rx b) (register_guess num)"

definition relay_native :: "('w, 'm) tf_numeric \<Rightarrow> 'w pose_message \<Rightarrow> 'm tf_bridge \<Rightarrow> (exc + 'm transform_record) \<times> 'm tf_bridge" where
  "relay_native num m b =
     (case bindr (bridge_active b) (\<lambda>_. bindr (message_stamp m) (\<lambda>stamp.
        if pm_frame m \<noteq> ''odom'' \<or> pm_child m \<noteq> ''rig_link'' then raise FusionError ''NATIVE_ICP_TF_FRAME_MISMATCH''
        else if map_of (tb_pending b) stamp \<noteq> Some (tb_epoch b) then raise FusionError ''NATIVE_ICP_TF_UNEXPECTED_STAMP''
        else if not_after stamp (tb_last_relayed b) then raise FusionError ''NATIVE_ICP_TF_DUPLICATE_OR_REVERSED''
        else bindr (tn_pose num (pm_pose m)) (\<lambda>pose. Inr (stamp, pose)))) of
       Inl e \<Rightarrow> (Inl e, b)
     | Inr (stamp, pose) \<Rightarrow> (Inr \<lparr>tr_stamp = PInt stamp, tr_parent = ''odom'', tr_child = ''rig_link'', tr_transform = pose, tr_source = ''native_icp_pose_relay''\<rparr>,
         b\<lparr>tb_pending := filter (\<lambda>(t, _). t \<noteq> stamp) (tb_pending b), tb_last_relayed := Some stamp\<rparr>))"

section \<open>Runs\<close>

datatype ('w, 'm) tf_op =
    Observe "'w pose_message" pydict pyval pyval
  | Prepare pyval pyval pyval
  | Register "'m transform_record"
  | Relay "'w pose_message"

fun tf_step :: "('w, 'm) tf_numeric \<Rightarrow> ('w, 'm) tf_op \<Rightarrow> 'm tf_bridge \<Rightarrow> (exc + 'm transform_record) \<times> 'm tf_bridge" where
  "tf_step num (Observe m d now rx) b = observe_wheel num m d now rx b"
| "tf_step num (Prepare stamp now rx) b = prepare_guess num stamp now rx b"
| "tf_step num (Register r) b = register_guess num r b"
| "tf_step num (Relay m) b = relay_native num m b"

section \<open>Order of guesses and relayed poses\<close>

fun is_prepare :: "('w, 'm) tf_op \<Rightarrow> bool" where "is_prepare (Prepare _ _ _) = True" | "is_prepare _ = False"

fun is_register :: "('w, 'm) tf_op \<Rightarrow> bool" where "is_register (Register _) = True" | "is_register _ = False"

fun is_relay :: "('w, 'm) tf_op \<Rightarrow> bool" where "is_relay (Relay _) = True" | "is_relay _ = False"

text \<open>The stamps of the successful operations of a kind.\<close>

definition stamped :: "(('w, 'm) tf_op \<Rightarrow> bool) \<Rightarrow> ('w, 'm) tf_op \<Rightarrow> exc + 'm transform_record \<Rightarrow> int list" where
  "stamped sel op r = (case r of Inr t \<Rightarrow> if sel op then (case tr_stamp t of PInt i \<Rightarrow> [i] | _ \<Rightarrow> []) else [] | Inl _ \<Rightarrow> [])"

definition stamps :: "(('w, 'm) tf_op \<Rightarrow> bool) \<Rightarrow> ('w, 'm) tf_op list \<Rightarrow> (exc + 'm transform_record) list \<Rightarrow> int list" where
  "stamps sel ops outs = concat (map2 (stamped sel) ops outs)"

lemma stamped_simps [simp]: "stamped sel op (Inl e) = []" "\<not> sel op \<Longrightarrow> stamped sel op r = []"
  by (simp_all add: stamped_def split: sum.split)

text \<open>The three streams against the state: each is the next one and what waits.\<close>

definition streams_ok :: "int list \<Rightarrow> int list \<Rightarrow> int list \<Rightarrow> 'm tf_bridge \<Rightarrow> bool" where
  "streams_ok ps rs ls b \<longleftrightarrow> sorted_wrt (<) ps \<and> ps = rs @ map fst (tb_prepared b) \<and> rs = ls @ map fst (tb_pending b)
     \<and> length (tb_pending b) \<le> 1 \<and> length (tb_prepared b) + length (tb_pending b) \<le> k_max_queue (tb_policy b)
     \<and> (ps = [] \<or> tb_last_prepared b = Some (last ps))"

definition same_streams :: "'m tf_bridge \<Rightarrow> 'm tf_bridge \<Rightarrow> bool" where
  "same_streams b b' \<longleftrightarrow> tb_prepared b' = tb_prepared b \<and> tb_pending b' = tb_pending b \<and> tb_policy b' = tb_policy b \<and> tb_last_prepared b' = tb_last_prepared b"

lemma streams_okD:
  assumes "streams_ok ps rs ls b"
  shows "sorted_wrt (<) ps" "ps = rs @ map fst (tb_prepared b)" "rs = ls @ map fst (tb_pending b)" "length (tb_pending b) \<le> 1"
    "length (tb_prepared b) + length (tb_pending b) \<le> k_max_queue (tb_policy b)" "ps = [] \<or> tb_last_prepared b = Some (last ps)"
  using assms unfolding streams_ok_def by blast+

lemma same_streams_ok:
  assumes "same_streams b b'" "streams_ok ps rs ls b" shows "streams_ok ps rs ls b'"
proof -
  have e: "tb_prepared b' = tb_prepared b" "tb_pending b' = tb_pending b" "tb_policy b' = tb_policy b" "tb_last_prepared b' = tb_last_prepared b"
    using assms(1) by (simp_all add: same_streams_def)
  show ?thesis using assms(2) unfolding streams_ok_def e .
qed

lemma observe_body_same: "same_streams b (snd (observe_body num m d now rx b))"
  by (simp add: observe_body_def same_streams_def split: sum.split prod.split)

lemma observe_wheel_same: "same_streams b (snd (observe_wheel num m d now rx b))"
  using observe_body_same [of b num m d now rx]
  by (auto simp: observe_wheel_def same_streams_def split: sum.split prod.split)

lemma prepare_guess_cases:
  obtains (raised) e where "prepare_guess num stamp now rx b = (Inl e, b)"
  | (prepared) t pose r where "prepare_guess num stamp now rx b = (Inr r, b\<lparr>tb_prepared := tb_prepared b @ [(t, tb_epoch b, pose)], tb_last_prepared := Some t\<rparr>)"
      "tr_stamp r = PInt t" "\<not> not_after t (tb_last_prepared b)" "length (tb_prepared b) + length (tb_pending b) < k_max_queue (tb_policy b)"
proof -
  let ?r = "bindr (bridge_active b) (\<lambda>_. bindr (bridge_fresh now rx b) (\<lambda>now. bindr (positive_ns stamp ''ICP_INPUT_STAMP'' False) (\<lambda>t.
        if not_after t (tb_last_prepared b) then raise FusionError ''WHEEL_TF_ICP_INPUT_NOT_INCREASING''
        else if k_max_queue (tb_policy b) \<le> length (tb_prepared b) + length (tb_pending b) then raise FusionError ''WHEEL_TF_PREPARED_QUEUE_FULL''
        else if aged (now - t) b then raise FusionError ''WHEEL_TF_ICP_INPUT_STALE_OR_FUTURE''
        else bindr (history_predict num (tb_policy b) (PInt t) (tb_history b)) (\<lambda>pose. Inr (t, pose)))))"
  show thesis
  proof (cases ?r)
    case (Inl e)
    then show thesis using raised by (simp add: prepare_guess_def)
  next
    case (Inr x)
    obtain t pose where x: "x = (t, pose)" by fastforce
    from Inr x have "\<not> not_after t (tb_last_prepared b)" "length (tb_prepared b) + length (tb_pending b) < k_max_queue (tb_policy b)"
      by (auto simp: bindr_eq_Inr split: if_split_asm)
    with Inr x prepared show thesis by (simp add: prepare_guess_def)
  qed
qed

lemma register_guess_cases:
  obtains (raised) e where "register_guess num r b = (Inl e, b)"
  | (registered) t epoch pose rest r' where "register_guess num r b = (Inr r', b\<lparr>tb_prepared := rest, tb_pending := [(t, epoch)], tb_last_registered := Some t\<rparr>)"
      "tr_stamp r' = PInt t" "tb_pending b = []" "tb_prepared b = (t, epoch, pose) # rest"
proof (cases "bindr (bridge_active b) (\<lambda>_. positive_ns (tr_stamp r) ''ICP_INPUT_STAMP'' False)")
  case (Inl e)
  then show thesis using raised by (simp add: register_guess_def)
next
  case s: (Inr stamp)
  show thesis
  proof (cases "tb_pending b = [] \<and> tb_prepared b \<noteq> []")
    case False
    then have "\<exists>e. register_guess num r b = (Inl e, b)"
      unfolding register_guess_def s sum.case by (cases "tb_pending b"; cases "tb_prepared b") simp_all
    then show thesis using raised by blast
  next
    case True
    then obtain t epoch pose rest where p: "tb_pending b = []" "tb_prepared b = (t, epoch, pose) # rest" by (metis list.exhaust prod_cases3)
    show thesis
    proof (cases "stamp = t \<and> \<not> foreign_guess r epoch b")
      case False
      then have "\<exists>e. register_guess num r b = (Inl e, b)" unfolding register_guess_def s sum.case by (auto simp: p)
      then show thesis using raised by blast
    next
      case same: True
      show thesis
      proof (cases "\<exists>m. tn_matrix num (tr_transform r) = Inr m \<and> tn_equal num m pose \<and> \<not> not_after stamp (tb_last_registered b)")
        case False
        then have "\<exists>e. register_guess num r b = (Inl e, b)"
          unfolding register_guess_def s sum.case using same by (cases "tn_matrix num (tr_transform r)") (auto simp: p)
        then show thesis using raised by blast
      next
        case True
        then obtain m where "tn_matrix num (tr_transform r) = Inr m" "tn_equal num m pose" "\<not> not_after stamp (tb_last_registered b)" by blast
        then have "register_guess num r b = (Inr \<lparr>tr_stamp = PInt t, tr_parent = ''wheel_odom'', tr_child = ''rig_link'', tr_transform = pose, tr_source = tr_source r\<rparr>,
            b\<lparr>tb_prepared := rest, tb_pending := [(t, epoch)], tb_last_registered := Some t\<rparr>)"
          unfolding register_guess_def s sum.case using same by (simp add: p)
        then show thesis using registered p by simp
      qed
    qed
  qed
qed

lemma relay_native_cases:
  obtains (raised) e where "relay_native num m b = (Inl e, b)"
  | (relayed) t pose r where "relay_native num m b = (Inr r, b\<lparr>tb_pending := filter (\<lambda>(s, _). s \<noteq> t) (tb_pending b), tb_last_relayed := Some t\<rparr>)"
      "r = \<lparr>tr_stamp = PInt t, tr_parent = ''odom'', tr_child = ''rig_link'', tr_transform = pose, tr_source = ''native_icp_pose_relay''\<rparr>"
      "map_of (tb_pending b) t = Some (tb_epoch b)" "tn_pose num (pm_pose m) = Inr pose" "message_stamp m = Inr t"
proof -
  let ?r = "bindr (bridge_active b) (\<lambda>_. bindr (message_stamp m) (\<lambda>stamp.
        if pm_frame m \<noteq> ''odom'' \<or> pm_child m \<noteq> ''rig_link'' then raise FusionError ''NATIVE_ICP_TF_FRAME_MISMATCH''
        else if map_of (tb_pending b) stamp \<noteq> Some (tb_epoch b) then raise FusionError ''NATIVE_ICP_TF_UNEXPECTED_STAMP''
        else if not_after stamp (tb_last_relayed b) then raise FusionError ''NATIVE_ICP_TF_DUPLICATE_OR_REVERSED''
        else bindr (tn_pose num (pm_pose m)) (\<lambda>pose. Inr (stamp, pose))))"
  show thesis
  proof (cases ?r)
    case (Inl e)
    have "relay_native num m b = (Inl e, b)" unfolding relay_native_def Inl sum.case ..
    then show thesis by (rule raised)
  next
    case (Inr x)
    obtain t pose where x: "x = (t, pose)" by fastforce
    from Inr x have "map_of (tb_pending b) t = Some (tb_epoch b)" "tn_pose num (pm_pose m) = Inr pose" "message_stamp m = Inr t"
      by (auto simp: bindr_eq_Inr split: if_split_asm)
    moreover have "relay_native num m b = (Inr \<lparr>tr_stamp = PInt t, tr_parent = ''odom'', tr_child = ''rig_link'', tr_transform = pose, tr_source = ''native_icp_pose_relay''\<rparr>,
         b\<lparr>tb_pending := filter (\<lambda>(s, _). s \<noteq> t) (tb_pending b), tb_last_relayed := Some t\<rparr>)"
      unfolding relay_native_def Inr x sum.case prod.case ..
    ultimately show thesis using relayed by blast
  qed
qed

lemma sorted_snoc: "sorted_wrt (<) (xs @ [x :: int]) \<longleftrightarrow> sorted_wrt (<) xs \<and> (xs = [] \<or> last xs < x)"
  by (cases xs rule: rev_cases) (auto simp: sorted_wrt_append)

text \<open>One operation extends the streams by its stamp.\<close>

lemma tf_step_streams:
  assumes ok: "streams_ok ps rs ls b" and r: "tf_step num op b = (r, b')"
  shows "streams_ok (ps @ stamped is_prepare op r) (rs @ stamped is_register op r) (ls @ stamped is_relay op r) b' \<and> tb_policy b' = tb_policy b"
proof (cases op)
  case (Observe m d now rx)
  then have "same_streams b b'" using observe_wheel_same [of b num m d now rx] r by simp
  then show ?thesis using same_streams_ok [OF _ ok] Observe by (auto simp: same_streams_def)
next
  case (Prepare stamp now rx)
  show ?thesis
  proof (cases rule: prepare_guess_cases [of num stamp now rx b])
    case (raised e)
    then show ?thesis using r ok Prepare by auto
  next
    case (prepared t pose x)
    note p = streams_okD [OF ok]
    have "sorted_wrt (<) (ps @ [t])" using p(1,6) prepared(3) by (auto simp: sorted_snoc not_after_def)
    moreover have "b' = b\<lparr>tb_prepared := tb_prepared b @ [(t, tb_epoch b, pose)], tb_last_prepared := Some t\<rparr>" "r = Inr x"
      using r Prepare prepared(1) by simp_all
    ultimately show ?thesis unfolding streams_ok_def using p prepared Prepare by (simp add: stamped_def)
  qed
next
  case (Register x)
  show ?thesis
  proof (cases rule: register_guess_cases [of num x b])
    case (raised e)
    then show ?thesis using r ok Register by auto
  next
    case (registered t epoch pose rest y)
    then show ?thesis using r ok Register by (auto simp: streams_ok_def stamped_def)
  qed
next
  case (Relay m)
  show ?thesis
  proof (cases rule: relay_native_cases [of num m b])
    case (raised e)
    then show ?thesis using r ok Relay by auto
  next
    case (relayed t pose y)
    have "length (tb_pending b) \<le> 1" using ok by (simp add: streams_ok_def)
    with relayed(3) have "tb_pending b = [(t, tb_epoch b)]" by (cases "tb_pending b") (auto split: if_splits)
    then show ?thesis using r ok Relay relayed by (auto simp: streams_ok_def stamped_def)
  qed
qed

lemma stamps_simps [simp]: "stamps sel [] outs = []" "stamps sel (op # ops) (r # outs) = stamped sel op r @ stamps sel ops outs"
  by (simp_all add: stamps_def)

lemma tf_run_streams:
  "streams_ok ps rs ls b \<Longrightarrow> (let outs = run_outs (tf_step num) ops b in
     streams_ok (ps @ stamps is_prepare ops outs) (rs @ stamps is_register ops outs) (ls @ stamps is_relay ops outs) (run_state (tf_step num) ops b))"
proof (induction ops arbitrary: ps rs ls b)
  case (Cons op ops)
  obtain r b' where r: "tf_step num op b = (r, b')" by fastforce
  from Cons.IH [OF conjunct1 [OF tf_step_streams [OF Cons.prems r]]] show ?case by (simp add: r Let_def)
qed simp

text \<open>What is published.\<close>

definition relayed_pose :: "('w, 'm) tf_numeric \<Rightarrow> ('w, 'm) tf_op \<Rightarrow> exc + 'm transform_record \<Rightarrow> bool" where
  "relayed_pose num op r \<longleftrightarrow> (case r of Inl _ \<Rightarrow> True | Inr t \<Rightarrow> tr_parent t \<noteq> ''odom'' \<or> (case op of
       Relay m \<Rightarrow> tn_pose num (pm_pose m) = Inr (tr_transform t) \<and> bindr (message_stamp m) (\<lambda>s. Inr (PInt s)) = Inr (tr_stamp t)
     | _ \<Rightarrow> False))"

lemma tf_step_relayed: "relayed_pose num op (fst (tf_step num op b))"
proof (cases op)
  case (Observe m d now rx)
  then show ?thesis by (auto simp: relayed_pose_def observe_wheel_def observe_body_def split: sum.splits prod.splits)
next
  case (Prepare stamp now rx)
  then show ?thesis by (auto simp: relayed_pose_def prepare_guess_def split: sum.splits prod.splits)
next
  case (Register x)
  then show ?thesis by (auto simp: relayed_pose_def register_guess_def split: sum.splits prod.splits if_splits list.splits)
next
  case (Relay m)
  show ?thesis
    by (cases rule: relay_native_cases [of num m b]) (simp_all add: Relay relayed_pose_def)
qed

text \<open>A blocked bridge stays blocked and raises, whatever is asked of it.\<close>

interpretation bridge: fail_stop "tf_step num" "\<lambda>b. tb_blocked b \<noteq> None"
proof unfold_locales
  fix b :: "'b tf_bridge" and op
  assume "tb_blocked b \<noteq> None"
  then obtain e where "bridge_active b = Inl e" "tb_blocked b \<noteq> None" by (auto simp: bridge_active_def)
  then show "isl (fst (tf_step num op b))" "tb_blocked (snd (tf_step num op b)) \<noteq> None"
    by (cases op; simp add: observe_wheel_def prepare_guess_def register_guess_def relay_native_def)+
qed

lemma tf_run_relayed: "list_all (\<lambda>(op, r). relayed_pose num op r) (zip ops (run_outs (tf_step num) ops b))"
  by (induction ops arbitrary: b) (simp_all add: tf_step_relayed)

lemma positive_ns_Inr: "positive_ns v n z = Inr i \<Longrightarrow> v = PInt i \<and> 0 \<le> i"
  by (cases v) (auto simp: positive_ns_def integer_ns_def split: if_splits)

lemma common_time_Inr: "common_time d stamp = Inr u \<Longrightarrow> dget d ''stamp_ns'' = PInt stamp"
  by (auto simp: common_time_def bindr_eq_Inr split: if_split_asm dest: positive_ns_Inr)

lemma observation_checks:
  assumes "check_observation m d now rx b = Inr (stamp, rx', epoch, seq)"
  shows "\<exists>now_ns unc. message_stamp m = Inr stamp \<and> now = PInt now_ns \<and> dget d ''stamp_ns'' = PInt stamp
        \<and> dget d ''time_valid'' = PBool True \<and> dget d ''uncertainty_ns'' = PInt unc \<and> 0 \<le> unc \<and> unc \<le> tb_max_uncertainty b
        \<and> 0 \<le> now_ns - stamp \<and> now_ns - stamp \<le> k_max_age_ns (tb_policy b) \<and> dget d ''sequence'' = PInt seq
        \<and> (tb_epoch b = None \<or> (tb_epoch b = Some epoch \<and> tb_sequence b < seq))"
proof -
  from assms obtain s now_ns rxn unc q where m: "message_stamp m = Inr s" and n: "positive_ns now ''NOW'' False = Inr now_ns"
    and v: "dget d ''time_valid'' = PBool True" and t: "common_time d s = Inr ()" and u: "positive_ns (dget d ''uncertainty_ns'') ''UNCERTAINTY'' True = Inr unc"
    and g: "unc \<le> tb_max_uncertainty b" "\<not> aged (now_ns - s) b" and q: "positive_ns (dget d ''sequence'') ''SEQUENCE'' True = Inr q"
    and rest: "check_epoch d s rxn q b = Inr (stamp, rx', epoch, seq)"
    using assms unfolding check_observation_def by (auto simp: bindr_eq_Inr if_raise)
  from rest have e: "s = stamp" "q = seq" "tb_epoch b = None \<or> (tb_epoch b = Some epoch \<and> tb_sequence b < seq)"
    unfolding check_epoch_def by (cases "dget d ''stream_epoch''"; simp split: if_split_asm; auto)+
  show ?thesis
    using m v g e common_time_Inr [OF t] positive_ns_Inr [OF n] positive_ns_Inr [OF u] positive_ns_Inr [OF q]
    by (auto simp: aged_def)
qed

section \<open>Properties\<close>

definition demo_tf :: "(int, int) tf_numeric" where
  "demo_tf = \<lparr>tn_pose = Inr, tn_matrix = Inr, tn_to_rig = (\<lambda>m. m), tn_distance = (\<lambda>_ _. Fin 0), tn_angle = (\<lambda>_ _. Fin 0),
     tn_extrapolate = (\<lambda>_ (_, (_, p), _). Inr p), tn_equal = (=)\<rparr>"

definition demo_tf_config :: pydict where
  "demo_tf_config = [(''coordinate_status'', PStr ''SYNTHETIC''), (''time_status'', PStr ''SYNTHETIC''), (''max_time_uncertainty_ns'', PInt 5)]"

definition demo_tf_diagnostic :: "int \<Rightarrow> int \<Rightarrow> pydict" where
  "demo_tf_diagnostic stamp seq = [(''schema'', PStr ''wc_wheel_diagnostics_v1''), (''time_valid'', PBool True), (''state'', PStr ''FEEDBACK''),
     (''time_source'', PStr ''common_measurement''), (''stamp_ns'', PInt stamp), (''uncertainty_ns'', PInt 1), (''sequence'', PInt seq), (''stream_epoch'', PStr ''e'')]"

definition demo_tf_ops :: "(int, int) tf_op list" where
  "demo_tf_ops = [Observe \<lparr>pm_sec = PInt 0, pm_nsec = PInt 10, pm_frame = ''wheel_odom'', pm_child = ''axle_link'', pm_pose = 7\<rparr> (demo_tf_diagnostic 10 0) (PInt 10) (PInt 10),
     Observe \<lparr>pm_sec = PInt 0, pm_nsec = PInt 12, pm_frame = ''wheel_odom'', pm_child = ''axle_link'', pm_pose = 8\<rparr> (demo_tf_diagnostic 12 1) (PInt 12) (PInt 12),
     Prepare (PInt 13) (PInt 13) (PInt 13),
     Register \<lparr>tr_stamp = PInt 13, tr_parent = ''wheel_odom'', tr_child = ''rig_link'', tr_transform = 8, tr_source = ''wheel_prediction_private_only''\<rparr>,
     Relay \<lparr>pm_sec = PInt 0, pm_nsec = PInt 13, pm_frame = ''odom'', pm_child = ''rig_link'', pm_pose = 9\<rparr>]"

lemma round64_pos: "1 / 10 ^ 20 \<le> x \<Longrightarrow> x \<le> 2 ^ 1000 \<Longrightarrow> \<exists>y. x / 2 \<le> y \<and> y \<le> 2 * x \<and> round64 x = Fin y"
proof -
  assume x: "1 / 10 ^ 20 \<le> x" "x \<le> 2 ^ 1000"
  obtain y where y: "x - x / 2 ^ 53 \<le> y" "y \<le> x + x / 2 ^ 53" "round64 x = Fin y" using round64_close [OF pow2_tiny [OF x(1)] x(2)] .
  have "0 < x" using x(1) by (rule less_le_trans [rotated]) simp
  then have "x / 2 ^ 53 \<le> x / 2" by simp
  with y show ?thesis by (intro exI [of _ y]) linarith
qed

lemma demo_still: "too_fast (Fin 0) (df_seconds 2) (Fin 0) (Fin 1) = False"
proof -
  obtain n where n: "1 / 10 ^ 9 / 2 \<le> n" "n \<le> 2 * (1 / 10 ^ 9)" "nano = Fin n" using round64_pos [of "1 / 10 ^ 9"] unfolding nano_def by auto
  obtain t where t: "1 \<le> t" "t \<le> 4" "round64 2 = Fin t" using round64_pos [of 2] by auto
  have l: "1 / 10 ^ 10 \<le> t * n" using mult_mono [of 1 t "1 / 10 ^ 9 / 2" n] n t by simp
  have u: "t * n \<le> 2 ^ 1000"
  proof -
    have "t * n \<le> 4 * 1" by (rule mult_mono) (use n t in auto)
    then show ?thesis by (rule order_trans) simp
  qed
  obtain y where "t * n / 2 \<le> y" "round64 (t * n) = Fin y" using round64_pos [OF order_trans [OF _ l] u] by auto
  moreover from this l have "y \<noteq> 0" by auto
  ultimately show ?thesis by (simp add: too_fast_def df_seconds_def n t round64_def [of 0])
qed

definition demo_bridge :: "int tf_bridge" where
  "demo_bridge = \<lparr>tb_policy = demo_policy, tb_history = history_init, tb_max_uncertainty = 5, tb_epoch = None, tb_sequence = 0, tb_receive = None,
     tb_blocked = None, tb_prepared = [], tb_pending = [], tb_last_prepared = None, tb_last_registered = None, tb_last_relayed = None\<rparr>"

lemma demo_bridge_init: "bridge_init Inr demo_policy (0 :: int) demo_tf_config ''synthetic'' = Inr demo_bridge"
  by code_simp

lemmas demo_tf_defs = demo_tf_ops_def observe_wheel_def observe_body_def check_observation_def message_stamp_def positive_ns_def integer_ns_def common_time_def
  demo_tf_diagnostic_def check_epoch_def check_motion_def history_add_def aged_def bridge_active_def prepare_guess_def bridge_fresh_def not_after_def
  history_predict_def history_window_def register_guess_def foreign_guess_def relay_native_def demo_tf_def demo_bridge_def history_init_def demo_policy_def

lemma demo_tf_run: "list_all (\<lambda>r. \<not> isl r) (run_outs (tf_step demo_tf) demo_tf_ops demo_bridge)"
  by (simp add: demo_tf_defs demo_still guard_def)

text \<open>
  C14. Guesses and relayed poses come in order, one at a time. In every run of the bridge the prepared stamps
  strictly increase, the registered ones are the first of them, and the relayed ones the first of the registered ones with at
  most one registration in flight and never more than \<open>max_queue\<close> guesses waiting. A public transform is the
  pose and the stamp of the native registration's message, never one derived from the wheel.\<close>

theorem tf_relay_in_order:
  assumes "bridge_init matrix k mounting config source_mode = Inr b"
  shows "(let outs = run_outs (tf_step num) ops b; b' = run_state (tf_step num) ops b in
      sorted_wrt (<) (stamps is_prepare ops outs)
    \<and> stamps is_prepare ops outs = stamps is_register ops outs @ map fst (tb_prepared b')
    \<and> stamps is_register ops outs = stamps is_relay ops outs @ map fst (tb_pending b')
    \<and> length (tb_pending b') \<le> 1 \<and> length (tb_prepared b') + length (tb_pending b') \<le> k_max_queue (tb_policy b')
    \<and> list_all (\<lambda>(op, r). relayed_pose num op r) (zip ops outs))"
proof -
  have "streams_ok [] [] [] b" using assms by (auto simp: bridge_init_def result_simps streams_ok_def split: if_splits)
  from tf_run_streams [OF this, of num ops]
  have "streams_ok (stamps is_prepare ops (run_outs (tf_step num) ops b)) (stamps is_register ops (run_outs (tf_step num) ops b))
      (stamps is_relay ops (run_outs (tf_step num) ops b)) (run_state (tf_step num) ops b)"
    by (simp only: Let_def append_Nil)
  note d = streams_okD [OF this]
  show ?thesis unfolding Let_def by (intro conjI d tf_run_relayed)
qed

theorem tf_relay_in_order_witness:
  "list_all (\<lambda>r. \<not> isl r) (run_outs (tf_step demo_tf) demo_tf_ops demo_bridge)
    \<and> stamps is_register demo_tf_ops (run_outs (tf_step demo_tf) demo_tf_ops demo_bridge)
      = stamps is_relay demo_tf_ops (run_outs (tf_step demo_tf) demo_tf_ops demo_bridge) @ map fst (tb_pending (run_state (tf_step demo_tf) demo_tf_ops demo_bridge))"
  using tf_relay_in_order [OF demo_bridge_init, of demo_tf demo_tf_ops] demo_tf_run by (simp only: Let_def)

text \<open>
  Observations are checked before they steer a prediction. An observation that is accepted has the wheel's frames,
  a diagnostic record with exactly its stamp and common time, an uncertainty within the bound, an age within the limit
  and, in the same epoch, a larger sequence number. One that is not blocks the bridge for good.\<close>

lemma tf_observation_checked:
  assumes "tf_step num (Observe m d now rx) b = (r, b')"
  shows "(case r of
      Inr t \<Rightarrow> tb_blocked b = None \<and> (\<exists>stamp now_ns unc seq epoch. message_stamp m = Inr stamp \<and> now = PInt now_ns \<and> dget d ''stamp_ns'' = PInt stamp
        \<and> dget d ''time_valid'' = PBool True \<and> dget d ''uncertainty_ns'' = PInt unc \<and> 0 \<le> unc \<and> unc \<le> tb_max_uncertainty b
        \<and> 0 \<le> now_ns - stamp \<and> now_ns - stamp \<le> k_max_age_ns (tb_policy b) \<and> dget d ''sequence'' = PInt seq \<and> tb_sequence b' = seq
        \<and> tb_epoch b' = Some epoch \<and> (tb_epoch b = None \<or> (tb_epoch b = Some epoch \<and> tb_sequence b < seq)) \<and> tr_stamp t = PInt stamp)
    | Inl e \<Rightarrow> caught_by (exn_of e) ValueError \<longrightarrow> list_all isl (run_outs (tf_step num) ops b'))"
proof (cases r)
  case (Inl e)
  show ?thesis
  proof (cases "caught_by (exn_of e) ValueError")
    case True
    then have "tb_blocked b' \<noteq> None" using assms Inl
      by (auto simp: observe_wheel_def bridge_active_def split: option.splits sum.splits prod.splits)
    then show ?thesis using bridge.run_failed_raises [of b' num ops] by (simp add: Inl list_all_iff)
  qed (simp add: Inl)
next
  case (Inr t)
  from assms Inr have a: "tb_blocked b = None" and body: "observe_body num m d now rx b = (Inr t, b')"
    by (auto simp: observe_wheel_def bridge_active_def split: option.splits prod.splits sum.splits)
  from body obtain stamp rx' epoch seq where c: "check_observation m d now rx b = Inr (stamp, rx', epoch, seq)"
    and s: "tr_stamp t = PInt stamp" "tb_epoch b' = Some epoch" "tb_sequence b' = seq"
    by (auto simp: observe_body_def split: sum.splits prod.splits)
  show ?thesis using a s observation_checks [OF c] by (simp add: Inr)
qed

end
