(* ===== verification/Camera_Archive.thy ===== *)
theory Camera_Archive
  imports Storage_Paths
begin

text \<open>
  The camera side of \<open>src/src/wc_runtime/source_archive.py\<close>: class \<open>CameraArchive\<close>, which stores decoded frames as blocks of
  numbered chunk files with an index, and \<open>read_camera_frame\<close>, which reads one frame back.

  The codec is a parameter: \<open>zlib\<close>, SHA-256 and the JSON encoder. The hash kept while a chunk is written is the hash of what
  was written. Calls of the operating system are answered by the records \<open>write_io\<close>, \<open>finish_io\<close> and \<open>close_io\<close>. The worker
  thread is split at its critical sections: taking a frame, writing it, finding the queue empty, and then looking at
  \<open>closing\<close>, so that a frame may arrive between the last two. Durations and high-water marks are left out. An index row is
  kept as the dictionary that is encoded.
\<close>

section \<open>Reading a frame\<close>

record inflated =
  if_data :: bytes
  if_eof :: bool
  if_tail :: bytes
  if_unused :: bytes

record codec =
  cd_compress :: "bytes \<Rightarrow> bytes"
  cd_inflate :: "bytes \<Rightarrow> nat \<Rightarrow> inflated option"
  cd_sha :: "bytes \<Rightarrow> string"
  cd_json :: "pydict \<Rightarrow> exc + bytes"

text \<open>What the directory shows of a path below it; \<open>fd_inside\<close> is \<open>path.resolve().is_relative_to(root)\<close>.\<close>

record frame_dir =
  fd_is_dir :: bool
  fd_link :: "ppath \<Rightarrow> bool"
  fd_inside :: "ppath \<Rightarrow> bool"
  fd_file :: "ppath \<Rightarrow> bytes option"

definition camera_limit :: int where "camera_limit = 64 * 1024 ^ 2"

definition decode_limit :: "pyval \<Rightarrow> exc + int" where
  "decode_limit v = (case v of
       PInt m \<Rightarrow> if 0 < m \<and> m \<le> camera_limit then Inr m else raise ValueError ''invalid camera decode limit''
     | _ \<Rightarrow> raise ValueError ''invalid camera decode limit'')"

definition frame_size :: "pydict \<Rightarrow> int \<Rightarrow> exc + int" where
  "frame_size row m = bindr (dsub row ''width'') (\<lambda>w. bindr (dsub row ''height'') (\<lambda>h.
     case (w, h) of
       (PInt x, PInt y) \<Rightarrow>
         if x \<le> 0 \<or> y \<le> 0 then raise ValueError ''camera dimensions must be positive integers''
         else if m < x * y * 3 then raise ValueError ''camera decoded size exceeds bound'' else Inr (x * y * 3)
     | _ \<Rightarrow> raise ValueError ''camera dimensions must be positive integers''))"

definition stored_range :: "pydict \<Rightarrow> int \<Rightarrow> exc + nat \<times> nat" where
  "stored_range row m = bindr (dsub row ''offset'') (\<lambda>off. bindr (dsub row ''length'') (\<lambda>len.
     case (off, len) of
       (PInt a, PInt n) \<Rightarrow>
         if a < 0 \<or> \<not> (0 < n \<and> n \<le> m + 65536)
         then raise ValueError ''camera stored block exceeds bound or has invalid offset'' else Inr (nat a, nat n)
     | _ \<Rightarrow> raise ValueError ''camera stored block exceeds bound or has invalid offset''))"

definition stored_block :: "frame_dir \<Rightarrow> pydict \<Rightarrow> nat \<Rightarrow> nat \<Rightarrow> exc + bytes" where
  "stored_block fd row off n =
     (if \<not> fd_is_dir fd then raise ValueError ''camera archive directory absent''
      else bindr (dsub row ''file'') (\<lambda>file. case file of
        PStr name \<Rightarrow> let p = path_of name in
          if is_absolute p \<or> has_parent_part p \<or> fd_link fd p \<or> \<not> fd_inside fd p then raise ValueError ''camera chunk outside archive''
          else (case fd_file fd p of
              None \<Rightarrow> raise ValueError ''camera chunk absent''
            | Some content \<Rightarrow>
                if length (take n (drop off content)) \<noteq> n then raise ValueError ''camera stored block truncated''
                else Inr (take n (drop off content)))
      | _ \<Rightarrow> raise TypeError ''expected str, bytes or os.PathLike object''))"

definition same_text :: "pyval \<Rightarrow> string \<Rightarrow> bool" where
  "same_text v s \<longleftrightarrow> v = PStr s"

text \<open>The checks that depend on the schema, and the decoding of a stored block of a frame of \<open>n\<close> bytes.\<close>

definition schema_checks :: "codec \<Rightarrow> pydict \<Rightarrow> bytes \<Rightarrow> int \<Rightarrow> exc + unit" where
  "schema_checks cd row stored n =
     (let schema = dget_or row ''schema_version'' (PInt 1) in
      if schema \<noteq> PInt 1 \<and> schema \<noteq> PInt 2 then raise ValueError ''unsupported camera schema''
      else guard (py_eq (dget row ''schema_version'') (PInt 2)
          \<and> (\<not> py_eq (dget row ''uncompressed_length'') (PInt n) \<or> \<not> same_text (dget row ''stored_sha256'') (cd_sha cd stored)))
        ValueError ''camera v2 stored hash or decoded size metadata differs'')"

definition inflate_block :: "codec \<Rightarrow> pydict \<Rightarrow> bytes \<Rightarrow> int \<Rightarrow> exc + bytes" where
  "inflate_block cd row stored n =
     (if \<not> py_eq (dget row ''schema_version'') (PInt 2) \<or> \<not> py_eq (dget row ''uncompressed_length'') (PInt n)
      then raise ValueError ''camera v2 decoded size metadata differs''
      else if \<not> same_text (dget row ''stored_sha256'') (cd_sha cd stored) then raise ValueError ''camera stored hash mismatch''
      else case cd_inflate cd stored (nat (n + 1)) of
        None \<Rightarrow> raise ValueError ''camera zlib stream invalid''
      | Some i \<Rightarrow>
          if int (length (if_data i)) \<noteq> n \<or> \<not> if_eof i \<or> if_tail i \<noteq> [] \<or> if_unused i \<noteq> []
          then raise ValueError ''camera compressed block truncated, oversized or contains trailing data'' else Inr (if_data i))"

definition decode_block :: "codec \<Rightarrow> pydict \<Rightarrow> bytes \<Rightarrow> int \<Rightarrow> exc + bytes" where
  "decode_block cd row stored n =
     (let compression = dget_or row ''compression'' (PStr ''none'') in
      if compression = PStr ''none'' then Inr stored
      else if compression = PStr ''zlib'' then inflate_block cd row stored n
      else raise ValueError ''unsupported camera compression'')"

definition check_payload :: "codec \<Rightarrow> pydict \<Rightarrow> bytes \<Rightarrow> int \<Rightarrow> exc + bytes" where
  "check_payload cd row decoded n =
     (if int (length decoded) \<noteq> n then raise ValueError ''camera decoded bytes differ''
      else bindr (dsub row ''payload_sha256'') (\<lambda>v.
        if \<not> same_text v (cd_sha cd decoded) then raise ValueError ''camera decoded bytes differ'' else Inr decoded))"

definition read_camera_frame :: "codec \<Rightarrow> frame_dir \<Rightarrow> pydict \<Rightarrow> pyval \<Rightarrow> exc + bytes" where
  "read_camera_frame cd fd row max_decoded =
     bindr (decode_limit max_decoded) (\<lambda>m. bindr (frame_size row m) (\<lambda>n. bindr (stored_range row m) (\<lambda>(off, len).
     bindr (stored_block fd row off len) (\<lambda>stored. bindr (schema_checks cd row stored n) (\<lambda>_.
     bindr (decode_block cd row stored n) (\<lambda>decoded. check_payload cd row decoded n))))))"

section \<open>The archive\<close>

record camera_value =
  cv_captured :: nat
  cv_persisted :: nat
  cv_dropped :: nat
  cv_error :: "string option"
  cv_source_error :: pyval
  cv_chunks :: "(string \<times> string \<times> nat) list"
  cv_uncompressed :: nat
  cv_stored :: nat
  cv_synchronized :: bool
  cv_closed_normally :: bool
  cv_complete :: bool
  cv_final :: bool
  cv_chunks_synced :: nat
  cv_index_synced :: bool
  cv_index_sha :: "string option"

record camera =
  ca_source :: string
  ca_epoch :: string
  ca_max :: nat
  ca_limit :: nat
  ca_compression :: string
  ca_queue :: "(bytes \<times> pydict) list"
  ca_closing :: bool
  ca_error :: "string option"
  ca_received :: nat
  ca_persisted :: nat
  ca_dropped :: nat
  ca_uncompressed :: nat
  ca_stored :: nat
  ca_chunks :: "(string \<times> string \<times> nat) list"
  ca_index_sha :: "string option"
  ca_synced :: nat
  ca_index_synced :: bool
  ca_final :: bool
  ca_closed :: "camera_value option"
  ca_flight :: "(bytes \<times> pydict) option"
  ca_missed :: bool
  ca_dead :: bool
  ca_chunk :: "(string \<times> bytes) option"
  ca_files :: "(string \<times> bytes) list"
  ca_index :: "pydict list"
  ca_lines :: bytes
  ca_summary :: "camera_value option"
  ca_partial :: "camera_value option"

text \<open>\<open>ca_flight\<close> to \<open>ca_lines\<close> are the worker's local variables and the files it writes, \<open>ca_files\<close> the finished chunks.
  \<open>mkdir\<close> is the outcome of creating the directory.\<close>

definition camera_init :: "exc option \<Rightarrow> string \<Rightarrow> string \<Rightarrow> pyval \<Rightarrow> pyval \<Rightarrow> string \<Rightarrow> exc + camera" where
  "camera_init mkdir source epoch max_items chunk_bytes compression =
     (case max_items of
        PInt n \<Rightarrow> if n \<le> 0 then raise ValueError ''camera archive requires a positive bounded queue size''
          else (case chunk_bytes of
              PInt b \<Rightarrow> if b \<le> 0 then raise ValueError ''camera archive requires a positive chunk size''
                else if compression \<noteq> ''zlib'' \<and> compression \<noteq> ''none'' then raise ValueError ''camera compression must be zlib or none''
                else (case mkdir of Some e \<Rightarrow> Inl e | None \<Rightarrow>
                  Inr \<lparr>ca_source = source, ca_epoch = epoch, ca_max = nat n, ca_limit = nat b, ca_compression = compression, ca_queue = [],
                    ca_closing = False, ca_error = None, ca_received = 0, ca_persisted = 0, ca_dropped = 0, ca_uncompressed = 0,
                    ca_stored = 0, ca_chunks = [], ca_index_sha = None, ca_synced = 0, ca_index_synced = False, ca_final = False,
                    ca_closed = None, ca_flight = None, ca_missed = False, ca_dead = False, ca_chunk = None, ca_files = [],
                    ca_index = [], ca_lines = [], ca_summary = None, ca_partial = None\<rparr>)
            | _ \<Rightarrow> raise ValueError ''camera archive requires a positive chunk size'')
      | _ \<Rightarrow> raise ValueError ''camera archive requires a positive bounded queue size'')"

definition camera_fail :: "string \<Rightarrow> camera \<Rightarrow> camera" where
  "camera_fail reason s = s\<lparr>ca_error := Some (case ca_error s of Some e \<Rightarrow> e | None \<Rightarrow> reason)\<rparr>"

text \<open>The truth of \<open>self.error\<close>, and its text.\<close>

definition camera_failed :: "camera \<Rightarrow> bool" where
  "camera_failed s \<longleftrightarrow> (case ca_error s of Some e \<Rightarrow> e \<noteq> [] | None \<Rightarrow> False)"

definition camera_reason :: "camera \<Rightarrow> string" where
  "camera_reason s = (case ca_error s of Some e \<Rightarrow> e | None \<Rightarrow> ''None'')"

definition frame_fits :: "bytes \<Rightarrow> pydict \<Rightarrow> bool" where
  "frame_fits data meta \<longleftrightarrow> (case (dget meta ''width'', dget meta ''height'') of
       (PInt w, PInt h) \<Rightarrow> 0 < w \<and> 0 < h \<and> int (length data) = w * h * 3 \<and> int (length data) \<le> camera_limit
     | _ \<Rightarrow> False)"

definition camera_append :: "bytes \<Rightarrow> pydict \<Rightarrow> camera \<Rightarrow> (exc + unit) \<times> camera" where
  "camera_append data meta s = (let s = s\<lparr>ca_received := ca_received s + 1\<rparr>; dropped = s\<lparr>ca_dropped := ca_dropped s + 1\<rparr> in
     if ca_closing s \<or> camera_failed s
     then (raise RuntimeError (if camera_failed s then camera_reason s else ''camera archive closed''), dropped)
     else if \<not> frame_fits data meta
     then (let s = camera_fail ''BGR_SIZE_MISMATCH'' dropped in (raise ValueError (camera_reason s), s))
     else if ca_max s \<le> length (ca_queue s)
     then (let s = camera_fail ''CAMERA_ARCHIVE_QUEUE_FULL'' dropped in (raise RuntimeError (camera_reason s), s))
     else (Inr (), s\<lparr>ca_queue := ca_queue s @ [(data, meta)]\<rparr>))"

section \<open>The worker\<close>

text \<open>The answers to one turn: \<open>wi_chunk\<close> and \<open>wi_finish\<close> tell how much of the file is there when the call fails.\<close>

record write_io =
  wi_finish :: "(exc \<times> nat) option"
  wi_open :: "exc option"
  wi_chunk :: "(exc \<times> nat) option"
  wi_index :: "exc option"

record finish_io =
  fi_finish :: "(exc \<times> nat) option"
  fi_flush :: "exc option"
  fi_sync :: "(exc \<times> nat) option"
  fi_index :: "exc option"

definition chunk_name :: "nat \<Rightarrow> string" where
  "chunk_name n = ''frames-'' @ replicate (6 - length (digits_of n)) CHR ''0'' @ digits_of n @ ''.bgr''"

definition chunk_digest :: "codec \<Rightarrow> string \<times> bytes \<Rightarrow> string \<times> string \<times> nat" where
  "chunk_digest cd = (\<lambda>(name, content). (name, cd_sha cd content, length content))"

definition finish_chunk :: "codec \<Rightarrow> (exc \<times> nat) option \<Rightarrow> camera \<Rightarrow> (exc + unit) \<times> camera" where
  "finish_chunk cd io s = (case ca_chunk s of
       None \<Rightarrow> (Inr (), s)
     | Some (name, content) \<Rightarrow>
         (case io of
            Some (e, n) \<Rightarrow> (Inl e, s\<lparr>ca_chunk := Some (name, take n content)\<rparr>)
          | None \<Rightarrow> (Inr (), s\<lparr>ca_chunk := None, ca_files := ca_files s @ [(name, content)],
                ca_chunks := ca_chunks s @ [chunk_digest cd (name, content)]\<rparr>)))"

definition open_chunk :: "exc option \<Rightarrow> camera \<Rightarrow> (exc + unit) \<times> camera" where
  "open_chunk io s = (let name = chunk_name (length (ca_chunks s)) in
     case io of
       Some e \<Rightarrow> (Inl e, s)
     | None \<Rightarrow> if name \<in> fst ` set (ca_files s) then (raise FileExistsError name, s)
               else (Inr (), s\<lparr>ca_chunk := Some (name, [])\<rparr>))"

definition rotates :: "nat \<Rightarrow> camera \<Rightarrow> bool" where
  "rotates n s \<longleftrightarrow> (case ca_chunk s of None \<Rightarrow> True | Some (_, content) \<Rightarrow> ca_limit s < length content + n)"

definition camera_row :: "codec \<Rightarrow> camera \<Rightarrow> string \<Rightarrow> nat \<Rightarrow> bytes \<Rightarrow> bytes \<Rightarrow> pydict \<Rightarrow> pydict" where
  "camera_row cd s name off stored data meta = dupdate
     [(''source_id'', PStr (ca_source s)), (''stream_epoch'', PStr (ca_epoch s)),
      (''representation'', PStr ''DECODED_BGR8_BEFORE_PREVIEW_ROTATION''), (''schema_version'', PInt 2),
      (''compression'', PStr (ca_compression s)),
      (''compression_level'', if ca_compression s = ''zlib'' then PInt 1 else PNone),
      (''file'', PStr name), (''offset'', PInt (int off)), (''length'', PInt (int (length stored))),
      (''uncompressed_length'', PInt (int (length data))), (''stored_sha256'', PStr (cd_sha cd stored)),
      (''payload_sha256'', PStr (cd_sha cd data))] meta"

definition stored_bytes :: "codec \<Rightarrow> camera \<Rightarrow> bytes \<Rightarrow> bytes" where
  "stored_bytes cd s data = (if ca_compression s = ''zlib'' then cd_compress cd data else data)"

text \<open>The block is written to the open chunk, then its row to the index.\<close>

definition write_block :: "codec \<Rightarrow> write_io \<Rightarrow> bytes \<Rightarrow> pydict \<Rightarrow> camera \<Rightarrow> (exc + unit) \<times> camera" where
  "write_block cd io data meta s = (case ca_chunk s of
       None \<Rightarrow> (raise AttributeError ''tell'', s)
     | Some (name, content) \<Rightarrow>
       (let stored = stored_bytes cd s data; row = camera_row cd s name (length content) stored data meta in
        case wi_chunk io of
          Some (e, n) \<Rightarrow> (Inl e, s\<lparr>ca_chunk := Some (name, content @ take n stored)\<rparr>)
        | None \<Rightarrow>
          (let s = s\<lparr>ca_chunk := Some (name, content @ stored)\<rparr> in
           case bindr (cd_json cd row) (\<lambda>line. case wi_index io of Some e \<Rightarrow> Inl e | None \<Rightarrow> Inr line) of
             Inl e \<Rightarrow> (Inl e, s)
           | Inr line \<Rightarrow> (Inr (), s\<lparr>ca_index := ca_index s @ [row], ca_lines := ca_lines s @ line, ca_persisted := ca_persisted s + 1,
                 ca_uncompressed := ca_uncompressed s + length data, ca_stored := ca_stored s + length stored\<rparr>))))"

text \<open>An exception ends the thread.\<close>

definition or_die :: "(exc + unit) \<times> camera \<Rightarrow> camera" where
  "or_die r = (case r of
       (Inl e, s) \<Rightarrow> (camera_fail (str_exc e) s)\<lparr>ca_dead := True, ca_flight := None\<rparr>
     | (Inr _, s) \<Rightarrow> s)"

text \<open>The index cannot be created when the thread starts.\<close>

definition camera_start_failed :: "exc \<Rightarrow> camera \<Rightarrow> camera" where
  "camera_start_failed e s = (if ca_dead s \<or> ca_missed s \<or> ca_flight s \<noteq> None \<or> ca_index s \<noteq> [] \<or> ca_chunk s \<noteq> None then s else or_die (Inl e, s))"

definition camera_take :: "camera \<Rightarrow> camera" where
  "camera_take s = (if ca_dead s \<or> ca_missed s \<or> ca_flight s \<noteq> None then s
     else case ca_queue s of [] \<Rightarrow> s | f # q \<Rightarrow> s\<lparr>ca_flight := Some f, ca_queue := q\<rparr>)"

definition camera_write :: "codec \<Rightarrow> write_io \<Rightarrow> camera \<Rightarrow> camera" where
  "camera_write cd io s = (case ca_flight s of
       None \<Rightarrow> s
     | Some (data, meta) \<Rightarrow> or_die
         (andthen (if rotates (length (stored_bytes cd s data)) s
                   then andthen (finish_chunk cd (wi_finish io) s) (open_chunk (wi_open io)) else (Inr (), s))
           (\<lambda>s. andthen (write_block cd io data meta s) (\<lambda>s. (Inr (), s\<lparr>ca_flight := None\<rparr>)))))"

definition camera_miss :: "camera \<Rightarrow> camera" where
  "camera_miss s = (if ca_dead s \<or> ca_flight s \<noteq> None \<or> ca_queue s \<noteq> [] then s else s\<lparr>ca_missed := True\<rparr>)"

definition sync_files :: "finish_io \<Rightarrow> camera \<Rightarrow> (exc + unit) \<times> camera" where
  "sync_files io s = (case fi_sync io of
       Some (e, n) \<Rightarrow> if n < length (ca_chunks s) then (Inl e, s\<lparr>ca_synced := n\<rparr>) else (Inr (), s\<lparr>ca_synced := length (ca_chunks s)\<rparr>)
     | None \<Rightarrow> (Inr (), s\<lparr>ca_synced := length (ca_chunks s)\<rparr>))"

definition camera_look :: "codec \<Rightarrow> finish_io \<Rightarrow> camera \<Rightarrow> camera" where
  "camera_look cd io s =
     (if ca_dead s \<or> \<not> ca_missed s then s
      else if \<not> ca_closing s then s\<lparr>ca_missed := False\<rparr>
      else or_die
        (andthen (finish_chunk cd (fi_finish io) s) (\<lambda>s. andthen (attempt (fi_flush io) id s) (\<lambda>s.
         andthen (sync_files io (s\<lparr>ca_index_sha := Some (cd_sha cd (ca_lines s))\<rparr>)) (\<lambda>s.
         andthen (attempt (fi_index io) id s) (\<lambda>s. (Inr (), s\<lparr>ca_index_synced := True, ca_final := True, ca_dead := True\<rparr>)))))))"

section \<open>Closing\<close>

record close_io =
  co_summary :: "(exc \<times> bool) option"
  co_unlink :: "exc option"
  co_partial :: "exc option"

definition close_value :: "pyval \<Rightarrow> camera \<Rightarrow> camera_value" where
  "close_value source_error s =
     (let synchronized = ca_final s \<and> \<not> camera_failed s \<and> ca_received s = ca_persisted s \<and> ca_dropped s = 0 in
      \<lparr>cv_captured = ca_received s, cv_persisted = ca_persisted s, cv_dropped = ca_dropped s, cv_error = ca_error s,
        cv_source_error = source_error, cv_chunks = ca_chunks s, cv_uncompressed = ca_uncompressed s, cv_stored = ca_stored s,
        cv_synchronized = synchronized, cv_closed_normally = synchronized \<and> \<not> py_true source_error,
        cv_complete = synchronized \<and> \<not> py_true source_error, cv_final = ca_final s, cv_chunks_synced = ca_synced s,
        cv_index_synced = ca_index_synced s, cv_index_sha = ca_index_sha s\<rparr>)"

definition as_partial :: "camera \<Rightarrow> camera_value \<Rightarrow> camera_value" where
  "as_partial s v = v\<lparr>cv_error := ca_error s, cv_complete := False, cv_synchronized := False, cv_closed_normally := False\<rparr>"

text \<open>\<open>close\<close> after its \<open>join\<close>; the summary's publication may fail before or after the file has its name (the flag of
  \<open>co_summary\<close>), and then the file is removed again unless that fails too.\<close>

definition camera_close :: "close_io \<Rightarrow> pyval \<Rightarrow> camera \<Rightarrow> (exc + camera_value) \<times> camera" where
  "camera_close io source_error s = (case ca_closed s of
       Some v \<Rightarrow> (if camera_failed s then raise RuntimeError (camera_reason s) else Inr v, s)
     | None \<Rightarrow>
         if \<not> ca_dead s then (let s = camera_fail ''CAMERA_ARCHIVE_CLOSE_TIMEOUT'' s in (raise RuntimeError (camera_reason s), s))
         else let v = close_value source_error s in
         if \<not> ca_final s
         then (let s = camera_fail ''CAMERA_ARCHIVE_DURABILITY_INCOMPLETE'' s;
                   s = (if co_partial io = None then s\<lparr>ca_partial := Some (as_partial s v)\<rparr> else s)
               in (raise RuntimeError (camera_reason s), s))
         else (case co_summary io of
             None \<Rightarrow> (let s = s\<lparr>ca_summary := Some v, ca_closed := Some v\<rparr>
                      in (if camera_failed s then raise RuntimeError (camera_reason s) else Inr v, s))
           | Some (e, renamed) \<Rightarrow>
               (let s = camera_fail (''CAMERA_ARCHIVE_SUMMARY_SYNC_FAILED: '' @ str_exc e) s;
                    s = (if renamed then s\<lparr>ca_summary := Some v\<rparr> else s);
                    s = (if co_unlink io \<noteq> None then s
                         else (let s = s\<lparr>ca_summary := None\<rparr> in
                               if co_partial io = None then s\<lparr>ca_partial := Some (as_partial s v)\<rparr> else s))
                in (raise RuntimeError (camera_reason s), s))))"

section \<open>Runs\<close>

datatype camera_op = Append bytes pydict | Start_failed exc | Take | Write write_io | Miss | Look finish_io | Start_close | Close close_io pyval

definition start_close :: "camera \<Rightarrow> camera" where
  "start_close s = (if ca_closed s = None then s\<lparr>ca_closing := True\<rparr> else s)"

fun camera_step :: "codec \<Rightarrow> camera_op \<Rightarrow> camera \<Rightarrow> (exc + camera_value option) \<times> camera" where
  "camera_step cd (Append data meta) s = (case camera_append data meta s of (r, s) \<Rightarrow> (map_sum id (\<lambda>_. None) r, s))"
| "camera_step cd (Start_failed e) s = (Inr None, camera_start_failed e s)"
| "camera_step cd Take s = (Inr None, camera_take s)"
| "camera_step cd (Write io) s = (Inr None, camera_write cd io s)"
| "camera_step cd Miss s = (Inr None, camera_miss s)"
| "camera_step cd (Look io) s = (Inr None, camera_look cd io s)"
| "camera_step cd Start_close s = (Inr None, start_close s)"
| "camera_step cd (Close io source_error) s =
     (if \<not> ca_closing s then (Inr None, s)
      else case camera_close io source_error s of (r, s) \<Rightarrow> (map_sum id Some r, s))"

section \<open>The invariant\<close>

definition all_files :: "camera \<Rightarrow> (string \<times> bytes) list" where
  "all_files s = ca_files s @ (case ca_chunk s of None \<Rightarrow> [] | Some c \<Rightarrow> [c])"

definition flying :: "camera \<Rightarrow> (bytes \<times> pydict) list" where
  "flying s = (case ca_flight s of None \<Rightarrow> [] | Some f \<Rightarrow> [f])"

text \<open>The stored block of frame \<open>f\<close> is where its index row says.\<close>

definition placed :: "codec \<Rightarrow> camera \<Rightarrow> bytes \<times> pydict \<Rightarrow> pydict \<Rightarrow> bool" where
  "placed cd s f row \<longleftrightarrow> (\<exists>k off content. map_of (all_files s) (chunk_name k) = Some content
     \<and> row = camera_row cd s (chunk_name k) off (stored_bytes cd s (fst f)) (fst f) (snd f)
     \<and> off + length (stored_bytes cd s (fst f)) \<le> length content
     \<and> take (length (stored_bytes cd s (fst f))) (drop off content) = stored_bytes cd s (fst f))"

text \<open>What holds of the files of any archive, also of one whose worker died.\<close>

definition files_ok :: "codec \<Rightarrow> camera \<Rightarrow> bool" where
  "files_ok cd s \<longleftrightarrow> distinct (map fst (all_files s)) \<and> list_all (\<lambda>f. \<exists>k. fst f = chunk_name k) (all_files s)
     \<and> ca_chunks s = map (chunk_digest cd) (ca_files s) \<and> ca_compression s \<in> {''zlib'', ''none''}"

definition counts_ok :: "(bytes \<times> pydict) list \<Rightarrow> camera \<Rightarrow> bool" where
  "counts_ok fs s \<longleftrightarrow> ca_received s = length fs + ca_dropped s \<and> ca_persisted s = length (ca_index s)
     \<and> list_all (\<lambda>f. frame_fits (fst f) (snd f)) fs \<and> (ca_dead s \<or> ca_missed s \<longrightarrow> ca_flight s = None) \<and> length (ca_queue s) \<le> ca_max s"

definition content_ok :: "codec \<Rightarrow> (bytes \<times> pydict) list \<Rightarrow> camera \<Rightarrow> bool" where
  "content_ok cd fs s \<longleftrightarrow> length (ca_index s) \<le> length fs \<and> drop (length (ca_index s)) fs = flying s @ ca_queue s
     \<and> list_all2 (placed cd s) (take (length (ca_index s)) fs) (ca_index s)"

definition final_ok :: "codec \<Rightarrow> camera \<Rightarrow> bool" where
  "final_ok cd s \<longleftrightarrow> (ca_final s \<longrightarrow> ca_dead s \<and> ca_chunk s = None \<and> ca_index_synced s \<and> ca_synced s = length (ca_files s)
     \<and> ca_index_sha s = Some (cd_sha cd (ca_lines s)))"

definition summary_ok :: "(bytes \<times> pydict) list \<Rightarrow> camera \<Rightarrow> bool" where
  "summary_ok fs s \<longleftrightarrow> (ca_closed s \<noteq> None \<longrightarrow> ca_closing s)
     \<and> (\<forall>v. ca_summary s = Some v \<and> cv_complete v \<longrightarrow> ca_final s \<and> ca_closing s \<and> length (ca_index s) = length fs
         \<and> cv_captured v = length fs \<and> cv_chunks v = ca_chunks s \<and> cv_index_sha v = ca_index_sha s)"

definition camera_ok :: "codec \<Rightarrow> (bytes \<times> pydict) list \<Rightarrow> camera \<Rightarrow> bool" where
  "camera_ok cd fs s \<longleftrightarrow> files_ok cd s \<and> counts_ok fs s \<and> final_ok cd s \<and> summary_ok fs s
     \<and> ((ca_dead s \<longrightarrow> ca_final s) \<longrightarrow> content_ok cd fs s)"

lemma camera_init_ok: "camera_init mkdir source epoch items bytes compression = Inr s \<Longrightarrow> camera_ok cd [] s"
  by (auto simp: camera_init_def camera_ok_def files_ok_def all_files_def counts_ok_def final_ok_def summary_ok_def content_ok_def
      flying_def split: pyval.splits if_splits option.splits)

lemma camera_fail_sel [simp]:
  "ca_queue (camera_fail m s) = ca_queue s" "ca_closing (camera_fail m s) = ca_closing s" "ca_received (camera_fail m s) = ca_received s"
  "ca_dropped (camera_fail m s) = ca_dropped s" "ca_max (camera_fail m s) = ca_max s"
  by (simp_all add: camera_fail_def)

lemma camera_ok_fail [simp]: "camera_ok cd fs (camera_fail m s) = camera_ok cd fs s"
proof -
  have "camera_row cd (camera_fail m s) = camera_row cd s" "stored_bytes cd (camera_fail m s) = stored_bytes cd s"
    by (simp_all add: camera_fail_def camera_row_def stored_bytes_def fun_eq_iff)
  then have "placed cd (camera_fail m s) = placed cd s" by (simp add: placed_def all_files_def camera_fail_def fun_eq_iff)
  then show ?thesis
    by (simp add: camera_ok_def files_ok_def counts_ok_def final_ok_def summary_ok_def content_ok_def all_files_def flying_def)
       (simp add: camera_fail_def)
qed

text \<open>\<open>placed\<close> depends on the files and three constants of the archive.\<close>

lemma placed_mono:
  assumes "placed cd s f row" "ca_source s' = ca_source s" "ca_epoch s' = ca_epoch s" "ca_compression s' = ca_compression s"
    "\<And>name content. map_of (all_files s) name = Some content \<Longrightarrow> \<exists>new. map_of (all_files s') name = Some (content @ new)"
  shows "placed cd s' f row"
proof -
  have same: "camera_row cd s' = camera_row cd s" "stored_bytes cd s' = stored_bytes cd s"
    using assms(2-4) by (simp_all add: camera_row_def stored_bytes_def fun_eq_iff)
  obtain k off content where p: "map_of (all_files s) (chunk_name k) = Some content"
      "row = camera_row cd s (chunk_name k) off (stored_bytes cd s (fst f)) (fst f) (snd f)"
      "off + length (stored_bytes cd s (fst f)) \<le> length content"
      "take (length (stored_bytes cd s (fst f))) (drop off content) = stored_bytes cd s (fst f)"
    using assms(1) by (auto simp: placed_def)
  obtain rest where "map_of (all_files s') (chunk_name k) = Some (content @ rest)" using assms(5) [OF p(1)] by blast
  with p same show ?thesis unfolding placed_def
    by (intro exI [of _ k] exI [of _ off] exI [of _ "content @ rest"]) simp
qed

lemma camera_append_ok:
  assumes "camera_ok cd fs s" "camera_append data meta s = (r, s')"
  shows "camera_ok cd (fs @ (if is_ok r then [(data, meta)] else [])) s'"
proof (cases "is_ok r")
  case True
  then have s': "s' = s\<lparr>ca_received := ca_received s + 1, ca_queue := ca_queue s @ [(data, meta)]\<rparr>" and "frame_fits data meta" "\<not> ca_closing s"
      "length (ca_queue s) < ca_max s"
    using assms(2) by (auto simp: camera_append_def Let_def split: if_splits)
  moreover have "placed cd (s\<lparr>ca_received := n, ca_queue := q\<rparr>) = placed cd s" for n q
    by (simp add: placed_def all_files_def camera_row_def stored_bytes_def fun_eq_iff)
  ultimately show ?thesis using assms(1) True
    by (auto simp: camera_ok_def files_ok_def counts_ok_def final_ok_def summary_ok_def content_ok_def all_files_def flying_def)
next
  case False
  define t where "t = s\<lparr>ca_received := ca_received s + 1, ca_dropped := ca_dropped s + 1\<rparr>"
  have "placed cd t = placed cd s" by (simp add: t_def placed_def all_files_def camera_row_def stored_bytes_def fun_eq_iff)
  then have t: "camera_ok cd fs t" using assms(1)
    by (auto simp: camera_ok_def files_ok_def counts_ok_def final_ok_def summary_ok_def content_ok_def all_files_def flying_def t_def)
  from False assms(2) have "s' = t \<or> (\<exists>m. s' = camera_fail m t)"
    by (auto simp: camera_append_def Let_def t_def split: if_splits)
  with t False show ?thesis by auto
qed

section \<open>The worker keeps it\<close>

text \<open>What a turn leaves alone.\<close>

definition untouched :: "camera \<Rightarrow> camera \<Rightarrow> bool" where
  "untouched s s' \<longleftrightarrow> s' = s\<lparr>ca_chunk := ca_chunk s', ca_files := ca_files s', ca_chunks := ca_chunks s', ca_synced := ca_synced s', ca_index_sha := ca_index_sha s'\<rparr>"

lemma untouched_refl [simp]: "untouched s s"
  by (simp add: untouched_def)

lemma untouched_update [simp]:
  "untouched s (s\<lparr>ca_chunk := c\<rparr>)" "untouched s (s\<lparr>ca_chunk := c, ca_files := f, ca_chunks := d\<rparr>)"
  "untouched s (s\<lparr>ca_synced := n\<rparr>)" "untouched s (s\<lparr>ca_index_sha := h\<rparr>)"
  by (simp_all add: untouched_def)

lemma untouched_trans: "untouched s t \<Longrightarrow> untouched t u \<Longrightarrow> untouched s u"
  by (cases s; cases t; cases u) (simp add: untouched_def)

lemma untouched_sel:
  assumes "untouched s s'"
  shows "ca_source s' = ca_source s" "ca_epoch s' = ca_epoch s" "ca_compression s' = ca_compression s" "ca_queue s' = ca_queue s"
    "ca_closing s' = ca_closing s" "ca_received s' = ca_received s" "ca_persisted s' = ca_persisted s" "ca_dropped s' = ca_dropped s"
    "ca_flight s' = ca_flight s" "ca_dead s' = ca_dead s" "ca_index s' = ca_index s" "ca_lines s' = ca_lines s" "ca_max s' = ca_max s"
    "ca_summary s' = ca_summary s" "ca_closed s' = ca_closed s" "ca_final s' = ca_final s"
    "ca_missed s' = ca_missed s"
  using assms by (cases s; cases s'; simp add: untouched_def)+

definition extends :: "camera \<Rightarrow> camera \<Rightarrow> bool" where
  "extends s s' \<longleftrightarrow> (\<forall>name content. map_of (all_files s) name = Some content \<longrightarrow> (\<exists>new. map_of (all_files s') name = Some (content @ new)))"

lemma extends_refl [simp]: "extends s s"
  unfolding extends_def by (metis append_Nil2)

lemma extends_trans: "extends s t \<Longrightarrow> extends t u \<Longrightarrow> extends s u"
  unfolding extends_def by (metis append_assoc)

lemma extends_placed:
  "extends s s' \<Longrightarrow> untouched s s' \<Longrightarrow> list_all2 (placed cd s) fs rows \<Longrightarrow> list_all2 (placed cd s') fs rows"
  by (erule list_all2_mono, rule placed_mono) (auto simp: untouched_sel extends_def)

lemma files_ok_named:
  "files_ok cd s \<Longrightarrow> ca_chunk s = Some (name, content) \<Longrightarrow> name \<notin> fst ` set (ca_files s) \<and> (\<exists>k. name = chunk_name k)"
  by (auto simp: files_ok_def all_files_def)

lemma files_ok_chunk: "files_ok cd s \<Longrightarrow> ca_chunk s = Some (name, old) \<Longrightarrow> files_ok cd (s\<lparr>ca_chunk := Some (name, content)\<rparr>)"
  by (simp add: files_ok_def all_files_def)

lemma extends_chunk:
  "files_ok cd s \<Longrightarrow> ca_chunk s = Some (name, content) \<Longrightarrow> extends s (s\<lparr>ca_chunk := Some (name, content @ new)\<rparr>)"
  unfolding extends_def all_files_def
  by (auto simp: map_add_Some_iff map_of_append files_ok_def dest: map_of_SomeD split: if_splits)

lemma open_chunk_content: "files_ok cd s \<Longrightarrow> ca_chunk s = Some (name, content) \<Longrightarrow> map_of (all_files s) name = Some content"
  using files_ok_named [of cd s name content] map_of_eq_None_iff [of "ca_files s" name] by (auto simp: all_files_def map_of_append map_add_def)

lemma finish_chunk_props:
  assumes "finish_chunk cd io s = (r, s')" "files_ok cd s"
  shows "files_ok cd s' \<and> untouched s s' \<and> (is_ok r \<longrightarrow> ca_chunk s' = None \<and> extends s s' \<and> all_files s' = all_files s)"
proof (cases "ca_chunk s")
  case None
  with assms show ?thesis by (auto simp: finish_chunk_def)
next
  case (Some c)
  then obtain name content where c: "ca_chunk s = Some (name, content)" by (cases c) auto
  show ?thesis
  proof (cases io)
    case None
    with assms(1) have s': "is_ok r" "s' = s\<lparr>ca_chunk := None, ca_files := ca_files s @ [(name, content)],
        ca_chunks := ca_chunks s @ [chunk_digest cd (name, content)]\<rparr>" by (auto simp: finish_chunk_def c)
    then have "all_files s' = all_files s" by (simp add: all_files_def c)
    with assms(2) show ?thesis unfolding extends_def by (simp add: s'(2) files_ok_def)
  next
    case (Some e)
    with assms(1) have "isl r" "s' = s\<lparr>ca_chunk := Some (name, take (snd e) content)\<rparr>" by (auto simp: finish_chunk_def c split: prod.splits)
    with files_ok_chunk [OF assms(2) c] show ?thesis by simp
  qed
qed

lemma open_chunk_props:
  assumes "open_chunk io s = (r, s')" "files_ok cd s" "ca_chunk s = None"
  shows "files_ok cd s' \<and> untouched s s' \<and> (is_ok r \<longrightarrow> ca_chunk s' \<noteq> None \<and> extends s s')"
proof (cases "is_ok r")
  case True
  define name where "name = chunk_name (length (ca_chunks s))"
  have s': "s' = s\<lparr>ca_chunk := Some (name, [])\<rparr>" and n: "name \<notin> fst ` set (ca_files s)"
    using assms(1) True by (auto simp: open_chunk_def Let_def name_def split: option.splits if_splits)
  have "files_ok cd s'" using assms(2,3) n by (auto simp: s' files_ok_def all_files_def name_def)
  moreover have "extends s s'" unfolding extends_def s' all_files_def using assms(3) n
    by (auto simp: map_of_append map_add_Some_iff dest: map_of_SomeD intro: rev_image_eqI)
  ultimately show ?thesis by (simp add: s')
next
  case False
  with assms show ?thesis by (auto simp: open_chunk_def Let_def split: option.splits if_splits)
qed

lemma rotate_props:
  assumes "(if rotates n s then andthen (finish_chunk cd fio s) (open_chunk oio) else (Inr (), s)) = (r, s')" "files_ok cd s"
  shows "files_ok cd s' \<and> untouched s s' \<and> (is_ok r \<longrightarrow> ca_chunk s' \<noteq> None \<and> extends s s')"
proof (cases "rotates n s")
  case True
  obtain q t where t: "finish_chunk cd fio s = (q, t)" by (cases "finish_chunk cd fio s")
  note f = finish_chunk_props [OF t assms(2)]
  show ?thesis
  proof (cases q)
    case (Inl e)
    with assms True t f show ?thesis by auto
  next
    case (Inr u)
    with assms True t have "open_chunk oio t = (r, s')" by simp
    with f Inr open_chunk_props [of oio t r s' cd] show ?thesis using untouched_trans extends_trans by auto
  qed
next
  case False
  with assms show ?thesis by (auto simp: rotates_def split: option.splits)
qed

text \<open>Either the frame in flight is on the index and in a chunk, or the thread ends.\<close>

lemma write_block_props:
  assumes "write_block cd io data meta s = (r, s')" "files_ok cd s" "ca_chunk s \<noteq> None"
  shows "files_ok cd s' \<and> (if is_ok r
      then \<exists>row line t. untouched s t \<and> extends s t \<and> placed cd t (data, meta) row
        \<and> s' = t\<lparr>ca_index := ca_index s @ [row], ca_lines := ca_lines s @ line, ca_persisted := ca_persisted s + 1,
                 ca_uncompressed := ca_uncompressed s + length data, ca_stored := ca_stored s + length (stored_bytes cd s data)\<rparr>
      else untouched s s')"
proof -
  obtain name content where c: "ca_chunk s = Some (name, content)" using assms(3) by auto
  define stored row where "stored = stored_bytes cd s data" and "row = camera_row cd s name (length content) stored data meta"
  note fresh = files_ok_named [OF assms(2) c]
  define t where "t = s\<lparr>ca_chunk := Some (name, content @ stored)\<rparr>"
  have t: "files_ok cd t" "untouched s t" "extends s t"
    using files_ok_chunk [OF assms(2) c] extends_chunk [OF assms(2) c] by (simp_all add: t_def)
  have "placed cd t (data, meta) row"
  proof -
    have "map_of (all_files t) name = Some (content @ stored)" by (rule open_chunk_content [OF t(1)]) (simp add: t_def)
    moreover have "camera_row cd t = camera_row cd s" "stored_bytes cd t = stored_bytes cd s"
      by (simp_all add: t_def camera_row_def stored_bytes_def fun_eq_iff)
    moreover obtain k where "name = chunk_name k" using fresh by blast
    ultimately show ?thesis unfolding placed_def row_def stored_def
      by (intro exI [of _ k] exI [of _ "length content"] exI [of _ "content @ stored_bytes cd s data"]) simp
  qed
  moreover have "files_ok cd (t\<lparr>ca_index := a, ca_lines := b, ca_persisted := p, ca_uncompressed := u, ca_stored := w\<rparr>)" for a b p u w
    using t(1) by (simp add: files_ok_def all_files_def)
  moreover have "isl r \<and> (\<exists>c. s' = s\<lparr>ca_chunk := Some (name, c)\<rparr>) \<or> is_ok r \<and> (\<exists>line. s' = t\<lparr>ca_index := ca_index s @ [row], ca_lines := ca_lines s @ line,
      ca_persisted := ca_persisted s + 1, ca_uncompressed := ca_uncompressed s + length data, ca_stored := ca_stored s + length stored\<rparr>)"
    using assms(1) by (auto simp: write_block_def c Let_def stored_def row_def t_def split: option.splits sum.splits)
  ultimately show ?thesis using t files_ok_chunk [OF assms(2) c] unfolding stored_def by fastforce
qed

lemma died_ok:
  assumes "camera_ok cd fs s" "untouched s s'" "files_ok cd s'" "\<not> ca_dead s"
  shows "camera_ok cd fs ((camera_fail m s')\<lparr>ca_dead := True, ca_flight := None\<rparr>)"
proof -
  have "\<not> ca_final s" using assms(1,4) by (auto simp: camera_ok_def final_ok_def)
  with assms show ?thesis
    by (auto simp: camera_ok_def counts_ok_def final_ok_def summary_ok_def files_ok_def all_files_def untouched_sel camera_fail_def)
qed

lemma camera_start_failed_ok: "camera_ok cd fs s \<Longrightarrow> camera_ok cd fs (camera_start_failed e s)"
  using died_ok [of cd fs s s] by (auto simp: camera_start_failed_def or_die_def camera_ok_def)

lemma files_ok_flight [simp]: "files_ok cd (s\<lparr>ca_flight := f\<rparr>) = files_ok cd s"
  by (simp add: files_ok_def all_files_def)

lemma placed_flight [simp]: "placed cd (s\<lparr>ca_flight := f\<rparr>) = placed cd s"
  by (simp add: placed_def all_files_def camera_row_def stored_bytes_def fun_eq_iff)

lemma camera_take_ok:
  assumes "camera_ok cd fs s" shows "camera_ok cd fs (camera_take s)"
proof (cases "ca_dead s \<or> ca_missed s \<or> ca_flight s \<noteq> None \<or> ca_queue s = []")
  case True
  then have "camera_take s = s" by (auto simp: camera_take_def)
  with assms show ?thesis by simp
next
  case False
  then have "ca_queue s \<noteq> []" "ca_flight s = None" "\<not> ca_dead s" by blast+
  then obtain f q where q: "ca_queue s = f # q" "ca_flight s = None" "\<not> ca_dead s" using neq_Nil_conv by metis
  define t where "t = s\<lparr>ca_flight := Some f, ca_queue := q\<rparr>"
  have t: "camera_take s = t" using False q(1) by (simp add: camera_take_def t_def)
  have "placed cd t = placed cd s" by (simp add: t_def placed_def all_files_def camera_row_def stored_bytes_def fun_eq_iff)
  with assms q have "content_ok cd fs t" by (simp add: camera_ok_def content_ok_def flying_def t_def)
  moreover have "summary_ok fs t" using assms unfolding camera_ok_def summary_ok_def by (auto simp: t_def)
  moreover have "files_ok cd t" "final_ok cd t" using assms by (simp_all add: camera_ok_def files_ok_def final_ok_def all_files_def t_def)
  moreover have "counts_ok fs t" using assms q False by (simp add: camera_ok_def counts_ok_def t_def)
  ultimately show ?thesis by (simp add: t camera_ok_def)
qed

lemma placed_missed [simp]: "placed cd (s\<lparr>ca_missed := m\<rparr>) = placed cd s"
  by (simp add: placed_def all_files_def camera_row_def stored_bytes_def fun_eq_iff)

lemma camera_missed_ok: "camera_ok cd fs s \<Longrightarrow> (m \<Longrightarrow> ca_flight s = None) \<Longrightarrow> camera_ok cd fs (s\<lparr>ca_missed := m\<rparr>)"
  by (auto simp: camera_ok_def files_ok_def counts_ok_def final_ok_def summary_ok_def content_ok_def all_files_def flying_def)

lemma camera_miss_ok:
  assumes "camera_ok cd fs s" shows "camera_ok cd fs (camera_miss s)"
proof (cases "ca_dead s \<or> ca_flight s \<noteq> None \<or> ca_queue s \<noteq> []")
  case True
  with assms show ?thesis by (simp only: camera_miss_def if_True)
next
  case False
  then have "ca_flight s = None" by blast
  with False show ?thesis unfolding camera_miss_def by (simp only: if_False) (rule camera_missed_ok [OF assms])
qed

lemma wrote_ok:
  assumes "camera_ok cd fs s" "\<not> ca_dead s" "ca_flight s = Some f" "untouched s t" "extends s t" "placed cd t f row"
    and "s' = t\<lparr>ca_index := ca_index s @ [row], ca_lines := l, ca_persisted := ca_persisted s + 1, ca_uncompressed := u, ca_stored := w,
            ca_flight := None\<rparr>"
    and "files_ok cd s'"
  shows "camera_ok cd fs s'"
proof -
  have nf: "\<not> ca_final s" and c: "content_ok cd fs s" "counts_ok fs s" and su: "summary_ok fs s"
    using assms(1,2) by (auto simp: camera_ok_def final_ok_def)
  have fs: "drop (length (ca_index s)) fs = f # ca_queue s" using c(1) assms(3) by (simp add: content_ok_def flying_def)
  then have n: "length (ca_index s) < length fs" by (metis drop_eq_Nil linorder_not_less list.distinct(1))
  have f: "fs ! length (ca_index s) = f" "drop (Suc (length (ca_index s))) fs = ca_queue s"
    using fs n by (simp_all add: Cons_nth_drop_Suc [symmetric])
  have "list_all2 (placed cd t) (take (length (ca_index s)) fs @ [f]) (ca_index s @ [row])"
    using c(1) assms(6) extends_placed [OF assms(5,4)] by (auto simp: content_ok_def intro!: list_all2_appendI)
  moreover have "placed cd s' = placed cd t" using assms(7)
    by (simp add: placed_def all_files_def camera_row_def stored_bytes_def fun_eq_iff)
  ultimately have "content_ok cd fs s'"
    using n f assms(4,7) by (simp add: content_ok_def flying_def take_Suc_conv_app_nth untouched_sel)
  with assms(4,7,8) c(2) nf assms(2) su show ?thesis
    by (auto simp: camera_ok_def counts_ok_def final_ok_def summary_ok_def untouched_sel)
qed

lemma camera_write_ok:
  assumes "camera_ok cd fs s" shows "camera_ok cd fs (camera_write cd io s)"
proof (cases "ca_flight s")
  case None
  with assms show ?thesis by (simp add: camera_write_def)
next
  case (Some f)
  obtain data meta where f: "ca_flight s = Some (data, meta)" using Some by (cases f) auto
  have alive: "\<not> ca_dead s" and files: "files_ok cd s" using assms f by (auto simp: camera_ok_def counts_ok_def)
  define rot where "rot = (if rotates (length (stored_bytes cd s data)) s
      then andthen (finish_chunk cd (wi_finish io) s) (open_chunk (wi_open io)) else (Inr (), s))"
  obtain r t where t: "rot = (r, t)" by (cases rot)
  note p = rotate_props [OF t [unfolded rot_def] files]
  have w: "camera_write cd io s = or_die (andthen (r, t) (\<lambda>s. andthen (write_block cd io data meta s) (\<lambda>s. (Inr (), s\<lparr>ca_flight := None\<rparr>))))"
    by (simp add: camera_write_def f rot_def [symmetric] t)
  show ?thesis
  proof (cases r)
    case (Inl e)
    with died_ok [OF assms _ _ alive] p show ?thesis by (simp add: w or_die_def)
  next
    case (Inr u)
    obtain q z where z: "write_block cd io data meta t = (q, z)" by (cases "write_block cd io data meta t")
    have p': "files_ok cd t" "untouched s t" "ca_chunk t \<noteq> None" "extends s t" using p Inr by auto
    note b = write_block_props [OF z p'(1,3)]
    show ?thesis
    proof (cases q)
      case (Inl e)
      with b have "untouched s z" "files_ok cd z" using untouched_trans [OF p'(2)] by auto
      with died_ok [OF assms _ _ alive] show ?thesis by (simp add: w Inr z Inl or_die_def)
    next
      case q: (Inr v)
      with b obtain row line y where y: "untouched t y" "extends t y" "placed cd y (data, meta) row"
          "z = y\<lparr>ca_index := ca_index t @ [row], ca_lines := ca_lines t @ line, ca_persisted := ca_persisted t + 1,
              ca_uncompressed := ca_uncompressed t + length data, ca_stored := ca_stored t + length (stored_bytes cd t data)\<rparr>" and zf: "files_ok cd z"
        by auto
      have "camera_ok cd fs (z\<lparr>ca_flight := None\<rparr>)"
        by (rule wrote_ok [OF assms alive f untouched_trans [OF p'(2) y(1)] extends_trans [OF p'(4) y(2)] y(3)])
          (use y(4) zf p'(2) in \<open>simp_all add: untouched_sel\<close>)
      then show ?thesis by (simp add: w Inr z q or_die_def)
    qed
  qed
qed

lemma files_ok_sel [simp]: "files_ok cd (s\<lparr>ca_synced := n\<rparr>) = files_ok cd s" "files_ok cd (s\<lparr>ca_index_sha := h\<rparr>) = files_ok cd s"
  by (simp_all add: files_ok_def all_files_def)

lemma sync_files_props:
  assumes "sync_files io s = (r, s')"
  shows "\<exists>n. s' = s\<lparr>ca_synced := n\<rparr> \<and> (is_ok r \<longrightarrow> n = length (ca_chunks s))"
  using assms by (auto simp: sync_files_def split: option.splits if_splits) blast+

lemma finished_ok:
  assumes "camera_ok cd fs s" "\<not> ca_dead s" "ca_missed s" "ca_flight s = None" "untouched s t" "files_ok cd t" "extends s t" "ca_chunk t = None"
    and "ca_index_sha t = Some (cd_sha cd (ca_lines t))" "ca_synced t = length (ca_chunks t)"
  shows "camera_ok cd fs (t\<lparr>ca_index_synced := True, ca_final := True, ca_dead := True\<rparr>)"
proof -
  let ?t = "t\<lparr>ca_index_synced := True, ca_final := True, ca_dead := True\<rparr>"
  have nf: "\<not> ca_final s" and c: "content_ok cd fs s" "counts_ok fs s" and su: "summary_ok fs s"
    using assms(1,2) by (auto simp: camera_ok_def final_ok_def)
  have "placed cd ?t = placed cd t" by (simp add: placed_def all_files_def camera_row_def stored_bytes_def fun_eq_iff)
  then have "content_ok cd fs ?t" using c(1) extends_placed [OF assms(7,5)] assms(4,5)
    by (simp add: content_ok_def flying_def untouched_sel)
  moreover have "files_ok cd ?t" using assms(6) by (simp add: files_ok_def all_files_def)
  moreover from this have "length (ca_chunks t) = length (ca_files t)" by (simp add: files_ok_def)
  ultimately show ?thesis using assms(4,5,8-10) c(2) su nf
    by (auto simp: camera_ok_def counts_ok_def final_ok_def summary_ok_def untouched_sel)
qed

lemma camera_look_ok:
  assumes "camera_ok cd fs s" shows "camera_ok cd fs (camera_look cd io s)"
proof (cases "ca_dead s \<or> \<not> ca_missed s \<or> \<not> ca_closing s")
  case True
  with assms show ?thesis by (auto simp: camera_look_def intro: camera_missed_ok)
next
  case False
  then have alive: "\<not> ca_dead s" and m: "ca_missed s" and fl: "ca_flight s = None" and files: "files_ok cd s"
    using assms by (auto simp: camera_ok_def counts_ok_def)
  obtain r1 s1 where 1: "finish_chunk cd (fi_finish io) s = (r1, s1)" by (cases "finish_chunk cd (fi_finish io) s")
  define s2 where "s2 = s1\<lparr>ca_index_sha := Some (cd_sha cd (ca_lines s1))\<rparr>"
  obtain r3 s3 where 3: "sync_files io s2 = (r3, s3)" by (cases "sync_files io s2")
  obtain n where n: "s3 = s2\<lparr>ca_synced := n\<rparr>" "is_ok r3 \<longrightarrow> n = length (ca_chunks s2)" using sync_files_props [OF 3] by blast
  have p1: "files_ok cd s1" "untouched s s1" "is_ok r1 \<longrightarrow> ca_chunk s1 = None \<and> extends s s1" using finish_chunk_props [OF 1 files] by auto
  have p3: "files_ok cd s3" "untouched s s3" using p1 n untouched_trans [OF p1(2)] untouched_trans [of s1 s2 s3]
    by (auto simp: s2_def)
  have look: "camera_look cd io s = or_die (andthen (r1, s1) (\<lambda>s. andthen (attempt (fi_flush io) id s) (\<lambda>s.
         andthen (sync_files io (s\<lparr>ca_index_sha := Some (cd_sha cd (ca_lines s))\<rparr>)) (\<lambda>s.
         andthen (attempt (fi_index io) id s) (\<lambda>s. (Inr (), s\<lparr>ca_index_synced := True, ca_final := True, ca_dead := True\<rparr>))))))"
    using False by (simp add: camera_look_def 1)
  note died = died_ok [OF assms _ _ alive]
  show ?thesis
  proof (cases "is_ok r1 \<and> fi_flush io = None \<and> is_ok r3 \<and> fi_index io = None")
    case True
    then have "camera_look cd io s = s3\<lparr>ca_index_synced := True, ca_final := True, ca_dead := True\<rparr>"
      using 3 by (cases r1; cases r3) (simp_all add: look s2_def or_die_def)
    moreover have "all_files s3 = all_files s1" using n(1) by (simp add: all_files_def s2_def)
    then have "extends s s3" using True p1(3) by (simp add: extends_def)
    moreover have "ca_chunk s3 = None" using True p1(3) n(1) by (simp add: s2_def)
    ultimately show ?thesis using finished_ok [OF assms alive m fl p3(2,1)] True n by (simp add: s2_def)
  next
    case F: False
    show ?thesis
    proof (cases "is_ok r1 \<and> fi_flush io = None")
      case True
      with F 3 obtain e where "camera_look cd io s = or_die (Inl e, s3)"
        by (cases r1; cases r3; cases "fi_index io") (auto simp: look s2_def)
      then show ?thesis using died [OF p3(2,1)] by (simp add: or_die_def)
    next
      case False
      then obtain e where "camera_look cd io s = or_die (Inl e, s1)" by (cases r1; cases "fi_flush io") (auto simp: look)
      then show ?thesis using died [OF p1(2,1)] by (simp add: or_die_def)
    qed
  qed
qed

lemma closing_ok: "camera_ok cd fs s \<Longrightarrow> camera_ok cd fs (start_close s)"
proof -
  have "placed cd (s\<lparr>ca_closing := True\<rparr>) = placed cd s"
    by (simp add: placed_def all_files_def camera_row_def stored_bytes_def fun_eq_iff)
  then show "camera_ok cd fs s \<Longrightarrow> camera_ok cd fs (start_close s)"
    by (auto simp: start_close_def camera_ok_def files_ok_def counts_ok_def final_ok_def summary_ok_def content_ok_def all_files_def flying_def)
qed

lemma camera_partial_ok [simp]: "camera_ok cd fs (s\<lparr>ca_partial := p\<rparr>) = camera_ok cd fs s"
proof -
  have "placed cd (s\<lparr>ca_partial := p\<rparr>) = placed cd s" by (simp add: placed_def all_files_def camera_row_def stored_bytes_def fun_eq_iff)
  then show ?thesis
    by (simp add: camera_ok_def files_ok_def counts_ok_def final_ok_def summary_ok_def content_ok_def all_files_def flying_def)
qed

definition summarises :: "(bytes \<times> pydict) list \<Rightarrow> camera_value \<Rightarrow> camera \<Rightarrow> bool" where
  "summarises fs v s \<longleftrightarrow> ca_closing s \<and> (cv_complete v \<longrightarrow> ca_final s \<and> length (ca_index s) = length fs
     \<and> cv_captured v = length fs \<and> cv_chunks v = ca_chunks s \<and> cv_index_sha v = ca_index_sha s)"

lemma camera_summary_ok:
  assumes "camera_ok cd fs s" "case v of None \<Rightarrow> True | Some v \<Rightarrow> summarises fs v s"
  shows "camera_ok cd fs (s\<lparr>ca_summary := v\<rparr>)"
proof -
  have "placed cd (s\<lparr>ca_summary := v\<rparr>) = placed cd s" by (simp add: placed_def all_files_def camera_row_def stored_bytes_def fun_eq_iff)
  with assms show ?thesis
    by (auto simp: camera_ok_def files_ok_def counts_ok_def final_ok_def summary_ok_def content_ok_def all_files_def flying_def summarises_def
        split: option.splits)
qed

lemma camera_closed_ok:
  assumes "camera_ok cd fs s" "ca_closing s" shows "camera_ok cd fs (s\<lparr>ca_closed := v\<rparr>)"
proof -
  have "placed cd (s\<lparr>ca_closed := v\<rparr>) = placed cd s" by (simp add: placed_def all_files_def camera_row_def stored_bytes_def fun_eq_iff)
  with assms show ?thesis
    by (auto simp: camera_ok_def files_ok_def counts_ok_def final_ok_def summary_ok_def content_ok_def all_files_def flying_def)
qed

lemma value_summarises: "camera_ok cd fs s \<Longrightarrow> ca_closing s \<Longrightarrow> summarises fs (close_value x s) s"
  by (auto simp: camera_ok_def counts_ok_def summarises_def close_value_def Let_def)

lemma summarises_fail [simp]: "summarises fs v (camera_fail m s) = summarises fs v s"
  by (simp add: summarises_def camera_fail_def)

lemma camera_close_ok:
  assumes "camera_ok cd fs s" "ca_closing s" shows "camera_ok cd fs (snd (camera_close io x s))"
proof -
  let ?v = "close_value x s"
  note v = value_summarises [OF assms, of x]
  have kept: "camera_ok cd fs (t\<lparr>ca_summary := Some ?v\<rparr>)" if "camera_ok cd fs t" "summarises fs ?v t" for t
    by (rule camera_summary_ok) (use that in simp_all)
  have none: "camera_ok cd fs (t\<lparr>ca_summary := None\<rparr>)" if "camera_ok cd fs t" for t
    by (rule camera_summary_ok) (use that in simp_all)
  show ?thesis
  proof (cases "ca_closed s")
    case (Some w)
    with assms show ?thesis by (simp add: camera_close_def)
  next
    case None
    show ?thesis
    proof (cases "ca_dead s \<and> ca_final s")
      case True
      show ?thesis
      proof (cases "co_summary io")
        case n: None
        have "camera_ok cd fs (s\<lparr>ca_summary := Some ?v, ca_closed := Some ?v\<rparr>)"
          by (rule camera_closed_ok [OF kept [OF assms(1) v]]) (simp add: assms(2))
        with None n True show ?thesis by (simp add: camera_close_def Let_def)
      next
        case (Some er)
        define t where "t = camera_fail (''CAMERA_ARCHIVE_SUMMARY_SYNC_FAILED: '' @ str_exc (fst er)) s"
        define u where "u = (if snd er then t\<lparr>ca_summary := Some ?v\<rparr> else t)"
        have u: "camera_ok cd fs u" using assms(1) v kept [of t] by (simp add: u_def t_def)
        have "snd (camera_close io x s) = (if co_unlink io \<noteq> None then u else (let z = u\<lparr>ca_summary := None\<rparr> in
            if co_partial io = None then z\<lparr>ca_partial := Some (as_partial z ?v)\<rparr> else z))"
          using True by (simp add: camera_close_def Let_def None Some u_def t_def split: prod.split)
        with u none [OF u] show ?thesis by (simp add: Let_def)
      qed
    next
      case False
      with None assms(1) show ?thesis by (simp add: camera_close_def Let_def)
    qed
  qed
qed

section \<open>Properties\<close>

text \<open>The frames an archive accepted.\<close>

fun accepted_frames :: "camera_op list \<Rightarrow> (exc + camera_value option) list \<Rightarrow> (bytes \<times> pydict) list" where
  "accepted_frames (Append data meta # ops) (r # rs) = (if is_ok r then [(data, meta)] else []) @ accepted_frames ops rs"
| "accepted_frames (_ # ops) (_ # rs) = accepted_frames ops rs"
| "accepted_frames _ _ = []"

lemma camera_step_ok:
  assumes "camera_ok cd fs s" "camera_step cd op s = (r, s')"
  shows "camera_ok cd (fs @ accepted_frames [op] [r]) s'"
proof (cases op)
  case (Append data meta)
  obtain q t where q: "camera_append data meta s = (q, t)" by (cases "camera_append data meta s")
  with Append assms(2) have "r = map_sum id (\<lambda>_. None) q" "s' = t" by auto
  with camera_append_ok [OF assms(1) q] show ?thesis by (cases q) (simp_all add: Append)
next
  case (Close io x)
  with assms show ?thesis using camera_close_ok [OF assms(1), of io x] by (auto split: if_splits prod.splits)
qed (use assms camera_start_failed_ok camera_take_ok camera_write_ok camera_miss_ok camera_look_ok closing_ok in auto)

lemma camera_run_ok:
  "camera_ok cd fs s \<Longrightarrow> camera_ok cd (fs @ accepted_frames ops (run_outs (camera_step cd) ops s)) (run_state (camera_step cd) ops s)"
proof (induction ops arbitrary: fs s)
  case Nil
  then show ?case by simp
next
  case (Cons op ops)
  obtain r s' where s: "camera_step cd op s = (r, s')" by (cases "camera_step cd op s")
  have split: "accepted_frames (op # ops) (r # rs) = accepted_frames [op] [r] @ accepted_frames ops rs" for rs by (cases op) simp_all
  from Cons.IH [OF camera_step_ok [OF Cons.prems s]] show ?case by (simp add: s split)
qed

subsection \<open>A placed frame is read back\<close>

text \<open>What \<open>zlib\<close> documents: a compressed block inflates to its origin when the limit is larger than that, nothing is left over, and
  the size of a compressed block is at most \<open>compressBound\<close>. The reader's margin of 65536 bytes covers it for any frame.\<close>

definition codec_ok :: "codec \<Rightarrow> bool" where
  "codec_ok cd \<longleftrightarrow> (\<forall>d n. length d < n \<longrightarrow> cd_inflate cd (cd_compress cd d) n = Some \<lparr>if_data = d, if_eof = True, if_tail = [], if_unused = []\<rparr>)
     \<and> (\<forall>d. 0 < length (cd_compress cd d)
         \<and> length (cd_compress cd d) \<le> length d + length d div 4096 + length d div 16384 + length d div 33554432 + 13)"

text \<open>The directory of an archive.\<close>

definition camera_dir :: "camera \<Rightarrow> frame_dir" where
  "camera_dir s = \<lparr>fd_is_dir = True, fd_link = (\<lambda>_. False), fd_inside = (\<lambda>_. True),
     fd_file = (\<lambda>p. case pt_parts p of [name] \<Rightarrow> map_of (all_files s) name | _ \<Rightarrow> None)\<rparr>"

lemma digits_plain: "CHR ''/'' \<notin> set (digits_of n)"
proof (induction n rule: digits_of.induct)
  case (1 n)
  have "char_of (48 + m) \<noteq> CHR ''/''" if "m < 10" for m :: nat
  proof
    assume "char_of (48 + m) = CHR ''/''"
    then have "of_char (char_of (48 + m) :: char) = (of_char (CHR ''/'') :: nat)" by simp
    with that show False by simp
  qed
  with 1 show ?case by (subst digits_of.simps) (auto dest: sym)
qed

lemma chunk_name_path: "path_of (chunk_name k) = \<lparr>pt_root = '''', pt_parts = [chunk_name k]\<rparr>"
proof -
  have n: "CHR ''/'' \<notin> set (chunk_name k)" using digits_plain by (simp add: chunk_name_def)
  have "take 1 (chunk_name k) = ''f''" "chunk_name k \<noteq> []" "chunk_name k \<noteq> ''.''" by (simp_all add: chunk_name_def)
  with split_on_plain [OF n] show ?thesis by (simp add: path_of_def)
qed

lemma chunk_name_child: "\<not> is_absolute (path_of (chunk_name k))" "\<not> has_parent_part (path_of (chunk_name k))"
  by (simp_all add: chunk_name_path is_absolute_def has_parent_part_def) (simp add: chunk_name_def)

lemma row_fields:
  fixes cd s name off stored data meta defines "row \<equiv> camera_row cd s name off stored data meta"
  shows "dget row ''width'' = dget meta ''width''" "dget row ''height'' = dget meta ''height''"
    "has_key row ''width'' = has_key meta ''width''" "has_key row ''height'' = has_key meta ''height''"
    "dsub row ''offset'' = Inr (PInt (int off))" "dsub row ''length'' = Inr (PInt (int (length stored)))"
    "dsub row ''file'' = Inr (PStr name)" "dsub row ''payload_sha256'' = Inr (PStr (cd_sha cd data))"
    "dget_or row ''schema_version'' d = PInt 2" "dget row ''schema_version'' = PInt 2"
    "dget row ''uncompressed_length'' = PInt (int (length data))" "dget row ''stored_sha256'' = PStr (cd_sha cd stored)"
    "dget_or row ''compression'' d = PStr (ca_compression s)"
  by (simp_all add: row_def camera_row_def dget_def dsub_def dget_or_def has_key_def)

lemma dsub_dget: "has_key d k \<Longrightarrow> dsub d k = Inr (dget d k)"
  by (auto simp: has_key_def dsub_def dget_def split: option.splits)

lemma dget_has_key: "dget d k \<noteq> PNone \<Longrightarrow> has_key d k"
  by (auto simp: has_key_def dget_def split: option.splits)

lemma frame_fits_dims:
  assumes "frame_fits data meta"
  obtains w h where "dget meta ''width'' = PInt w" "dget meta ''height'' = PInt h" "0 < w" "0 < h"
    "int (length data) = w * h * 3" "int (length data) \<le> camera_limit"
  using assms by (auto simp: frame_fits_def split: pyval.splits)

lemma stored_bound:
  assumes "codec_ok cd" "frame_fits data meta"
  shows "0 < length (stored_bytes cd s data)" "int (length (stored_bytes cd s data)) \<le> camera_limit + 65536"
proof -
  obtain w h where "0 < w" "0 < h" "int (length data) = w * h * 3" and b: "int (length data) \<le> camera_limit" using assms(2) by (rule frame_fits_dims)
  then have "0 < int (length data)" by simp
  with assms(1) show "0 < length (stored_bytes cd s data)" by (auto simp: stored_bytes_def codec_ok_def)
  have "length data \<le> 67108864" using b by (simp add: camera_limit_def)
  moreover from this have "length data div 4096 \<le> 16384" "length data div 16384 \<le> 4096" "length data div 33554432 \<le> 2" by linarith+
  moreover have "length (stored_bytes cd s data) \<le> length data + length data div 4096 + length data div 16384 + length data div 33554432 + 13"
    using assms(1) by (simp add: stored_bytes_def codec_ok_def)
  ultimately show "int (length (stored_bytes cd s data)) \<le> camera_limit + 65536" by (simp add: camera_limit_def)
qed

lemma read_placed:
  assumes "codec_ok cd" "placed cd s f row" "frame_fits (fst f) (snd f)" "ca_compression s = ''zlib'' \<or> ca_compression s = ''none''"
  shows "read_camera_frame cd (camera_dir s) row (PInt camera_limit) = Inr (fst f)"
proof -
  define stored where "stored = stored_bytes cd s (fst f)"
  obtain k off content where p: "map_of (all_files s) (chunk_name k) = Some content"
      "row = camera_row cd s (chunk_name k) off stored (fst f) (snd f)" "take (length stored) (drop off content) = stored"
    using assms(2) unfolding placed_def stored_def by blast
  obtain w h where d: "dget (snd f) ''width'' = PInt w" "dget (snd f) ''height'' = PInt h" "0 < w" "0 < h"
      "int (length (fst f)) = w * h * 3" "int (length (fst f)) \<le> camera_limit" using assms(3) by (rule frame_fits_dims)
  note fields = row_fields [of cd s "chunk_name k" off stored "fst f" "snd f", folded p(2)]
  have keys: "has_key (snd f) ''width''" "has_key (snd f) ''height''" by (rule dget_has_key, simp add: d)+
  have size: "frame_size row camera_limit = Inr (int (length (fst f)))"
    using d keys by (simp add: frame_size_def dsub_dget fields not_less)
  have range: "stored_range row camera_limit = Inr (off, length stored)"
    using stored_bound [OF assms(1,3), of s] by (simp add: stored_range_def fields stored_def)
  have block: "stored_block (camera_dir s) row off (length stored) = Inr stored"
    using p(1,3) chunk_name_child by (simp add: stored_block_def fields camera_dir_def Let_def chunk_name_path)
  have decode: "decode_block cd row stored (int (length (fst f))) = Inr (fst f)"
    using assms(1,4) by (auto simp: decode_block_def inflate_block_def fields same_text_def stored_def stored_bytes_def codec_ok_def)
  show ?thesis
    by (simp add: read_camera_frame_def decode_limit_def camera_limit_def)
       (simp add: size [unfolded camera_limit_def, simplified] range [unfolded camera_limit_def, simplified] block decode
          schema_checks_def check_payload_def fields same_text_def)
qed

subsection \<open>The archive\<close>

lemma index_reads_back:
  assumes "codec_ok cd" "camera_ok cd fs s" "content_ok cd fs s"
  shows "map (\<lambda>row. read_camera_frame cd (camera_dir s) row (PInt camera_limit)) (ca_index s) = map (\<lambda>f. Inr (fst f)) (take (length (ca_index s)) fs)"
proof -
  have fits: "list_all (\<lambda>f. frame_fits (fst f) (snd f)) (take (length (ca_index s)) fs)" and c: "ca_compression s = ''zlib'' \<or> ca_compression s = ''none''"
    using assms(2) by (auto simp: camera_ok_def counts_ok_def files_ok_def list_all_iff dest: in_set_takeD)
  have "list_all2 (placed cd s) (take (length (ca_index s)) fs) (ca_index s)" using assms(3) by (simp add: content_ok_def)
  from this fits show ?thesis by (induction rule: list_all2_induct) (simp_all add: read_placed [OF assms(1) _ _ c])
qed

text \<open>
  While the writer lives, the index is the frames accepted so far, in order, less the one in flight and those in the bounded
  queue, and every indexed frame reads back as it was given. Every frame is either accepted or counted as dropped.\<close>

lemma camera_archive_fifo:
  assumes "codec_ok cd" "camera_init mkdir source epoch items bytes compression = Inr s0" "\<not> ca_dead (run_state (camera_step cd) ops s0)"
  shows "(let s = run_state (camera_step cd) ops s0; frames = accepted_frames ops (run_outs (camera_step cd) ops s0) in
      frames = take (length (ca_index s)) frames @ flying s @ ca_queue s \<and> length (ca_queue s) \<le> ca_max s
    \<and> ca_received s = length frames + ca_dropped s \<and> ca_persisted s = length (ca_index s)
    \<and> map (\<lambda>row. read_camera_frame cd (camera_dir s) row (PInt camera_limit)) (ca_index s)
        = map (\<lambda>f. Inr (fst f)) (take (length (ca_index s)) frames))"
proof -
  note ok = camera_run_ok [OF camera_init_ok [OF assms(2)], of cd ops, unfolded append_Nil]
  with assms(3) have c: "content_ok cd (accepted_frames ops (run_outs (camera_step cd) ops s0)) (run_state (camera_step cd) ops s0)"
    by (simp add: camera_ok_def)
  have "counts_ok (accepted_frames ops (run_outs (camera_step cd) ops s0)) (run_state (camera_step cd) ops s0)"
    using ok by (simp add: camera_ok_def)
  with index_reads_back [OF assms(1) ok c] c show ?thesis unfolding Let_def content_ok_def counts_ok_def
    by (metis append_take_drop_id)
qed

text \<open>
  C15. A summary that says COMPLETE is true. Whatever the threads, the disk and the encoder did before, when \<open>summary.json\<close>
  is complete then the index holds exactly the accepted frames in order, none was dropped, each reads back byte for byte, every
  chunk was synced, and the digests of the summary are those of the files.\<close>

theorem camera_complete_reads_back:
  assumes "codec_ok cd" "camera_init mkdir source epoch items bytes compression = Inr s0"
    and "s = run_state (camera_step cd) ops s0" "ca_summary s = Some v" "cv_complete v"
  shows "(let frames = accepted_frames ops (run_outs (camera_step cd) ops s0) in
      cv_captured v = length frames
    \<and> map (\<lambda>row. read_camera_frame cd (camera_dir s) row (PInt camera_limit)) (ca_index s) = map (\<lambda>f. Inr (fst f)) frames
    \<and> cv_chunks v = map (chunk_digest cd) (all_files s) \<and> ca_synced s = length (all_files s)
    \<and> cv_index_sha v = Some (cd_sha cd (ca_lines s)) \<and> ca_index_synced s)"
proof -
  define frames where "frames = accepted_frames ops (run_outs (camera_step cd) ops s0)"
  have ok: "camera_ok cd frames s"
    using camera_run_ok [OF camera_init_ok [OF assms(2)], of cd ops] by (simp add: frames_def assms(3))
  then have v: "ca_final s" "length (ca_index s) = length frames" "cv_captured v = length frames" "cv_chunks v = ca_chunks s" "cv_index_sha v = ca_index_sha s"
    using assms(4,5) by (simp_all add: camera_ok_def summary_ok_def)
  then have c: "content_ok cd frames s" using ok by (simp add: camera_ok_def)
  have "all_files s = ca_files s" "ca_synced s = length (ca_files s)" "ca_index_synced s" "ca_index_sha s = Some (cd_sha cd (ca_lines s))"
    using ok v(1) by (auto simp: camera_ok_def final_ok_def all_files_def)
  moreover have "ca_chunks s = map (chunk_digest cd) (ca_files s)" using ok by (simp add: camera_ok_def files_ok_def)
  moreover note index_reads_back [OF assms(1) ok c] v
  ultimately show ?thesis unfolding Let_def frames_def [symmetric] by simp
qed

text \<open>An archive of one frame of one pixel, uncompressed.\<close>

definition demo_codec :: codec where
  "demo_codec = \<lparr>cd_compress = (\<lambda>d. d @ [0]), cd_inflate = (\<lambda>b n. if length b \<le> n then Some \<lparr>if_data = butlast b, if_eof = True, if_tail = [], if_unused = []\<rparr> else None),
     cd_sha = map (\<lambda>b. char_of (unat b)), cd_json = (\<lambda>_. Inr [10])\<rparr>"

definition demo_camera_ops :: "camera_op list" where
  "demo_camera_ops = [Append [1, 2, 3] [(''width'', PInt 1), (''height'', PInt 1)], Take, Write \<lparr>wi_finish = None, wi_open = None, wi_chunk = None, wi_index = None\<rparr>,
     Start_close, Miss, Look \<lparr>fi_finish = None, fi_flush = None, fi_sync = None, fi_index = None\<rparr>,
     Close \<lparr>co_summary = None, co_unlink = None, co_partial = None\<rparr> PNone]"

definition demo_camera :: camera where
  "demo_camera = (case camera_init None ''cam'' ''e'' (PInt 2) (PInt 100) ''zlib'' of Inr s \<Rightarrow> s | Inl _ \<Rightarrow> undefined)"

lemma demo_codec_ok: "codec_ok demo_codec"
  by (auto simp: codec_ok_def demo_codec_def)

lemma demo_camera_init: "camera_init None ''cam'' ''e'' (PInt 2) (PInt 100) ''zlib'' = Inr demo_camera"
  by (simp add: demo_camera_def camera_init_def)

theorem camera_complete_reads_back_witness:
  "(let s = run_state (camera_step demo_codec) demo_camera_ops demo_camera in
     map (\<lambda>row. read_camera_frame demo_codec (camera_dir s) row (PInt camera_limit)) (ca_index s) = [Inr [1, 2, 3]])"
proof -
  let ?s = "run_state (camera_step demo_codec) demo_camera_ops demo_camera"
  have "map_option cv_complete (ca_summary ?s) = Some True" by code_simp
  then obtain v where v: "ca_summary ?s = Some v" "cv_complete v" by auto
  from camera_complete_reads_back [OF demo_codec_ok demo_camera_init refl v]
  have "map (\<lambda>row. read_camera_frame demo_codec (camera_dir ?s) row (PInt camera_limit)) (ca_index ?s)
      = map (\<lambda>f. Inr (fst f)) (accepted_frames demo_camera_ops (run_outs (camera_step demo_codec) demo_camera_ops demo_camera))"
    by (simp only: Let_def)
  moreover have "map fst (accepted_frames demo_camera_ops (run_outs (camera_step demo_codec) demo_camera_ops demo_camera)) = [[1, 2, 3]]" by code_simp
  ultimately show ?thesis by (simp add: Let_def map_map [unfolded comp_def, of Inr fst, symmetric])
qed

end
