(* ===== verification/Capture_Contract.thy ===== *)
theory Capture_Contract
  imports Device_Bindings
begin

text \<open>
  \<open>src/src/wc_runtime/capture_contract.py\<close>: the contract of a recording, the readiness of its sources, the window that a stopped
  recording may claim, and the check of the recorded samples against it. Times are host monotonic nanoseconds.

  Contracts and journal rows are dictionaries as read from JSON. The journals and the readiness markers on disk, and the JSON
  parser, are parameters. \<open>build_capture_contract\<close> (which reads the frozen configuration) is not modelled, its result is what
  \<open>validate_contract\<close> accepts.
\<close>

section \<open>The contract\<close>

definition gap_ns :: "(string \<times> int) list" where
  "gap_ns = [(''lidar'', 500000000), (''imu'', 100000000), (''wheel'', 500000000), (''camera'', 200000000), (''ultrasonic'', 3000000000)]"

definition observation_lag :: int where "observation_lag = 500000000"

definition contract_id :: "pyval \<Rightarrow> string \<Rightarrow> exc + string" where
  "contract_id v label = (case v of
       PStr s \<Rightarrow> if token_match ''_.-'' 119 s then Inr s else raise ValueError (''invalid '' @ label)
     | _ \<Rightarrow> raise ValueError (''invalid '' @ label))"

definition mono_ns :: "pyval \<Rightarrow> string \<Rightarrow> bool \<Rightarrow> exc + int" where
  "mono_ns v label positive = (case v of
       PInt i \<Rightarrow> if i < (if positive then 1 else 0) then raise ValueError (label @ '' must be integer host monotonic nanoseconds'') else Inr i
     | _ \<Rightarrow> raise ValueError (label @ '' must be integer host monotonic nanoseconds''))"

text \<open>\<open>spec.get('kind') not in GAP_NS\<close>; a list or a dictionary cannot be looked up.\<close>

definition known_kind :: "pyval \<Rightarrow> exc + string \<times> int" where
  "known_kind v = (case v of
       PStr s \<Rightarrow> (case map_of gap_ns s of Some g \<Rightarrow> Inr (s, g) | None \<Rightarrow> raise ValueError ''unknown capture source kind'')
     | PList _ \<Rightarrow> raise TypeError ''unhashable type'' | PDict _ \<Rightarrow> raise TypeError ''unhashable type''
     | _ \<Rightarrow> raise ValueError ''unknown capture source kind'')"

definition bounded_gap :: "pyval \<Rightarrow> int \<Rightarrow> bool" where
  "bounded_gap v limit \<longleftrightarrow> (case v of PInt g \<Rightarrow> 0 < g \<and> g \<le> limit | _ \<Rightarrow> False)"

definition check_spec :: "string \<Rightarrow> pyval \<Rightarrow> exc + pydict" where
  "check_spec logical v = bindr (contract_id (PStr logical) ''logical source'') (\<lambda>_. case v of
       PDict spec \<Rightarrow> bindr (known_kind (dget spec ''kind'')) (\<lambda>(kind, limit).
         bindr (contract_id (dget spec ''source_id'') ''source_id'') (\<lambda>_.
         if \<not> bounded_gap (dget spec ''max_gap_ns'') limit \<or> \<not> is_dict (dget spec ''expected_identity'')
         then raise ValueError ''explicit identity and reviewed or stricter gap bound required''
         else if kind = ''wheel'' \<and> \<not> (py_eq (dget spec ''register_index'') (PInt 0) \<or> py_eq (dget spec ''register_index'') (PInt 1))
         then raise ValueError ''wheel register index required''
         else if kind = ''ultrasonic'' \<and> \<not> is_int (dget spec ''address'') then raise ValueError ''ultrasonic address required''
         else Inr spec))
     | _ \<Rightarrow> raise ValueError ''unknown capture source kind'')"

record capture_contract =
  cc_session :: string
  cc_sources :: "(string \<times> pydict) list"

definition validate_contract :: "pyval \<Rightarrow> exc + capture_contract" where
  "validate_contract v = (case v of
       PDict d \<Rightarrow>
         if \<not> py_eq (dget d ''schema_version'') (PInt 1) then raise ValueError ''capture contract schema_version 1 required''
         else bindr (contract_id (dget d ''session_id'') ''session_id'') (\<lambda>session. case dget d ''sources'' of
             PDict sources \<Rightarrow>
               if sources = [] then raise ValueError ''nonempty contract sources required''
               else bindr (mapr (\<lambda>(logical, spec). bindr (check_spec logical spec) (\<lambda>s. Inr (logical, s))) sources)
                      (\<lambda>specs. Inr \<lparr>cc_session = session, cc_sources = specs\<rparr>)
           | _ \<Rightarrow> raise ValueError ''nonempty contract sources required'')
     | _ \<Rightarrow> raise ValueError ''capture contract schema_version 1 required'')"

definition spec_gap :: "pydict \<Rightarrow> int" where
  "spec_gap spec = (case dget spec ''max_gap_ns'' of PInt g \<Rightarrow> g | _ \<Rightarrow> 0)"

definition spec_kind :: "pydict \<Rightarrow> string" where
  "spec_kind spec = (case dget spec ''kind'' of PStr s \<Rightarrow> s | _ \<Rightarrow> '''')"

text \<open>\<open>type(expected) is type(actual)\<close> and the recursive subset test of identities.\<close>

fun same_type :: "pyval \<Rightarrow> pyval \<Rightarrow> bool" where
  "same_type PNone PNone = True"
| "same_type (PBool _) (PBool _) = True"
| "same_type (PInt _) (PInt _) = True"
| "same_type (PFloat _) (PFloat _) = True"
| "same_type (PStr _) (PStr _) = True"
| "same_type (PBytes _) (PBytes _) = True"
| "same_type (PList _) (PList _) = True"
| "same_type (PDict _) (PDict _) = True"
| "same_type _ _ = False"

fun identity_matches :: "pyval \<Rightarrow> pyval \<Rightarrow> bool"
  and identity_subset :: "pydict \<Rightarrow> pydict \<Rightarrow> bool" where
  "identity_matches (PDict d) (PDict e) = identity_subset d e"
| "identity_matches v w = (same_type v w \<and> py_eq v w)"
| "identity_subset [] e = True"
| "identity_subset ((k, v) # d) e = ((case map_of e k of None \<Rightarrow> False | Some w \<Rightarrow> identity_matches v w) \<and> identity_subset d e)"

section \<open>Readiness\<close>

record readiness =
  rd_all_ready :: bool
  rd_missing :: "string list"
  rd_invalid :: "(string \<times> string) list"
  rd_sources :: "(string \<times> pydict) list"
  rd_common :: "int option"

text \<open>What a readiness marker is when it is read: not a file, a file that cannot be read, a link or outside the root, or its bytes.\<close>

datatype marker = No_marker | Unreadable exc | Linked | Content bytes

definition marker_matches :: "capture_contract \<Rightarrow> string \<Rightarrow> pydict \<Rightarrow> pydict \<Rightarrow> int \<Rightarrow> int \<Rightarrow> bool" where
  "marker_matches ct logical spec d first final \<longleftrightarrow>
     py_eq (dget d ''schema_version'') (PInt 1) \<and> py_eq (dget d ''session_id'') (PStr (cc_session ct))
     \<and> py_eq (dget d ''logical_source'') (PStr logical) \<and> py_eq (dget d ''source_id'') (dget spec ''source_id'')
     \<and> is_str (dget d ''stream_epoch'') \<and> py_true (dget d ''stream_epoch'') \<and> dget d ''ready'' = PBool True
     \<and> \<not> py_true (dget d ''error'') \<and> (case dget d ''valid_count'' of PInt n \<Rightarrow> 1 \<le> n | _ \<Rightarrow> False) \<and> first \<le> final"

definition read_marker :: "(bytes \<Rightarrow> exc + pyval) \<Rightarrow> capture_contract \<Rightarrow> string \<Rightarrow> pydict \<Rightarrow> marker \<Rightarrow> exc + pydict option" where
  "read_marker json ct logical spec m = (case m of
       No_marker \<Rightarrow> Inr None
     | Unreadable e \<Rightarrow> Inl e
     | Linked \<Rightarrow> raise ValueError ''linked readiness path''
     | Content data \<Rightarrow>
         if 65536 < length data then raise ValueError ''readiness marker too large''
         else bindr (json data) (\<lambda>v. case v of
             PDict d \<Rightarrow> bindr (mono_ns (dget d ''first_valid_monotonic_ns'') ''first'' True) (\<lambda>first.
               bindr (mono_ns (dget d ''last_valid_monotonic_ns'') ''last'' True) (\<lambda>final.
               if \<not> marker_matches ct logical spec d first final then raise ValueError ''readiness identity/count/state mismatch''
               else Inr (Some d)))
           | _ \<Rightarrow> raise AttributeError ''get''))"

definition marker_error :: "exc \<Rightarrow> bool" where
  "marker_error e \<longleftrightarrow> caught_by (exn_of e) OSError \<or> caught_by (exn_of e) ValueError \<or> caught_by (exn_of e) TypeError \<or> caught_by (exn_of e) KeyError"

fun read_markers :: "(bytes \<Rightarrow> exc + pyval) \<Rightarrow> capture_contract \<Rightarrow> (string \<Rightarrow> marker) \<Rightarrow> (string \<times> pydict) list \<Rightarrow> readiness \<Rightarrow> exc + readiness" where
  "read_markers json ct view [] r = Inr r"
| "read_markers json ct view ((logical, spec) # rest) r = (case read_marker json ct logical spec (view logical) of
       Inr None \<Rightarrow> read_markers json ct view rest (r\<lparr>rd_missing := rd_missing r @ [logical]\<rparr>)
     | Inr (Some d) \<Rightarrow> read_markers json ct view rest (r\<lparr>rd_sources := rd_sources r @ [(logical, d)]\<rparr>)
     | Inl e \<Rightarrow> if marker_error e then read_markers json ct view rest (r\<lparr>rd_invalid := rd_invalid r @ [(logical, str_exc e)]\<rparr>) else Inl e)"

definition int_of :: "pyval \<Rightarrow> int" where
  "int_of v = (case v of PInt i \<Rightarrow> i | _ \<Rightarrow> 0)"

definition read_source_readiness :: "(bytes \<Rightarrow> exc + pyval) \<Rightarrow> (string \<Rightarrow> marker) \<Rightarrow> capture_contract \<Rightarrow> exc + readiness" where
  "read_source_readiness json view ct =
     bindr (read_markers json ct view (cc_sources ct) \<lparr>rd_all_ready = False, rd_missing = [], rd_invalid = [], rd_sources = [], rd_common = None\<rparr>)
       (\<lambda>r. let firsts = map (\<lambda>(_, d). int_of (dget d ''first_valid_monotonic_ns'')) (rd_sources r) in
         Inr (r\<lparr>rd_all_ready := rd_missing r = [] \<and> rd_invalid r = [] \<and> length (rd_sources r) = length (cc_sources ct),
                rd_common := (if firsts = [] then None else Some (Max (set firsts)))\<rparr>))"

section \<open>The window of a recording that the user stops\<close>

record window =
  wn_start :: int
  wn_end :: int
  wn_stop :: int
  wn_tail :: int
  wn_lag :: "(string \<times> int) list"

text \<open>The last sample of every source must be recent when the user stops.\<close>

fun check_lags :: "capture_contract \<Rightarrow> (string \<times> int) list \<Rightarrow> exc + unit" where
  "check_lags ct [] = Inr ()"
| "check_lags ct ((key, delta) # rest) = (case map_of (cc_sources ct) key of
       None \<Rightarrow> raise KeyError key
     | Some spec \<Rightarrow>
         if delta < 0 \<or> spec_gap spec + observation_lag < delta then raise ValueError (''SOURCE_STALE_AT_USER_STOP: '' @ key)
         else check_lags ct rest)"

definition user_stopped_window :: "capture_contract \<Rightarrow> readiness \<Rightarrow> pyval \<Rightarrow> pyval \<Rightarrow> exc + window" where
  "user_stopped_window ct r start_v stop_v =
     bindr (mono_ns start_v ''window start'' True) (\<lambda>start. bindr (mono_ns stop_v ''user stop'' True) (\<lambda>stop.
     if \<not> rd_all_ready r \<or> fst ` set (rd_sources r) \<noteq> fst ` set (cc_sources ct) then raise ValueError ''SOURCE_NOT_READY_AT_USER_STOP''
     else bindr (mapr (\<lambda>(key, d). bindr (mono_ns (dget d ''last_valid_monotonic_ns'') (key @ '' last'') True) (\<lambda>t. Inr (key, t))) (rd_sources r)) (\<lambda>lasts.
       let lag = map (\<lambda>(key, t). (key, stop - t)) lasts; final = Min (snd ` set lasts) in
       bindr (check_lags ct lag) (\<lambda>_.
       if lasts = [] then raise ValueError ''min() iterable argument is empty''
       else if final \<le> start then raise ValueError ''NO_COMMON_CAPTURE_WINDOW_AT_USER_STOP''
       else Inr \<lparr>wn_start = start, wn_end = final, wn_stop = stop, wn_tail = stop - final, wn_lag = lag\<rparr>))))"

section \<open>The samples of a source\<close>

record sample =
  sm_source :: pyval
  sm_epoch :: pyval
  sm_sequence :: pyval
  sm_stamp :: pyval
  sm_session :: pyval
  sm_raw :: pyval
  sm_filtered :: pyval

text \<open>The recorded journals: the epoch directories of a lidar, and the parsed lines of a file, which end with an
  exception when the file cannot be read further.\<close>

record journals =
  jr_epochs :: "string \<Rightarrow> string list"
  jr_rows :: "string \<Rightarrow> (exc + pyval) list"

definition journal_rows :: "journals \<Rightarrow> string \<Rightarrow> pydict \<Rightarrow> exc + (exc + pyval) list" where
  "journal_rows jr logical spec = (let kind = spec_kind spec in
     if kind = ''lidar'' then bindr (dsub spec ''side'') (\<lambda>side. case side of
         PStr s \<Rightarrow> let folder = ''sources/lidar/'' @ s in (case jr_epochs jr folder of
             [epoch] \<Rightarrow> Inr (jr_rows jr (folder @ ''/'' @ epoch @ ''/source_frames.jsonl''))
           | _ \<Rightarrow> raise ValueError (''expected one lidar epoch for '' @ logical))
       | _ \<Rightarrow> raise TypeError ''unsupported operand type(s) for /'')
     else if kind = ''imu'' then Inr (jr_rows jr ''sources/imu/events.jsonl'')
     else if kind = ''wheel'' then Inr (jr_rows jr ''sources/wheel_feedback.jsonl'')
     else if kind = ''camera'' then bindr (dsub spec ''role'') (\<lambda>role. case role of
         PStr s \<Rightarrow> Inr (jr_rows jr (''sources/cameras/'' @ s @ ''/frames.jsonl''))
       | _ \<Rightarrow> raise TypeError ''unsupported operand type(s) for /'')
     else Inr (jr_rows jr ''sources/ultrasonic/events.jsonl''))"

text \<open>Rows of other events and addresses are skipped.\<close>

definition skipped_row :: "pydict \<Rightarrow> pydict \<Rightarrow> bool" where
  "skipped_row spec row \<longleftrightarrow> (let kind = spec_kind spec in
     (kind = ''imu'' \<and> \<not> py_eq (dget row ''event'') (PStr ''frame''))
     \<or> (kind = ''wheel'' \<and> \<not> py_eq (dget row ''event'') (PStr ''transaction_complete''))
     \<or> (kind = ''ultrasonic'' \<and> \<not> py_eq (dget row ''address'') (dget spec ''address'')))"

definition word_count :: "pyval \<Rightarrow> exc + nat" where
  "word_count v = (case v of PList ws \<Rightarrow> Inr (length ws) | PStr t \<Rightarrow> Inr (length t) | PDict d \<Rightarrow> Inr (length d)
     | _ \<Rightarrow> raise TypeError ''object has no len()'')"

text \<open>A text of two characters is as good as a list here; the keys of a JSON object are texts, so none of them is the index.\<close>

definition register_words :: "pydict \<Rightarrow> pydict \<Rightarrow> exc + unit" where
  "register_words spec row = bindr (dsub row ''register_words_u16'') (\<lambda>v. bindr (word_count v) (\<lambda>n.
       if n \<noteq> 2 then raise ValueError ''wheel pair registers absent''
       else bindr (dsub spec ''register_address'') (\<lambda>_. bindr (dsub spec ''register_index'') (\<lambda>index.
         if is_dict v then raise KeyError ''register_index''
         else case index of PFloat _ \<Rightarrow> raise TypeError ''indices must be integers or slices, not float'' | _ \<Rightarrow> Inr ()))))"

definition sample_of :: "pydict \<Rightarrow> pyval \<Rightarrow> exc + sample option" where
  "sample_of spec v = (case v of
       PDict row \<Rightarrow>
         if skipped_row spec row then Inr None
         else bindr (dsub row ''sequence'') (\<lambda>sequence. bindr (dsub row ''stream_epoch'') (\<lambda>epoch.
           bindr (if spec_kind spec = ''wheel'' then register_words spec row else Inr ()) (\<lambda>_.
           Inr (Some \<lparr>sm_source = dget_or row ''sensor_id'' (dget_or row ''device_id'' (dget row ''source_id'')), sm_epoch = epoch,
             sm_sequence = sequence,
             sm_stamp = dget row (if spec_kind spec = ''wheel'' then ''receive_monotonic_ns'' else ''host_monotonic_ns''),
             sm_session = dget row ''session_id'', sm_raw = dget row ''raw_valid_count'', sm_filtered = dget row ''filtered_valid_count''\<rparr>))))
     | _ \<Rightarrow> raise (if spec_kind spec = ''lidar'' \<or> spec_kind spec = ''camera'' then TypeError else AttributeError) ''journal row is not an object'')"

section \<open>Evidence\<close>

record source_evidence =
  se_count :: nat
  se_observed :: nat
  se_unavailable :: nat
  se_samples :: "int list"
  se_first :: "int option"
  se_last :: "int option"
  se_epoch :: pyval
  se_sequence_first :: int
  se_sequence_last :: int
  se_last_observed :: int
  se_max_gap :: int
  se_issues :: "string list"

definition no_evidence :: source_evidence where
  "no_evidence = \<lparr>se_count = 0, se_observed = 0, se_unavailable = 0, se_samples = [], se_first = None, se_last = None, se_epoch = PNone,
     se_sequence_first = 0, se_sequence_last = 0, se_last_observed = 0, se_max_gap = 0, se_issues = []\<rparr>"

definition issue :: "bool \<Rightarrow> string \<Rightarrow> string list" where
  "issue bad name = (if bad then [name] else [])"

definition row_issues :: "capture_contract \<Rightarrow> pydict \<Rightarrow> sample \<Rightarrow> int \<Rightarrow> int \<Rightarrow> source_evidence \<Rightarrow> string list" where
  "row_issues ct spec m stamp sequence s =
     issue (\<not> py_eq (sm_source m) (dget spec ''source_id'')) ''SOURCE_IDENTITY_MISMATCH''
     @ issue (sm_session m \<noteq> PNone \<and> \<not> py_eq (sm_session m) (PStr (cc_session ct))) ''SOURCE_SESSION_MISMATCH''
     @ issue (\<not> (is_str (sm_epoch m) \<and> py_true (sm_epoch m))) ''SOURCE_EPOCH_MISSING''
     @ (if se_observed s = 0 then []
        else issue (\<not> py_eq (sm_epoch m) (se_epoch s)) ''SOURCE_EPOCH_CHANGED''
          @ issue (sequence \<noteq> se_sequence_last s + 1 \<and> (spec_kind spec \<noteq> ''ultrasonic'' \<or> sequence \<le> se_sequence_last s))
              ''SOURCE_SEQUENCE_GAP_OR_REORDER''
          @ issue (stamp < se_last_observed s) ''SOURCE_MONOTONIC_REORDER'')"

text \<open>The counts of a lidar frame: unusable, empty, or a frame.\<close>

definition frame_counts :: "sample \<Rightarrow> bool \<times> bool" where
  "frame_counts m = (case (sm_raw m, sm_filtered m) of
       (PInt a, PInt b) \<Rightarrow> (0 \<le> a \<and> 0 \<le> b, 0 < a \<and> 0 < b)
     | _ \<Rightarrow> (False, False))"

definition take_sample :: "int \<Rightarrow> source_evidence \<Rightarrow> source_evidence" where
  "take_sample stamp s = s\<lparr>se_first := (if se_count s = 0 then Some stamp else se_first s),
     se_max_gap := (case se_last s of Some l \<Rightarrow> if se_count s = 0 then se_max_gap s else max (se_max_gap s) (stamp - l) | None \<Rightarrow> se_max_gap s),
     se_count := se_count s + 1, se_samples := se_samples s @ [stamp], se_last := Some stamp\<rparr>"

definition collect_sample :: "capture_contract \<Rightarrow> string \<Rightarrow> pydict \<Rightarrow> sample \<Rightarrow> source_evidence \<Rightarrow> exc + source_evidence" where
  "collect_sample ct logical spec m s =
     bindr (mono_ns (sm_stamp m) (logical @ '' stamp'') True) (\<lambda>stamp. bindr (mono_ns (sm_sequence m) (logical @ '' sequence'') False) (\<lambda>sequence.
     let s' = s\<lparr>se_issues := se_issues s @ row_issues ct spec m stamp sequence s,
               se_epoch := (if se_observed s = 0 then sm_epoch m else se_epoch s),
               se_sequence_first := (if se_observed s = 0 then sequence else se_sequence_first s),
               se_observed := se_observed s + 1, se_sequence_last := sequence, se_last_observed := stamp\<rparr> in
     if spec_kind spec = ''lidar'' \<and> \<not> fst (frame_counts m)
     then Inr (s'\<lparr>se_issues := se_issues s' @ [''SOURCE_VALID_COUNT_MISSING_OR_INVALID''], se_unavailable := se_unavailable s' + 1\<rparr>)
     else if spec_kind spec = ''lidar'' \<and> \<not> snd (frame_counts m) then Inr (s'\<lparr>se_unavailable := se_unavailable s' + 1\<rparr>)
     else Inr (take_sample stamp s')))"

fun collect_rows :: "capture_contract \<Rightarrow> string \<Rightarrow> pydict \<Rightarrow> (exc + pyval) list \<Rightarrow> source_evidence \<Rightarrow> exc + source_evidence" where
  "collect_rows ct logical spec [] s = Inr s"
| "collect_rows ct logical spec (r # rs) s = bindr (bindr r (sample_of spec)) (\<lambda>m. case m of
       None \<Rightarrow> collect_rows ct logical spec rs s
     | Some m \<Rightarrow> bindr (collect_sample ct logical spec m s) (collect_rows ct logical spec rs))"

definition collect_source_evidence :: "journals \<Rightarrow> capture_contract \<Rightarrow> exc + (string \<times> source_evidence) list" where
  "collect_source_evidence jr ct = mapr (\<lambda>(logical, spec). bindr (journal_rows jr logical spec) (\<lambda>rows.
     bindr (collect_rows ct logical spec rows no_evidence) (\<lambda>s. Inr (logical, s\<lparr>se_issues := sort (remdups (se_issues s))\<rparr>)))) (cc_sources ct)"

section \<open>The verdict\<close>

record source_report =
  sr_complete :: bool
  sr_count :: nat
  sr_first :: "int option"
  sr_last :: "int option"
  sr_gap :: int
  sr_issues :: "string list"

definition gaps_within :: "int \<Rightarrow> int \<Rightarrow> int list \<Rightarrow> int list" where
  "gaps_within start final stamps = map (\<lambda>(l, r). r - l) (filter (\<lambda>(l, r). l < final \<and> start < r) (zip stamps (tl stamps)))"

definition evaluate_source :: "int \<Rightarrow> int \<Rightarrow> pydict \<Rightarrow> source_evidence \<Rightarrow> source_report" where
  "evaluate_source start final spec s =
     (let stamps = se_samples s; gap = (case gaps_within start final stamps of [] \<Rightarrow> 0 | gs \<Rightarrow> Max (set gs));
          failures = sort (remdups (se_issues s
            @ issue (stamps = [] \<or> start < hd stamps \<or> last stamps < final) ''REQUESTED_WINDOW_NOT_COVERED''
            @ issue (spec_gap spec < gap) ''MAX_SOURCE_GAP_EXCEEDED''))
      in \<lparr>sr_complete = (failures = []), sr_count = se_count s, sr_first = (if stamps = [] then None else Some (hd stamps)),
           sr_last = (if stamps = [] then None else Some (last stamps)), sr_gap = gap, sr_issues = failures\<rparr>)"

record capture_report =
  cr_complete :: bool
  cr_sources :: "(string \<times> source_report) list"
  cr_common_start :: "int option"
  cr_common_end :: "int option"

definition all_known :: "int option list \<Rightarrow> bool" where
  "all_known xs \<longleftrightarrow> xs \<noteq> [] \<and> None \<notin> set xs"

definition evaluate_capture_window :: "(string \<times> source_evidence) list \<Rightarrow> capture_contract \<Rightarrow> pyval \<Rightarrow> pyval \<Rightarrow> exc + capture_report" where
  "evaluate_capture_window evidence ct start_v end_v =
     bindr (mono_ns start_v ''window start'' True) (\<lambda>start. bindr (mono_ns end_v ''window end'' True) (\<lambda>final.
     if final \<le> start then raise ValueError ''capture window must have positive duration''
     else let reports = map (\<lambda>(logical, spec). (logical, evaluate_source start final spec
                (case map_of evidence logical of Some s \<Rightarrow> s | None \<Rightarrow> no_evidence))) (cc_sources ct);
              firsts = map (\<lambda>(_, s). se_first s) evidence; lasts = map (\<lambda>(_, s). se_last s) evidence in
       Inr \<lparr>cr_complete = list_all (\<lambda>(_, r). sr_complete r) reports, cr_sources = reports,
         cr_common_start = (if all_known firsts then Some (Max (the ` set firsts)) else None),
         cr_common_end = (if all_known lasts then Some (Min (the ` set lasts)) else None)\<rparr>))"

section \<open>What the evidence means\<close>

text \<open>The samples the rows of a journal yield, in order.\<close>

fun yields :: "pydict \<Rightarrow> (exc + pyval) list \<Rightarrow> exc + sample list" where
  "yields spec [] = Inr []"
| "yields spec (r # rs) = bindr (bindr r (sample_of spec)) (\<lambda>m. bindr (yields spec rs) (\<lambda>ms. Inr (case m of None \<Rightarrow> ms | Some m \<Rightarrow> m # ms)))"

definition usable :: "pydict \<Rightarrow> sample \<Rightarrow> bool" where
  "usable spec m \<longleftrightarrow> spec_kind spec = ''lidar'' \<longrightarrow> frame_counts m = (True, True)"

definition usable_stamps :: "pydict \<Rightarrow> sample list \<Rightarrow> int list" where
  "usable_stamps spec ms = map (\<lambda>m. int_of (sm_stamp m)) (filter (usable spec) ms)"

definition follows :: "pydict \<Rightarrow> sample \<Rightarrow> sample \<Rightarrow> sample \<Rightarrow> bool" where
  "follows spec first m n \<longleftrightarrow> py_eq (sm_epoch n) (sm_epoch first) \<and> int_of (sm_stamp m) \<le> int_of (sm_stamp n)
     \<and> (if spec_kind spec = ''ultrasonic'' then int_of (sm_sequence m) < int_of (sm_sequence n)
        else int_of (sm_sequence n) = int_of (sm_sequence m) + 1)"

text \<open>One source, one epoch, no row of another session, consecutive where the numbers are the source's own, in the order of time.\<close>

definition sound_samples :: "capture_contract \<Rightarrow> pydict \<Rightarrow> sample list \<Rightarrow> bool" where
  "sound_samples ct spec ms \<longleftrightarrow> list_all (\<lambda>m. py_eq (sm_source m) (dget spec ''source_id'')
       \<and> (sm_session m = PNone \<or> py_eq (sm_session m) (PStr (cc_session ct))) \<and> is_str (sm_epoch m) \<and> py_true (sm_epoch m)) ms
     \<and> successively (follows spec (hd ms)) ms"

definition collected :: "capture_contract \<Rightarrow> pydict \<Rightarrow> sample list \<Rightarrow> source_evidence \<Rightarrow> bool" where
  "collected ct spec ms s \<longleftrightarrow> se_observed s = length ms \<and> se_samples s = usable_stamps spec ms
     \<and> (ms \<noteq> [] \<longrightarrow> se_sequence_last s = int_of (sm_sequence (last ms)) \<and> se_last_observed s = int_of (sm_stamp (last ms)) \<and> se_epoch s = sm_epoch (hd ms))
     \<and> (se_issues s = [] \<longrightarrow> sound_samples ct spec ms)"

lemma mono_ns_Inr: "mono_ns v label positive = Inr i \<longleftrightarrow> v = PInt i \<and> (if positive then 1 else 0) \<le> i"
  by (auto simp: mono_ns_def split: pyval.splits)

lemma issue_Nil [simp]: "issue bad name = [] \<longleftrightarrow> \<not> bad"
  by (simp add: issue_def)

lemma take_sample_sel [simp]:
  "se_observed (take_sample stamp s) = se_observed s" "se_samples (take_sample stamp s) = se_samples s @ [stamp]"
  "se_sequence_last (take_sample stamp s) = se_sequence_last s" "se_last_observed (take_sample stamp s) = se_last_observed s"
  "se_epoch (take_sample stamp s) = se_epoch s" "se_issues (take_sample stamp s) = se_issues s"
  by (simp_all add: take_sample_def)

lemma collect_sample_cases:
  assumes "collect_sample ct logical spec m s = Inr s'"
  obtains stamp sequence where "sm_stamp m = PInt stamp" "sm_sequence m = PInt sequence"
    "se_observed s' = se_observed s + 1" "se_sequence_last s' = sequence" "se_last_observed s' = stamp"
    "se_epoch s' = (if se_observed s = 0 then sm_epoch m else se_epoch s)"
    "se_samples s' = se_samples s @ (if usable spec m then [stamp] else [])"
    "se_issues s' = [] \<Longrightarrow> se_issues s = [] \<and> row_issues ct spec m stamp sequence s = []"
proof -
  obtain stamp sequence where v: "sm_stamp m = PInt stamp" "sm_sequence m = PInt sequence"
    using assms by (auto simp: collect_sample_def result_simps mono_ns_Inr)
  define t where "t = s\<lparr>se_issues := se_issues s @ row_issues ct spec m stamp sequence s,
               se_epoch := (if se_observed s = 0 then sm_epoch m else se_epoch s),
               se_sequence_first := (if se_observed s = 0 then sequence else se_sequence_first s),
               se_observed := se_observed s + 1, se_sequence_last := sequence, se_last_observed := stamp\<rparr>"
  have s': "s' = (if spec_kind spec = ''lidar'' \<and> \<not> fst (frame_counts m)
     then t\<lparr>se_issues := se_issues t @ [''SOURCE_VALID_COUNT_MISSING_OR_INVALID''], se_unavailable := se_unavailable t + 1\<rparr>
     else if spec_kind spec = ''lidar'' \<and> \<not> snd (frame_counts m) then t\<lparr>se_unavailable := se_unavailable t + 1\<rparr> else take_sample stamp t)"
    using assms v by (auto simp: collect_sample_def result_simps mono_ns_Inr t_def Let_def split: if_splits)
  have u: "usable spec m = (\<not> (spec_kind spec = ''lidar'' \<and> \<not> fst (frame_counts m)) \<and> \<not> (spec_kind spec = ''lidar'' \<and> \<not> snd (frame_counts m)))"
    by (auto simp: usable_def prod_eq_iff)
  have "se_observed s' = se_observed t" "se_sequence_last s' = se_sequence_last t" "se_last_observed s' = se_last_observed t" "se_epoch s' = se_epoch t"
      "se_samples s' = se_samples t @ (if usable spec m then [stamp] else [])" "se_issues s' = [] \<Longrightarrow> se_issues t = []"
    unfolding s' u by (simp_all split: if_splits)
  then show thesis by (intro that [OF v]) (simp_all add: t_def)
qed

lemma row_issues_first: "row_issues ct spec m stamp sequence s = [] \<Longrightarrow> py_eq (sm_source m) (dget spec ''source_id'')
    \<and> (sm_session m = PNone \<or> py_eq (sm_session m) (PStr (cc_session ct))) \<and> is_str (sm_epoch m) \<and> py_true (sm_epoch m)"
  by (auto simp: row_issues_def)

lemma row_issues_next: "row_issues ct spec m stamp sequence s = [] \<Longrightarrow> se_observed s \<noteq> 0 \<Longrightarrow> py_eq (sm_epoch m) (se_epoch s)
    \<and> se_last_observed s \<le> stamp \<and> (if spec_kind spec = ''ultrasonic'' then se_sequence_last s < sequence else sequence = se_sequence_last s + 1)"
  by (auto simp: row_issues_def)

lemma collect_sample_collected:
  assumes "collect_sample ct logical spec m s = Inr s'" "collected ct spec ms s"
  shows "collected ct spec (ms @ [m]) s'"
  using assms(1)
proof (rule collect_sample_cases)
  fix stamp sequence
  assume c: "sm_stamp m = PInt stamp" "sm_sequence m = PInt sequence"
    "se_observed s' = se_observed s + 1" "se_sequence_last s' = sequence" "se_last_observed s' = stamp"
    "se_epoch s' = (if se_observed s = 0 then sm_epoch m else se_epoch s)"
    "se_samples s' = se_samples s @ (if usable spec m then [stamp] else [])"
    "se_issues s' = [] \<Longrightarrow> se_issues s = [] \<and> row_issues ct spec m stamp sequence s = []"
  have i: "int_of (sm_stamp m) = stamp" "int_of (sm_sequence m) = sequence" by (simp_all add: int_of_def c)
  have "sound_samples ct spec (ms @ [m])" if "se_issues s' = []"
  proof -
    have q: "sound_samples ct spec ms" "row_issues ct spec m stamp sequence s = []" using c(8) [OF that] assms(2) by (simp_all add: collected_def)
    show ?thesis
    proof (cases "ms = []")
      case True
      with row_issues_first [OF q(2)] show ?thesis by (simp add: sound_samples_def)
    next
      case False
      then have "follows spec (hd ms) (last ms) m"
        using assms(2) row_issues_next [OF q(2)] i by (auto simp: collected_def follows_def split: if_splits)
      with False q(1) row_issues_first [OF q(2)] show ?thesis by (simp add: sound_samples_def successively_append_iff)
    qed
  qed
  with assms(2) c i show ?thesis by (auto simp: collected_def usable_stamps_def)
qed

lemma collect_rows_collected:
  assumes "collect_rows ct logical spec rs s = Inr s'" "collected ct spec ms s"
  shows "\<exists>ms'. yields spec rs = Inr ms' \<and> collected ct spec (ms @ ms') s'"
  using assms
proof (induction rs arbitrary: s ms)
  case Nil
  then show ?case by simp
next
  case (Cons r rs)
  obtain y where y: "bindr r (sample_of spec) = Inr y" using Cons.prems(1) by (auto simp: result_simps)
  show ?case
  proof (cases y)
    case None
    with Cons y obtain ms' where "yields spec rs = Inr ms'" "collected ct spec (ms @ ms') s'" by fastforce
    with None y show ?thesis by simp
  next
    case (Some m)
    with Cons.prems y obtain t where t: "collect_sample ct logical spec m s = Inr t" "collect_rows ct logical spec rs t = Inr s'"
      by (auto simp: result_simps)
    from Cons.IH [OF t(2) collect_sample_collected [OF t(1) Cons.prems(2)]]
    obtain ms' where "yields spec rs = Inr ms'" "collected ct spec ((ms @ [m]) @ ms') s'" by blast
    with Some y show ?thesis by simp
  qed
qed

text \<open>Between any two neighbours of a list that starts before \<open>t\<close> and ends after it, one pair encloses it.\<close>

lemma enclosing_pair:
  assumes "xs \<noteq> []" "hd xs \<le> t" "t \<le> last xs" "start \<le> t" "t \<le> final" "list_all (\<lambda>g. g \<le> bound) (gaps_within start final xs)" "0 \<le> bound"
  shows "\<exists>l \<in> set xs. \<exists>r \<in> set xs. l \<le> t \<and> t \<le> r \<and> r - l \<le> bound"
  using assms
proof (induction xs rule: induct_list012)
  case (3 x y zs)
  show ?case
  proof (cases "y \<le> t")
    case True
    have "list_all (\<lambda>g. g \<le> bound) (gaps_within start final (y # zs))"
      using "3.prems"(6) by (simp add: gaps_within_def split: if_splits)
    with "3.IH"(2) "3.prems" True show ?thesis by auto
  next
    case False
    show ?thesis
    proof (cases "x = final")
      case True
      with "3.prems" show ?thesis by auto
    next
      case False
      with \<open>\<not> y \<le> t\<close> "3.prems" have "y - x \<le> bound" by (simp add: gaps_within_def)
      with \<open>\<not> y \<le> t\<close> "3.prems" show ?thesis by auto
    qed
  qed
qed auto

lemma mapr_pairs_back:
  "mapr (\<lambda>(k, v). bindr (f k v) (\<lambda>w. Inr (k, w))) xs = Inr ys \<Longrightarrow> (k, w) \<in> set ys \<Longrightarrow> \<exists>v. (k, v) \<in> set xs \<and> f k v = Inr w"
  by (induction xs arbitrary: ys) (fastforce simp: result_simps)+

lemma mapr_pairs_there:
  "mapr (\<lambda>(k, v). bindr (f k v) (\<lambda>w. Inr (k, w))) xs = Inr ys \<Longrightarrow> (k, v) \<in> set xs \<Longrightarrow> \<exists>w. (k, w) \<in> set ys \<and> f k v = Inr w"
  by (induction xs arbitrary: ys) (fastforce simp: result_simps)+

lemma known_kind_Inr: "known_kind v = Inr (kind, limit) \<Longrightarrow> v = PStr kind \<and> map_of gap_ns kind = Some limit"
  by (cases v) (simp_all add: known_kind_def split: option.splits)

lemma check_spec_Inr:
  assumes "check_spec logical w = Inr spec"
  shows "\<exists>kind limit. known_kind (dget spec ''kind'') = Inr (kind, limit) \<and> bounded_gap (dget spec ''max_gap_ns'') limit"
proof (cases w)
  case (PDict d)
  with assms show ?thesis by (auto simp: check_spec_def result_simps split: if_splits)
qed (use assms in \<open>simp_all add: check_spec_def result_simps\<close>)

lemma bounded_gap_int: "bounded_gap v limit \<Longrightarrow> \<exists>g. v = PInt g \<and> 0 < g \<and> g \<le> limit"
  by (cases v) (simp_all add: bounded_gap_def)

lemma validate_contract_specs:
  assumes "validate_contract v = Inr ct" "(logical, spec) \<in> set (cc_sources ct)"
  shows "\<exists>limit. map_of gap_ns (spec_kind spec) = Some limit \<and> 0 < spec_gap spec \<and> spec_gap spec \<le> limit"
proof -
  obtain sources specs where m: "mapr (\<lambda>(logical, spec). bindr (check_spec logical spec) (\<lambda>s. Inr (logical, s))) sources = Inr specs" "cc_sources ct = specs"
  proof (cases v)
    case (PDict d)
    with assms(1) that show ?thesis
      by (cases "dget d ''sources''") (auto simp: validate_contract_def result_simps split: if_splits)
  qed (use assms(1) in \<open>simp_all add: validate_contract_def\<close>)
  then obtain w where "check_spec logical w = Inr spec"
    using mapr_pairs_back [OF m(1)] assms(2) by (auto simp: m(2))
  then obtain kind limit where k: "known_kind (dget spec ''kind'') = Inr (kind, limit)" "bounded_gap (dget spec ''max_gap_ns'') limit"
    using check_spec_Inr by blast
  with known_kind_Inr [OF k(1)] bounded_gap_int [OF k(2)] show ?thesis by (auto simp: spec_gap_def spec_kind_def)
qed

lemma collect_source_evidence_of:
  assumes "collect_source_evidence jr ct = Inr ev" "(logical, spec) \<in> set (cc_sources ct)" "distinct (map fst (cc_sources ct))"
  shows "\<exists>rows s. journal_rows jr logical spec = Inr rows \<and> collect_rows ct logical spec rows no_evidence = Inr s
    \<and> map_of ev logical = Some (s\<lparr>se_issues := sort (remdups (se_issues s))\<rparr>)"
proof -
  let ?f = "\<lambda>(logical, spec). bindr (journal_rows jr logical spec) (\<lambda>rows.
     bindr (collect_rows ct logical spec rows no_evidence) (\<lambda>s. Inr (logical, s\<lparr>se_issues := sort (remdups (se_issues s))\<rparr>)))"
  have m: "mapr ?f (cc_sources ct) = Inr ev" using assms(1) by (simp add: collect_source_evidence_def)
  then have n: "length ev = length (cc_sources ct)" "\<And>i. i < length (cc_sources ct) \<Longrightarrow> ?f (cc_sources ct ! i) = Inr (ev ! i)"
    by (simp_all add: mapr_Inr_iff)
  have "map fst ev = map fst (cc_sources ct)"
  proof (rule nth_equalityI)
    fix i assume "i < length (map fst ev)"
    with n show "map fst ev ! i = map fst (cc_sources ct) ! i"
      using n(2) [of i] by (cases "cc_sources ct ! i") (auto simp: result_simps dest!: sym [of "(_, _)"])
  qed (use n in simp)
  then have d: "distinct (map fst ev)" using assms(3) by simp
  obtain i where i: "i < length (cc_sources ct)" "cc_sources ct ! i = (logical, spec)" using assms(2) by (auto simp: in_set_conv_nth)
  with n(2) [OF i(1)] obtain rows s where r: "journal_rows jr logical spec = Inr rows" "collect_rows ct logical spec rows no_evidence = Inr s"
      "ev ! i = (logical, s\<lparr>se_issues := sort (remdups (se_issues s))\<rparr>)" by (auto simp: result_simps)
  then have "(logical, s\<lparr>se_issues := sort (remdups (se_issues s))\<rparr>) \<in> set ev" using i(1) n(1) by (metis nth_mem)
  with d r show ?thesis by auto
qed

lemma remdups_issues: "sort (remdups xs) = [] \<longleftrightarrow> xs = []"
  by (metis remdups_eq_nil_iff set_empty2 set_sort)

lemma evaluated_source:
  assumes "sr_complete (evaluate_source start final spec s)"
  shows "se_issues s = []" "se_samples s \<noteq> []" "hd (se_samples s) \<le> start" "final \<le> last (se_samples s)"
    "list_all (\<lambda>g. g \<le> spec_gap spec) (gaps_within start final (se_samples s))"
proof -
  let ?gap = "case gaps_within start final (se_samples s) of [] \<Rightarrow> 0 | gs \<Rightarrow> Max (set gs)"
  have e: "se_issues s @ issue (se_samples s = [] \<or> start < hd (se_samples s) \<or> last (se_samples s) < final) ''REQUESTED_WINDOW_NOT_COVERED''
        @ issue (spec_gap spec < ?gap) ''MAX_SOURCE_GAP_EXCEEDED'' = []"
    using assms by (simp only: evaluate_source_def Let_def source_report.simps remdups_issues)
  then show "se_issues s = []" "se_samples s \<noteq> []" "hd (se_samples s) \<le> start" "final \<le> last (se_samples s)" by auto
  from e have g: "?gap \<le> spec_gap spec" by simp
  show "list_all (\<lambda>g. g \<le> spec_gap spec) (gaps_within start final (se_samples s))"
  proof (cases "gaps_within start final (se_samples s)")
    case (Cons a as)
    with g have "Max (set (a # as)) \<le> spec_gap spec" by simp
    then show ?thesis unfolding Cons list_all_iff by (metis List.finite_set Max_ge order_trans)
  qed simp
qed

section \<open>Properties\<close>

text \<open>
  C11. A complete window is covered by every source. When the verdict on recorded journals is complete, then for
  each source of the contract every row it counts carries the source's identity and the epoch of the first one, and names the session of the
  contract or none at all, as the journals of some sources do not repeat it. Times never go back from a row to the next; the sequence number goes up by
  exactly one, save for an ultrasonic sensor, whose bus numbers its sensors together and where it just goes up. Every
  instant of the window lies between two usable samples that are no further apart than the source's gap, which is at most the reviewed one.\<close>

theorem capture_window_covered:
  assumes "validate_contract v = Inr ct" "distinct (map fst (cc_sources ct))" "collect_source_evidence jr ct = Inr ev"
    and "evaluate_capture_window ev ct (PInt start) (PInt final) = Inr report" "cr_complete report"
    and "(logical, spec) \<in> set (cc_sources ct)" "start \<le> t" "t \<le> final"
  shows "\<exists>rows ms limit. journal_rows jr logical spec = Inr rows \<and> yields spec rows = Inr ms \<and> sound_samples ct spec ms
    \<and> (\<exists>l \<in> set (usable_stamps spec ms). \<exists>r \<in> set (usable_stamps spec ms). l \<le> t \<and> t \<le> r \<and> r - l \<le> spec_gap spec)
    \<and> map_of gap_ns (spec_kind spec) = Some limit \<and> spec_gap spec \<le> limit"
proof -
  obtain rows s where s: "journal_rows jr logical spec = Inr rows" "collect_rows ct logical spec rows no_evidence = Inr s"
      "map_of ev logical = Some (s\<lparr>se_issues := sort (remdups (se_issues s))\<rparr>)"
    using collect_source_evidence_of [OF assms(3,6,2)] by blast
  have "collected ct spec [] no_evidence" by (simp add: collected_def no_evidence_def usable_stamps_def sound_samples_def)
  from collect_rows_collected [OF s(2) this] obtain ms where ms: "yields spec rows = Inr ms" "collected ct spec ms s" by auto
  have "list_all (\<lambda>(_, r). sr_complete r) (cr_sources report)"
      "cr_sources report = map (\<lambda>(logical, spec). (logical, evaluate_source start final spec (case map_of ev logical of Some s \<Rightarrow> s | None \<Rightarrow> no_evidence))) (cc_sources ct)"
    using assms(4,5) by (auto simp: evaluate_capture_window_def result_simps mono_ns_Inr Let_def split: if_splits)
  then have "sr_complete (evaluate_source start final spec (s\<lparr>se_issues := sort (remdups (se_issues s))\<rparr>))"
    using assms(6) s(3) by (force simp: list_all_iff)
  note c = evaluated_source [OF this, simplified]
  have "sound_samples ct spec ms" "se_samples s = usable_stamps spec ms" using ms(2) c(1) by (simp_all add: collected_def remdups_issues)
  moreover obtain limit where l: "map_of gap_ns (spec_kind spec) = Some limit" "0 < spec_gap spec" "spec_gap spec \<le> limit"
    using validate_contract_specs [OF assms(1,6)] by blast
  moreover have "\<exists>l \<in> set (se_samples s). \<exists>r \<in> set (se_samples s). l \<le> t \<and> t \<le> r \<and> r - l \<le> spec_gap spec"
    by (rule enclosing_pair [of _ _ start final]) (use c assms(7,8) l in auto)
  ultimately show ?thesis using s(1) ms(1) by auto
qed

lemma check_lags_found:
  "check_lags ct ds = Inr u \<Longrightarrow> (key, d) \<in> set ds \<Longrightarrow> \<exists>spec. map_of (cc_sources ct) key = Some spec \<and> 0 \<le> d \<and> d \<le> spec_gap spec + observation_lag"
  by (induction ct ds rule: check_lags.induct) (auto split: option.splits if_splits)

lemma marker_matches_parts: "marker_matches ct logical spec d first final \<Longrightarrow> dget d ''session_id'' = PStr (cc_session ct) \<and> dget d ''ready'' = PBool True"
  by (simp only: marker_matches_def py_eq_str)

lemma read_marker_found:
  assumes "read_marker json ct logical spec m = Inr (Some d)"
  shows "\<exists>data. m = Content data \<and> json data = Inr (PDict d) \<and> dget d ''session_id'' = PStr (cc_session ct) \<and> dget d ''ready'' = PBool True"
proof (cases m)
  case (Content data)
  obtain v where v: "json data = Inr v" using assms by (auto simp: read_marker_def Content result_simps split: if_splits)
  show ?thesis
  proof (cases v)
    case (PDict e)
    obtain first final where "marker_matches ct logical spec e first final" "e = d"
      using assms by (auto simp: read_marker_def Content v PDict result_simps split: if_splits)
    with marker_matches_parts show ?thesis by (auto simp: Content v PDict)
  qed (use assms v in \<open>simp_all add: read_marker_def Content split: if_splits\<close>)
qed (use assms in \<open>simp_all add: read_marker_def\<close>)

lemma read_markers_found:
  assumes "read_markers json ct view specs r = Inr r'" "(key, d) \<in> set (rd_sources r')"
  shows "(key, d) \<in> set (rd_sources r) \<or> (\<exists>data. view key = Content data \<and> json data = Inr (PDict d)
    \<and> dget d ''session_id'' = PStr (cc_session ct) \<and> dget d ''ready'' = PBool True)"
  using assms
proof (induction json ct view specs r rule: read_markers.induct)
  case (2 json ct view logical spec rest r)
  show ?case
  proof (cases "read_marker json ct logical spec (view logical)")
    case (Inl e)
    with 2 show ?thesis by (auto split: if_splits)
  next
    case (Inr y)
    show ?thesis
    proof (cases y)
      case None
      with 2 Inr show ?thesis by auto
    next
      case (Some x)
      with 2 Inr read_marker_found [of json ct logical spec "view logical" x] show ?thesis by auto
    qed
  qed
qed simp

text \<open>
  C40. A stopped recording claims only what was observed. The window of a user stop starts when asked and ends, later, exactly at
  the earliest last sample of the sources: not after any of them, and at one of them. Each source had a readiness marker of this session that said
  it was ready, and was last seen no longer before the stop than its gap and half a second.\<close>

theorem stopped_window_bounded:
  assumes "read_source_readiness json view ct = Inr r" "user_stopped_window ct r (PInt a) (PInt b) = Inr w"
  shows "wn_start w = a \<and> a < wn_end w \<and> wn_end w \<le> b \<and> wn_stop w = b \<and> wn_tail w = b - wn_end w
    \<and> (\<exists>key \<in> fst ` set (cc_sources ct). \<exists>data d. view key = Content data \<and> json data = Inr (PDict d)
        \<and> dget d ''last_valid_monotonic_ns'' = PInt (wn_end w))
    \<and> (\<forall>key \<in> fst ` set (cc_sources ct). \<exists>data d t spec. view key = Content data \<and> json data = Inr (PDict d)
        \<and> dget d ''session_id'' = PStr (cc_session ct) \<and> dget d ''ready'' = PBool True
        \<and> dget d ''last_valid_monotonic_ns'' = PInt t \<and> wn_end w \<le> t \<and> t \<le> b
        \<and> map_of (cc_sources ct) key = Some spec \<and> b - t \<le> spec_gap spec + observation_lag)"
proof -
  obtain lasts where m: "mapr (\<lambda>(key, d). bindr (mono_ns (dget d ''last_valid_monotonic_ns'') (key @ '' last'') True) (\<lambda>t. Inr (key, t))) (rd_sources r) = Inr lasts"
      "fst ` set (rd_sources r) = fst ` set (cc_sources ct)" "check_lags ct (map (\<lambda>(key, t). (key, b - t)) lasts) = Inr ()" "lasts \<noteq> []"
      "wn_end w = Min (snd ` set lasts)" "wn_start w = a" "a < wn_end w" "wn_stop w = b" "wn_tail w = b - wn_end w"
    using assms(2) by (auto simp: user_stopped_window_def result_simps mono_ns_Inr Let_def not_le simp del: Min_gr_iff Min_le_iff split: if_splits)
  have lag: "\<exists>spec. map_of (cc_sources ct) key = Some spec \<and> 0 \<le> b - t \<and> b - t \<le> spec_gap spec + observation_lag" if "(key, t) \<in> set lasts" for key t
    by (rule check_lags_found [OF m(3)]) (use that in force)
  have low: "wn_end w \<le> t" if "(k, t) \<in> set lasts" for k t unfolding m(5) by (rule Min_le) (use that in force)+
  have "wn_end w \<in> snd ` set lasts" unfolding m(5) by (rule Min_in) (use m(4) in auto)
  then obtain k where k: "(k, wn_end w) \<in> set lasts" by auto
  with lag have b: "wn_end w \<le> b" by fastforce
  have marked: "\<exists>data. view key = Content data \<and> json data = Inr (PDict d) \<and> dget d ''session_id'' = PStr (cc_session ct) \<and> dget d ''ready'' = PBool True"
    if "(key, d) \<in> set (rd_sources r)" for key d
  proof -
    obtain q where "read_markers json ct view (cc_sources ct) \<lparr>rd_all_ready = False, rd_missing = [], rd_invalid = [], rd_sources = [], rd_common = None\<rparr> = Inr q"
        "rd_sources q = rd_sources r" using assms(1) by (auto simp: read_source_readiness_def result_simps Let_def)
    from read_markers_found [OF this(1), of key d] this(2) that show ?thesis by auto
  qed
  obtain e where e: "(k, e) \<in> set (rd_sources r)" "dget e ''last_valid_monotonic_ns'' = PInt (wn_end w)"
    using mapr_pairs_back [OF m(1) k] by (auto simp: mono_ns_Inr)
  have "k \<in> fst ` set (cc_sources ct)" using e(1) m(2) by force
  with marked [OF e(1)] e(2) have least: "\<exists>key \<in> fst ` set (cc_sources ct). \<exists>data d. view key = Content data \<and> json data = Inr (PDict d)
        \<and> dget d ''last_valid_monotonic_ns'' = PInt (wn_end w)" by blast
  have "\<exists>data d t spec. view key = Content data \<and> json data = Inr (PDict d)
        \<and> dget d ''session_id'' = PStr (cc_session ct) \<and> dget d ''ready'' = PBool True
        \<and> dget d ''last_valid_monotonic_ns'' = PInt t \<and> wn_end w \<le> t \<and> t \<le> b
        \<and> map_of (cc_sources ct) key = Some spec \<and> b - t \<le> spec_gap spec + observation_lag" if k: "key \<in> fst ` set (cc_sources ct)" for key
  proof -
    obtain d where d: "(key, d) \<in> set (rd_sources r)" using k m(2) by (metis imageE prod.collapse)
    from mapr_pairs_there [OF m(1) d] obtain t where t: "(key, t) \<in> set lasts" "dget d ''last_valid_monotonic_ns'' = PInt t"
      by (auto simp: mono_ns_Inr)
    obtain spec where "map_of (cc_sources ct) key = Some spec" "0 \<le> b - t" "b - t \<le> spec_gap spec + observation_lag" using lag [OF t(1)] by blast
    with marked [OF d] t(2) low [OF t(1)] show ?thesis by force
  qed
  then show ?thesis using m(6-9) b least by blast
qed

section \<open>A recording\<close>

definition demo_contract_value :: pyval where
  "demo_contract_value = PDict [(''schema_version'', PInt 1), (''session_id'', PStr ''s''), (''sources'', PDict [(''imu'', PDict
     [(''kind'', PStr ''imu''), (''source_id'', PStr ''h30''), (''max_gap_ns'', PInt 1000), (''expected_identity'', PDict [])])])]"

definition demo_spec :: pydict where
  "demo_spec = [(''kind'', PStr ''imu''), (''source_id'', PStr ''h30''), (''max_gap_ns'', PInt 1000), (''expected_identity'', PDict [])]"

definition demo_row :: "int \<Rightarrow> int \<Rightarrow> exc + pyval" where
  "demo_row n t = Inr (PDict [(''event'', PStr ''frame''), (''sequence'', PInt n), (''stream_epoch'', PStr ''e''),
     (''sensor_id'', PStr ''h30''), (''host_monotonic_ns'', PInt t)])"

definition demo_journals :: journals where
  "demo_journals = \<lparr>jr_epochs = (\<lambda>_. []), jr_rows = (\<lambda>_. [demo_row 7 100, demo_row 8 900])\<rparr>"

definition demo_evidence :: source_evidence where
  "demo_evidence = \<lparr>se_count = 2, se_observed = 2, se_unavailable = 0, se_samples = [100, 900], se_first = Some 100, se_last = Some 900,
     se_epoch = PStr ''e'', se_sequence_first = 7, se_sequence_last = 8, se_last_observed = 900, se_max_gap = 800, se_issues = []\<rparr>"

definition demo_capture :: capture_contract where
  "demo_capture = \<lparr>cc_session = ''s'', cc_sources = [(''imu'', demo_spec)]\<rparr>"

lemma demo_validated: "validate_contract demo_contract_value = Inr demo_capture"
  by code_simp

lemma demo_collected: "collect_source_evidence demo_journals demo_capture = Inr [(''imu'', demo_evidence)]"
  by code_simp

lemma demo_evaluated: "evaluate_capture_window [(''imu'', demo_evidence)] demo_capture (PInt 200) (PInt 800) = Inr
   \<lparr>cr_complete = True, cr_sources = [(''imu'', \<lparr>sr_complete = True, sr_count = 2, sr_first = Some 100, sr_last = Some 900, sr_gap = 800, sr_issues = []\<rparr>)],
    cr_common_start = Some 100, cr_common_end = Some 900\<rparr>"
  by code_simp

theorem capture_window_covered_witness:
  "\<exists>rows ms limit. journal_rows demo_journals ''imu'' demo_spec = Inr rows \<and> yields demo_spec rows = Inr ms \<and> sound_samples demo_capture demo_spec ms
    \<and> (\<exists>l \<in> set (usable_stamps demo_spec ms). \<exists>r \<in> set (usable_stamps demo_spec ms). l \<le> 500 \<and> 500 \<le> r \<and> r - l \<le> spec_gap demo_spec)
    \<and> map_of gap_ns (spec_kind demo_spec) = Some limit \<and> spec_gap demo_spec \<le> limit"
  by (rule capture_window_covered [OF demo_validated _ demo_collected demo_evaluated]) (simp_all add: demo_capture_def)

definition demo_marker :: pydict where
  "demo_marker = [(''schema_version'', PInt 1), (''session_id'', PStr ''s''), (''logical_source'', PStr ''imu''), (''source_id'', PStr ''h30''),
     (''stream_epoch'', PStr ''e''), (''ready'', PBool True), (''valid_count'', PInt 2), (''first_valid_monotonic_ns'', PInt 100),
     (''last_valid_monotonic_ns'', PInt 900)]"

theorem stopped_window_bounded_witness:
  "\<exists>t. dget demo_marker ''last_valid_monotonic_ns'' = PInt t \<and> t \<le> 950 \<and> 950 - t \<le> spec_gap demo_spec + observation_lag"
proof -
  have r: "read_source_readiness (\<lambda>_. Inr (PDict demo_marker)) (\<lambda>_. Content []) demo_capture = Inr
      \<lparr>rd_all_ready = True, rd_missing = [], rd_invalid = [], rd_sources = [(''imu'', demo_marker)], rd_common = Some 100\<rparr>"
    by (simp add: read_source_readiness_def read_marker_def marker_matches_def mono_ns_def demo_capture_def demo_marker_def demo_spec_def int_of_def)
  have "user_stopped_window demo_capture \<lparr>rd_all_ready = True, rd_missing = [], rd_invalid = [], rd_sources = [(''imu'', demo_marker)], rd_common = Some 100\<rparr>
      (PInt 200) (PInt 950) = Inr \<lparr>wn_start = 200, wn_end = 900, wn_stop = 950, wn_tail = 50, wn_lag = [(''imu'', 50)]\<rparr>" by code_simp
  from stopped_window_bounded [OF r this] show ?thesis by (auto simp: demo_capture_def)
qed

end
