(* ===== verification/Filter_Join.thy ===== *)
theory Filter_Join
  imports Fusion_Core
begin

text \<open>
  \<open>src/src/wc_fusion/source_join.py\<close>: the raw and the filtered branch of a lidar frame are joined before the filtered one is
  used. SHA-256 of the cloud is a parameter. An ordered dictionary is a list of pairs in order of insertion.
\<close>

section \<open>Messages\<close>

text \<open>The fields of a source envelope that the join reads; times are pairs of seconds and nanoseconds.\<close>

record envelope =
  ev_session :: string
  ev_side :: string
  ev_sensor :: string
  ev_epoch :: string
  ev_sequence :: int
  ev_frame :: string
  ev_stamp :: "int \<times> int"
  ev_cloud_frame :: string
  ev_cloud_stamp :: "int \<times> int"
  ev_device_valid :: bool
  ev_device_raw :: int
  ev_device_unit :: string
  ev_components_valid :: bool
  ev_device_time :: "int \<times> int"
  ev_time_type :: int
  ev_sync_state :: int
  ev_host :: "int \<times> int"
  ev_monotonic :: int
  ev_common_valid :: bool
  ev_common :: int
  ev_clock_model :: string
  ev_time_source :: string
  ev_uncertainty_valid :: bool
  ev_uncertainty :: int
  ev_convention :: string
  ev_units :: string
  ev_config_hash :: string
  ev_data :: bytes
  ev_flags :: "string list"

type_synonym frame_key = "string \<times> string \<times> string \<times> string \<times> int"

definition frame_identity :: "envelope \<Rightarrow> frame_key" where
  "frame_identity m = (ev_session m, ev_side m, ev_sensor m, ev_epoch m, ev_sequence m)"

type_synonym acquisition = "(string \<times> (int \<times> int) \<times> string \<times> (int \<times> int)) \<times> (bool \<times> int \<times> string \<times> bool \<times> (int \<times> int) \<times> int \<times> int)
  \<times> ((int \<times> int) \<times> int \<times> bool \<times> int \<times> string \<times> string \<times> bool \<times> int \<times> string \<times> string)"

definition acquisition_signature :: "envelope \<Rightarrow> acquisition" where
  "acquisition_signature m = ((ev_frame m, ev_stamp m, ev_cloud_frame m, ev_cloud_stamp m),
     (ev_device_valid m, ev_device_raw m, ev_device_unit m, ev_components_valid m, ev_device_time m, ev_time_type m, ev_sync_state m),
     (ev_host m, ev_monotonic m, ev_common_valid m, ev_common m, ev_clock_model m, ev_time_source m, ev_uncertainty_valid m,
      ev_uncertainty m, ev_convention m, ev_units m))"

definition content_signature :: "(bytes \<Rightarrow> string) \<Rightarrow> envelope \<Rightarrow> acquisition \<times> string \<times> string" where
  "content_signature sha m = (acquisition_signature m, ev_config_hash m, sha (ev_data m))"

definition verify_raw_reference :: "(bytes \<Rightarrow> string) \<Rightarrow> envelope \<Rightarrow> envelope \<Rightarrow> exc + unit" where
  "verify_raw_reference sha raw filtered =
     (if {''raw_source_config_hash='' @ ev_config_hash raw, ''before_host_filter_cloud_sha256='' @ sha (ev_data raw)} \<subseteq> set (ev_flags filtered)
      then Inr () else raise FusionError ''RAW_FILTERED_CONTENT_REFERENCE_MISMATCH'')"

section \<open>The join\<close>

record join_row =
  jw_received :: int
  jw_raw :: "envelope option"
  jw_filtered :: "envelope option"

record join =
  jn_capacity :: nat
  jn_timeout :: int
  jn_pending :: "(frame_key \<times> join_row) list"
  jn_completed :: "(frame_key \<times> (acquisition \<times> string \<times> string) \<times> (acquisition \<times> string \<times> string)) list"

definition join_init :: "int \<Rightarrow> int \<Rightarrow> exc + join" where
  "join_init capacity timeout =
     (if capacity < 1 \<or> timeout < 1 then raise FusionError ''INVALID_FILTER_JOIN_LIMIT''
      else Inr \<lparr>jn_capacity = nat capacity, jn_timeout = timeout, jn_pending = [], jn_completed = []\<rparr>)"

definition join_clear :: "join \<Rightarrow> join" where
  "join_clear j = j\<lparr>jn_pending := []\<rparr>"

definition join_expire :: "pyval \<Rightarrow> join \<Rightarrow> (exc + int) \<times> join" where
  "join_expire now j = (case integer_ns now of
       Inl e \<Rightarrow> (Inl e, j)
     | Inr t \<Rightarrow> if list_all (\<lambda>(_, w). 0 \<le> t - jw_received w \<and> t - jw_received w \<le> jn_timeout j) (jn_pending j) then (Inr t, j)
               else (raise FusionError ''RAW_FILTERED_FRAME_TIMEOUT'', join_clear j))"

text \<open>The branch of a row, and the row with a branch filled in; \<open>True\<close> is the filtered branch.\<close>

definition branch :: "bool \<Rightarrow> join_row \<Rightarrow> envelope option" where
  "branch filtered w = (if filtered then jw_filtered w else jw_raw w)"

definition fill_branch :: "bool \<Rightarrow> envelope \<Rightarrow> join_row \<Rightarrow> join_row" where
  "fill_branch filtered m w = (if filtered then w\<lparr>jw_filtered := Some m\<rparr> else w\<lparr>jw_raw := Some m\<rparr>)"

definition remember_join :: "(bytes \<Rightarrow> string) \<Rightarrow> frame_key \<Rightarrow> envelope \<Rightarrow> envelope \<Rightarrow> join \<Rightarrow> join" where
  "remember_join sha key raw filtered j =
     (let all = dput key (content_signature sha raw, content_signature sha filtered) (jn_completed j)
      in j\<lparr>jn_completed := drop (length all - jn_capacity j * 4) all\<rparr>)"

definition join_complete :: "(bytes \<Rightarrow> string) \<Rightarrow> frame_key \<Rightarrow> join_row \<Rightarrow> join \<Rightarrow> (exc + (envelope \<times> envelope) option) \<times> join" where
  "join_complete sha key w j = (case (jw_raw w, jw_filtered w) of
       (Some raw, Some filtered) \<Rightarrow>
         (let j = j\<lparr>jn_pending := AList.delete key (jn_pending j)\<rparr> in
          if acquisition_signature raw \<noteq> acquisition_signature filtered then (raise FusionError ''RAW_FILTERED_ACQUISITION_MISMATCH'', j)
          else (case verify_raw_reference sha raw filtered of
              Inl e \<Rightarrow> (Inl e, j)
            | Inr _ \<Rightarrow> (Inr (Some (raw, filtered)), remember_join sha key raw filtered j)))
     | _ \<Rightarrow> (Inr None, j\<lparr>jn_pending := dput key w (jn_pending j)\<rparr>))"

definition join_branch :: "(bytes \<Rightarrow> string) \<Rightarrow> bool \<Rightarrow> envelope \<Rightarrow> int \<Rightarrow> join \<Rightarrow> (exc + (envelope \<times> envelope) option) \<times> join" where
  "join_branch sha filtered m t j = (let key = frame_identity m in
     case map_of (jn_completed j) key of
       Some (a, b) \<Rightarrow> if (if filtered then b else a) \<noteq> content_signature sha m
           then (raise FusionError ''RAW_FILTERED_COMPLETED_CONTENT_CHANGED'', j) else (Inr None, j)
     | None \<Rightarrow>
         (case map_of (jn_pending j) key of
            None \<Rightarrow> if jn_capacity j \<le> length (jn_pending j) then (raise FusionError ''RAW_FILTERED_QUEUE_FULL'', j)
                else join_complete sha key (fill_branch filtered m \<lparr>jw_received = t, jw_raw = None, jw_filtered = None\<rparr>) j
          | Some w \<Rightarrow> if branch filtered w \<noteq> None then (raise FusionError ''RAW_FILTERED_DUPLICATE_BRANCH'', j)
                else join_complete sha key (fill_branch filtered m w) j))"

definition join_push :: "(bytes \<Rightarrow> string) \<Rightarrow> string \<Rightarrow> envelope \<Rightarrow> pyval \<Rightarrow> join \<Rightarrow> (exc + (envelope \<times> envelope) option) \<times> join" where
  "join_push sha kind m now j =
     (if kind \<noteq> ''raw'' \<and> kind \<noteq> ''filtered'' then (raise FusionError ''UNKNOWN_FILTER_BRANCH'', j)
      else case join_expire now j of
        (Inl e, j) \<Rightarrow> (Inl e, j)
      | (Inr t, j) \<Rightarrow> join_branch sha (kind = ''filtered'') m t j)"

datatype join_op = Push string envelope pyval | Expire pyval | Clear

fun join_step :: "(bytes \<Rightarrow> string) \<Rightarrow> join_op \<Rightarrow> join \<Rightarrow> (exc + (envelope \<times> envelope) option) \<times> join" where
  "join_step sha (Push kind m now) j = join_push sha kind m now j"
| "join_step sha (Expire now) j = (case join_expire now j of (r, j) \<Rightarrow> (map_sum id (\<lambda>_. None) r, j))"
| "join_step sha Clear j = (Inr None, join_clear j)"

section \<open>The invariant\<close>

text \<open>A pending row holds one branch, pushed at the time it notes.\<close>

definition waiting_row :: "join_op list \<Rightarrow> frame_key \<Rightarrow> join_row \<Rightarrow> bool" where
  "waiting_row past key w \<longleftrightarrow> (\<exists>m t. frame_identity m = key
     \<and> ((w = \<lparr>jw_received = t, jw_raw = Some m, jw_filtered = None\<rparr> \<and> Push ''raw'' m (PInt t) \<in> set past)
      \<or> (w = \<lparr>jw_received = t, jw_raw = None, jw_filtered = Some m\<rparr> \<and> Push ''filtered'' m (PInt t) \<in> set past)))"

definition spaced :: "nat \<Rightarrow> 'a list \<Rightarrow> bool" where
  "spaced n xs \<longleftrightarrow> (\<forall>i k. i < k \<and> k < length xs \<and> xs ! i = xs ! k \<longrightarrow> i + n < k)"

definition join_ok :: "join_op list \<Rightarrow> frame_key list \<Rightarrow> join \<Rightarrow> bool" where
  "join_ok past joined j \<longleftrightarrow> 0 < jn_capacity j \<and> length (jn_pending j) \<le> jn_capacity j \<and> distinct (map fst (jn_pending j))
     \<and> list_all (\<lambda>(key, w). waiting_row past key w) (jn_pending j)
     \<and> map fst (jn_completed j) = drop (length joined - jn_capacity j * 4) joined \<and> spaced (jn_capacity j * 4) joined"

fun joined_keys :: "(exc + (envelope \<times> envelope) option) list \<Rightarrow> frame_key list" where
  "joined_keys [] = []"
| "joined_keys (Inr (Some (raw, _)) # rs) = frame_identity raw # joined_keys rs"
| "joined_keys (_ # rs) = joined_keys rs"

lemma integer_ns_Inr: "integer_ns v = Inr t \<longleftrightarrow> v = PInt t"
  by (auto simp: integer_ns_def split: pyval.splits)

lemma spaced_snoc: "spaced n xs \<Longrightarrow> x \<notin> set (drop (length xs - n) xs) \<Longrightarrow> spaced n (xs @ [x])"
proof -
  assume s: "spaced n xs" and x: "x \<notin> set (drop (length xs - n) xs)"
  have "i + n < length xs" if "i < length xs" "xs ! i = x" for i
  proof (rule ccontr)
    assume "\<not> i + n < length xs"
    then have "drop (length xs - n) xs ! (i - (length xs - n)) = x" "i - (length xs - n) < length (drop (length xs - n) xs)" using that by auto
    with x show False using nth_mem by metis
  qed
  with s show ?thesis unfolding spaced_def by (auto simp: nth_append less_Suc_eq)
qed

lemma dput_new: "k \<notin> fst ` set d \<Longrightarrow> dput k v d = d @ [(k, v)]"
  by (induction d) auto

lemma remember_keys:
  assumes "0 < n" "map fst known = drop (length xs - n) xs" "k \<notin> fst ` set known"
  shows "map fst (drop (length (dput k v known) - n) (dput k v known)) = drop (length (xs @ [k]) - n) (xs @ [k])"
proof -
  have p: "dput k v known = known @ [(k, v)]" by (rule dput_new [OF assms(3)])
  have l: "length known = min (length xs) n" using arg_cong [OF assms(2), of length] by simp
  show ?thesis
  proof (cases "n \<le> length xs")
    case True
    with l have "length known = n" by simp
    then show ?thesis using True assms(1,2) by (simp add: p drop_map [symmetric] Suc_diff_le)
  next
    case False
    with l assms(2) show ?thesis by (simp add: p)
  qed
qed

lemma waiting_row_mono: "waiting_row past key w \<Longrightarrow> set past \<subseteq> set past' \<Longrightarrow> waiting_row past' key w"
  unfolding waiting_row_def by blast

lemma waiting_list_mono:
  "list_all (\<lambda>(key, w). waiting_row past key w) ws \<Longrightarrow> list_all (\<lambda>(key, w). waiting_row (past @ [op]) key w) ws"
  by (auto simp: list_all_iff elim!: waiting_row_mono)

lemma join_ok_later: "join_ok past joined j \<Longrightarrow> join_ok (past @ [op]) joined j"
  by (simp add: join_ok_def waiting_list_mono)

lemma join_clear_ok: "join_ok past joined j \<Longrightarrow> join_ok past joined (join_clear j)"
  by (simp add: join_ok_def join_clear_def)

lemma join_expire_cases:
  assumes "join_expire now j = (r, j')"
  obtains "isl r" "j' = j" | "isl r" "j' = join_clear j"
    | t where "now = PInt t" "r = Inr t" "j' = j" "\<And>key w. (key, w) \<in> set (jn_pending j) \<Longrightarrow> 0 \<le> t - jw_received w \<and> t - jw_received w \<le> jn_timeout j"
proof (cases "integer_ns now")
  case (Inl e)
  then have "join_expire now j = (Inl e, j)" by (simp add: join_expire_def)
  with assms have "r = Inl e" "j' = j" by simp_all
  with that(1) show thesis by simp
next
  case (Inr t)
  let ?fresh = "list_all (\<lambda>(_, w). 0 \<le> t - jw_received w \<and> t - jw_received w \<le> jn_timeout j) (jn_pending j)"
  show thesis
  proof (cases ?fresh)
    case True
    with assms Inr have "r = Inr t" "j' = j" by (simp_all add: join_expire_def)
    moreover have "0 \<le> t - jw_received w \<and> t - jw_received w \<le> jn_timeout j" if "(key, w) \<in> set (jn_pending j)" for key w
      using True that unfolding list_all_iff by blast
    ultimately show thesis using that(3) [of t] Inr by (auto simp: integer_ns_Inr)
  next
    case False
    then have "join_expire now j = (raise FusionError ''RAW_FILTERED_FRAME_TIMEOUT'', join_clear j)"
      using Inr by (simp only: join_expire_def sum.case if_False)
    with assms have "isl r" "j' = join_clear j" by auto
    with that(2) show thesis by simp
  qed
qed

text \<open>What a push that joins found: the other branch, pushed before within the limit.\<close>

definition joins :: "join_op list \<Rightarrow> int \<Rightarrow> (bytes \<Rightarrow> string) \<Rightarrow> join_op \<Rightarrow> envelope \<Rightarrow> envelope \<Rightarrow> bool" where
  "joins past timeout sha op raw filtered \<longleftrightarrow> frame_identity raw = frame_identity filtered
     \<and> acquisition_signature raw = acquisition_signature filtered \<and> verify_raw_reference sha raw filtered = Inr ()
     \<and> (\<exists>t0 t. 0 \<le> t - t0 \<and> t - t0 \<le> timeout
         \<and> ((Push ''raw'' raw (PInt t0) \<in> set past \<and> op = Push ''filtered'' filtered (PInt t))
          \<or> (Push ''filtered'' filtered (PInt t0) \<in> set past \<and> op = Push ''raw'' raw (PInt t))))"

lemma join_okD:
  assumes "join_ok past joined j"
  shows "0 < jn_capacity j" "length (jn_pending j) \<le> jn_capacity j" "distinct (map fst (jn_pending j))"
    "list_all (\<lambda>(key, w). waiting_row past key w) (jn_pending j)"
    "map fst (jn_completed j) = drop (length joined - jn_capacity j * 4) joined" "spaced (jn_capacity j * 4) joined"
  using assms unfolding join_ok_def by blast+

lemma complete_pair_ok:
  assumes "join_ok past joined j" "key \<notin> fst ` set (jn_completed j)"
  shows "join_ok past (joined @ [key]) (remember_join sha key raw filtered (j\<lparr>jn_pending := AList.delete key (jn_pending j)\<rparr>))"
proof -
  note ok = join_okD [OF assms(1)]
  have "distinct (map fst (AList.delete key (jn_pending j)))" by (rule distinct_delete [OF ok(3)])
  moreover have "length (AList.delete key (jn_pending j)) \<le> jn_capacity j"
    by (rule order_trans [OF length_delete_le ok(2)])
  moreover have "list_all (\<lambda>(key, w). waiting_row past key w) (AList.delete key (jn_pending j))"
    using ok(4) set_delete_subset [of key "jn_pending j"] unfolding list_all_iff by blast
  moreover have "key \<notin> set (drop (length joined - jn_capacity j * 4) joined)"
    using assms(2) ok(5) by (metis list.set_map)
  ultimately show ?thesis using ok spaced_snoc [OF ok(6)] remember_keys [OF _ ok(5) assms(2)]
    unfolding join_ok_def remember_join_def Let_def by simp
qed

lemma set_dput_subset: "set (dput k v d) \<subseteq> insert (k, v) (set d)"
  by (induction d) auto

lemma pending_put_ok:
  assumes "join_ok past joined j" "waiting_row past key w" "length (jn_pending j) < jn_capacity j \<or> key \<in> fst ` set (jn_pending j)"
  shows "join_ok past joined (j\<lparr>jn_pending := dput key w (jn_pending j)\<rparr>)"
proof -
  note ok = join_okD [OF assms(1)]
  have "distinct (map fst (dput key w (jn_pending j)))" by (rule distinct_update [OF ok(3)])
  moreover have "length (dput key w (jn_pending j)) \<le> jn_capacity j"
  proof (cases "key \<in> fst ` set (jn_pending j)")
    case True
    then have "map fst (dput key w (jn_pending j)) = map fst (jn_pending j)" by (simp add: update_keys)
    then show ?thesis using ok(2) by (metis length_map)
  next
    case False
    with assms(3) show ?thesis by (simp add: dput_new)
  qed
  moreover have "set (dput key w (jn_pending j)) \<subseteq> insert (key, w) (set (jn_pending j))"
    by (rule set_dput_subset)
  then have "list_all (\<lambda>(key, w). waiting_row past key w) (dput key w (jn_pending j))"
    using ok(4) assms(2) unfolding list_all_iff by blast
  ultimately show ?thesis using ok by (simp add: join_ok_def)
qed

lemma complete_ok:
  assumes "join_ok past joined j" "join_complete sha key (fill_branch filtered m w) j = (r, j')" "key \<notin> fst ` set (jn_completed j)"
    and "frame_identity m = key" "branch filtered w = None"
    and "w = \<lparr>jw_received = t, jw_raw = None, jw_filtered = None\<rparr> \<and> length (jn_pending j) < jn_capacity j
      \<or> (key, w) \<in> set (jn_pending j) \<and> 0 \<le> t - jw_received w \<and> t - jw_received w \<le> jn_timeout j"
  shows "(let op = Push (if filtered then ''filtered'' else ''raw'') m (PInt t) in
      join_ok (past @ [op]) (joined @ joined_keys [r]) j' \<and> (\<forall>raw f. r = Inr (Some (raw, f)) \<longrightarrow> joins past (jn_timeout j) sha op raw f))"
proof -
  define op where "op = Push (if filtered then ''filtered'' else ''raw'') m (PInt t)"
  have later: "join_ok (past @ [op]) joined j" by (rule join_ok_later [OF assms(1)])
  show ?thesis
  proof (cases "w = \<lparr>jw_received = t, jw_raw = None, jw_filtered = None\<rparr> \<and> length (jn_pending j) < jn_capacity j")
    case True
    have "waiting_row (past @ [op]) key (fill_branch filtered m w)" using True assms(4)
      by (auto simp: waiting_row_def fill_branch_def op_def)
    from pending_put_ok [OF later this] True assms(2) show ?thesis
      by (cases filtered) (auto simp: join_complete_def fill_branch_def op_def Let_def)
  next
    case False
    then have w: "(key, w) \<in> set (jn_pending j)" "0 \<le> t - jw_received w" "t - jw_received w \<le> jn_timeout j" using assms(6) by auto
    then have "waiting_row past key w" using join_okD(4) [OF assms(1)] unfolding list_all_iff by blast
    with assms(5) obtain m0 where m0: "frame_identity m0 = key"
        "w = (if filtered then \<lparr>jw_received = jw_received w, jw_raw = Some m0, jw_filtered = None\<rparr> else \<lparr>jw_received = jw_received w, jw_raw = None, jw_filtered = Some m0\<rparr>)"
        "Push (if filtered then ''raw'' else ''filtered'') m0 (PInt (jw_received w)) \<in> set past"
      by (auto simp: waiting_row_def branch_def split: if_splits)
    define raw where "raw = (if filtered then m0 else m)"
    define f where "f = (if filtered then m else m0)"
    have sides: "jw_raw (fill_branch filtered m w) = Some raw" "jw_filtered (fill_branch filtered m w) = Some f"
      using m0(2) by (cases filtered; cases w; auto simp: fill_branch_def raw_def f_def)+
    have ids: "frame_identity raw = key" "frame_identity f = key" using m0(1) assms(4) by (auto simp: raw_def f_def)
    let ?j = "j\<lparr>jn_pending := AList.delete key (jn_pending j)\<rparr>"
    have dropped: "join_ok (past @ [op]) joined ?j"
      using join_okD [OF later] set_delete_subset [of key "jn_pending j"] distinct_delete [OF join_okD(3) [OF later]]
        order_trans [OF length_delete_le join_okD(2) [OF later]] unfolding join_ok_def list_all_iff by auto
    consider "isl r" "j' = ?j" | "acquisition_signature raw = acquisition_signature f" "verify_raw_reference sha raw f = Inr ()"
        "r = Inr (Some (raw, f))" "j' = remember_join sha key raw f ?j"
      using assms(2) unfolding join_complete_def sides Let_def by (auto split: if_splits sum.splits)
    then show ?thesis
    proof cases
      case 1
      with dropped show ?thesis by (cases r) (auto simp: op_def [symmetric] Let_def)
    next
      case 2
      have "joins past (jn_timeout j) sha op raw f"
        using 2(1,2) ids w(2,3) m0(3) unfolding joins_def by (cases filtered) (auto simp: op_def raw_def f_def)
      with 2 complete_pair_ok [OF later assms(3)] ids show ?thesis by (simp add: op_def [symmetric] Let_def)
    qed
  qed
qed

lemma join_push_ok:
  assumes "join_ok past joined j" "join_push sha kind m now j = (r, j')"
  shows "join_ok (past @ [Push kind m now]) (joined @ joined_keys [r]) j'
    \<and> (\<forall>raw f. r = Inr (Some (raw, f)) \<longrightarrow> joins past (jn_timeout j) sha (Push kind m now) raw f)"
proof (cases "kind = ''raw'' \<or> kind = ''filtered''")
  case False
  with assms join_ok_later [OF assms(1)] show ?thesis by (auto simp: join_push_def)
next
  case True
  obtain q j1 where q: "join_expire now j = (q, j1)" by (cases "join_expire now j")
  from q show ?thesis
  proof (cases rule: join_expire_cases)
    case (3 t)
    define key where "key = frame_identity m"
    have kind: "kind = (if kind = ''filtered'' then ''filtered'' else ''raw'')" using True by auto
    have b: "join_branch sha (kind = ''filtered'') m t j = (r, j')" using assms(2) True q 3 by (auto simp: join_push_def)
    show ?thesis
    proof (cases "map_of (jn_completed j) key")
      case (Some ab)
      with b have "j' = j" "joined_keys [r] = []" "\<And>x. r \<noteq> Inr (Some x)"
        by (auto simp: join_branch_def key_def Let_def split: prod.splits if_splits)
      with join_ok_later [OF assms(1)] show ?thesis by auto
    next
      case None
      then have fresh: "key \<notin> fst ` set (jn_completed j)" by (simp add: map_of_eq_None_iff)
      show ?thesis
      proof (cases "map_of (jn_pending j) key")
        case n: None
        show ?thesis
        proof (cases "jn_capacity j \<le> length (jn_pending j)")
          case True
          with b None n have "j' = j" "isl r" by (auto simp: join_branch_def key_def Let_def)
          with join_ok_later [OF assms(1)] show ?thesis by (cases r) auto
        next
          case False
          with b None n have c: "join_complete sha key (fill_branch (kind = ''filtered'') m \<lparr>jw_received = t, jw_raw = None, jw_filtered = None\<rparr>) j = (r, j')"
            by (simp add: join_branch_def key_def Let_def)
          from complete_ok [OF assms(1) c fresh, of t] False show ?thesis
            using kind 3(1) by (simp add: key_def branch_def Let_def)
        qed
      next
        case w: (Some w)
        show ?thesis
        proof (cases "branch (kind = ''filtered'') w")
          case None': None
          with b None w have c: "join_complete sha key (fill_branch (kind = ''filtered'') m w) j = (r, j')"
            by (simp add: join_branch_def key_def Let_def)
          have "(key, w) \<in> set (jn_pending j)" by (rule map_of_SomeD [OF w])
          from complete_ok [OF assms(1) c fresh, of t] this 3(4) [OF this] None' show ?thesis
            using kind 3(1) by (simp add: key_def Let_def)
        next
          case (Some x)
          with b None w have "j' = j" "isl r" by (auto simp: join_branch_def key_def Let_def)
          with join_ok_later [OF assms(1)] show ?thesis by (cases r) auto
        qed
      qed
    qed
  qed (use assms q True join_ok_later [OF assms(1)] join_clear_ok [OF join_ok_later [OF assms(1)]] in \<open>auto simp: join_push_def split: sum.splits\<close>)
qed

lemma join_step_ok:
  assumes "join_ok past joined j" "join_step sha op j = (r, j')"
  shows "join_ok (past @ [op]) (joined @ joined_keys [r]) j' \<and> (\<forall>raw f. r = Inr (Some (raw, f)) \<longrightarrow> joins past (jn_timeout j) sha op raw f)"
proof (cases op)
  case (Push kind m now)
  with join_push_ok [OF assms(1), of sha kind m now r j'] assms(2) show ?thesis by simp
next
  case (Expire now)
  obtain q where q: "join_expire now j = (q, j')" "r = map_sum id (\<lambda>_. None) q" using assms(2) Expire by (auto split: prod.splits)
  then have "joined_keys [r] = []" "\<And>x. r \<noteq> Inr (Some x)" by (cases q; simp)+
  moreover from q(1) have "j' = j \<or> j' = join_clear j" by (cases rule: join_expire_cases) auto
  ultimately show ?thesis using join_ok_later [OF assms(1), of op] join_clear_ok [OF join_ok_later [OF assms(1), of op]] by auto
next
  case Clear
  with assms join_clear_ok [OF join_ok_later [OF assms(1), of op]] show ?thesis by auto
qed

lemma join_run_ok:
  "join_ok past joined j \<Longrightarrow> join_ok (past @ ops) (joined @ joined_keys (run_outs (join_step sha) ops j)) (run_state (join_step sha) ops j)"
proof (induction ops arbitrary: past joined j)
  case Nil
  then show ?case by simp
next
  case (Cons op ops)
  obtain r j' where s: "join_step sha op j = (r, j')" by (cases "join_step sha op j")
  have split: "joined_keys (r # rs) = joined_keys [r] @ joined_keys rs" for rs by (cases "[r]" rule: joined_keys.cases) auto
  from Cons.IH [OF conjunct1 [OF join_step_ok [OF Cons.prems s]]] show ?case by (simp add: s split [of "run_outs _ _ _"])
qed

lemma join_step_limits: "jn_timeout (snd (join_step sha op j)) = jn_timeout j \<and> jn_capacity (snd (join_step sha op j)) = jn_capacity j"
proof (cases op)
  case (Push kind m now)
  have "jn_timeout (snd (join_complete sha key w j)) = jn_timeout j \<and> jn_capacity (snd (join_complete sha key w j)) = jn_capacity j" for key w j
    by (simp add: join_complete_def remember_join_def Let_def split: option.split sum.split)
  then have "jn_timeout (snd (join_branch sha filtered m t j)) = jn_timeout j \<and> jn_capacity (snd (join_branch sha filtered m t j)) = jn_capacity j" for filtered t j
    by (simp add: join_branch_def Let_def split: option.split)
  moreover have "jn_timeout (snd (join_expire now j)) = jn_timeout j \<and> jn_capacity (snd (join_expire now j)) = jn_capacity j"
    by (simp add: join_expire_def join_clear_def split: sum.split)
  ultimately show ?thesis unfolding Push
    by (cases "join_expire now j"; cases "fst (join_expire now j)") (auto simp: join_push_def)
qed (simp_all add: join_expire_def join_clear_def split: prod.split sum.split)

lemma join_run_limits: "jn_timeout (run_state (join_step sha) ops j) = jn_timeout j" "jn_capacity (run_state (join_step sha) ops j) = jn_capacity j"
  by (induction ops arbitrary: j) (simp_all add: join_step_limits)

lemma join_init_ok: "join_init capacity timeout = Inr j \<Longrightarrow> join_ok [] [] j \<and> jn_timeout j = timeout \<and> jn_capacity j = nat capacity"
  by (auto simp: join_init_def join_ok_def spaced_def split: if_splits)

section \<open>Properties\<close>

text \<open>
  C36. A joined pair is one frame. When a push returns a pair, the two messages have the same identity and the same acquisition, the
  filtered one names the configuration and the hash of the raw cloud, and the other branch was pushed no longer before than
  the time limit. The join never holds more frames than its capacity, and between two joins of a frame at least four times
  the capacity others were joined.\<close>

theorem join_pairs_exact:
  assumes "join_init capacity timeout = Inr j0" "join_step sha op (run_state (join_step sha) ops j0) = (Inr (Some (raw, filtered)), j')"
  shows "joins ops timeout sha op raw filtered \<and> length (jn_pending j') \<le> nat capacity \<and> length (jn_completed j') \<le> nat capacity * 4
    \<and> spaced (nat capacity * 4) (joined_keys (run_outs (join_step sha) (ops @ [op]) j0))"
proof -
  note init = join_init_ok [OF assms(1)]
  have ok: "join_ok ops (joined_keys (run_outs (join_step sha) ops j0)) (run_state (join_step sha) ops j0)"
    using join_run_ok [of "[]" "[]" j0 ops sha] init by simp
  have "joins ops timeout sha op raw filtered" using join_step_ok [OF ok assms(2)] init by (simp add: join_run_limits)
  moreover have "run_state (join_step sha) (ops @ [op]) j0 = j'" using assms(2) by (simp add: run_state_append)
  then have "join_ok (ops @ [op]) (joined_keys (run_outs (join_step sha) (ops @ [op]) j0)) j'"
    using join_run_ok [of "[]" "[]" j0 "ops @ [op]" sha] init by simp
  note k = join_okD [OF this]
  have "jn_capacity j' = nat capacity" using assms(2) init join_step_limits [of sha op "run_state (join_step sha) ops j0"] by (simp add: join_run_limits)
  moreover have "length (jn_completed j') \<le> jn_capacity j' * 4" using arg_cong [OF k(5), of length] by simp
  ultimately show ?thesis using k(2,6) by simp
qed

definition demo_envelope :: "string list \<Rightarrow> envelope" where
  "demo_envelope flags = \<lparr>ev_session = ''s'', ev_side = ''left'', ev_sensor = ''A'', ev_epoch = ''e'', ev_sequence = 1, ev_frame = ''f'',
     ev_stamp = (0, 5), ev_cloud_frame = ''f'', ev_cloud_stamp = (0, 5), ev_device_valid = False, ev_device_raw = 0, ev_device_unit = '''',
     ev_components_valid = False, ev_device_time = (0, 0), ev_time_type = 0, ev_sync_state = 0, ev_host = (0, 6), ev_monotonic = 7,
     ev_common_valid = False, ev_common = 0, ev_clock_model = '''', ev_time_source = ''arrival'', ev_uncertainty_valid = False,
     ev_uncertainty = 0, ev_convention = ''FLU'', ev_units = ''m'', ev_config_hash = ''c'', ev_data = [], ev_flags = flags\<rparr>"

definition demo_filtered :: envelope where
  "demo_filtered = demo_envelope [''raw_source_config_hash=c'', ''before_host_filter_cloud_sha256='']"

theorem join_pairs_exact_witness:
  "joins [Push ''raw'' (demo_envelope []) (PInt 10)] 300 (\<lambda>_. []) (Push ''filtered'' demo_filtered (PInt 20)) (demo_envelope []) demo_filtered"
proof -
  define j0 where "j0 = \<lparr>jn_capacity = 2, jn_timeout = 300, jn_pending = [], jn_completed = []\<rparr>"
  have i: "join_init 2 300 = Inr j0" by (simp add: join_init_def j0_def)
  have "\<exists>j'. join_step (\<lambda>_. []) (Push ''filtered'' demo_filtered (PInt 20)) (run_state (join_step (\<lambda>_. [])) [Push ''raw'' (demo_envelope []) (PInt 10)] j0)
      = (Inr (Some (demo_envelope [], demo_filtered)), j')"
    by (simp add: j0_def demo_filtered_def demo_envelope_def join_push_def join_expire_def integer_ns_def join_branch_def join_complete_def Let_def
        frame_identity_def branch_def fill_branch_def acquisition_signature_def verify_raw_reference_def)
  then obtain j' where "join_step (\<lambda>_. []) (Push ''filtered'' demo_filtered (PInt 20)) (run_state (join_step (\<lambda>_. [])) [Push ''raw'' (demo_envelope []) (PInt 10)] j0)
      = (Inr (Some (demo_envelope [], demo_filtered)), j')" ..
  from join_pairs_exact [OF i this] show ?thesis by blast
qed

end
