(* ===== verification/Source_Time.thy ===== *)
theory Source_Time
  imports Device_Time "HOL-Library.Product_Lexorder"
begin

text \<open>
  \<open>src/src/wc_runtime/source_time.py\<close> and \<open>offline_imu_time.py\<close>: the clock of a recording that is replayed offline, and the
  frozen model that gives inertial samples device-relative times without changing their stamps.

  Events carry integer clocks, as the readers of recordings build them; their device-time entry is a dictionary. The timing
  profile is loaded and counters are advanced as in \<open>Device_Time\<close>. SHA-256 of a report and of the derived sequence is a parameter.
\<close>

section \<open>Events\<close>

record source_event =
  sv_category :: string
  sv_stamp :: int
  sv_monotonic :: int
  sv_sequence :: int
  sv_side :: string
  sv_bag :: string
  sv_message :: int
  sv_cdr :: string
  sv_meta :: pydict
  sv_original :: "int option"
  sv_measurement :: "int option"
  sv_model :: "string option"

definition category_order :: "(string \<times> int) list" where
  "category_order = [(''wheel'', 0), (''imu'', 1), (''source'', 2)]"

type_synonym event_order = "int \<times> int \<times> int \<times> string \<times> string \<times> int"

definition event_key :: "source_event \<Rightarrow> exc + event_order" where
  "event_key e = (case map_of category_order (sv_category e) of
       None \<Rightarrow> raise KeyError (sv_category e)
     | Some n \<Rightarrow> Inr (sv_stamp e, n, sv_sequence e, sv_side e, sv_bag e, sv_message e))"

section \<open>The clock of a recording\<close>

record source_clock =
  sc_monotonic :: int
  sc_ros :: int

text \<open>\<open>min(events, key=...)\<close>: the first of the least.\<close>

fun least :: "((int \<times> event_order) \<times> source_event) \<Rightarrow> ((int \<times> event_order) \<times> source_event) list \<Rightarrow> source_event" where
  "least (k, e) [] = e"
| "least (k, e) ((l, f) # rest) = (if l < k then least (l, f) rest else least (k, e) rest)"

definition source_clock_init :: "source_event list \<Rightarrow> exc + source_clock" where
  "source_clock_init events = (if events = [] then raise ValueError ''source clock requires original events''
     else bindr (mapr (\<lambda>e. bindr (event_key e) (\<lambda>k. Inr ((sv_monotonic e, k), e))) events) (\<lambda>keyed.
       let first = least (hd keyed) (tl keyed) in
       if sv_monotonic first < 0 then raise ValueError ''nonnegative source host-monotonic origin required''
       else Inr \<lparr>sc_monotonic = sv_monotonic first, sc_ros = sv_stamp first\<rparr>))"

definition canonicalize :: "source_clock \<Rightarrow> source_event \<Rightarrow> exc + source_event" where
  "canonicalize c e = (if sv_monotonic e < sc_monotonic c then raise ValueError ''host-monotonic event predates epoch''
     else Inr (e\<lparr>sv_original := Some (sv_stamp e), sv_stamp := sc_ros c + sv_monotonic e - sc_monotonic c\<rparr>))"

text \<open>The least interval between two selected clouds, \<open>round(1e9/input_rate_hz)\<close>.\<close>

definition input_interval :: "pyval \<Rightarrow> exc + int" where
  "input_interval rate = bindr (f_div (Fin 1000000000) (to_float rate)) (\<lambda>q. case q of
       Fin x \<Rightarrow> Inr (half_even x)
     | NaN \<Rightarrow> raise ValueError ''cannot convert float NaN to integer''
     | _ \<Rightarrow> raise OverflowError ''cannot convert float infinity to integer'')"

fun select_from :: "pyval \<Rightarrow> int list \<Rightarrow> int option \<Rightarrow> exc + int list" where
  "select_from rate [] previous = Inr []"
| "select_from rate (s # stamps) previous =
     (if s < 0 then raise ValueError ''original stamps must be nonnegative integer nanoseconds''
      else case previous of
          None \<Rightarrow> bindr (select_from rate stamps (Some s)) (\<lambda>rest. Inr (s # rest))
        | Some p \<Rightarrow> bindr (input_interval rate) (\<lambda>gap.
            if gap \<le> s - p then bindr (select_from rate stamps (Some s)) (\<lambda>rest. Inr (s # rest))
            else select_from rate stamps previous))"

definition select_stamps :: "int list \<Rightarrow> pyval \<Rightarrow> exc + int list" where
  "select_stamps stamps rate =
     (if is_bool rate then raise ValueError ''finite positive input_rate_hz required''
      else bindr (py_isfinite rate) (\<lambda>finite.
        if \<not> finite \<or> py_le rate (PInt 0) then raise ValueError ''finite positive input_rate_hz required''
        else select_from rate (sorted_list_of_set (set stamps)) None))"

section \<open>The timing mode\<close>

definition timing_modes :: "string list" where "timing_modes = [''auto'', ''arrival'', ''device_relative'']"

definition timing_mode :: "pydict \<Rightarrow> exc + string" where
  "timing_mode config = (case dget_or config ''offline_imu_time_mode'' (PStr ''arrival'') of
       PStr s \<Rightarrow> if s \<in> set timing_modes then Inr s else raise ValueError ''offline IMU time mode must be auto, arrival or device_relative''
     | _ \<Rightarrow> raise ValueError ''offline IMU time mode must be auto, arrival or device_relative'')"

text \<open>\<open>declared\<close>: the timing profile of the recording exists or is a link.\<close>

definition resolved_mode :: "bool \<Rightarrow> pydict \<Rightarrow> exc + string" where
  "resolved_mode declared config = bindr (timing_mode config) (\<lambda>mode.
     Inr (if mode = ''auto'' then (if declared then ''device_relative'' else ''arrival'') else mode))"

section \<open>The model\<close>

definition counter_fields :: "string list" where "counter_fields = [sample_field, dataready_field]"

definition valid_name :: "string \<Rightarrow> string" where
  "valid_name field = (if field = sample_field then ''sample_timestamp_valid'' else ''dataready_timestamp_valid'')"

definition forward_allowance :: int where "forward_allowance = 250000000"

definition imu_order :: "source_event \<Rightarrow> int \<times> int \<times> string \<times> int" where
  "imu_order e = (sv_monotonic e, sv_sequence e, sv_bag e, sv_message e)"

definition require :: "bool \<Rightarrow> string \<Rightarrow> exc + unit" where
  "require condition reason = (if condition then Inr () else raise ValueError reason)"

record timing_state =
  ti_elapsed :: "string \<Rightarrow> int"
  ti_wraps :: "string \<Rightarrow> int"
  ti_relative :: "int list"
  ti_previous :: "source_event option"

definition check_identity :: "timing_profile \<Rightarrow> pyval \<Rightarrow> pydict \<Rightarrow> source_event \<Rightarrow> exc + unit" where
  "check_identity profile sensor config e = (let m = sv_meta e in
     bindr (if py_eq (dget m ''sensor_id'') sensor then bindr (dsub config ''session_id'') (\<lambda>session.
         Inr (py_eq (dget m ''session_id'') session \<and> is_str (dget m ''stream_epoch'') \<and> py_true (dget m ''stream_epoch''))) else Inr False) (\<lambda>same.
     bindr (require same ''device timing identity/session/epoch mismatch'') (\<lambda>_.
     require (dget m ''device_time_status'' = PStr ''VALID_DEVICE_RELATIVE_TIME'' \<and> dget m ''timing_profile_sha256'' = PStr (t_sha256 profile)
         \<and> dget m ''device_timestamp_unit'' = PStr (t_unit profile)) ''device timing message must bind the frozen verified profile'')))"

definition check_continuity :: "source_event option \<Rightarrow> source_event \<Rightarrow> exc + unit" where
  "check_continuity previous e = (case previous of None \<Rightarrow> Inr ()
     | Some p \<Rightarrow> require (sv_monotonic p \<le> sv_monotonic e \<and> sv_sequence p < sv_sequence e
         \<and> dget (sv_meta e) ''stream_epoch'' = dget (sv_meta p) ''stream_epoch'') ''device timing host/sequence/epoch discontinuity'')"

text \<open>One counter of one sample.\<close>

definition counter_step :: "timing_profile \<Rightarrow> source_event \<Rightarrow> string \<Rightarrow> timing_state \<Rightarrow> exc + timing_state" where
  "counter_step profile e field s = (let raw = dget (sv_meta e) field in
     bindr (require (dget (sv_meta e) (valid_name field) = PBool True \<and> int_in 0 (2 ^ 32 - 1) raw)
       (''valid uint32 device timestamp required: '' @ field)) (\<lambda>_.
     case ti_previous s of
       None \<Rightarrow> Inr s
     | Some p \<Rightarrow>
         (let host = sv_monotonic e - sv_monotonic p in
          bindr (advance_device_counter (dget (sv_meta p) field) raw (PInt host) profile) (\<lambda>(ticks, wrapped).
          bindr (require (ticks * t_tick_ns profile \<le> host + forward_allowance)
            (''device timestamp advance inconsistent with host elapsed: '' @ field)) (\<lambda>_.
          Inr (s\<lparr>ti_elapsed := (ti_elapsed s)(field := ti_elapsed s field + ticks),
                 ti_wraps := (ti_wraps s)(field := ti_wraps s field + (if wrapped then 1 else 0))\<rparr>))))))"

definition sample_step :: "timing_profile \<Rightarrow> pyval \<Rightarrow> pydict \<Rightarrow> source_event \<Rightarrow> timing_state \<Rightarrow> exc + timing_state" where
  "sample_step profile sensor config e s =
     bindr (check_identity profile sensor config e) (\<lambda>_. bindr (check_continuity (ti_previous s) e) (\<lambda>_.
     bindr (counter_step profile e sample_field s) (\<lambda>s. bindr (counter_step profile e dataready_field s) (\<lambda>s.
     Inr (s\<lparr>ti_relative := ti_relative s @ [ti_elapsed s sample_field * t_tick_ns profile], ti_previous := Some e\<rparr>)))))"

fun sample_steps :: "timing_profile \<Rightarrow> pyval \<Rightarrow> pydict \<Rightarrow> source_event list \<Rightarrow> timing_state \<Rightarrow> exc + timing_state" where
  "sample_steps profile sensor config [] s = Inr s"
| "sample_steps profile sensor config (e # es) s = bindr (sample_step profile sensor config e s) (sample_steps profile sensor config es)"

definition no_timing :: timing_state where
  "no_timing = \<lparr>ti_elapsed = (\<lambda>_. 0), ti_wraps = (\<lambda>_. 0), ti_relative = [], ti_previous = None\<rparr>"

definition span_check :: "timing_profile \<Rightarrow> int \<Rightarrow> timing_state \<Rightarrow> string \<Rightarrow> exc + unit" where
  "span_check profile host_span s field =
     require (\<bar>ti_elapsed s field * t_tick_ns profile - host_span\<bar> \<le> max forward_allowance (host_span div 100))
       (''device/host elapsed span inconsistent with frozen unit: '' @ field)"

record imu_model =
  im_profile :: string
  im_sensor :: pyval
  im_session :: pyval
  im_epoch :: pyval
  im_unit :: string
  im_tick :: int
  im_first :: "pyval list"
  im_anchor :: int
  im_count :: nat
  im_policy :: string
  im_wraps :: "int list"
  im_elapsed :: "int list"
  im_sequence_sha :: string

text \<open>The evidence of a derived time.\<close>

definition sequence_row :: "source_event \<Rightarrow> int \<Rightarrow> int \<times> int \<times> int \<times> int \<times> string \<times> pyval \<times> pyval" where
  "sequence_row e t = (sv_sequence e, sv_monotonic e, sv_stamp e, t, sv_cdr e, dget (sv_meta e) sample_field, dget (sv_meta e) dataready_field)"

definition derive_times :: "int \<Rightarrow> source_event list \<Rightarrow> int list \<Rightarrow> source_event list" where
  "derive_times anchor rows relative = map (\<lambda>(e, d). e\<lparr>sv_measurement := Some (anchor + d)\<rparr>) (zip rows relative)"

record hashes =
  ha_sequence :: "(int \<times> int \<times> int \<times> int \<times> string \<times> pyval \<times> pyval) list \<Rightarrow> string"
  ha_model :: "imu_model \<Rightarrow> string"

definition freeze_model :: "hashes \<Rightarrow> timing_profile \<Rightarrow> pyval \<Rightarrow> pydict \<Rightarrow> source_event list \<Rightarrow> timing_state \<Rightarrow> exc + (imu_model \<times> string) \<times> source_event list" where
  "freeze_model ha profile sensor config rows s =
     (let host_span = sv_monotonic (last rows) - sv_monotonic (hd rows);
          anchor = Min (set (map (\<lambda>(e, d). sv_stamp e - d) (zip rows (ti_relative s)))) in
      bindr (span_check profile host_span s sample_field) (\<lambda>_. bindr (span_check profile host_span s dataready_field) (\<lambda>_.
      bindr (require (0 \<le> anchor) ''device-relative anchor predates supported ROS epoch'') (\<lambda>_.
      bindr (dsub config ''session_id'') (\<lambda>session.
      let timed = derive_times anchor rows (ti_relative s);
          model = \<lparr>im_profile = t_sha256 profile, im_sensor = sensor, im_session = session, im_epoch = dget (sv_meta (hd rows)) ''stream_epoch'',
            im_unit = t_unit profile, im_tick = t_tick_ns profile, im_first = map (dget (sv_meta (hd rows))) counter_fields,
            im_anchor = anchor, im_count = length rows, im_policy = t_policy profile, im_wraps = map (ti_wraps s) counter_fields,
            im_elapsed = map (ti_elapsed s) counter_fields,
            im_sequence_sha = ha_sequence ha (map (\<lambda>(e, d). sequence_row e (anchor + d)) (zip rows (ti_relative s)))\<rparr> in
      Inr ((model, ha_model ha model), map (\<lambda>e. e\<lparr>sv_model := Some (ha_model ha model)\<rparr>) timed))))))"

definition build_model :: "hashes \<Rightarrow> timing_world \<Rightarrow> string list \<Rightarrow> bool \<Rightarrow> pydict \<Rightarrow> source_event list \<Rightarrow> exc + (imu_model \<times> string) \<times> source_event list" where
  "build_model ha w source declared config events =
     bindr (resolved_mode declared config) (\<lambda>mode. bindr (require (mode = ''device_relative'') ''device-relative mode required'') (\<lambda>_.
     bindr (dsub config ''prior_template'') (\<lambda>template. case template of
       PDict t \<Rightarrow> bindr (dsub t ''imu_sensor_id'') (\<lambda>sensor.
         bindr (load_timing_profile w (source @ [''configuration'', ''imu_timing.json'']) (Some sensor)) (\<lambda>profile.
         bindr (require (set (t_required profile) = set counter_fields) ''offline device timing requires sample and dataready'') (\<lambda>_.
         bindr (require (t_policy profile \<in> {''reject'', ''guarded_uint32_wrap''}) ''unsupported device counter policy'') (\<lambda>_.
         let rows = sort_key imu_order (filter (\<lambda>e. sv_category e = ''imu'') events) in
         bindr (require (2 \<le> length rows) ''device timing requires at least two actual IMU samples'') (\<lambda>_.
         bindr (sample_steps profile sensor config rows no_timing) (freeze_model ha profile sensor config rows))))))
     | _ \<Rightarrow> raise TypeError ''prior_template'')))"

section \<open>The derived times\<close>

definition counter_of :: "source_event \<Rightarrow> int" where
  "counter_of e = (case dget (sv_meta e) sample_field of PInt i \<Rightarrow> i | _ \<Rightarrow> 0)"

text \<open>From one sample to the next: ticks of the sample counter, unwrapped at most once, and not ahead of the host's clock by more than
  the allowance.\<close>

definition advances :: "timing_profile \<Rightarrow> source_event \<times> int \<Rightarrow> source_event \<times> int \<Rightarrow> bool" where
  "advances profile = (\<lambda>(e, d) (f, g). d < g \<and> g - d \<le> sv_monotonic f - sv_monotonic e + forward_allowance
     \<and> sv_monotonic e \<le> sv_monotonic f \<and> sv_sequence e < sv_sequence f
     \<and> (\<exists>wrap \<in> {0, 1}. g - d = (counter_of f - counter_of e + 2 ^ 32 * wrap) * t_tick_ns profile))"

definition timed :: "timing_profile \<Rightarrow> source_event list \<Rightarrow> timing_state \<Rightarrow> bool" where
  "timed profile rs s \<longleftrightarrow> length (ti_relative s) = length rs \<and> (rs \<noteq> [] \<longrightarrow> hd (ti_relative s) = 0) \<and> successively (advances profile) (zip rs (ti_relative s))
     \<and> ti_previous s = (if rs = [] then None else Some (last rs))
     \<and> (if rs = [] then ti_elapsed s sample_field = 0 else last (ti_relative s) = ti_elapsed s sample_field * t_tick_ns profile)"

lemma require_Inr [simp]: "require c reason = Inr u \<longleftrightarrow> c"
  by (simp add: require_def)

lemma int_in_PInt: "int_in lo hi v \<Longrightarrow> \<exists>i. v = PInt i"
  by (cases v) (simp_all add: int_in_def)

lemma counter_step_first: "ti_previous s = None \<Longrightarrow> counter_step profile e field s = Inr t \<Longrightarrow> t = s"
  by (auto simp: counter_step_def result_simps Let_def)

lemma counter_step_next:
  assumes "counter_step profile e field s = Inr t" "ti_previous s = Some p"
  obtains raw ticks wrapped where "dget (sv_meta e) field = PInt raw"
    "advance_device_counter (dget (sv_meta p) field) (PInt raw) (PInt (sv_monotonic e - sv_monotonic p)) profile = Inr (ticks, wrapped)"
    "ticks * t_tick_ns profile \<le> sv_monotonic e - sv_monotonic p + forward_allowance"
    "t = s\<lparr>ti_elapsed := (ti_elapsed s)(field := ti_elapsed s field + ticks), ti_wraps := (ti_wraps s)(field := ti_wraps s field + (if wrapped then 1 else 0))\<rparr>"
proof -
  have "int_in 0 (2 ^ 32 - 1) (dget (sv_meta e) field)" using assms(1) by (auto simp: counter_step_def result_simps Let_def)
  then obtain raw where raw: "dget (sv_meta e) field = PInt raw" using int_in_PInt by blast
  with assms that [OF raw] show thesis by (auto simp: counter_step_def result_simps Let_def)
qed

lemma counter_step_effect:
  assumes "counter_step profile e field s = Inr t" shows "ti_previous t = ti_previous s \<and> ti_relative t = ti_relative s \<and> (\<forall>g. g \<noteq> field \<longrightarrow> ti_elapsed t g = ti_elapsed s g)"
proof (cases "ti_previous s")
  case None
  with counter_step_first [OF None assms] show ?thesis by simp
next
  case (Some p)
  from assms Some show ?thesis by (rule counter_step_next) simp
qed

lemma advance_sample:
  assumes "advance_device_counter v (PInt raw) host profile = Inr (ticks, wrapped)"
  shows "\<exists>prev. v = PInt prev \<and> 0 < ticks \<and> ticks = raw - prev + (if wrapped then 2 ^ 32 else 0)"
proof (cases v)
  case (PInt prev)
  with advance_Inr(1,3) [OF assms [unfolded PInt]] show ?thesis by auto
qed (use assms in \<open>simp_all add: advance_device_counter_def\<close>)

lemma sample_step_timed:
  assumes "sample_step profile sensor config e s = Inr s'" "timed profile rs s" "0 < t_tick_ns profile"
  shows "timed profile (rs @ [e]) s'"
proof -
  obtain t u where c: "check_continuity (ti_previous s) e = Inr ()" "counter_step profile e sample_field s = Inr t" "counter_step profile e dataready_field t = Inr u"
    and s': "s' = u\<lparr>ti_relative := ti_relative u @ [ti_elapsed u sample_field * t_tick_ns profile], ti_previous := Some e\<rparr>"
    using assms(1) by (auto simp: sample_step_def result_simps)
  have d: "sample_field \<noteq> dataready_field" by (simp add: sample_field_def dataready_field_def)
  have keep: "ti_relative u = ti_relative s" "ti_elapsed u sample_field = ti_elapsed t sample_field"
    using counter_step_effect [OF c(2)] counter_step_effect [OF c(3)] d by simp_all
  have l: "length (ti_relative s) = length rs" "successively (advances profile) (zip rs (ti_relative s))" using assms(2) by (simp_all add: timed_def)
  have z: "zip (rs @ [e]) (ti_relative s') = zip rs (ti_relative s) @ [(e, ti_elapsed t sample_field * t_tick_ns profile)]"
    using l(1) by (simp add: s' keep)
  show ?thesis
  proof (cases "rs = []")
    case True
    then have "ti_previous s = None" using assms(2) by (simp add: timed_def)
    moreover from this have "ti_elapsed t sample_field = 0" using True assms(2) counter_step_first [OF _ c(2)] by (simp add: timed_def)
    ultimately show ?thesis using l(1) True by (simp add: timed_def z) (simp add: s' keep)
  next
    case False
    then have p: "ti_previous s = Some (last rs)" and last: "last (ti_relative s) = ti_elapsed s sample_field * t_tick_ns profile"
      using assms(2) by (simp_all add: timed_def)
    from c(2) p show ?thesis
    proof (rule counter_step_next)
      fix raw ticks wrapped
      assume a: "dget (sv_meta e) sample_field = PInt raw"
        "advance_device_counter (dget (sv_meta (last rs)) sample_field) (PInt raw) (PInt (sv_monotonic e - sv_monotonic (last rs))) profile = Inr (ticks, wrapped)"
        "ticks * t_tick_ns profile \<le> sv_monotonic e - sv_monotonic (last rs) + forward_allowance"
        "t = s\<lparr>ti_elapsed := (ti_elapsed s)(sample_field := ti_elapsed s sample_field + ticks), ti_wraps := (ti_wraps s)(sample_field := ti_wraps s sample_field + (if wrapped then 1 else 0))\<rparr>"
      obtain prev where v: "dget (sv_meta (last rs)) sample_field = PInt prev" "0 < ticks" "ticks = raw - prev + (if wrapped then 2 ^ 32 else 0)"
        using advance_sample [OF a(2)] by blast
      have el: "ti_elapsed t sample_field = ti_elapsed s sample_field + ticks" by (simp add: a(4))
      have "0 < ticks * t_tick_ns profile" using v(2) assms(3) by simp
      moreover have "sv_monotonic (last rs) \<le> sv_monotonic e" "sv_sequence (last rs) < sv_sequence e" using c(1) p by (simp_all add: check_continuity_def)
      moreover have "ticks = counter_of e - counter_of (last rs) + 2 ^ 32 * (if wrapped then 1 else 0)" using v a(1) by (simp add: counter_of_def)
      ultimately have "advances profile (last rs, last (ti_relative s)) (e, ti_elapsed t sample_field * t_tick_ns profile)"
        using a(3) unfolding advances_def last el by (auto simp: distrib_right)
      moreover have "last (zip rs (ti_relative s)) = (last rs, last (ti_relative s))" using False l(1) by (metis last_zip length_0_conv)
      ultimately have "successively (advances profile) (zip (rs @ [e]) (ti_relative s'))"
        using l False unfolding z by (auto simp: successively_append_iff)
      moreover have "hd (ti_relative s') = 0" using assms(2) False l(1) by (cases "ti_relative s") (simp_all add: timed_def s' keep)
      ultimately show ?thesis using l(1) by (simp add: timed_def s' keep)
    qed
  qed
qed

lemma sample_steps_timed:
  "sample_steps profile sensor config es s = Inr s' \<Longrightarrow> timed profile rs s \<Longrightarrow> 0 < t_tick_ns profile \<Longrightarrow> timed profile (rs @ es) s'"
proof (induction es arbitrary: rs s)
  case Nil
  then show ?case by simp
next
  case (Cons e es)
  then obtain t where t: "sample_step profile sensor config e s = Inr t" "sample_steps profile sensor config es t = Inr s'" by (auto simp: result_simps)
  from Cons.IH [OF t(2) sample_step_timed [OF t(1) Cons.prems(2,3)] Cons.prems(3)] show ?case by simp
qed

lemma successively_zip_less:
  "length xs = length ys \<Longrightarrow> successively (advances profile) (zip xs ys) \<Longrightarrow> sorted_wrt (<) (ys :: int list)"
proof -
  assume l: "length xs = length ys" and s: "successively (advances profile) (zip xs ys)"
  have "successively (\<lambda>a b. snd a < snd b) (zip xs ys)" by (rule successively_mono [OF s]) (auto simp: advances_def)
  then have "successively (<) (map snd (zip xs ys))" by (simp add: successively_map)
  with l show ?thesis by (simp add: successively_conv_sorted_wrt)
qed

lemma build_model_Inr:
  assumes "build_model ha w source declared config events = Inr frozen"
  obtains sensor profile s path where "load_timing_profile w path (Some sensor) = Inr profile"
    "2 \<le> length (sort_key imu_order (filter (\<lambda>e. sv_category e = ''imu'') events))"
    "sample_steps profile sensor config (sort_key imu_order (filter (\<lambda>e. sv_category e = ''imu'') events)) no_timing = Inr s"
    "freeze_model ha profile sensor config (sort_key imu_order (filter (\<lambda>e. sv_category e = ''imu'') events)) s = Inr frozen"
proof -
  obtain template where d: "dsub config ''prior_template'' = Inr template" using assms by (auto simp: build_model_def result_simps)
  show thesis
  proof (cases template)
    case (PDict t)
    with assms d that show thesis by (auto simp: build_model_def result_simps Let_def)
  qed (use assms d in \<open>auto simp: build_model_def result_simps\<close>)
qed

section \<open>The clock and the selection\<close>

text \<open>Two events of a recording are as far apart after the mapping as the host's monotonic clock has them.\<close>

lemma canonicalize_intervals:
  assumes "canonicalize c e = Inr e'" "canonicalize c f = Inr f'"
  shows "sv_stamp f' - sv_stamp e' = sv_monotonic f - sv_monotonic e" "sv_original e' = Some (sv_stamp e)"
  using assms by (auto simp: canonicalize_def split: if_splits)

text \<open>Selected clouds are clouds of the recording, no two closer than the interval.\<close>

lemma select_from_spaced:
  assumes "input_interval rate = Inr gap"
  shows "select_from rate stamps previous = Inr selected \<Longrightarrow>
    set selected \<subseteq> set stamps \<and> successively (\<lambda>a b. gap \<le> b - a) (case previous of None \<Rightarrow> selected | Some p \<Rightarrow> p # selected)"
proof (induction stamps arbitrary: previous selected)
  case Nil
  then show ?case by (simp split: option.splits)
next
  case (Cons s stamps)
  show ?case
  proof (cases previous)
    case None
    with Cons.prems obtain rest where "select_from rate stamps (Some s) = Inr rest" "selected = s # rest"
      by (auto simp: result_simps split: if_splits)
    with None Cons.IH [of "Some s" rest] show ?thesis by auto
  next
    case (Some p)
    show ?thesis
    proof (cases "gap \<le> s - p")
      case True
      with Cons.prems Some assms obtain rest where "select_from rate stamps (Some s) = Inr rest" "selected = s # rest"
        by (auto simp: result_simps split: if_splits)
      with Some True Cons.IH [of "Some s" rest] show ?thesis by auto
    next
      case False
      with Cons.prems Some assms have "select_from rate stamps (Some p) = Inr selected" by (simp split: if_splits)
      with Some Cons.IH [of "Some p" selected] show ?thesis by auto
    qed
  qed
qed

section \<open>Properties\<close>

text \<open>
  C30. A frozen model changes no measurement and orders them. The rows are the inertial samples of the recording with nothing
  changed but their derived time and the hash of the model. Derived times start at the model's anchor and strictly increase; none is negative or later
  than the arrival of its sample, and at least one equals it. From a sample to the next they advance by the ticks
  of the device counter, unwrapped at most once, by no more than the host's clock and a quarter of a second.\<close>

theorem imu_time_sound:
  assumes "build_model ha w source declared config events = Inr ((model, sha), rows)"
  shows "(let rs = sort_key imu_order (filter (\<lambda>e. sv_category e = ''imu'') events) in \<exists>times profile.
      rows = map2 (\<lambda>e t. e\<lparr>sv_measurement := Some t, sv_model := Some sha\<rparr>) rs times \<and> length times = length rs \<and> 2 \<le> length rs
    \<and> sorted_wrt (<) times \<and> list_all2 (\<lambda>e t. 0 \<le> t \<and> t \<le> sv_stamp e) rs times \<and> hd times = im_anchor model \<and> (\<exists>i < length rs. times ! i = sv_stamp (rs ! i))
    \<and> successively (advances profile) (zip rs times) \<and> t_tick_ns profile = im_tick model \<and> t_sha256 profile = im_profile model)"
proof -
  define rs where "rs = sort_key imu_order (filter (\<lambda>e. sv_category e = ''imu'') events)"
  obtain sensor profile s path where b: "load_timing_profile w path (Some sensor) = Inr profile" "2 \<le> length rs"
      "sample_steps profile sensor config rs no_timing = Inr s" "freeze_model ha profile sensor config rs s = Inr ((model, sha), rows)"
    using assms by (rule build_model_Inr) (simp add: rs_def)
  have tick: "0 < t_tick_ns profile" using timing_profile_is_backed [OF b(1)] by (auto simp: profile_wf_def)
  have "timed profile [] no_timing" by (simp add: timed_def no_timing_def)
  from sample_steps_timed [OF b(3) this tick] have t: "length (ti_relative s) = length rs" "successively (advances profile) (zip rs (ti_relative s))"
      "hd (ti_relative s) = 0"
    using b(2) by (auto simp: timed_def)
  define offsets where "offsets = map (\<lambda>(e, d). sv_stamp e - d) (zip rs (ti_relative s))"
  define anchor where "anchor = Min (set offsets)"
  define times where "times = map ((+) anchor) (ti_relative s)"
  have m: "0 \<le> anchor" "im_anchor model = anchor" "im_tick model = t_tick_ns profile" "im_profile model = t_sha256 profile"
      "rows = map (\<lambda>e. e\<lparr>sv_model := Some sha\<rparr>) (derive_times anchor rs (ti_relative s))"
    using b(4) unfolding offsets_def [symmetric] anchor_def [symmetric] freeze_model_def Let_def
    by (auto simp: result_simps offsets_def [symmetric] anchor_def [symmetric])
  have shape: "rows = map2 (\<lambda>e t. e\<lparr>sv_measurement := Some t, sv_model := Some sha\<rparr>) rs times"
    by (simp add: m(5) derive_times_def times_def zip_map2 case_prod_unfold)
  have increasing: "sorted_wrt (<) times" using successively_zip_less [OF t(1) [symmetric] t(2)] by (simp add: times_def sorted_wrt_map)
  have off: "length offsets = length rs" "\<And>i. i < length rs \<Longrightarrow> offsets ! i = sv_stamp (rs ! i) - ti_relative s ! i"
    using t(1) by (simp_all add: offsets_def)
  then have least: "anchor \<le> sv_stamp (rs ! i) - ti_relative s ! i" if "i < length rs" for i
    unfolding anchor_def using that by (metis List.finite_set Min_le nth_mem)
  have rel: "sorted_wrt (<) (ti_relative s)" by (rule successively_zip_less [OF t(1) [symmetric] t(2)])
  have zero: "ti_relative s ! 0 = 0" using t(1,3) b(2) by (cases "ti_relative s") auto
  have nonneg: "0 \<le> ti_relative s ! i" if "i < length rs" for i
    using sorted_wrt_nth_less [OF rel, of 0 i] zero that t(1) by (cases i) simp_all
  have bounds: "list_all2 (\<lambda>e t. 0 \<le> t \<and> t \<le> sv_stamp e) rs times" using m(1) t(1) least nonneg
    by (force simp: list_all2_conv_all_nth times_def)
  have start: "hd times = im_anchor model" using t b(2) m(2) by (cases "ti_relative s") (auto simp: times_def)
  have "anchor \<in> set offsets" unfolding anchor_def by (rule Min_in) (use b(2) off(1) in auto)
  then obtain i where "i < length rs" "offsets ! i = anchor" using off(1) by (auto simp: in_set_conv_nth)
  then have reached: "\<exists>i < length rs. times ! i = sv_stamp (rs ! i)" using off(2) t(1) by (intro exI [of _ i]) (simp add: times_def)
  have "successively (advances profile) (zip rs times)"
  proof -
    have "successively (\<lambda>a b. advances profile (fst a, anchor + snd a) (fst b, anchor + snd b)) (zip rs (ti_relative s))"
      by (rule successively_mono [OF t(2)]) (auto simp: advances_def)
    then show ?thesis by (simp add: times_def zip_map2 successively_map case_prod_unfold)
  qed
  moreover have "length times = length rs" using t(1) by (simp add: times_def)
  ultimately show ?thesis using shape increasing bounds start reached b(2) m(3,4)
    unfolding Let_def rs_def [symmetric] by (intro exI [of _ times] exI [of _ profile] conjI) simp_all
qed

text \<open>A recording of two samples, ten milliseconds apart on the device.\<close>

definition demo_timing_world :: timing_world where
  "demo_timing_world = \<lparr>w_linked = (\<lambda>_. False), w_read = (\<lambda>p. Some [1]),
     w_json = (\<lambda>_. Some (PDict ((''required_fields'', PList [PStr sample_field, PStr dataready_field]) # example_policy))),
     w_sha256 = (\<lambda>_. replicate 64 CHR ''a'')\<rparr>"

definition demo_sample :: "int \<Rightarrow> int \<Rightarrow> int \<Rightarrow> source_event" where
  "demo_sample i stamp raw = \<lparr>sv_category = ''imu'', sv_stamp = stamp, sv_monotonic = stamp, sv_sequence = i, sv_side = [], sv_bag = [],
     sv_message = i, sv_cdr = ''c'', sv_meta = [(''sensor_id'', PStr ''H30-7''), (''session_id'', PStr ''s''), (''stream_epoch'', PStr ''e''),
       (''device_time_status'', PStr ''VALID_DEVICE_RELATIVE_TIME''), (''timing_profile_sha256'', PStr (replicate 64 CHR ''a'')),
       (''device_timestamp_unit'', PStr ''us''), (''sample_timestamp_valid'', PBool True), (''dataready_timestamp_valid'', PBool True),
       (sample_field, PInt raw), (dataready_field, PInt raw)],
     sv_original = None, sv_measurement = None, sv_model = None\<rparr>"

definition demo_timing_config :: pydict where
  "demo_timing_config = [(''offline_imu_time_mode'', PStr ''auto''), (''session_id'', PStr ''s''),
     (''prior_template'', PDict [(''imu_sensor_id'', PStr ''H30-7'')])]"

definition demo_hashes :: hashes where
  "demo_hashes = \<lparr>ha_sequence = (\<lambda>_. ''q''), ha_model = (\<lambda>_. ''m'')\<rparr>"

lemma recorded_profile:
  "\<exists>p. load_timing_profile demo_timing_world [''configuration'', ''imu_timing.json''] (Some (PStr ''H30-7'')) = Inr p
    \<and> t_tick_ns p = 1000 \<and> t_unit p = ''us'' \<and> t_policy p = ''reject'' \<and> t_max_gap p = None \<and> set (t_required p) = set counter_fields \<and> t_sha256 p = replicate 64 CHR ''a''"
proof -
  have "path_parts ''./log'' = [''log'']" by code_simp
  moreover have "sha256_text (replicate 64 CHR ''a'')" by code_simp
  moreover have "\<not> list_ex (\<lambda>_. False) xs" for xs :: "string list list" by (simp add: list_ex_iff)
  moreover have "strip ''v'' \<noteq> []" "strip ''7'' \<noteq> []" "strip ''H30-7'' \<noteq> []" by code_simp+
  ultimately show ?thesis
    by (simp add: load_timing_profile_def ordinary_def demo_timing_world_def timing_policy_def timing_checks_def example_policy_def
      required_check_def timing_entries_def Let_def dget_def sample_field_def dataready_field_def counter_fields_def int_in_def opt_int_def unhashable_def)
qed

theorem imu_time_sound_witness:
  "\<exists>model sha rows times. build_model demo_hashes demo_timing_world [] True demo_timing_config [demo_sample 2 12000000 12010, demo_sample 1 100000 10]
      = Inr ((model, sha), rows) \<and> length rows = 2
    \<and> rows = map2 (\<lambda>e t. e\<lparr>sv_measurement := Some t, sv_model := Some sha\<rparr>) [demo_sample 1 100000 10, demo_sample 2 12000000 12010] times
    \<and> sorted_wrt (<) times"
proof -
  let ?rs = "[demo_sample 1 100000 10, demo_sample 2 12000000 12010]"
  obtain p where p: "load_timing_profile demo_timing_world [''configuration'', ''imu_timing.json''] (Some (PStr ''H30-7'')) = Inr p"
      "t_tick_ns p = 1000" "t_unit p = ''us''" "t_policy p = ''reject''" "t_max_gap p = None" "set (t_required p) = set counter_fields" "t_sha256 p = replicate 64 CHR ''a''"
    using recorded_profile by blast
  have order: "sort_key imu_order (filter (\<lambda>e. sv_category e = ''imu'') [demo_sample 2 12000000 12010, demo_sample 1 100000 10]) = ?rs"
    by (simp add: demo_sample_def imu_order_def)
  have identity: "check_identity p (PStr ''H30-7'') demo_timing_config (demo_sample i t raw) = Inr ()" for i t raw
    using p by (simp add: check_identity_def demo_sample_def demo_timing_config_def require_def dget_def dsub_def Let_def sample_field_def dataready_field_def)
  obtain s where s: "sample_steps p (PStr ''H30-7'') demo_timing_config ?rs no_timing = Inr s" "ti_relative s = [0, 12000000]"
      "ti_elapsed s sample_field = 12000" "ti_elapsed s dataready_field = 12000"
    using p identity [unfolded demo_sample_def sample_field_def dataready_field_def]
    by (simp add: sample_step_def no_timing_def check_continuity_def counter_step_def require_def demo_sample_def
        dget_def valid_name_def advance_device_counter_def in_uint32_def sample_field_def dataready_field_def int_in_def forward_allowance_def Let_def)
  obtain frozen where f: "freeze_model demo_hashes p (PStr ''H30-7'') demo_timing_config ?rs s = Inr frozen"
    using p s by (simp add: freeze_model_def span_check_def require_def forward_allowance_def demo_sample_def demo_timing_config_def dsub_def Let_def)
  obtain model sha rows where frozen: "frozen = ((model, sha), rows)" by (metis prod.exhaust)
  have b: "build_model demo_hashes demo_timing_world [] True demo_timing_config [demo_sample 2 12000000 12010, demo_sample 1 100000 10] = Inr ((model, sha), rows)"
    unfolding build_model_def order Let_def
    using p s f by (simp add: frozen resolved_mode_def timing_mode_def demo_timing_config_def timing_modes_def require_def dget_or_def dget_def dsub_def)
  from imu_time_sound [OF b] obtain times where t: "rows = map2 (\<lambda>e t. e\<lparr>sv_measurement := Some t, sv_model := Some sha\<rparr>) ?rs times"
      "length times = length ?rs" "sorted_wrt (<) times"
    unfolding order Let_def by blast
  then have "length rows = 2" by simp
  with b t show ?thesis by blast
qed

end
