(* ===== verification/Spec2Isabelle.thy ===== *)
theory Spec2Isabelle
  imports Graph_Delivery Modbus_Protocol H30_Parser Device_Time Device_Bindings Serial_Feedback Journal Fusion_Core Wheel_Model Clock_Model Clock_Adapter Process_Tree Supervisor Manual_Teleop Fusion_Archive Manual_Session Storage_Policy Wheel_Tf Camera_Archive Capture_Contract Filter_Join Source_Time
begin

text \<open>
  Smartwheel: a wheelchair base with two lidars, a camera, wheel feedback over Modbus and an H30 inertial sensor, run by Python
  components around ROS 2. This library models the parts of it that decide: what may be written to a motor controller, what a
  byte stream or a frame means, which observations are admitted, paired, ordered and delivered, what is on disk when a recording is
  called complete, where data may be written, and how processes are stopped. Paths below are under \<open>src/src/\<close>.

  \<^bold>\<open>The parts and how they interact.\<close>

  \<^item> Devices. \<open>wc_motion\<close> asks the wheel controller for its registers over an exclusive serial lease, keeps a journal of every
    exchange and turns counters into odometry. \<open>wc_sensors/h30.py\<close> cuts the bytes of the inertial sensor into frames, \<open>wc_imu\<close> gives
    them device-relative times, \<open>wc_sensors/metadata.py\<close> and \<open>clock_adapter.py\<close> give every source frame its identity, sequence
    and a checked clock model. \<open>wc_runtime/device_bindings.py\<close> fixes which device is which.
  \<^item> Fusion. \<open>wc_fusion\<close> joins raw and filtered clouds, pairs two sources, gates the bundles by the pose state, archives the raw
    observation first, delivers bundles to the graph one at a time and relays registered poses with the wheel prediction.
  \<^item> Motion. \<open>wc_motion/manual_teleop.py\<close> is the keyboard session against a simulated link; \<open>manual_hardware.py\<close> is the session with
    the real controller: reviewed contract, write channel, arming, stopping.
  \<^item> Runtime. \<open>wc_runtime\<close> starts, watches and stops components, decides where data may live, archives camera frames, judges
    whether a recording covers its window, and orders a recording for replay.

  \<^bold>\<open>Common ground.\<close>

  \<^item> \<open>Prelude\<close>: a call that may raise returns \<open>exc + 'a\<close>, a class and a reason, so every raise and early return is a branch. Operations
    of an object take its state and return a result with the new state; \<open>bindm\<close>, \<open>andthen\<close>, \<open>attempt\<close> and \<open>finally\<close> sequence
    them as statements, \<open>except\<close> and \<open>finally\<close> do. \<open>run_state\<close> and \<open>run_outs\<close> run a sequence of calls. The interfaces are locales:
    \<open>preserves\<close> (every operation keeps an invariant, so every run does), \<open>fail_stop\<close> (a failed object only raises and stays
    failed) and \<open>fail_stop_strict\<close> (any exception makes it failed).
  \<^item> \<open>Py_Value\<close>: the dynamic values of JSON documents and messages, equality and order as Python has them (a boolean is a number), text
    operations, dictionaries in insertion order, and floats as IEEE binary64: \<open>round64\<close> rounds a rational to the nearest
    float, ties to even, and arithmetic is exact before one rounding.

  \<^bold>\<open>Theories, sources and what is shown.\<close>

  \<^item> \<open>Modbus_Protocol\<close> (\<open>wc_motion/protocol.py\<close>): CRC-16, requests, responses, field decoding. A parsed exchange is exactly one that
    builds the response; a changed byte breaks the checksum; the request of the client is a read and nothing else.
  \<^item> \<open>Serial_Feedback\<close>, \<open>Journal\<close> (\<open>wc_motion/feedback_transport.py\<close>): the lease (\<open>lease_open\<close>, \<open>exchange\<close>, \<open>transact\<close>), the two journals and
    the poller. Bytes sent are always the reviewed query and none follow a failure; registers returned come from a complete
    response of that slave; a closed journal holds every accepted record in order, each queued within bounds before it is
    written. The journals share the locale \<open>journal\<close>, interpreted for \<open>SyncJournal\<close> (\<open>sync\<close>) and \<open>AsyncJournal\<close> (\<open>async\<close>); the
    asynchronous one is a step relation of caller and writer thread, and liveness is stated as a reachable end of its close.
  \<^item> \<open>Wheel_Model\<close> (\<open>wc_motion/model.py\<close>): counters, speeds and the unicycle step in binary64. The wrapped difference is the least
    one congruent to the subtraction; an estimator that has failed stays blocked (interpretation \<open>wheel\<close>); estimates are in order.
  \<^item> \<open>H30_Parser\<close> (\<open>wc_sensors/h30.py\<close>): header search, resynchronisation, checksum, fields. The result does not depend on how
    the bytes are cut into chunks; every byte is in a frame, counted as discarded or in the bounded buffer (\<open>h30\<close>); encoded frames
    come back; no measured field is invented.
  \<^item> \<open>Device_Time\<close> (\<open>wc_imu/device_time.py\<close>): profiles with their evidence and the guarded 32-bit counter. Elapsed ticks are the
    sum of the advances, congruent to the counters; a discontinuity is final (\<open>dt\<close>); a profile is accepted only with its evidence.
  \<^item> \<open>Source_Time\<close> (\<open>wc_runtime/source_time.py\<close>, \<open>offline_imu_time.py\<close>): replay order, cloud selection and the frozen model of inertial
    times, over the counters of \<open>Device_Time\<close>. Derived times increase and never exceed arrival.
  \<^item> \<open>Clock_Model\<close>, \<open>Clock_Adapter\<close> (\<open>wc_sensors/metadata.py\<close>, \<open>clock_adapter.py\<close>): conversion in integers, epochs and sequence numbers of
    source frames, application of a clock model to a frame, which changes its time fields and nothing else.
  \<^item> \<open>Device_Bindings\<close> (\<open>wc_runtime/device_bindings.py\<close>): device names confined to \<open>/dev\<close>, bindings without a shared device.
  \<^item> \<open>Fusion_Core\<close> (\<open>wc_fusion/core.py\<close>): policies, \<open>DualFusion\<close> (queues, pairing, compensation, latching) and the gate that holds
    bundles until a pose is trusted. A bundle pairs two fresh, validated frames within the policy's limits; queues and memory are
    bounded (\<open>dual\<close>); a rejection latches until an explicit resume (\<open>live\<close>); the gate's output is ordered (\<open>gate\<close>).
  \<^item> \<open>Filter_Join\<close> (\<open>wc_fusion/source_join.py\<close>): a raw cloud and its filtered counterpart are one frame, paired once and in time.
  \<^item> \<open>Fusion_Archive\<close> (\<open>wc_fusion/archive.py\<close>): the commit of one file on a disk with volatile and synced state, and the archive's bounded
    worker. A file that is visible under its name is complete, and synced when the commit returns; entries are released in
    submission order and none after a failure (\<open>durable\<close>).
  \<^item> \<open>Graph_Delivery\<close> (\<open>wc_fusion/graph_delivery.py\<close>): the queue to the graph refines a list: what is acknowledged is a prefix of
    what was submitted (\<open>gd_keeps\<close>, \<open>gd_latch\<close>).
  \<^item> \<open>Wheel_Tf\<close> (\<open>wc_fusion/wheel_prior.py\<close>, \<open>wheel_tf.py\<close>): wheel observations, one guess in flight, the relayed pose. Relayed poses
    are, in order, those of the registrations that were accepted; a blocked bridge stays blocked (\<open>bridge\<close>).
  \<^item> \<open>Manual_Teleop\<close> (\<open>wc_motion/manual_teleop.py\<close>): the dead man's switch. Motion needs arming, a stop follows stale keys (\<open>teleop\<close>).
  \<^item> \<open>Manual_Contract\<close>, \<open>Manual_Channel\<close>, \<open>Manual_Session\<close> (\<open>wc_motion/manual_hardware.py\<close>): the reviewed contract as typed limits, the
    channel that admits a write, and the session of arming, commands, ticks and stop. Every frame on the wire is a read, a stop or
    a velocity within the contract while armed; a stop ends observed stationary or in a fault with a best-effort stop tried.
  \<^item> \<open>Process_Tree\<close>, \<open>Supervisor\<close> (\<open>wc_runtime/component.py\<close>, \<open>supervisor.py\<close>): the processes below a wrapper, and the shutdown of a
    session. The walk over \<open>/proc\<close> finds exactly the descendants; the search for an ancestor returns; signals escalate in order and
    only where a process remains.
  \<^item> \<open>Storage_Paths\<close>, \<open>Storage_Policy\<close> (\<open>wc_runtime/capture_destination.py\<close>, \<open>storage_directory.py\<close>, \<open>storage_policy.py\<close>, \<open>storage_atomic.py\<close>):
    destinations pinned to a mount and directory (\<open>pinned\<close>, \<open>destination\<close>), paths that resolve below the permitted root, logical
    references that resolve back.
  \<^item> \<open>Camera_Archive\<close> (\<open>wc_runtime/source_archive.py\<close>, \<open>CameraArchive\<close> and the reader of frames): caller, writer thread and files.
    When the summary says \<open>COMPLETE\<close> the index lists the accepted frames and each reads back byte for byte.
  \<^item> \<open>Capture_Contract\<close> (\<open>wc_runtime/capture_contract.py\<close>): readiness markers, the stop window and its coverage by the journals.

  \<^bold>\<open>Parameters.\<close> Code outside the repository is an argument of the definitions that use it: numpy geometry and the point cloud operations
  (\<open>numeric\<close>, \<open>tf_numeric\<close>), sine and cosine (\<open>tr\<close>), JSON, SHA-256, zlib, file contents and links (\<open>timing_world\<close>, \<open>hashes\<close>,
  \<open>fileview\<close>, \<open>frame_dir\<close>), the outcome of every system call (\<open>commit_io\<close>, \<open>wd_io\<close>, the outcome lists of the journals), clocks (times
  are arguments of the calls that read them) and \<open>/proc\<close> (\<open>proc_fs\<close>, read again at every scan). Hypotheses on them are
  named where a theorem has them, and each such theorem has a witness with concrete functions.

  \<^bold>\<open>Loops and bounds.\<close> Loops over data are structural or have a measure: the length of the buffer for the byte parsers, what is left of the
  snapshot for the process walk, the queued frames for pairing. The search for an ancestor in \<open>Process_Tree\<close> reads a table that may be
  inconsistent, so it is a partial function into \<open>option\<close>; \<open>belongs_to_returns\<close> shows that it always gives a value. The loop that waits
  for a stationary controller runs against a clock: \<open>wd_turns\<close> is the number of turns the deadline allows, given by the outside, and
  running out of turns is the code's own timeout. The main loops of the keyboard sessions and of the supervisor run over the
  list of what happens in each turn, of any length. Bytes and CRC registers are words of their width; sums that the code takes modulo
  \<open>2 ^ 32\<close> are written out on integers.

  \<^bold>\<open>Not modelled.\<close> ROS nodes and launch files, which convert and forward messages; the Qt panel and the web pages; numpy and scipy
  calibration, map building and the mapping filters, whose substance is array arithmetic outside the language; the recorders of bags and
  their audits, which run external programs over files; command lines, jobs and reports; the C++ sources. In modelled modules: the
  opening of real serial ports and terminals, locks with \<open>flock\<close>, the start of child processes and the streaming of their output,
  \<open>build_capture_contract\<close>, the source journal of \<open>source_archive.py\<close>, \<open>validate_model\<close> and the functions that copy a frozen timing
  model into messages, and \<open>repr\<close> texts of error messages where nothing reads them. The motion history that pairing may ask for a prediction
  is fixed during a run of the front end. Threads are interleaved at the granularity of the
  operations on shared state, which the code performs under a lock or on a queue.
\<close>

end
